(* ===== verification/Prelude.thy ===== *)
theory Prelude
  imports Main "HOL-Library.Word" "HOL-Library.AList" "HOL-Library.Char_ord"
    "HOL-Library.List_Lexorder" "HOL-Library.Product_Lexorder" "HOL-Library.Multiset" "HOL-Library.Code_Target_Nat"
begin

text \<open>
  Shared vocabulary of the development: bytes and strings, the finite maps of Go as
  association lists in iteration order, results of fallible operations, and the generic
  lemmas on lists, maps and words the components use.
\<close>

unbundle bit_operations_syntax

section \<open>Bytes and strings\<close>

text \<open>
  A Go \<open>byte\<close> is an 8-bit word. A Go \<open>string\<close> is a sequence of bytes and an
  Isabelle \<open>char\<close> has 8 bits, so a Go string is an Isabelle \<open>string\<close>, one \<open>char\<close>
  per byte, and \<open>len\<close> is \<open>length\<close>.
\<close>

type_synonym byte = "8 word"
type_synonym bytes = "byte list"
type_synonym u16 = "16 word"
type_synonym u32 = "32 word"
type_synonym u64 = "64 word"

definition chr_code :: "char \<Rightarrow> nat" where
  "chr_code c = of_char c"

definition byte_of_char :: "char \<Rightarrow> byte" where
  "byte_of_char c = of_nat (of_char c)"

definition char_of_byte :: "byte \<Rightarrow> char" where
  "char_of_byte b = char_of (unat b)"

text \<open>The conversions \<open>[]byte(s)\<close> and \<open>string(b)\<close>.\<close>

definition bytes_of_string :: "string \<Rightarrow> bytes" where
  "bytes_of_string s = map byte_of_char s"

definition string_of_bytes :: "bytes \<Rightarrow> string" where
  "string_of_bytes bs = map char_of_byte bs"

lemma chr_code_lt [simp]: "chr_code c < 256"
proof -
  have "of_char c mod 256 = (of_char c :: nat)" by (rule of_char_mod_256)
  then have "(of_char c :: nat) < 256" by (metis mod_less_divisor zero_less_numeral)
  then show ?thesis by (simp add: chr_code_def)
qed

lemma unat_byte_lt [simp]: "unat (b :: byte) < 256"
proof -
  have "unat b < 2 ^ LENGTH(8)" by (rule unsigned_less)
  then show ?thesis by simp
qed

lemma unat_u16_lt [simp]: "unat (x :: u16) < 65536"
proof -
  have "unat x < 2 ^ LENGTH(16)" by (rule unsigned_less)
  then show ?thesis by simp
qed

lemma char_of_byte_of_char [simp]: "char_of_byte (byte_of_char c) = c"
proof -
  have "unat (byte_of_char c) = of_char c"
    using chr_code_lt [of c] by (simp add: byte_of_char_def chr_code_def unat_of_nat)
  then show ?thesis by (simp add: char_of_byte_def)
qed

lemma byte_of_char_of_byte [simp]: "byte_of_char (char_of_byte b) = b"
proof -
  have "unat b < 256" by simp
  then show ?thesis by (simp add: byte_of_char_def char_of_byte_def of_char_of)
qed

lemma unat_byte_of_char [simp]: "unat (byte_of_char c) = chr_code c"
  using chr_code_lt [of c] by (simp add: byte_of_char_def chr_code_def unat_of_nat)

lemma chr_code_char_of_byte [simp]: "chr_code (char_of_byte b) = unat b"
  by (metis byte_of_char_of_byte unat_byte_of_char)

lemma string_of_bytes_of_string [simp]: "string_of_bytes (bytes_of_string s) = s"
  by (simp add: string_of_bytes_def bytes_of_string_def comp_def)

lemma bytes_of_string_of_bytes [simp]: "bytes_of_string (string_of_bytes b) = b"
  by (simp add: string_of_bytes_def bytes_of_string_def comp_def)

lemma length_bytes_of_string [simp]: "length (bytes_of_string s) = length s"
  by (simp add: bytes_of_string_def)

lemma length_string_of_bytes [simp]: "length (string_of_bytes b) = length b"
  by (simp add: string_of_bytes_def)

lemma bytes_of_string_append [simp]:
  "bytes_of_string (s @ t) = bytes_of_string s @ bytes_of_string t"
  by (simp add: bytes_of_string_def)

lemma string_of_bytes_append [simp]:
  "string_of_bytes (s @ t) = string_of_bytes s @ string_of_bytes t"
  by (simp add: string_of_bytes_def)

lemma bytes_of_string_inject [simp]: "bytes_of_string s = bytes_of_string t \<longleftrightarrow> s = t"
  by (metis string_of_bytes_of_string)

lemma string_of_bytes_inject [simp]: "string_of_bytes s = string_of_bytes t \<longleftrightarrow> s = t"
  by (metis bytes_of_string_of_bytes)

lemma chr_code_inject [simp]: "chr_code c = chr_code d \<longleftrightarrow> c = d"
  unfolding chr_code_def by (metis char_of_char)

lemma bytes_of_string_Nil [simp]: "bytes_of_string [] = []"
  by (simp add: bytes_of_string_def)

lemma bytes_of_string_eq_Nil [simp]: "bytes_of_string s = [] \<longleftrightarrow> s = []"
  by (simp add: bytes_of_string_def)

lemma string_of_bytes_Nil [simp]: "string_of_bytes [] = []"
  by (simp add: string_of_bytes_def)

section \<open>Big-endian 16-bit fields\<close>

text \<open>\<open>binary.BigEndian.PutUint16\<close> and \<open>Uint16\<close>.\<close>

definition be16 :: "u16 \<Rightarrow> bytes" where
  "be16 x = [ucast (drop_bit 8 x), ucast x]"

definition be16_val :: "byte \<Rightarrow> byte \<Rightarrow> u16" where
  "be16_val hi lo = push_bit 8 (ucast hi) + ucast lo"

lemma length_be16 [simp]: "length (be16 x) = 2"
  by (simp add: be16_def)

lemma unat_of_nat_u16: "n < 65536 \<Longrightarrow> unat (of_nat n :: u16) = n"
  by (simp add: unat_of_nat)

lemma unat_be16_val: "unat (be16_val hi lo) = 256 * unat hi + unat lo"
proof -
  have h: "unat hi < 256" "unat lo < 256"
    by simp_all
  have m: "unat hi mod 65536 = unat hi" "256 * unat hi mod 65536 = 256 * unat hi"
    by (rule mod_less, use h(1) in linarith)+
  have "unat (push_bit 8 (ucast hi :: u16)) = 256 * unat hi"
    by (simp add: push_bit_eq_mult unat_word_ariths unsigned_ucast_eq take_bit_eq_mod m
        mult.commute [of _ 256] del: mod_less)
  moreover have "unat lo mod 65536 = unat lo"
    and "(256 * unat hi + unat lo) mod 65536 = 256 * unat hi + unat lo"
    by (rule mod_less, use h in linarith)+
  ultimately show ?thesis
    by (simp only: be16_val_def unat_word_ariths unsigned_ucast_eq take_bit_eq_mod) simp
qed

lemma split_u16: "n < 65536 \<Longrightarrow> 256 * (n div 256 mod 256) + n mod 256 = (n :: nat)"
proof -
  assume "n < 65536"
  then have "n div 256 < 256" by (simp add: less_mult_imp_div_less)
  then show ?thesis by simp
qed

lemma be16_val_be16: "be16_val (ucast (drop_bit 8 x)) (ucast x) = (x :: u16)"
proof -
  have "256 * (unat x div 256 mod 256) + unat x mod 256 = unat x"
    by (rule split_u16) simp
  then have "unat (be16_val (ucast (drop_bit 8 x)) (ucast x)) = unat x"
    by (simp add: unat_be16_val unsigned_ucast_eq take_bit_eq_mod drop_bit_eq_div unat_div_distrib)
  then show ?thesis by (simp add: word_unat_eq_iff)
qed

lemma be16_be16_val: "be16 (be16_val hi lo) = [hi, lo]"
proof -
  have h: "unat hi < 256" "unat lo < 256"
    by simp_all
  have "unat (ucast (drop_bit 8 (be16_val hi lo)) :: byte) = unat hi"
    using h by (simp add: unat_be16_val unsigned_ucast_eq take_bit_eq_mod drop_bit_eq_div unat_div_distrib)
  moreover have "unat (ucast (be16_val hi lo) :: byte) = unat lo"
    using h by (simp add: unat_be16_val unsigned_ucast_eq take_bit_eq_mod)
  ultimately show ?thesis by (simp add: be16_def word_unat_eq_iff)
qed

section \<open>Go maps\<close>

text \<open>
  A Go map is an association list with distinct keys. The order of the list is the order
  in which a \<open>range\<close> loop visits the entries, which Go leaves open: a property of a
  loop over a map is stated for every order. \<open>m[k]\<close> is \<open>map_of m k\<close>,
  \<open>m[k] = v\<close> is \<open>AList.update k v m\<close>, \<open>delete(m, k)\<close> is \<open>AList.delete k m\<close> and
  \<open>len(m)\<close> is \<open>length m\<close>.
\<close>

type_synonym ('k, 'v) gomap = "('k \<times> 'v) list"

definition gomap_ok :: "('k, 'v) gomap \<Rightarrow> bool" where
  "gomap_ok m \<longleftrightarrow> distinct (map fst m)"

lemma gomap_ok_Nil [simp]: "gomap_ok []"
  by (simp add: gomap_ok_def)

lemma gomap_ok_Cons [simp]: "gomap_ok ((k, v) # m) \<longleftrightarrow> k \<notin> fst ` set m \<and> gomap_ok m"
  by (simp add: gomap_ok_def)

lemma gomap_ok_update [simp]: "gomap_ok m \<Longrightarrow> gomap_ok (AList.update k v m)"
  by (simp add: gomap_ok_def distinct_update)

lemma gomap_ok_delete [simp]: "gomap_ok m \<Longrightarrow> gomap_ok (AList.delete k m)"
  by (simp add: gomap_ok_def distinct_delete)

lemma gomap_ok_filter [simp]: "gomap_ok m \<Longrightarrow> gomap_ok (filter P m)"
  by (simp add: gomap_ok_def distinct_map_filter)

lemma gomap_lookup_iff: "gomap_ok m \<Longrightarrow> map_of m k = Some v \<longleftrightarrow> (k, v) \<in> set m"
  by (simp add: gomap_ok_def)

lemma gomap_perm_lookup:
  assumes "gomap_ok m" and "mset m = mset n"
  shows "map_of m = map_of n"
  using assms map_of_inject_set [of m n]
  by (metis gomap_ok_def mset_map mset_eq_imp_distinct_iff set_mset_mset)

lemma update_fresh: "k \<notin> fst ` set m \<Longrightarrow> AList.update k v m = m @ [(k, v)]"
  by (induction m) auto

lemma length_update_le: "length (AList.update k v m) \<le> Suc (length m)"
  by (induction m) auto

lemma length_update_mem:
  "map_of m k \<noteq> None \<Longrightarrow> length (AList.update k v m) = length m"
  by (induction m) auto

lemma length_delete_le': "length (AList.delete k m) \<le> length m"
  by (rule length_delete_le)

text \<open>A loop of assignments \<open>m[k] = v\<close>: the last value of a key wins.\<close>

definition gomap_assign :: "('k, 'v) gomap \<Rightarrow> ('k \<times> 'v) list \<Rightarrow> ('k, 'v) gomap" where
  "gomap_assign m xs = foldl (\<lambda>m (k, v). AList.update k v m) m xs"

lemma gomap_assign_lookup: "map_of (gomap_assign m xs) = map_of m ++ map_of (rev xs)"
proof (induction xs rule: rev_induct)
  case Nil
  then show ?case by (simp add: gomap_assign_def)
next
  case (snoc x xs)
  then show ?case
    by (cases x) (simp add: gomap_assign_def update_conv' map_add_def fun_eq_iff)
qed

lemma gomap_assign_ok [simp]: "gomap_ok m \<Longrightarrow> gomap_ok (gomap_assign m xs)"
  by (induction xs arbitrary: m) (auto simp: gomap_assign_def)

lemma gomap_assign_length: "length (gomap_assign m xs) \<le> length m + length xs"
proof (induction xs arbitrary: m)
  case Nil
  then show ?case by (simp add: gomap_assign_def)
next
  case (Cons x xs)
  obtain k v where x: "x = (k, v)" by (cases x)
  have "length (gomap_assign (AList.update k v m) xs) \<le> length (AList.update k v m) + length xs"
    by (rule Cons.IH)
  also have "\<dots> \<le> Suc (length m) + length xs" using length_update_le [of k v m] by simp
  finally show ?case by (simp add: gomap_assign_def x)
qed

lemma map_of_rev_distinct: "distinct (map fst xs) \<Longrightarrow> map_of (rev xs) = map_of xs"
  by (metis distinct_rev map_of_eqI map_of_inject_set rev_map set_rev)

section \<open>Results\<close>

text \<open>
  A fallible operation returns \<open>Inl err\<close> or \<open>Inr result\<close>. \<open>try_bind\<close> is the Go idiom
  \<open>x, err := f(); if err != nil { return err }\<close>.
\<close>

definition try_bind :: "'e + 'a \<Rightarrow> ('a \<Rightarrow> 'e + 'b) \<Rightarrow> 'e + 'b" where
  "try_bind r f = (case r of Inl e \<Rightarrow> Inl e | Inr x \<Rightarrow> f x)"

lemma try_bind_simps [simp]:
  "try_bind (Inl e) f = Inl e"
  "try_bind (Inr x) f = f x"
  by (simp_all add: try_bind_def)

lemma try_bind_eq_Inr [simp]:
  "try_bind r f = Inr y \<longleftrightarrow> (\<exists>x. r = Inr x \<and> f x = Inr y)"
  by (cases r) auto

lemma try_bind_eq_Inl:
  "try_bind r f = Inl e \<longleftrightarrow> r = Inl e \<or> (\<exists>x. r = Inr x \<and> f x = Inl e)"
  by (cases r) auto

definition is_ok :: "'e + 'a \<Rightarrow> bool" where
  "is_ok r = (case r of Inl _ \<Rightarrow> False | Inr _ \<Rightarrow> True)"

lemma is_ok_simps [simp]: "\<not> is_ok (Inl e)" "is_ok (Inr x)"
  by (simp_all add: is_ok_def)

lemma is_ok_iff: "is_ok r \<longleftrightarrow> (\<exists>x. r = Inr x)"
  by (cases r) auto

section \<open>Sorting\<close>

text \<open>
  A list sorted by a key that is injective on it is determined by its elements: sorting two
  permutations of one list gives the same list.
\<close>

lemma sort_key_perm_eq:
  fixes f :: "'a \<Rightarrow> 'b :: linorder"
  assumes "mset xs = mset ys" and "inj_on f (set xs)"
  shows "sort_key f xs = sort_key f ys"
proof (rule properties_for_sort_key)
  show "mset (sort_key f ys) = mset xs" using assms(1) by simp
next
  fix k
  assume k: "k \<in> set (sort_key f ys)"
  have set_eq: "set xs = set ys" using assms(1) by (metis set_mset_mset)
  have single: "filter (\<lambda>x. f k = f x) zs = replicate (count (mset zs) k) k"
    if "set zs \<subseteq> set xs" for zs
    using that
  proof (induction zs)
    case Nil
    then show ?case by simp
  next
    case (Cons z zs)
    then show ?case
      using k assms(2) set_eq by (auto simp: inj_on_def)
  qed
  show "filter (\<lambda>x. f k = f x) (sort_key f ys) = filter (\<lambda>x. f k = f x) xs"
    using single [of xs] single [of "sort_key f ys"] set_eq assms(1) by simp
next
  show "sorted (map f (sort_key f ys))" by simp
qed

end
