(* ===== verification/GoLib.thy ===== *)
theory GoLib
  imports Prelude
begin

text \<open>
  The parts of the Go language and standard library the program rests on: error values and
  \<open>errors.Is\<close>, instants and durations, decimal numbers, UTF-8, \<open>strings\<close>, and
  \<open>encoding/base64\<close>.
\<close>

section \<open>Error values\<close>

text \<open>
  A sentinel error (a package variable made by \<open>errors.New\<close>) is \<open>Sent\<close> of the variable's
  qualified name; each component declares its own. \<open>Wrap\<close> is \<open>fmt.Errorf\<close> with a \<open>%w\<close>
  verb (the text is the fixed part of the format), \<open>New\<close> is an anonymous \<open>errors.New\<close> or
  a \<open>fmt.Errorf\<close> without \<open>%w\<close>, \<open>Join\<close> is \<open>errors.Join\<close>.
\<close>

datatype go_error =
    Sent string
  | New string
  | Wrap string go_error
  | Join go_error go_error

text \<open>\<open>errors.Is(err, target)\<close> for a sentinel target.\<close>

fun errors_is :: "go_error \<Rightarrow> go_error \<Rightarrow> bool" where
  "errors_is (Sent s) t = (Sent s = t)"
| "errors_is (New s) t = False"
| "errors_is (Wrap _ e) t = errors_is e t"
| "errors_is (Join a b) t = (errors_is a t \<or> errors_is b t)"

abbreviation EOF :: go_error where "EOF \<equiv> Sent ''io.EOF''"
abbreviation ErrUnexpectedEOF :: go_error where "ErrUnexpectedEOF \<equiv> Sent ''io.ErrUnexpectedEOF''"
abbreviation ErrNoProgress :: go_error where "ErrNoProgress \<equiv> Sent ''io.ErrNoProgress''"
abbreviation ErrShortWrite :: go_error where "ErrShortWrite \<equiv> Sent ''io.ErrShortWrite''"
abbreviation ErrShortBuffer :: go_error where "ErrShortBuffer \<equiv> Sent ''io.ErrShortBuffer''"
abbreviation ErrNetClosed :: go_error where "ErrNetClosed \<equiv> Sent ''net.ErrClosed''"
abbreviation ErrClosedPipe :: go_error where "ErrClosedPipe \<equiv> Sent ''io.ErrClosedPipe''"
abbreviation ContextCanceled :: go_error where "ContextCanceled \<equiv> Sent ''context.Canceled''"
abbreviation ContextDeadlineExceeded :: go_error where
  "ContextDeadlineExceeded \<equiv> Sent ''context.DeadlineExceeded''"

section \<open>Time\<close>

text \<open>
  A \<open>time.Time\<close> is an instant: nanoseconds since the zero \<open>time.Time\<close> (1 January of
  year 1, UTC). \<open>UTC()\<close> changes the presentation of an instant only. \<open>Before\<close>,
  \<open>After\<close>, \<open>Equal\<close> and \<open>Add\<close> are the arithmetic of instants; \<open>Sub\<close> saturates
  at the ends of \<open>int64\<close>. A \<open>time.Duration\<close> is a number of nanoseconds.
\<close>

type_synonym gotime = int
type_synonym duration = int

abbreviation millisecond :: duration where "millisecond \<equiv> 1000000"
abbreviation second :: duration where "second \<equiv> 1000000000"
abbreviation minute :: duration where "minute \<equiv> 60000000000"
abbreviation hour :: duration where "hour \<equiv> 3600000000000"

definition time_zero :: gotime where
  "time_zero = 0"

definition time_sub :: "gotime \<Rightarrow> gotime \<Rightarrow> duration" where
  "time_sub t u = max (- (2 ^ 63)) (min (2 ^ 63 - 1) (t - u))"

section \<open>Decimal numbers\<close>

definition digit_char :: "nat \<Rightarrow> char" where
  "digit_char d = char_of (48 + d)"

fun dec :: "nat \<Rightarrow> string" where
  "dec n = (if n < 10 then [digit_char n] else dec (n div 10) @ [digit_char (n mod 10)])"

declare dec.simps [simp del]

definition is_digit :: "char \<Rightarrow> bool" where
  "is_digit c \<longleftrightarrow> 48 \<le> chr_code c \<and> chr_code c \<le> 57"

definition digits_val :: "string \<Rightarrow> nat" where
  "digits_val s = foldl (\<lambda>n c. n * 10 + (chr_code c - 48)) 0 s"

text \<open>\<open>strconv.ParseUint(s, 10, 16)\<close>: \<open>None\<close> on a syntax or range error.\<close>

definition parse_uint16 :: "string \<Rightarrow> nat option" where
  "parse_uint16 s =
     (if s = [] \<or> \<not> list_all is_digit s then None
      else if digits_val s > 65535 then None else Some (digits_val s))"

lemma chr_code_digit_char [simp]: "d < 10 \<Longrightarrow> chr_code (digit_char d) = 48 + d"
  by (simp add: chr_code_def digit_char_def of_char_of)

lemma dec_digits: "list_all is_digit (dec n)"
proof (induction n rule: dec.induct)
  case (1 n)
  have d: "is_digit (digit_char k)" if "k < 10" for k
    using that by (simp add: is_digit_def)
  with "1" show ?case by (subst dec.simps) simp
qed

lemma dec_nonempty [simp]: "dec n \<noteq> []"
  by (subst dec.simps) auto

lemma digits_val_append [simp]:
  "digits_val (s @ [c]) = digits_val s * 10 + (chr_code c - 48)"
  by (simp add: digits_val_def)

lemma digits_val_dec [simp]: "digits_val (dec n) = n"
proof (induction n rule: dec.induct)
  case (1 n)
  show ?case
  proof (cases "n < 10")
    case True
    then show ?thesis by (subst dec.simps) (simp add: digits_val_def)
  next
    case False
    with "1" have "digits_val (dec (n div 10)) = n div 10" by blast
    with False show ?thesis by (subst dec.simps) simp
  qed
qed

lemma parse_uint16_dec: "n \<le> 65535 \<Longrightarrow> parse_uint16 (dec n) = Some n"
  by (simp add: parse_uint16_def dec_digits)

lemma parse_uint16_bound: "parse_uint16 s = Some n \<Longrightarrow> n \<le> 65535"
  by (auto simp: parse_uint16_def split: if_splits)

lemma dec_inject [simp]: "dec m = dec n \<longleftrightarrow> m = n"
  by (metis digits_val_dec)

lemma dec_no_char: "\<not> is_digit c \<Longrightarrow> c \<notin> set (dec n)"
  using dec_digits [of n] by (auto simp: list_all_iff)

section \<open>UTF-8\<close>

definition utf8_cont :: "nat \<Rightarrow> bool" where
  "utf8_cont b \<longleftrightarrow> 128 \<le> b \<and> b \<le> 191"

text \<open>
  The length in bytes of the well-formed UTF-8 sequence a string starts with, 0 when it
  starts with none (the table of \<open>unicode/utf8\<close>: no overlong forms, no surrogates, nothing
  above U+10FFFF).
\<close>

definition rune_size :: "string \<Rightarrow> nat" where
  "rune_size s =
     (case map chr_code (take 4 s) of
        [] \<Rightarrow> 0
      | b0 # r \<Rightarrow>
          if b0 < 128 then 1
          else (case r of
             [] \<Rightarrow> 0
           | b1 # r1 \<Rightarrow>
               if 194 \<le> b0 \<and> b0 \<le> 223 then (if utf8_cont b1 then 2 else 0)
               else (case r1 of
                  [] \<Rightarrow> 0
                | b2 # r2 \<Rightarrow>
                    if b0 = 224 then (if 160 \<le> b1 \<and> b1 \<le> 191 \<and> utf8_cont b2 then 3 else 0)
                    else if b0 = 237 then (if 128 \<le> b1 \<and> b1 \<le> 159 \<and> utf8_cont b2 then 3 else 0)
                    else if 225 \<le> b0 \<and> b0 \<le> 239 then (if utf8_cont b1 \<and> utf8_cont b2 then 3 else 0)
                    else (case r2 of
                       [] \<Rightarrow> 0
                     | b3 # _ \<Rightarrow>
                         if b0 = 240 then
                           (if 144 \<le> b1 \<and> b1 \<le> 191 \<and> utf8_cont b2 \<and> utf8_cont b3 then 4 else 0)
                         else if 241 \<le> b0 \<and> b0 \<le> 243 then
                           (if utf8_cont b1 \<and> utf8_cont b2 \<and> utf8_cont b3 then 4 else 0)
                         else if b0 = 244 then
                           (if 128 \<le> b1 \<and> b1 \<le> 143 \<and> utf8_cont b2 \<and> utf8_cont b3 then 4 else 0)
                         else 0))))"

function utf8_valid :: "string \<Rightarrow> bool" where
  "utf8_valid s =
     (if s = [] then True
      else if rune_size s = 0 then False
      else utf8_valid (drop (rune_size s) s))"
  by pat_completeness auto
termination
  by (relation "measure length") auto

declare utf8_valid.simps [simp del]

text \<open>The first element of \<open>[]rune(s)\<close>, encoded again: U+FFFD where the bytes are malformed.\<close>

definition first_rune :: "string \<Rightarrow> string" where
  "first_rune s =
     (if rune_size s = 0 then [CHR 0xEF, CHR 0xBF, CHR 0xBD] else take (rune_size s) s)"

lemma utf8_valid_ascii: "list_all (\<lambda>c. chr_code c < 128) s \<Longrightarrow> utf8_valid s"
proof (induction s)
  case Nil
  show ?case by (subst utf8_valid.simps) simp
next
  case (Cons c s)
  have "rune_size (c # s) = 1" using Cons.prems by (simp add: rune_size_def)
  with Cons show ?case by (subst utf8_valid.simps) simp
qed

section \<open>Strings\<close>

definition has_prefix :: "string \<Rightarrow> string \<Rightarrow> bool" where
  "has_prefix p s \<longleftrightarrow> take (length p) s = p"

definition has_suffix :: "string \<Rightarrow> string \<Rightarrow> bool" where
  "has_suffix p s \<longleftrightarrow> length p \<le> length s \<and> drop (length s - length p) s = p"

definition trim_suffix :: "string \<Rightarrow> string \<Rightarrow> string" where
  "trim_suffix p s = (if has_suffix p s then take (length s - length p) s else s)"

definition nul :: char where
  "nul = CHR 0x00"

text \<open>\<open>strings.Split\<close> with a one-byte separator.\<close>

fun split_on :: "char \<Rightarrow> string \<Rightarrow> string list" where
  "split_on c [] = [[]]"
| "split_on c (x # xs) =
     (if x = c then [] # split_on c xs
      else (case split_on c xs of [] \<Rightarrow> [[x]] | w # ws \<Rightarrow> (x # w) # ws))"

lemma split_on_nonempty [simp]: "split_on c s \<noteq> []"
  by (induction s) (auto split: list.splits)

lemma split_on_no_sep: "c \<notin> set s \<Longrightarrow> split_on c s = [s]"
  by (induction s) auto

lemma split_on_append: "c \<notin> set s \<Longrightarrow> split_on c (s @ c # t) = s # split_on c t"
  by (induction s) auto

fun join_on :: "char \<Rightarrow> string list \<Rightarrow> string" where
  "join_on c [] = []"
| "join_on c [w] = w"
| "join_on c (w # ws) = w @ c # join_on c ws"

lemma join_split: "join_on c (split_on c s) = s"
proof (induction s)
  case Nil
  then show ?case by simp
next
  case (Cons x xs)
  obtain w ws where w: "split_on c xs = w # ws"
    by (metis list.exhaust split_on_nonempty)
  with Cons show ?case by (cases ws) auto
qed

lemma split_on_no_char: "w \<in> set (split_on c s) \<Longrightarrow> c \<notin> set w"
proof (induction s arbitrary: w)
  case Nil
  then show ?case by simp
next
  case (Cons x xs)
  obtain v vs where v: "split_on c xs = v # vs"
    by (metis list.exhaust split_on_nonempty)
  with Cons show ?case by (auto split: if_splits)
qed

text \<open>\<open>strings.TrimSpace\<close>: the UTF-8 encodings of the runes \<open>unicode.IsSpace\<close> accepts.\<close>

definition space_runes :: "string list" where
  "space_runes =
     [[CHR 0x09], [CHR 0x0A], [CHR 0x0B], [CHR 0x0C], [CHR 0x0D], [CHR 0x20],
      [CHR 0xC2, CHR 0x85], [CHR 0xC2, CHR 0xA0], [CHR 0xE1, CHR 0x9A, CHR 0x80],
      [CHR 0xE2, CHR 0x80, CHR 0x80], [CHR 0xE2, CHR 0x80, CHR 0x81],
      [CHR 0xE2, CHR 0x80, CHR 0x82], [CHR 0xE2, CHR 0x80, CHR 0x83],
      [CHR 0xE2, CHR 0x80, CHR 0x84], [CHR 0xE2, CHR 0x80, CHR 0x85],
      [CHR 0xE2, CHR 0x80, CHR 0x86], [CHR 0xE2, CHR 0x80, CHR 0x87],
      [CHR 0xE2, CHR 0x80, CHR 0x88], [CHR 0xE2, CHR 0x80, CHR 0x89],
      [CHR 0xE2, CHR 0x80, CHR 0x8A], [CHR 0xE2, CHR 0x80, CHR 0xA8],
      [CHR 0xE2, CHR 0x80, CHR 0xA9], [CHR 0xE2, CHR 0x80, CHR 0xAF],
      [CHR 0xE2, CHR 0x81, CHR 0x9F], [CHR 0xE3, CHR 0x80, CHR 0x80]]"

function trim_prefixes :: "string list \<Rightarrow> string \<Rightarrow> string" where
  "trim_prefixes ws s =
     (case find (\<lambda>w. w \<noteq> [] \<and> has_prefix w s) ws of
        None \<Rightarrow> s
      | Some w \<Rightarrow> trim_prefixes ws (drop (length w) s))"
  by pat_completeness auto
termination
proof (relation "measure (\<lambda>(ws, s). length s)")
  fix ws s w
  assume "find (\<lambda>w. w \<noteq> [] \<and> has_prefix w s) ws = Some w"
  then have w: "w \<noteq> []" "take (length w) s = w"
    by (auto simp: find_Some_iff has_prefix_def)
  then have "s \<noteq> []" by auto
  with w show "((ws, drop (length w) s), (ws, s)) \<in> measure (\<lambda>(ws, s). length s)"
    by simp
qed simp

declare trim_prefixes.simps [simp del]

definition trim_space :: "string \<Rightarrow> string" where
  "trim_space s =
     rev (trim_prefixes (map rev space_runes) (rev (trim_prefixes space_runes s)))"

text \<open>
  \<open>strings.EqualFold(s, t)\<close> for an ASCII \<open>t\<close>: ASCII letters match in both cases, and
  simple folding also maps U+017F to \<open>s\<close> and U+212A to \<open>k\<close>.
\<close>

definition ascii_lower :: "char \<Rightarrow> char" where
  "ascii_lower c = (if 65 \<le> chr_code c \<and> chr_code c \<le> 90 then char_of (chr_code c + 32) else c)"

definition ascii_upper :: "char \<Rightarrow> char" where
  "ascii_upper c = (if 97 \<le> chr_code c \<and> chr_code c \<le> 122 then char_of (chr_code c - 32) else c)"

fun equal_fold :: "string \<Rightarrow> string \<Rightarrow> bool" where
  "equal_fold s [] = (s = [])"
| "equal_fold s (c # cs) =
     (case s of
        [] \<Rightarrow> False
      | x # xs \<Rightarrow>
          if ascii_lower x = ascii_lower c then equal_fold xs cs
          else if ascii_lower c = CHR ''s'' \<and> has_prefix [CHR 0xC5, CHR 0xBF] s
            then equal_fold (drop 2 s) cs
          else if ascii_lower c = CHR ''k'' \<and> has_prefix [CHR 0xE2, CHR 0x84, CHR 0xAA] s
            then equal_fold (drop 3 s) cs
          else False)"

lemma equal_fold_nonempty: "equal_fold s (c # cs) \<Longrightarrow> s \<noteq> []"
  by auto

lemma chr_code_ascii_lower:
  "chr_code (ascii_lower c) =
     (if 65 \<le> chr_code c \<and> chr_code c \<le> 90 then chr_code c + 32 else chr_code c)"
proof (cases "65 \<le> chr_code c \<and> chr_code c \<le> 90")
  case True
  then have "(chr_code c + 32) mod 256 = chr_code c + 32" by (intro mod_less) linarith
  with True show ?thesis by (simp add: ascii_lower_def chr_code_def of_char_of)
qed (auto simp: ascii_lower_def)

lemma chr_code_ascii_upper:
  "chr_code (ascii_upper c) =
     (if 97 \<le> chr_code c \<and> chr_code c \<le> 122 then chr_code c - 32 else chr_code c)"
proof (cases "97 \<le> chr_code c \<and> chr_code c \<le> 122")
  case True
  then have "(chr_code c - 32) mod 256 = chr_code c - 32" by (intro mod_less) linarith
  with True show ?thesis by (simp add: ascii_upper_def chr_code_def of_char_of)
qed (auto simp: ascii_upper_def)

lemma ascii_lower_idem [simp]: "ascii_lower (ascii_lower c) = ascii_lower c"
  by (subst chr_code_inject [symmetric]) (auto simp: chr_code_ascii_lower)

lemma ascii_upper_idem [simp]: "ascii_upper (ascii_upper c) = ascii_upper c"
  by (subst chr_code_inject [symmetric]) (auto simp: chr_code_ascii_upper)

end
