(* ===== verification/GoEncoding.thy ===== *)
theory GoEncoding
  imports GoLib
begin

text \<open>
  \<open>encoding/base64\<close> (standard padded and raw URL encodings) and byte streams read with
  \<open>io.ReadFull\<close>.
\<close>

section \<open>Base64\<close>

definition b64_std :: string where
  "b64_std = ''ABCDEFGHIJKLMNOPQRSTUVWXYZabcdefghijklmnopqrstuvwxyz0123456789+/''"

definition b64_url :: string where
  "b64_url = ''ABCDEFGHIJKLMNOPQRSTUVWXYZabcdefghijklmnopqrstuvwxyz0123456789-_''"

text \<open>The position of a character in an alphabet of 64 characters.\<close>

definition b64_val :: "string \<Rightarrow> char \<Rightarrow> nat option" where
  "b64_val al c =
     (let i = length (takeWhile (\<lambda>x. x \<noteq> c) al) in if i < length al then Some i else None)"

definition b64_alphabet :: "string \<Rightarrow> bool" where
  "b64_alphabet al \<longleftrightarrow> length al = 64 \<and> distinct al \<and> CHR 0x0A \<notin> set al \<and> CHR 0x0D \<notin> set al
     \<and> CHR ''='' \<notin> set al"

fun b64_groups :: "nat list \<Rightarrow> nat list" where
  "b64_groups [] = []"
| "b64_groups [a] = [a div 4, (a mod 4) * 16]"
| "b64_groups [a, b] = [a div 4, (a mod 4) * 16 + b div 16, (b mod 16) * 4]"
| "b64_groups (a # b # c # r) =
     a div 4 # ((a mod 4) * 16 + b div 16) # ((b mod 16) * 4 + c div 64) # c mod 64
       # b64_groups r"

fun b64_ungroup :: "nat list \<Rightarrow> nat list option" where
  "b64_ungroup [] = Some []"
| "b64_ungroup [p] = None"
| "b64_ungroup [p, q] = Some [p * 4 + q div 16]"
| "b64_ungroup [p, q, r] = Some [p * 4 + q div 16, (q mod 16) * 16 + r div 4]"
| "b64_ungroup (p # q # r # s # t) =
     map_option (\<lambda>xs. (p * 4 + q div 16) # ((q mod 16) * 16 + r div 4) # ((r mod 4) * 64 + s) # xs)
       (b64_ungroup t)"

text \<open>\<open>RawURLEncoding.EncodeToString\<close> and, with the standard alphabet, its padded form.\<close>

definition b64_raw_encode :: "string \<Rightarrow> bytes \<Rightarrow> string" where
  "b64_raw_encode al bs = map (\<lambda>n. al ! n) (b64_groups (map unat bs))"

definition raw_url_encode :: "bytes \<Rightarrow> string" where
  "raw_url_encode bs = b64_raw_encode b64_url bs"

definition std_encode :: "bytes \<Rightarrow> string" where
  "std_encode bs = b64_raw_encode b64_std bs @ replicate ((3 - length bs mod 3) mod 3) (CHR ''='')"

text \<open>
  Decoding skips carriage returns and line feeds and, as the decoders of the source are not
  strict, ignores the unused bits of the last character.
\<close>

definition b64_body :: "string \<Rightarrow> string \<Rightarrow> bytes option" where
  "b64_body al f =
     (if list_all (\<lambda>c. b64_val al c \<noteq> None) f
      then map_option (map of_nat) (b64_ungroup (map (\<lambda>c. the (b64_val al c)) f))
      else None)"

definition strip_newlines :: "string \<Rightarrow> string" where
  "strip_newlines s = filter (\<lambda>c. c \<noteq> CHR 0x0A \<and> c \<noteq> CHR 0x0D) s"

definition raw_url_decode :: "string \<Rightarrow> bytes option" where
  "raw_url_decode s = b64_body b64_url (strip_newlines s)"

definition std_decode :: "string \<Rightarrow> bytes option" where
  "std_decode s =
     (let f = strip_newlines s in
      if length f mod 4 \<noteq> 0 then None
      else b64_body b64_std (trim_suffix ''='' (trim_suffix ''='' f)))"

lemma b64_alphabet_std [simp]: "b64_alphabet b64_std"
  by (simp add: b64_alphabet_def b64_std_def)

lemma b64_alphabet_url [simp]: "b64_alphabet b64_url"
  by (simp add: b64_alphabet_def b64_url_def)

lemma length_takeWhile_nth:
  "distinct xs \<Longrightarrow> i < length xs \<Longrightarrow> length (takeWhile (\<lambda>x. x \<noteq> xs ! i) xs) = i"
proof (induction xs arbitrary: i)
  case Nil
  then show ?case by simp
next
  case (Cons x xs)
  then show ?case by (cases i) auto
qed

lemma b64_val_nth:
  "b64_alphabet al \<Longrightarrow> n < 64 \<Longrightarrow> b64_val al (al ! n) = Some n"
  by (simp add: b64_val_def b64_alphabet_def length_takeWhile_nth)

lemma b64_groups_lt:
  "\<forall>x \<in> set xs. x < 256 \<Longrightarrow> \<forall>y \<in> set (b64_groups xs). y < 64"
proof (induction xs rule: b64_groups.induct)
  case (4 a b c r)
  then have "a div 4 < 64" "b div 16 < 16" "c div 64 < 4" by auto
  moreover have "a mod 4 < 4" "b mod 16 < 16" "c mod 64 < 64" by simp_all
  ultimately show ?case using "4" by auto
qed auto

lemma b64_ungroup_groups:
  "\<forall>x \<in> set xs. x < 256 \<Longrightarrow> b64_ungroup (b64_groups xs) = Some xs"
proof (induction xs rule: b64_groups.induct)
  case (3 a b)
  then have "b div 16 < 16" by auto
  then show ?case by simp
next
  case (4 a b c r)
  then have "b div 16 < 16" "c div 64 < 4" by auto
  with "4" show ?case by simp
qed auto

lemma length_b64_groups: "length (b64_groups xs) = (length xs * 8 + 5) div 6"
  by (induction xs rule: b64_groups.induct) auto

lemma length_raw_url_encode [simp]: "length (raw_url_encode bs) = (length bs * 8 + 5) div 6"
  by (simp add: raw_url_encode_def b64_raw_encode_def length_b64_groups)

lemma b64_raw_encode_alphabet:
  assumes "b64_alphabet al"
  shows "set (b64_raw_encode al bs) \<subseteq> set al"
proof -
  have "\<forall>y \<in> set (b64_groups (map unat bs)). y < 64"
    by (rule b64_groups_lt) simp
  with assms show ?thesis by (auto simp: b64_raw_encode_def b64_alphabet_def)
qed

lemma b64_body_raw_encode:
  assumes "b64_alphabet al"
  shows "b64_body al (b64_raw_encode al bs) = Some bs"
proof -
  let ?g = "b64_groups (map unat bs)"
  have lt: "\<forall>y \<in> set ?g. y < 64" by (rule b64_groups_lt) simp
  have "map (\<lambda>c. the (b64_val al c)) (map (\<lambda>n. al ! n) ?g) = ?g"
    using lt assms by (auto simp: comp_def b64_val_nth intro!: map_idI)
  moreover have "list_all (\<lambda>c. b64_val al c \<noteq> None) (map (\<lambda>n. al ! n) ?g)"
    using lt assms by (auto simp: list_all_iff b64_val_nth)
  moreover have "b64_ungroup ?g = Some (map unat bs)"
    by (rule b64_ungroup_groups) simp
  ultimately show ?thesis
    by (simp add: b64_body_def b64_raw_encode_def comp_def)
qed

lemma strip_newlines_raw_encode:
  assumes "b64_alphabet al"
  shows "strip_newlines (b64_raw_encode al bs) = b64_raw_encode al bs"
  using b64_raw_encode_alphabet [OF assms, of bs] assms
  by (auto simp: strip_newlines_def b64_alphabet_def intro!: filter_True)

lemma raw_url_decode_encode [simp]: "raw_url_decode (raw_url_encode bs) = Some bs"
  by (simp add: raw_url_decode_def raw_url_encode_def strip_newlines_raw_encode
      b64_body_raw_encode)

lemma trim_suffix_snoc: "trim_suffix [c] (s @ [c]) = s"
  by (simp add: trim_suffix_def has_suffix_def)

lemma trim_suffix_other: "c \<notin> set s \<Longrightarrow> trim_suffix [c] s = s"
proof (cases s rule: rev_cases)
  case (snoc t x)
  then show "c \<notin> set s \<Longrightarrow> trim_suffix [c] s = s"
    by (auto simp: trim_suffix_def has_suffix_def)
qed (simp add: trim_suffix_def has_suffix_def)

lemma trim_suffix_pair: "trim_suffix ''='' (trim_suffix ''='' (e @ ''=='')) = e"
  using trim_suffix_snoc [of "CHR ''=''" "e @ ''=''"] trim_suffix_snoc [of "CHR ''=''" e] by simp

lemma enc_len:
  "((3 * q) * 8 + 5) div 6 = (4 * q :: nat)"
  "((3 * q + 1) * 8 + 5) div 6 = (4 * q + 2 :: nat)"
  "((3 * q + 2) * 8 + 5) div 6 = (4 * q + 3 :: nat)"
  by (rule div_nat_eqI; simp)+

lemma pad_len:
  "(3 - (3 * q) mod 3) mod 3 = (0 :: nat)"
  "(3 - (3 * q + 1) mod 3) mod 3 = (2 :: nat)"
  "(3 - (3 * q + 2) mod 3) mod 3 = (1 :: nat)"
  by (simp_all only: mod_mult_self4 mod_mult_self1_is_0) simp_all

lemma std_decode_eq:
  assumes "strip_newlines s = s" and "length s mod 4 = 0"
    and "trim_suffix ''='' (trim_suffix ''='' s) = e" and "b64_body b64_std e = Some bs"
  shows "std_decode s = Some bs"
  using assms by (simp only: std_decode_def Let_def) simp

lemma std_decode_encode [simp]: "std_decode (std_encode bs) = Some bs"
proof -
  define e where "e = b64_raw_encode b64_std bs"
  have no: "CHR ''='' \<notin> set e"
    using b64_raw_encode_alphabet [of b64_std bs] b64_alphabet_std
    by (auto simp: b64_alphabet_def e_def)
  have len: "length e = (length bs * 8 + 5) div 6"
    by (simp add: b64_raw_encode_def length_b64_groups e_def)
  have strip: "strip_newlines (std_encode bs) = std_encode bs"
    using strip_newlines_raw_encode [of b64_std bs]
    by (simp add: strip_newlines_def std_encode_def)
  have body: "b64_body b64_std e = Some bs" by (simp add: b64_body_raw_encode e_def)
  have enc: "std_encode bs = e @ replicate ((3 - length bs mod 3) mod 3) (CHR ''='')"
    by (simp add: std_encode_def e_def)
  have trim: "trim_suffix ''='' e = e" using no by (rule trim_suffix_other)
  obtain q r where q: "length bs = 3 * q + r" and r: "r < 3"
    by (metis div_mult_mod_eq mod_less_divisor mult.commute zero_less_numeral)
  consider "length bs = 3 * q" | "length bs = 3 * q + 1" | "length bs = 3 * q + 2"
    using q r by linarith
  then show ?thesis
  proof cases
    case 1
    have e: "std_encode bs = e" by (simp only: enc 1 pad_len) simp
    have "length e = 4 * q" by (simp only: len 1 enc_len)
    then show ?thesis using strip e trim body by (intro std_decode_eq [of _ e]) simp_all
  next
    case 2
    have e: "std_encode bs = e @ ''==''" by (simp only: enc 2 pad_len) (simp add: numeral_2_eq_2)
    have "length e = 4 * q + 2" by (simp only: len 2 enc_len)
    then show ?thesis using strip e body
      by (intro std_decode_eq [of _ e]) (simp_all add: trim_suffix_pair)
  next
    case 3
    have e: "std_encode bs = e @ ''=''" by (simp only: enc 3 pad_len) simp
    have "length e = 4 * q + 3" by (simp only: len 3 enc_len)
    then show ?thesis using strip e trim body
      by (intro std_decode_eq [of _ e]) (simp_all add: trim_suffix_snoc)
  qed
qed

section \<open>Byte streams\<close>

text \<open>
  What is left to read from a connection: the bytes that will arrive and the error that
  every read after them returns. \<open>io.ReadFull\<close> reads exactly \<open>n\<close> bytes whatever the
  sizes of the chunks they arrive in; when the stream ends first it returns the stream's
  error, or \<open>io.ErrUnexpectedEOF\<close> for an \<open>io.EOF\<close> after some bytes.
\<close>

record stream =
  st_data :: bytes
  st_err :: go_error

definition read_full :: "nat \<Rightarrow> stream \<Rightarrow> (go_error + bytes) \<times> stream" where
  "read_full n st =
     (if n \<le> length (st_data st)
      then (Inr (take n (st_data st)), st\<lparr>st_data := drop n (st_data st)\<rparr>)
      else (Inl (if st_err st = EOF \<and> st_data st \<noteq> [] then ErrUnexpectedEOF else st_err st),
            st\<lparr>st_data := []\<rparr>))"

text \<open>Sequencing of reads: the first error ends the sequence.\<close>

definition rd_bind ::
  "(go_error + 'a) \<times> stream \<Rightarrow> ('a \<Rightarrow> stream \<Rightarrow> (go_error + 'b) \<times> stream) \<Rightarrow> (go_error + 'b) \<times> stream"
where
  "rd_bind r f = (case r of (Inl e, st) \<Rightarrow> (Inl e, st) | (Inr x, st) \<Rightarrow> f x st)"

definition rd_wrap :: "string \<Rightarrow> go_error \<Rightarrow> (go_error + 'a) \<times> stream \<Rightarrow> (go_error + 'a) \<times> stream" where
  "rd_wrap msg e r = (case r of (Inl _, st) \<Rightarrow> (Inl (Wrap msg e), st) | (Inr x, st) \<Rightarrow> (Inr x, st))"

lemma rd_bind_simps [simp]:
  "rd_bind (Inl e, st) f = (Inl e, st)"
  "rd_bind (Inr x, st) f = f x st"
  by (simp_all add: rd_bind_def)

lemma rd_wrap_simps [simp]:
  "rd_wrap msg e (Inl e', st) = (Inl (Wrap msg e), st)"
  "rd_wrap msg e (Inr x, st) = (Inr x, st)"
  by (simp_all add: rd_wrap_def)

lemma rd_bind_eq_Inr:
  "rd_bind r f = (Inr y, st') \<longleftrightarrow> (\<exists>x st. r = (Inr x, st) \<and> f x st = (Inr y, st'))"
  by (cases r; cases "fst r") auto

lemma rd_wrap_eq_Inr [simp]: "rd_wrap msg e r = (Inr y, st') \<longleftrightarrow> r = (Inr y, st')"
  by (cases r; cases "fst r") auto

lemma read_full_append [simp]:
  "length xs = n \<Longrightarrow> read_full n \<lparr>st_data = xs @ ys, st_err = e\<rparr> =
     (Inr xs, \<lparr>st_data = ys, st_err = e\<rparr>)"
  by (simp add: read_full_def)

lemma read_full_InrD:
  "read_full n st = (Inr xs, st') \<Longrightarrow>
     length xs = n \<and> st_data st = xs @ st_data st' \<and> st_err st' = st_err st"
  by (auto simp: read_full_def split: if_splits)

end
