(* ===== verification/Wifiin_Cipher.thy ===== *)
theory Wifiin_Cipher
  imports GoEncoding
begin

text \<open>
  \<open>internal/kuaifan/wifiin/cipher.go\<close>: the AES-256-CFB contexts of a tunnel direction and the
  key derivation. The block cipher (\<open>aes.NewCipher(key).Encrypt\<close>) and MD5 are parameters: no
  property uses more of them than the lengths of their outputs.
\<close>

section \<open>CFB contexts\<close>

text \<open>
  The state of \<open>cipher.NewCFBEncrypter\<close> and \<open>cipher.NewCFBDecrypter\<close>: the block cipher under its
  key, the feedback register, the current key stream block, and how much of it is used.
\<close>

record cfb =
  cfb_key :: bytes
  cfb_next :: bytes
  cfb_out :: bytes
  cfb_used :: nat
  cfb_decrypt :: bool

definition KeySize :: nat where "KeySize = 32"
definition IVSize :: nat where "IVSize = 16"

abbreviation ErrInvalidKey :: go_error where
  "ErrInvalidKey \<equiv> Sent ''wifiin: AES-256 key must be 32 bytes''"
abbreviation ErrInvalidIV :: go_error where
  "ErrInvalidIV \<equiv> Sent ''wifiin: AES-CFB IV must be 16 bytes''"

definition cfb_refill :: "(bytes \<Rightarrow> bytes \<Rightarrow> bytes) \<Rightarrow> cfb \<Rightarrow> cfb" where
  "cfb_refill blk s =
     (if cfb_used s = length (cfb_out s)
      then s\<lparr>cfb_out := blk (cfb_key s) (cfb_next s), cfb_used := 0\<rparr> else s)"

definition cfb_step :: "(bytes \<Rightarrow> bytes \<Rightarrow> bytes) \<Rightarrow> cfb \<Rightarrow> byte \<Rightarrow> byte \<times> cfb" where
  "cfb_step blk s x =
     (let s' = cfb_refill blk s;
          y = x XOR cfb_out s' ! cfb_used s'
      in (y, s'\<lparr>cfb_next := (cfb_next s')[cfb_used s' := (if cfb_decrypt s' then x else y)],
               cfb_used := cfb_used s' + 1\<rparr>))"

fun XORKeyStream :: "(bytes \<Rightarrow> bytes \<Rightarrow> bytes) \<Rightarrow> cfb \<Rightarrow> bytes \<Rightarrow> bytes \<times> cfb" where
  "XORKeyStream blk s [] = ([], s)"
| "XORKeyStream blk s (x # xs) =
     (let (y, s') = cfb_step blk s x; (ys, s'') = XORKeyStream blk s' xs in (y # ys, s''))"

definition newCFB :: "bytes \<Rightarrow> bytes \<Rightarrow> bool \<Rightarrow> cfb" where
  "newCFB key iv decrypt =
     \<lparr>cfb_key = key, cfb_next = iv, cfb_out = replicate IVSize 0, cfb_used = IVSize,
      cfb_decrypt = decrypt\<rparr>"

definition newBlock :: "bytes \<Rightarrow> go_error + bytes" where
  "newBlock key =
     (if length key \<noteq> KeySize
      then Inl (Wrap (''wifiin: AES-256 key must be 32 bytes: got '' @ dec (length key)) ErrInvalidKey)
      else Inr key)"

definition NewEncrypter :: "bytes \<Rightarrow> bytes \<Rightarrow> go_error + cfb" where
  "NewEncrypter key iv =
     try_bind (newBlock key) (\<lambda>block.
       if length iv \<noteq> IVSize then Inl ErrInvalidIV else Inr (newCFB block iv False))"

definition NewDecrypter :: "bytes \<Rightarrow> bytes \<Rightarrow> go_error + cfb" where
  "NewDecrypter key iv =
     try_bind (newBlock key) (\<lambda>block.
       if length iv \<noteq> IVSize then Inl ErrInvalidIV else Inr (newCFB block iv True))"

section \<open>Lemmas on CFB\<close>

lemma XORKeyStream_append:
  "XORKeyStream blk s (xs @ ys) =
     (let (us, s') = XORKeyStream blk s xs; (vs, s'') = XORKeyStream blk s' ys in (us @ vs, s''))"
  by (induction xs arbitrary: s) (auto simp: Let_def split: prod.splits)

lemma length_XORKeyStream: "XORKeyStream blk s xs = (ys, s') \<Longrightarrow> length ys = length xs"
  by (induction xs arbitrary: s ys s') (auto simp: Let_def split: prod.splits)

text \<open>Two contexts are in step when one decrypts what the other encrypts.\<close>

definition cfb_mirror :: "cfb \<Rightarrow> cfb \<Rightarrow> bool" where
  "cfb_mirror e d \<longleftrightarrow> \<not> cfb_decrypt e \<and> cfb_decrypt d \<and> d = e\<lparr>cfb_decrypt := True\<rparr>"

lemma cfb_mirror_new: "cfb_mirror (newCFB key iv False) (newCFB key iv True)"
  by (simp add: cfb_mirror_def newCFB_def)

lemma cfb_step_mirror:
  assumes "cfb_mirror e d" and "cfb_step blk e x = (y, e')"
  shows "\<exists>d'. cfb_step blk d y = (x, d') \<and> cfb_mirror e' d'"
proof -
  have [simp]: "(a XOR b) XOR b = a" for a b :: byte
    by (simp add: xor.assoc)
  from assms show ?thesis
    by (auto simp: cfb_mirror_def cfb_step_def cfb_refill_def Let_def)
qed

lemma XORKeyStream_mirror:
  "cfb_mirror e d \<Longrightarrow> XORKeyStream blk e xs = (ys, e') \<Longrightarrow>
   \<exists>d'. XORKeyStream blk d ys = (xs, d') \<and> cfb_mirror e' d'"
proof (induction xs arbitrary: e d ys e')
  case Nil
  then show ?case by auto
next
  case (Cons x xs)
  obtain y e1 where e1: "cfb_step blk e x = (y, e1)" by (metis surj_pair)
  obtain zs e2 where e2: "XORKeyStream blk e1 xs = (zs, e2)" by (metis surj_pair)
  have eq: "ys = y # zs" "e' = e2" using Cons.prems(2) e1 e2 by auto
  obtain d1 where d1: "cfb_step blk d y = (x, d1)" and m1: "cfb_mirror e1 d1"
    using cfb_step_mirror [OF Cons.prems(1) e1] by blast
  obtain d2 where "XORKeyStream blk d1 zs = (xs, d2)" and "cfb_mirror e2 d2"
    using Cons.IH [OF m1 e2] by blast
  then show ?case using d1 eq by auto
qed

lemma newBlock_Inr: "newBlock key = Inr k \<longleftrightarrow> k = key \<and> length key = 32"
  by (auto simp: newBlock_def KeySize_def)

lemma NewEncrypter_Inr:
  "NewEncrypter key iv = Inr s \<longleftrightarrow> length key = 32 \<and> length iv = 16 \<and> s = newCFB key iv False"
  by (auto simp: NewEncrypter_def newBlock_Inr IVSize_def)

lemma NewDecrypter_Inr:
  "NewDecrypter key iv = Inr s \<longleftrightarrow> length key = 32 \<and> length iv = 16 \<and> s = newCFB key iv True"
  by (auto simp: NewDecrypter_def newBlock_Inr IVSize_def)

text \<open>
  A stream is encrypted by several writes and decrypted by several reads: the context is passed
  from one chunk to the next.
\<close>

fun crypt_chunks :: "(bytes \<Rightarrow> bytes \<Rightarrow> bytes) \<Rightarrow> cfb \<Rightarrow> bytes list \<Rightarrow> bytes \<times> cfb" where
  "crypt_chunks blk s [] = ([], s)"
| "crypt_chunks blk s (w # ws) =
     (let (c, s') = XORKeyStream blk s w; (cs, s'') = crypt_chunks blk s' ws in (c @ cs, s''))"

lemma crypt_chunks_concat: "crypt_chunks blk s ws = XORKeyStream blk s (concat ws)"
  by (induction ws arbitrary: s) (auto simp: XORKeyStream_append Let_def split: prod.splits)

text \<open>
  C13: A tunnel direction is a faithful channel for every block cipher, key and IV. Whatever
  bytes the sender passes to its encrypting context, in however many writes, the receiver's
  decrypting context recovers from their ciphertext, however the transport splits it, and the
  ciphertext has the length of the plaintext.
\<close>

theorem cfb_channel:
  assumes "NewEncrypter key iv = Inr e" and "NewDecrypter key iv = Inr d"
    and "crypt_chunks blk e writes = (c, e')" and "concat reads = c"
  shows "length c = length (concat writes)
    \<and> (\<exists>d'. crypt_chunks blk d reads = (concat writes, d') \<and> cfb_mirror e' d')"
proof -
  have "cfb_mirror e d"
    using assms(1,2) by (auto simp: NewEncrypter_Inr NewDecrypter_Inr cfb_mirror_new)
  with assms(3,4) show ?thesis
    by (simp add: crypt_chunks_concat XORKeyStream_mirror length_XORKeyStream)
qed

definition demo_block :: "bytes \<Rightarrow> bytes \<Rightarrow> bytes" where
  "demo_block key b = map (\<lambda>x. x XOR 0x5A) b"

lemma cfb_channel_witness:
  "crypt_chunks demo_block (newCFB (replicate 32 1) (replicate 16 2) True) [[0x59], [0x5A, 0x5B]]
     = (concat [[1, 2], [3]], snd (crypt_chunks demo_block
         (newCFB (replicate 32 1) (replicate 16 2) True) [[0x59], [0x5A, 0x5B]]))"
proof -
  let ?key = "replicate 32 1 :: bytes" and ?iv = "replicate 16 2 :: bytes"
  have e: "NewEncrypter ?key ?iv = Inr (newCFB ?key ?iv False)" by (simp add: NewEncrypter_Inr)
  have d: "NewDecrypter ?key ?iv = Inr (newCFB ?key ?iv True)" by (simp add: NewDecrypter_Inr)
  have c: "crypt_chunks demo_block (newCFB ?key ?iv False) [[1, 2], [3]]
     = ([0x59, 0x5A, 0x5B],
        snd (crypt_chunks demo_block (newCFB ?key ?iv False) [[1, 2], [3]]))"
    by code_simp
  show ?thesis
    using cfb_channel [OF e d c, of "[[0x59], [0x5A, 0x5B]]"] by auto
qed

section \<open>DeriveKey\<close>

text \<open>
  The loop appends digests until 32 bytes are filled. Whether it ends depends on the digest, so
  a run that does not return is \<open>None\<close>.
\<close>

partial_function (option) derive_loop ::
  "(bytes \<Rightarrow> bytes) \<Rightarrow> bytes \<Rightarrow> bytes \<Rightarrow> bytes \<Rightarrow> bytes option"
where
  "derive_loop md5 pw previous key =
     (if length key < KeySize
      then (let digest = md5 (previous @ pw)
            in derive_loop md5 pw digest (key @ take (KeySize - length key) digest))
      else Some key)"

declare derive_loop.simps [code]

definition DeriveKey :: "(bytes \<Rightarrow> bytes) \<Rightarrow> string \<Rightarrow> bytes option" where
  "DeriveKey md5 password = derive_loop md5 (bytes_of_string password) [] []"

text \<open>
  Key derivation returns, for every 16-byte digest function: the key is the first digest
  followed by the digest of the first digest and the password (the two-block \<open>EVP_BytesToKey\<close>
  chain), and it is 32 bytes long, the length \<open>NewEncrypter\<close> requires.
\<close>

theorem DeriveKey_chain:
  assumes digest: "\<And>xs. length (md5 xs) = 16"
  shows "\<exists>key. DeriveKey md5 password = Some key
    \<and> key = (let d = md5 (bytes_of_string password) in d @ md5 (d @ bytes_of_string password))
    \<and> length key = KeySize"
  by (simp add: DeriveKey_def derive_loop.simps KeySize_def digest Let_def)

lemma DeriveKey_chain_witness:
  "DeriveKey (\<lambda>xs. replicate 16 (of_nat (length xs))) ''ab''
     = Some (replicate 16 2 @ replicate 16 18)"
  using DeriveKey_chain [of "\<lambda>xs. replicate 16 (of_nat (length xs))" "''ab''"]
  by (simp add: bytes_of_string_def Let_def)

end
