(* ===== verification/Wifiin_TCP.thy ===== *)
theory Wifiin_TCP
  imports Wifiin_Cipher
begin

text \<open>
  \<open>internal/kuaifan/wifiin/tcp.go\<close>: the provider extension, the initial packet of a tunnel,
  and the reader of the server's acknowledgement and IV.
\<close>

section \<open>Provider extension\<close>

definition OuterType :: byte where "OuterType = 0x03"
definition UOTOuterType :: byte where "UOTOuterType = 0x23"
definition maxTargetHostBytes :: nat where "maxTargetHostBytes = 255"
definition maxProviderFieldBytes :: nat where "maxProviderFieldBytes = 4096"
definition maxProviderExtensionBytes :: nat where
  "maxProviderExtensionBytes = 3 * maxProviderFieldBytes + 128"

abbreviation ErrInvalidTarget :: go_error where
  "ErrInvalidTarget \<equiv> Sent ''wifiin: invalid target''"
abbreviation ErrInvalidProviderData :: go_error where
  "ErrInvalidProviderData \<equiv> Sent ''wifiin: invalid provider extension field''"
abbreviation ErrInvalidACK :: go_error where
  "ErrInvalidACK \<equiv> Sent ''wifiin: server acknowledgement is not 00 00 00''"
abbreviation ErrTruncatedACK :: go_error where
  "ErrTruncatedACK \<equiv> Sent ''wifiin: truncated server acknowledgement''"

definition field_char :: "char \<Rightarrow> bool" where
  "field_char value \<longleftrightarrow>
     \<not> (chr_code value < 0x21 \<or> chr_code value > 0x7e \<or> value = CHR ''|'')"

definition validProviderField :: "string \<Rightarrow> bool" where
  "validProviderField field \<longleftrightarrow>
     \<not> (length field = 0 \<or> length field > maxProviderFieldBytes) \<and> list_all field_char field"

definition validASCIIHost :: "string \<Rightarrow> bool" where
  "validASCIIHost host \<longleftrightarrow>
     \<not> (length host = 0 \<or> length host > maxTargetHostBytes) \<and> list_all field_char host"

definition providerExtensionIdentity :: "string \<Rightarrow> (string \<times> string \<times> string) option" where
  "providerExtensionIdentity profile =
     (if profile = ''ios'' then Some (''cc.fancast.major'', ''MAC'', ''1.0.46'')
      else if profile = ''windows'' then Some (''com.wifiin.sdk.invpn.win'', ''WINDOWS'', ''4.3.30'')
      else None)"

definition ProviderExtensionForProfile ::
  "string \<Rightarrow> string \<Rightarrow> string \<Rightarrow> string \<Rightarrow> go_error + string"
where
  "ProviderExtensionForProfile profile providerToken orderID userID =
     (if \<not> list_all validProviderField [providerToken, orderID, userID]
      then Inl ErrInvalidProviderData
      else case providerExtensionIdentity profile of
             None \<Rightarrow> Inl ErrInvalidProviderData
           | Some (product, osName, version) \<Rightarrow>
               Inr (''|'' @ providerToken @ ''|'' @ product @ ''|'' @ orderID @ ''|'' @ userID
                    @ ''|'' @ osName @ ''|'' @ version))"

definition ProviderExtension :: "string \<Rightarrow> string \<Rightarrow> string \<Rightarrow> go_error + string" where
  "ProviderExtension providerToken orderID userID =
     ProviderExtensionForProfile ''ios'' providerToken orderID userID"

definition ValidProviderExtensionForProfile :: "string \<Rightarrow> string \<Rightarrow> bool" where
  "ValidProviderExtensionForProfile profile extra =
     (if length extra = 0 \<or> length extra > maxProviderExtensionBytes then False
      else case providerExtensionIdentity profile of
             None \<Rightarrow> False
           | Some (product, osName, version) \<Rightarrow>
               let parts = split_on (CHR ''|'') extra in
               if length parts \<noteq> 7 \<or> parts ! 0 \<noteq> [] \<or> parts ! 2 \<noteq> product \<or> parts ! 5 \<noteq> osName
                  \<or> parts ! 6 \<noteq> version
               then False
               else validProviderField (parts ! 1) \<and> validProviderField (parts ! 3)
                    \<and> validProviderField (parts ! 4))"

definition ValidProviderExtension :: "string \<Rightarrow> bool" where
  "ValidProviderExtension extra \<longleftrightarrow>
     ValidProviderExtensionForProfile ''ios'' extra \<or> ValidProviderExtensionForProfile ''windows'' extra"

lemma validProviderField_no_bar: "validProviderField f \<Longrightarrow> CHR ''|'' \<notin> set f"
  by (auto simp: validProviderField_def field_char_def list_all_iff)

lemma identity_no_bar:
  "providerExtensionIdentity p = Some (a, b, c) \<Longrightarrow>
   CHR ''|'' \<notin> set a \<and> CHR ''|'' \<notin> set b \<and> CHR ''|'' \<notin> set c
   \<and> length a \<le> 24 \<and> length b \<le> 7 \<and> length c \<le> 6"
  by (auto simp: providerExtensionIdentity_def split: if_splits)

lemma split_extension:
  assumes "CHR ''|'' \<notin> set t" "CHR ''|'' \<notin> set a" "CHR ''|'' \<notin> set u" "CHR ''|'' \<notin> set w"
    "CHR ''|'' \<notin> set b" "CHR ''|'' \<notin> set c"
  shows "split_on (CHR ''|'') (''|'' @ t @ ''|'' @ a @ ''|'' @ u @ ''|'' @ w @ ''|'' @ b @ ''|'' @ c)
    = [[], t, a, u, w, b, c]"
  using assms by (simp add: split_on_append split_on_no_sep)

lemma length_7_list:
  "length xs = 7 \<Longrightarrow> xs = [xs ! 0, xs ! 1, xs ! 2, xs ! 3, xs ! 4, xs ! 5, xs ! 6]"
  by (simp add: numeral_eq_Suc length_Suc_conv) auto

lemma provider_extension_head:
  "ValidProviderExtensionForProfile profile extra \<longleftrightarrow>
     (\<exists>token order user. ProviderExtensionForProfile profile token order user = Inr extra)"
proof
  assume v: "ValidProviderExtensionForProfile profile extra"
  then obtain a b c where id: "providerExtensionIdentity profile = Some (a, b, c)"
    by (auto simp: ValidProviderExtensionForProfile_def split: if_splits option.splits)
  let ?parts = "split_on (CHR ''|'') extra"
  have len: "length ?parts = 7" and ends: "?parts ! 0 = []" "?parts ! 2 = a" "?parts ! 5 = b"
      "?parts ! 6 = c" and fields: "validProviderField (?parts ! 1)"
      "validProviderField (?parts ! 3)" "validProviderField (?parts ! 4)"
    using v id by (auto simp: ValidProviderExtensionForProfile_def Let_def split: if_splits)
  have "extra = join_on (CHR ''|'') ?parts" by (simp add: join_split)
  also have "?parts = [[], ?parts ! 1, a, ?parts ! 3, ?parts ! 4, b, c]"
    using length_7_list [OF len] ends by simp
  finally have "ProviderExtensionForProfile profile (?parts ! 1) (?parts ! 3) (?parts ! 4) = Inr extra"
    using fields id by (simp add: ProviderExtensionForProfile_def)
  then show "\<exists>token order user. ProviderExtensionForProfile profile token order user = Inr extra"
    by blast
next
  assume "\<exists>token order user. ProviderExtensionForProfile profile token order user = Inr extra"
  then obtain t u w a b c where f: "validProviderField t" "validProviderField u"
      "validProviderField w" and id: "providerExtensionIdentity profile = Some (a, b, c)"
    and x: "extra = ''|'' @ t @ ''|'' @ a @ ''|'' @ u @ ''|'' @ w @ ''|'' @ b @ ''|'' @ c"
    by (auto simp: ProviderExtensionForProfile_def split: if_splits option.splits)
  note ident = identity_no_bar [OF id]
  have s: "split_on (CHR ''|'') extra = [[], t, a, u, w, b, c]"
    unfolding x using f [THEN validProviderField_no_bar] ident by (intro split_extension) blast+
  have "length t \<le> 4096" "length u \<le> 4096" "length w \<le> 4096"
    using f by (auto simp: validProviderField_def maxProviderFieldBytes_def)
  then have "length extra \<le> maxProviderExtensionBytes" and "length extra \<noteq> 0"
    using ident unfolding x by (simp_all add: maxProviderExtensionBytes_def maxProviderFieldBytes_def)
  then show "ValidProviderExtensionForProfile profile extra"
    using f id s by (simp add: ValidProviderExtensionForProfile_def Let_def)
qed

lemma extension_parts:
  assumes "ProviderExtensionForProfile profile t u w = Inr extra"
  shows "\<exists>a b c. providerExtensionIdentity profile = Some (a, b, c)
    \<and> split_on (CHR ''|'') extra = [[], t, a, u, w, b, c]"
proof -
  obtain a b c where f: "validProviderField t" "validProviderField u"
      "validProviderField w" and id: "providerExtensionIdentity profile = Some (a, b, c)"
    and x: "extra = ''|'' @ t @ ''|'' @ a @ ''|'' @ u @ ''|'' @ w @ ''|'' @ b @ ''|'' @ c"
    using assms by (auto simp: ProviderExtensionForProfile_def split: if_splits option.splits)
  have "split_on (CHR ''|'') extra = [[], t, a, u, w, b, c]"
    unfolding x using f [THEN validProviderField_no_bar] identity_no_bar [OF id]
    by (intro split_extension) blast+
  with id show ?thesis by blast
qed

text \<open>
  C14: The extension codec is exact in both directions: a string is a valid extension of a
  profile if and only if there is exactly one triple of token, order and user fields from which
  \<open>ProviderExtensionForProfile\<close> produces it, and no string is valid for two profiles.
\<close>

theorem provider_extension_exact:
  "(ValidProviderExtensionForProfile profile extra \<longleftrightarrow>
     (\<exists>!(token, order, user). ProviderExtensionForProfile profile token order user = Inr extra))
   \<and> \<not> (ValidProviderExtensionForProfile ''ios'' extra
        \<and> ValidProviderExtensionForProfile ''windows'' extra)"
proof
  have inj: "(t, u, w) = (t', u', w')"
    if a: "ProviderExtensionForProfile profile t u w = Inr extra"
      and b: "ProviderExtensionForProfile profile t' u' w' = Inr extra" for t u w t' u' w'
    using extension_parts [OF a] extension_parts [OF b] by auto
  show "ValidProviderExtensionForProfile profile extra \<longleftrightarrow>
     (\<exists>!(token, order, user). ProviderExtensionForProfile profile token order user = Inr extra)"
    unfolding provider_extension_head using inj by (auto simp: Ex1_def) blast+
  show "\<not> (ValidProviderExtensionForProfile ''ios'' extra
        \<and> ValidProviderExtensionForProfile ''windows'' extra)"
    unfolding provider_extension_head
    by (auto dest!: extension_parts simp: providerExtensionIdentity_def)
qed

section \<open>The initial packet\<close>

record OutboundHeader =
  oh_Packet :: bytes
  oh_IV :: bytes
  oh_Stream :: cfb

definition headerPlaintext :: "string \<Rightarrow> u16 \<Rightarrow> string \<Rightarrow> go_error + bytes" where
  "headerPlaintext targetHost targetPort providerExtra =
     (if targetPort = 0 \<or> \<not> validASCIIHost targetHost \<or> \<not> ValidProviderExtension providerExtra
      then Inl ErrInvalidTarget
      else if length targetHost + length providerExtra > 0xffff - IVSize
      then Inl ErrInvalidTarget
      else Inr (bytes_of_string targetHost @ bytes_of_string providerExtra))"

definition newOutboundHeaderWithIV ::
  "(bytes \<Rightarrow> bytes \<Rightarrow> bytes) \<Rightarrow> bytes \<Rightarrow> string \<Rightarrow> u16 \<Rightarrow> string \<Rightarrow> byte \<Rightarrow> bytes \<Rightarrow>
   go_error + OutboundHeader"
where
  "newOutboundHeaderWithIV blk key targetHost targetPort providerExtra outerType iv =
     try_bind (headerPlaintext targetHost targetPort providerExtra) (\<lambda>plain.
     try_bind (NewEncrypter key iv) (\<lambda>stream.
       let (ciphertext, stream') = XORKeyStream blk stream plain;
           encryptedLength = IVSize + length ciphertext
       in Inr \<lparr>oh_Packet = [outerType] @ be16 (of_nat encryptedLength) @ iv @ ciphertext
                             @ be16 targetPort,
               oh_IV = iv, oh_Stream = stream'\<rparr>))"

definition newOutboundHeader ::
  "(bytes \<Rightarrow> bytes \<Rightarrow> bytes) \<Rightarrow> bytes \<Rightarrow> string \<Rightarrow> u16 \<Rightarrow> string \<Rightarrow> byte \<Rightarrow> stream \<Rightarrow>
   go_error + OutboundHeader"
where
  "newOutboundHeader blk key targetHost targetPort providerExtra outerType random =
     (case read_full IVSize random of
        (Inl e, _) \<Rightarrow> Inl (Wrap ''wifiin: read outbound IV'' e)
      | (Inr iv, _) \<Rightarrow>
          newOutboundHeaderWithIV blk key targetHost targetPort providerExtra outerType iv)"

definition NewOutboundHeader ::
  "(bytes \<Rightarrow> bytes \<Rightarrow> bytes) \<Rightarrow> stream \<Rightarrow> bytes \<Rightarrow> string \<Rightarrow> u16 \<Rightarrow> string \<Rightarrow> go_error + OutboundHeader"
where
  "NewOutboundHeader blk random key targetHost targetPort providerExtra =
     newOutboundHeader blk key targetHost targetPort providerExtra OuterType random"

definition NewUOTOutboundHeader ::
  "(bytes \<Rightarrow> bytes \<Rightarrow> bytes) \<Rightarrow> stream \<Rightarrow> bytes \<Rightarrow> string \<Rightarrow> u16 \<Rightarrow> string \<Rightarrow> go_error + OutboundHeader"
where
  "NewUOTOutboundHeader blk random key targetHost targetPort providerExtra =
     newOutboundHeader blk key targetHost targetPort providerExtra UOTOuterType random"

text \<open>
  The contract of the packet, as its receiver sees it: the length field delimits IV and
  ciphertext, the port follows, the plaintext splits at its first bar into the target host and
  the provider extension, and the decrypting context stays open for the application data.
\<close>

definition parse_packet ::
  "(bytes \<Rightarrow> bytes \<Rightarrow> bytes) \<Rightarrow> bytes \<Rightarrow> bytes \<Rightarrow> (byte \<times> string \<times> u16 \<times> string \<times> cfb) option"
where
  "parse_packet blk key packet =
     (if length packet < 3 then None
      else let n = unat (be16_val (packet ! 1) (packet ! 2));
               body = drop 3 packet
      in if length body \<noteq> n + 2 \<or> n < IVSize then None
         else case NewDecrypter key (take IVSize body) of
                Inl _ \<Rightarrow> None
              | Inr d \<Rightarrow>
                  let (plain, d') = XORKeyStream blk d (drop IVSize (take n body));
                      text = string_of_bytes plain
                  in Some (packet ! 0, takeWhile (\<lambda>c. c \<noteq> CHR ''|'') text,
                           be16_val (body ! n) (body ! (n + 1)),
                           dropWhile (\<lambda>c. c \<noteq> CHR ''|'') text, d'))"

lemma valid_extension_bounds:
  assumes "ValidProviderExtension extra"
  shows "length extra \<le> 12416 \<and> (\<exists>r. extra = CHR ''|'' # r)"
proof -
  obtain p where p: "ValidProviderExtensionForProfile p extra"
    using assms by (auto simp: ValidProviderExtension_def)
  then obtain t u w where "ProviderExtensionForProfile p t u w = Inr extra"
    using provider_extension_head by blast
  moreover have "length extra \<le> 12416"
    using p by (auto simp: ValidProviderExtensionForProfile_def maxProviderExtensionBytes_def
        maxProviderFieldBytes_def split: if_splits)
  ultimately show ?thesis
    by (auto simp: ProviderExtensionForProfile_def split: if_splits option.splits)
qed

lemma headerPlaintext_Inr:
  "headerPlaintext host port extra = Inr plain \<longleftrightarrow>
     port \<noteq> 0 \<and> validASCIIHost host \<and> ValidProviderExtension extra
     \<and> plain = bytes_of_string (host @ extra)"
proof -
  have "length host + length extra \<le> 0xffff - IVSize"
    if "validASCIIHost host" "ValidProviderExtension extra"
    using that(1) valid_extension_bounds [OF that(2)]
    by (simp add: validASCIIHost_def maxTargetHostBytes_def IVSize_def)
  then show ?thesis by (auto simp: headerPlaintext_def)
qed

lemma takeWhile_host:
  assumes "validASCIIHost host"
  shows "takeWhile (\<lambda>c. c \<noteq> CHR ''|'') (host @ CHR ''|'' # r) = host"
    and "dropWhile (\<lambda>c. c \<noteq> CHR ''|'') (host @ CHR ''|'' # r) = CHR ''|'' # r"
proof -
  have "c \<noteq> CHR ''|''" if "c \<in> set host" for c
    using assms that by (auto simp: validASCIIHost_def field_char_def list_all_iff)
  then show "takeWhile (\<lambda>c. c \<noteq> CHR ''|'') (host @ CHR ''|'' # r) = host"
    and "dropWhile (\<lambda>c. c \<noteq> CHR ''|'') (host @ CHR ''|'' # r) = CHR ''|'' # r"
    by (simp_all add: takeWhile_append2 dropWhile_append2)
qed

lemma header_success:
  "newOutboundHeaderWithIV blk key host port extra ty iv = Inr h \<longleftrightarrow>
     port \<noteq> 0 \<and> validASCIIHost host \<and> ValidProviderExtension extra \<and> length key = 32
     \<and> length iv = 16
     \<and> (\<exists>ct e. XORKeyStream blk (newCFB key iv False) (bytes_of_string (host @ extra)) = (ct, e)
         \<and> h = \<lparr>oh_Packet = [ty] @ be16 (of_nat (16 + length ct)) @ iv @ ct @ be16 port,
                 oh_IV = iv, oh_Stream = e\<rparr>)"
  by (auto simp: newOutboundHeaderWithIV_def headerPlaintext_Inr NewEncrypter_Inr IVSize_def Let_def
      split: prod.splits)

text \<open>
  C15: The initial packet is read back exactly by its receiver. When it is built, decoding it
  with the same key gives the packet type, the target host and port and the provider extension
  it was built from, for every block cipher, and leaves a decrypting context in step with the
  sender's stream, so the application data that follows decrypts; the 16-bit length field does
  not wrap. It is built exactly for a non-zero port, a valid host, a valid extension, a 32-byte
  key and a 16-byte IV.
\<close>

theorem outbound_header_roundtrip:
  "is_ok (newOutboundHeaderWithIV blk key host port extra ty iv) =
     (port \<noteq> 0 \<and> validASCIIHost host \<and> ValidProviderExtension extra \<and> length key = 32
      \<and> length iv = 16)
   \<and> (newOutboundHeaderWithIV blk key host port extra ty iv = Inr h \<longrightarrow>
        (\<exists>d. parse_packet blk key (oh_Packet h) = Some (ty, host, port, extra, d)
           \<and> cfb_mirror (oh_Stream h) d))"
proof
  show "is_ok (newOutboundHeaderWithIV blk key host port extra ty iv) =
     (port \<noteq> 0 \<and> validASCIIHost host \<and> ValidProviderExtension extra \<and> length key = 32
      \<and> length iv = 16)"
    unfolding is_ok_iff header_success by (metis surj_pair)
next
  show "newOutboundHeaderWithIV blk key host port extra ty iv = Inr h \<longrightarrow>
        (\<exists>d. parse_packet blk key (oh_Packet h) = Some (ty, host, port, extra, d)
           \<and> cfb_mirror (oh_Stream h) d)"
  proof
    assume "newOutboundHeaderWithIV blk key host port extra ty iv = Inr h"
    then obtain ct e where ok: "validASCIIHost host" "ValidProviderExtension extra"
        "length key = 32" "length iv = 16"
      and enc: "XORKeyStream blk (newCFB key iv False) (bytes_of_string (host @ extra)) = (ct, e)"
      and h: "h = \<lparr>oh_Packet = [ty] @ be16 (of_nat (16 + length ct)) @ iv @ ct @ be16 port,
                    oh_IV = iv, oh_Stream = e\<rparr>"
      unfolding header_success by blast
    obtain d where dec: "XORKeyStream blk (newCFB key iv True) ct = (bytes_of_string (host @ extra), d)"
      and mir: "cfb_mirror e d"
      using XORKeyStream_mirror [OF cfb_mirror_new enc] by blast
    obtain r where r: "extra = CHR ''|'' # r" and xl: "length extra \<le> 12416"
      using valid_extension_bounds [OF ok(2)] by blast
    have "length ct = length host + length extra" using length_XORKeyStream [OF enc] by simp
    then have "16 + length ct < 65536"
      using xl ok(1) by (simp add: validASCIIHost_def maxTargetHostBytes_def)
    then have n: "unat (of_nat (16 + length ct) :: u16) = 16 + length ct"
      by (rule unat_of_nat_u16)
    have "parse_packet blk key (oh_Packet h) = Some (ty, host, port, extra, d)"
      using ok dec n takeWhile_host [OF ok(1), of r]
      by (simp add: parse_packet_def h be16_def be16_val_be16 NewDecrypter_def newBlock_def
          KeySize_def IVSize_def Let_def nth_append r)
    with mir show "\<exists>d. parse_packet blk key (oh_Packet h) = Some (ty, host, port, extra, d)
           \<and> cfb_mirror (oh_Stream h) d"
      by (simp add: h)
  qed
qed

lemma outbound_header_roundtrip_witness:
  "\<exists>h d. newOutboundHeaderWithIV demo_block (replicate 32 7) ''node.example'' 443
         ''|t|cc.fancast.major|o|u|MAC|1.0.46'' 3 (replicate 16 9) = Inr h
     \<and> parse_packet demo_block (replicate 32 7) (oh_Packet h)
         = Some (3, ''node.example'', 443, ''|t|cc.fancast.major|o|u|MAC|1.0.46'', d)"
proof -
  have "ValidProviderExtension ''|t|cc.fancast.major|o|u|MAC|1.0.46''" by code_simp
  moreover have "validASCIIHost ''node.example''" by code_simp
  ultimately have "is_ok (newOutboundHeaderWithIV demo_block (replicate 32 7) ''node.example'' 443
      ''|t|cc.fancast.major|o|u|MAC|1.0.46'' 3 (replicate 16 9))"
    using outbound_header_roundtrip [of demo_block "replicate 32 7" "''node.example''" 443
        "''|t|cc.fancast.major|o|u|MAC|1.0.46''" 3 "replicate 16 9"] by simp
  then show ?thesis
    using outbound_header_roundtrip [of demo_block "replicate 32 7" "''node.example''" 443
        "''|t|cc.fancast.major|o|u|MAC|1.0.46''" 3 "replicate 16 9"]
    unfolding is_ok_iff by blast
qed

section \<open>The handshake reader\<close>

text \<open>
  A transport returns its data in chunks of its own choosing: a chunk is what one \<open>Read\<close> with
  a large enough buffer returns, with the error that comes with it; when the chunks are used up
  every read returns the end error. A smaller buffer takes the first part of a chunk.
\<close>

record source =
  src_chunks :: "(bytes \<times> go_error option) list"
  src_end :: go_error

definition src_read :: "nat \<Rightarrow> source \<Rightarrow> bytes \<times> go_error option \<times> source" where
  "src_read n s =
     (case src_chunks s of
        [] \<Rightarrow> ([], Some (src_end s), s)
      | (bs, e) # r \<Rightarrow>
          if length bs \<le> n then (bs, e, s\<lparr>src_chunks := r\<rparr>)
          else (take n bs, None, s\<lparr>src_chunks := (drop n bs, e) # r\<rparr>))"

record HandshakeReader =
  hr_r :: source
  hr_pending :: bytes
  hr_readErr :: "go_error option"
  hr_ackConsumed :: bool

definition NewHandshakeReader :: "source \<Rightarrow> HandshakeReader" where
  "NewHandshakeReader r =
     \<lparr>hr_r = r, hr_pending = [], hr_readErr = None, hr_ackConsumed = False\<rparr>"

definition hr_fill :: "HandshakeReader \<Rightarrow> go_error option \<times> HandshakeReader" where
  "hr_fill r =
     (case hr_readErr r of
        Some err \<Rightarrow> (Some err, r\<lparr>hr_readErr := None\<rparr>)
      | None \<Rightarrow>
          (case src_read (32 * 1024) (hr_r r) of
             (buf, err, src) \<Rightarrow>
               let r = r\<lparr>hr_r := src\<rparr> in
               if buf \<noteq> [] then
                 (None, (case err of
                           None \<Rightarrow> r\<lparr>hr_pending := hr_pending r @ buf\<rparr>
                         | Some e \<Rightarrow> r\<lparr>hr_pending := hr_pending r @ buf, hr_readErr := Some e\<rparr>))
               else (case err of Some e \<Rightarrow> (Some e, r) | None \<Rightarrow> (Some ErrNoProgress, r))))"

lemma hr_fill_progress:
  "hr_fill r = (None, r') \<Longrightarrow> length (hr_pending r) < length (hr_pending r')"
  by (auto simp: hr_fill_def Let_def split: option.splits prod.splits if_splits)

function ack_loop :: "HandshakeReader \<Rightarrow> go_error option \<times> HandshakeReader" where
  "ack_loop r =
     (if length (hr_pending r) < 3
      then (case hr_fill r of
              (Some err, r') \<Rightarrow>
                (Some (if errors_is err EOF then ErrTruncatedACK
                       else Wrap ''wifiin: read acknowledgement'' err), r')
            | (None, r') \<Rightarrow> ack_loop r')
      else (None, r))"
  by auto
termination
  by (relation "measure (\<lambda>r. 3 - length (hr_pending r))") (auto dest!: hr_fill_progress [OF sym])

declare ack_loop.simps [simp del]

definition ReadACK :: "HandshakeReader \<Rightarrow> go_error option \<times> HandshakeReader" where
  "ReadACK r =
     (if hr_ackConsumed r then (None, r)
      else case ack_loop r of
             (Some err, r') \<Rightarrow> (Some err, r')
           | (None, r') \<Rightarrow>
               if hr_pending r' ! 0 \<noteq> 0 \<or> hr_pending r' ! 1 \<noteq> 0 \<or> hr_pending r' ! 2 \<noteq> 0
               then (Some ErrInvalidACK, r')
               else (None, r'\<lparr>hr_pending := drop 3 (hr_pending r'), hr_ackConsumed := True\<rparr>))"

definition hr_Read :: "nat \<Rightarrow> HandshakeReader \<Rightarrow> bytes \<times> go_error option \<times> HandshakeReader" where
  "hr_Read n r =
     (if n = 0 then ([], None, r)
      else if hr_pending r \<noteq> []
      then (take n (hr_pending r), None, r\<lparr>hr_pending := drop n (hr_pending r)\<rparr>)
      else case hr_readErr r of
             Some err \<Rightarrow> ([], Some err, r\<lparr>hr_readErr := None\<rparr>)
           | None \<Rightarrow> (case src_read n (hr_r r) of (bs, err, src) \<Rightarrow> (bs, err, r\<lparr>hr_r := src\<rparr>)))"

text \<open>
  \<open>io.ReadFull\<close> calls \<open>Read\<close> until the buffer is full or an error is returned; an error that
  comes with the last bytes is dropped, and the end of the data after some of the bytes is
  \<open>io.ErrUnexpectedEOF\<close>.
\<close>

definition hr_size :: "HandshakeReader \<Rightarrow> nat" where
  "hr_size r = length (hr_pending r) + length (src_chunks (hr_r r))
     + length (concat (map fst (src_chunks (hr_r r))))"

lemma hr_Read_progress:
  "hr_Read n r = (bs, None, r') \<Longrightarrow> 0 < n \<Longrightarrow> hr_size r' < hr_size r"
  by (auto simp: hr_Read_def hr_size_def src_read_def split: option.splits prod.splits if_splits list.splits)

function hr_read_at_least ::
  "nat \<Rightarrow> bytes \<Rightarrow> HandshakeReader \<Rightarrow> bytes \<times> go_error option \<times> HandshakeReader"
where
  "hr_read_at_least want got r =
     (if length got < want
      then (case hr_Read (want - length got) r of
              (bs, Some err, r') \<Rightarrow> (got @ bs, Some err, r')
            | (bs, None, r') \<Rightarrow> hr_read_at_least want (got @ bs) r')
      else (got, None, r))"
  by auto
termination
  by (relation "measure (\<lambda>(_, _, r). hr_size r)") (auto dest!: hr_Read_progress [OF sym])

declare hr_read_at_least.simps [simp del]

definition hr_read_full :: "nat \<Rightarrow> HandshakeReader \<Rightarrow> (go_error + bytes) \<times> HandshakeReader" where
  "hr_read_full n r =
     (case hr_read_at_least n [] r of
        (bs, err, r') \<Rightarrow>
          (if n \<le> length bs then Inr bs
           else case err of
                  Some e \<Rightarrow> Inl (if e = EOF \<and> bs \<noteq> [] then ErrUnexpectedEOF else e)
                | None \<Rightarrow> Inl ErrNoProgress, r'))"

definition ReadServerIV :: "HandshakeReader \<Rightarrow> (go_error + bytes) \<times> HandshakeReader" where
  "ReadServerIV r =
     (case ReadACK r of
        (Some err, r') \<Rightarrow> (Inl err, r')
      | (None, r') \<Rightarrow>
          (case hr_read_full IVSize r' of
             (Inl err, r'') \<Rightarrow> (Inl (Wrap ''wifiin: read server IV'' err), r'')
           | (Inr iv, r'') \<Rightarrow> (Inr iv, r'')))"

text \<open>
  The reader against its contract. A well-behaved transport returns some bytes or the end
  error, which may come along with the last bytes. Such a reader stands for the stream of the
  bytes it has not handed out, and every operation works on that stream only.
\<close>

fun chunks_ok :: "go_error \<Rightarrow> (bytes \<times> go_error option) list \<Rightarrow> bool" where
  "chunks_ok e [] \<longleftrightarrow> True"
| "chunks_ok e ((bs, er) # r) \<longleftrightarrow>
     bs \<noteq> [] \<and> (er = None \<or> er = Some e \<and> r = []) \<and> chunks_ok e r"

definition hr_ok :: "HandshakeReader \<Rightarrow> bool" where
  "hr_ok r \<longleftrightarrow> chunks_ok (src_end (hr_r r)) (src_chunks (hr_r r))
     \<and> (hr_readErr r = None
        \<or> hr_readErr r = Some (src_end (hr_r r)) \<and> src_chunks (hr_r r) = [])"

definition hr_abs :: "HandshakeReader \<Rightarrow> stream" where
  "hr_abs r = \<lparr>st_data = hr_pending r @ concat (map fst (src_chunks (hr_r r))),
               st_err = src_end (hr_r r)\<rparr>"

lemma hr_fill_ok:
  assumes "hr_ok r" and "hr_fill r = (x, r')"
  shows "hr_ok r' \<and> hr_abs r' = hr_abs r \<and> hr_ackConsumed r' = hr_ackConsumed r
    \<and> (x = None \<or> x = Some (st_err (hr_abs r)) \<and> hr_pending r' = hr_pending r
                  \<and> st_data (hr_abs r) = hr_pending r)"
  using assms
  by (cases "src_chunks (hr_r r)")
     (auto simp: hr_fill_def hr_ok_def hr_abs_def src_read_def Let_def split: option.splits if_splits)

lemma ack_loop_ok:
  "hr_ok r \<Longrightarrow> ack_loop r = (x, r') \<Longrightarrow>
   hr_ok r' \<and> hr_abs r' = hr_abs r \<and> hr_ackConsumed r' = hr_ackConsumed r
   \<and> (if 3 \<le> length (st_data (hr_abs r)) then x = None \<and> 3 \<le> length (hr_pending r')
      else x = Some (if errors_is (st_err (hr_abs r)) EOF then ErrTruncatedACK
                     else Wrap ''wifiin: read acknowledgement'' (st_err (hr_abs r))))"
proof (induction r rule: ack_loop.induct)
  case (1 r)
  show ?case
  proof (cases "length (hr_pending r) < 3")
    case False
    then show ?thesis
      using "1.prems" by (auto simp: ack_loop.simps [of r] hr_abs_def)
  next
    case True
    obtain y r1 where f: "hr_fill r = (y, r1)" by (metis surj_pair)
    note fill = hr_fill_ok [OF "1.prems"(1) f]
    show ?thesis
    proof (cases y)
      case None
      then show ?thesis
        using "1.IH" [OF True f [symmetric] None] fill "1.prems"(2) True f
        by (simp add: ack_loop.simps [of r])
    next
      case (Some e)
      then show ?thesis
        using fill "1.prems"(2) True f by (auto simp: ack_loop.simps [of r])
    qed
  qed
qed

lemma hr_Read_ok:
  assumes "hr_ok r" and "0 < n" and "hr_Read n r = (bs, err, r')"
  shows "hr_ok r' \<and> st_data (hr_abs r) = bs @ st_data (hr_abs r')
    \<and> st_err (hr_abs r') = st_err (hr_abs r) \<and> length bs \<le> n
    \<and> (err = None \<and> bs \<noteq> [] \<or> err = Some (st_err (hr_abs r)) \<and> st_data (hr_abs r') = [])"
  using assms
  by (cases "src_chunks (hr_r r)")
     (auto simp: hr_Read_def hr_ok_def hr_abs_def src_read_def split: option.splits if_splits)

lemma hr_read_at_least_ok:
  "hr_ok r \<Longrightarrow> length got \<le> want \<Longrightarrow> hr_read_at_least want got r = (bs, err, r') \<Longrightarrow>
   hr_ok r' \<and> bs = got @ take (want - length got) (st_data (hr_abs r))
   \<and> st_data (hr_abs r') = drop (want - length got) (st_data (hr_abs r))
   \<and> st_err (hr_abs r') = st_err (hr_abs r)
   \<and> (length bs < want \<longrightarrow> err = Some (st_err (hr_abs r)))"
proof (induction want got r rule: hr_read_at_least.induct)
  case (1 want got r)
  show ?case
  proof (cases "length got < want")
    case False
    then show ?thesis using "1.prems" by (simp add: hr_read_at_least.simps [of want got r])
  next
    case True
    obtain b e r1 where rd: "hr_Read (want - length got) r = (b, e, r1)" by (metis prod_cases3)
    note ok = hr_Read_ok [OF "1.prems"(1) _ rd]
    show ?thesis
    proof (cases e)
      case None
      then have "hr_read_at_least want (got @ b) r1 = (bs, err, r')"
        using "1.prems"(3) True rd by (simp add: hr_read_at_least.simps [of want got r])
      moreover have "hr_ok r1" "length (got @ b) \<le> want"
        using ok True by auto
      ultimately show ?thesis
        using "1.IH" [OF True rd [symmetric] refl None] ok True by auto
    next
      case (Some e')
      then show ?thesis
        using "1.prems"(3) ok True rd by (auto simp: hr_read_at_least.simps [of want got r])
    qed
  qed
qed

lemma hr_read_full_ok:
  assumes "hr_ok r" and "hr_read_full n r = (res, r')"
  shows "hr_ok r' \<and> read_full n (hr_abs r) = (res, hr_abs r')"
proof -
  obtain bs err r1 where al: "hr_read_at_least n [] r = (bs, err, r1)" by (metis prod_cases3)
  have "hr_abs r1 = \<lparr>st_data = drop n (st_data (hr_abs r)), st_err = st_err (hr_abs r)\<rparr>"
    using hr_read_at_least_ok [OF assms(1) _ al] by (simp add: hr_abs_def)
  then show ?thesis
    using hr_read_at_least_ok [OF assms(1) _ al] assms(2) al
    by (auto simp: hr_read_full_def read_full_def)
qed

text \<open>The contract: what the server's first bytes mean, independent of their chunks.\<close>

definition server_iv_spec :: "stream \<Rightarrow> (go_error + bytes) \<times> stream" where
  "server_iv_spec st =
     (if length (st_data st) < 3
      then (Inl (if errors_is (st_err st) EOF then ErrTruncatedACK
                 else Wrap ''wifiin: read acknowledgement'' (st_err st)), st)
      else if take 3 (st_data st) \<noteq> [0, 0, 0] then (Inl ErrInvalidACK, st)
      else case read_full 16 (st\<lparr>st_data := drop 3 (st_data st)\<rparr>) of
             (Inl e, st') \<Rightarrow> (Inl (Wrap ''wifiin: read server IV'' e), st')
           | (Inr iv, st') \<Rightarrow> (Inr iv, st'))"

lemma take_3_zero:
  "3 \<le> length xs \<Longrightarrow> take 3 xs = [0, 0, 0] \<longleftrightarrow> xs ! 0 = 0 \<and> xs ! 1 = 0 \<and> xs ! 2 = (0 :: byte)"
  by (cases xs; cases "tl xs"; cases "tl (tl xs)") (auto simp: numeral_eq_Suc)

text \<open>
  C16: The handshake does not depend on how the transport splits or coalesces the server's
  bytes. For every well-behaved source, \<open>ReadServerIV\<close> on a new reader returns what the
  contract says of the concatenated bytes and their final error - the IV only after exactly
  00 00 00, a truncated, invalid or failed read as its error - and leaves exactly the bytes
  after the IV for the encrypted stream.
\<close>

theorem ReadServerIV_chunk_independent:
  assumes "chunks_ok e chunks"
    and "ReadServerIV (NewHandshakeReader \<lparr>src_chunks = chunks, src_end = e\<rparr>) = (res, r')"
  shows "server_iv_spec \<lparr>st_data = concat (map fst chunks), st_err = e\<rparr> = (res, hr_abs r')
    \<and> hr_ok r'"
proof -
  let ?r = "NewHandshakeReader \<lparr>src_chunks = chunks, src_end = e\<rparr>"
  have ok: "hr_ok ?r" and abs: "hr_abs ?r = \<lparr>st_data = concat (map fst chunks), st_err = e\<rparr>"
    and ack: "\<not> hr_ackConsumed ?r"
    using assms(1) by (auto simp: hr_ok_def hr_abs_def NewHandshakeReader_def)
  obtain x r1 where l: "ack_loop ?r = (x, r1)" by (metis surj_pair)
  note loop = ack_loop_ok [OF ok l]
  show ?thesis
  proof (cases "3 \<le> length (st_data (hr_abs ?r))")
    case False
    then show ?thesis
      using assms(2) loop l ack by (auto simp: ReadServerIV_def ReadACK_def server_iv_spec_def abs)
  next
    case True
    have p3: "3 \<le> length (hr_pending r1)" and x: "x = None" and same: "hr_abs r1 = hr_abs ?r"
      using loop True by auto
    have t3: "take 3 (st_data (hr_abs ?r)) = take 3 (hr_pending r1)"
      using p3 by (simp add: same [symmetric]) (simp add: hr_abs_def)
    let ?r2 = "r1\<lparr>hr_pending := drop 3 (hr_pending r1), hr_ackConsumed := True\<rparr>"
    have ok2: "hr_ok ?r2" using loop by (simp add: hr_ok_def)
    have abs2: "hr_abs ?r2 = (hr_abs ?r)\<lparr>st_data := drop 3 (st_data (hr_abs ?r))\<rparr>"
      using p3 by (simp add: same [symmetric]) (simp add: hr_abs_def)
    obtain res2 r3 where rf: "hr_read_full IVSize ?r2 = (res2, r3)" by (metis surj_pair)
    note full = hr_read_full_ok [OF ok2 rf]
    show ?thesis
      using assms(2) True l x ack take_3_zero [OF p3] rf full loop
      by (auto simp: ReadServerIV_def ReadACK_def server_iv_spec_def t3 abs2 IVSize_def
          simp flip: abs split: sum.splits)
  qed
qed

lemma ReadServerIV_chunk_independent_witness:
  "chunks_ok EOF [([0], None), ([0, 0, 5], None), (replicate 17 6, Some EOF)]
   \<and> fst (ReadServerIV (NewHandshakeReader \<lparr>src_chunks =
        [([0], None), ([0, 0, 5], None), (replicate 17 6, Some EOF)], src_end = EOF\<rparr>))
     = Inr (5 # replicate 15 6)"
proof -
  let ?cs = "[([0], None), ([0, 0, 5], None), (replicate 17 6, Some EOF)]
    :: (bytes \<times> go_error option) list"
  obtain res r' where r: "ReadServerIV (NewHandshakeReader \<lparr>src_chunks = ?cs, src_end = EOF\<rparr>)
      = (res, r')" by (metis surj_pair)
  have ok: "chunks_ok EOF ?cs" by simp
  have "fst (server_iv_spec \<lparr>st_data = concat (map fst ?cs), st_err = EOF\<rparr>) = Inr (5 # replicate 15 6)"
    by code_simp
  then show ?thesis using ReadServerIV_chunk_independent [OF ok r] r ok by auto
qed

end
