(* ===== verification/Wifiin_UDP.thy ===== *)
theory Wifiin_UDP
  imports Wifiin_TCP
begin

text \<open>
  \<open>internal/kuaifan/wifiin/udp.go\<close>: SOCKS UDP datagrams as frames of the UDP-over-TCP stream,
  and \<open>writeFull\<close>. The reader's buffer is modelled by its capacity and the bytes written to it;
  the scratch buffers of the writer and reader are overwritten whole on each use and are not
  part of the state.
\<close>

section \<open>Writers\<close>

text \<open>
  A writer accepts a part of each write and may fail: the script says, call by call, the most
  bytes it takes and the error it returns; after the script it takes everything.
\<close>

record writer =
  wr_script :: "(nat \<times> go_error option) list"
  wr_out :: bytes

definition wr_write :: "bytes \<Rightarrow> writer \<Rightarrow> nat \<times> go_error option \<times> writer" where
  "wr_write p w =
     (case wr_script w of
        [] \<Rightarrow> (length p, None, w\<lparr>wr_out := wr_out w @ p\<rparr>)
      | (k, e) # r \<Rightarrow>
          let n = min k (length p)
          in (n, e, w\<lparr>wr_script := r, wr_out := wr_out w @ take n p\<rparr>))"

function writeFull :: "bytes \<Rightarrow> writer \<Rightarrow> go_error option \<times> writer" where
  "writeFull payload w =
     (if payload \<noteq> [] then
        (case wr_write payload w of
           (n, err, w') \<Rightarrow>
             (case err of
                Some e \<Rightarrow> (Some e, w')
              | None \<Rightarrow> if n = 0 then (Some ErrNoProgress, w') else writeFull (drop n payload) w'))
      else (None, w))"
  by auto
termination by (relation "measure (\<lambda>(p, _). length p)") auto

declare writeFull.simps [simp del]

lemma writeFull_out:
  "writeFull p w = (err, w') \<Longrightarrow>
   \<exists>n. wr_out w' = wr_out w @ take n p \<and> (err = None \<longrightarrow> length p \<le> n)"
proof (induction p w rule: writeFull.induct)
  case (1 p w)
  show ?case
  proof (cases "p = []")
    case True
    then show ?thesis using "1.prems" by (simp add: writeFull.simps [of "[]" w])
  next
    case False
    obtain n e w1 where wr: "wr_write p w = (n, e, w1)" by (metis prod_cases3)
    then have out: "wr_out w1 = wr_out w @ take n p" and nl: "n \<le> length p"
      by (auto simp: wr_write_def Let_def split: list.splits)
    show ?thesis
    proof (cases "e = None \<and> n \<noteq> 0")
      case True
      then have "writeFull (drop n p) w1 = (err, w')"
        using "1.prems" False wr by (simp add: writeFull.simps [of p w])
      then obtain m where "wr_out w' = wr_out w1 @ take m (drop n p)"
          and "err = None \<longrightarrow> length (drop n p) \<le> m"
        using "1.IH" [OF False wr [symmetric] refl] True by blast
      then show ?thesis
        using out nl by (intro exI [of _ "n + m"]) (auto simp: take_add)
    next
      case False
      then have "w' = w1 \<and> err \<noteq> None"
        using "1.prems" \<open>p \<noteq> []\<close> wr
        by (auto simp: writeFull.simps [of p w] split: option.splits if_splits)
      then show ?thesis using out by auto
    qed
  qed
qed

section \<open>Frames\<close>

definition maxUOTBodySize :: nat where "maxUOTBodySize = 65535"
definition uotFlowIDSize :: nat where "uotFlowIDSize = 2"
definition socksUDPHeaderSize :: nat where "socksUDPHeaderSize = 3"

abbreviation ErrInvalidUDPDatagram :: go_error where
  "ErrInvalidUDPDatagram \<equiv> Sent ''wifiin: invalid SOCKS UDP datagram''"
abbreviation ErrFragmentedUDP :: go_error where
  "ErrFragmentedUDP \<equiv> Sent ''wifiin: fragmented SOCKS UDP datagram''"
abbreviation ErrUnsupportedUDPAddress :: go_error where
  "ErrUnsupportedUDPAddress \<equiv> Sent ''wifiin: unsupported UDP address type''"
abbreviation ErrInvalidUOTFrame :: go_error where
  "ErrInvalidUOTFrame \<equiv> Sent ''wifiin: invalid UDP-over-TCP frame''"

definition uotAddressLength :: "bytes \<Rightarrow> bool \<Rightarrow> go_error + nat" where
  "uotAddressLength packet maskType =
     (if length packet < 1 then Inl ErrInvalidUOTFrame
      else
        let addressType = (if maskType then packet ! 0 AND 0x0f else packet ! 0)
        in try_bind
             (if addressType = 0x01 then Inr (1 + 4 + 2)
              else if addressType = 0x04 then Inr (1 + 16 + 2)
              else if addressType = 0x03 then
                (if length packet < 2 \<or> packet ! 1 = 0 then Inl ErrInvalidUOTFrame
                 else Inr (1 + 1 + unat (packet ! 1) + 2))
              else Inl ErrInvalidUOTFrame)
             (\<lambda>len. if length packet < len then Inl ErrInvalidUOTFrame else Inr len))"

definition WriteSOCKSDatagram :: "u16 \<Rightarrow> bytes \<Rightarrow> writer \<Rightarrow> go_error option \<times> writer" where
  "WriteSOCKSDatagram flowID datagram w =
     (if length datagram < socksUDPHeaderSize \<or> datagram ! 0 \<noteq> 0 \<or> datagram ! 1 \<noteq> 0
      then (Some ErrInvalidUDPDatagram, w)
      else if datagram ! 2 \<noteq> 0 then (Some ErrFragmentedUDP, w)
      else
        let inner = drop socksUDPHeaderSize datagram in
        case uotAddressLength inner False of
          Inl _ \<Rightarrow> (Some ErrInvalidUDPDatagram, w)
        | Inr addressLength \<Rightarrow>
            if inner ! 0 \<noteq> 0x01 then (Some ErrUnsupportedUDPAddress, w)
            else
              let bodyLength = length inner + uotFlowIDSize in
              if bodyLength > maxUOTBodySize
              then (Some (Wrap ''frame body is too large'' ErrInvalidUDPDatagram), w)
              else
                let frame = be16 (of_nat bodyLength) @ take addressLength inner @ be16 flowID
                            @ drop addressLength inner
                in (case writeFull frame w of
                      (Some err, w') \<Rightarrow> (Some (Wrap ''wifiin: write UOT frame'' err), w')
                    | (None, w') \<Rightarrow> (None, w')))"

text \<open>
  \<open>ReadSOCKSDatagram\<close>: the loop skips zero-length frames. The result is the datagram written to
  a buffer of \<open>dst_len\<close> bytes and the flow.
\<close>

definition uot_decode :: "nat \<Rightarrow> bytes \<Rightarrow> go_error + (bytes \<times> u16)" where
  "uot_decode dst_len body =
     (case uotAddressLength body True of
        Inl _ \<Rightarrow> Inl ErrInvalidUOTFrame
      | Inr addressLength \<Rightarrow>
          if addressLength + uotFlowIDSize > length body then Inl ErrInvalidUOTFrame
          else
            let outputLength = socksUDPHeaderSize + length body - uotFlowIDSize in
            if dst_len < outputLength then Inl ErrShortBuffer
            else
              let address = (take addressLength body)[0 := body ! 0 AND 0x0f];
                  flowID = be16_val (body ! addressLength) (body ! (addressLength + 1))
              in Inr ([0, 0, 0] @ address @ drop (addressLength + uotFlowIDSize) body, flowID))"

function ReadSOCKSDatagram :: "nat \<Rightarrow> stream \<Rightarrow> (go_error + (bytes \<times> u16)) \<times> stream" where
  "ReadSOCKSDatagram dst_len r =
     (case read_full 2 r of
        (Inl err, r') \<Rightarrow> (Inl (Wrap ''wifiin: read UOT frame length'' err), r')
      | (Inr prefix, r') \<Rightarrow>
          let bodyLength = unat (be16_val (prefix ! 0) (prefix ! 1)) in
          if bodyLength = 0 then ReadSOCKSDatagram dst_len r'
          else (case read_full bodyLength r' of
                  (Inl err, r'') \<Rightarrow> (Inl (Wrap ''wifiin: read UOT frame body'' err), r'')
                | (Inr body, r'') \<Rightarrow> (uot_decode dst_len body, r'')))"
  by auto
termination
  by (relation "measure (\<lambda>(_, r). length (st_data r))") (auto simp: read_full_def split: if_splits)

declare ReadSOCKSDatagram.simps [simp del]

lemma ReadSOCKSDatagram_keepalive:
  "ReadSOCKSDatagram n \<lparr>st_data = 0 # 0 # xs, st_err = e\<rparr> = ReadSOCKSDatagram n \<lparr>st_data = xs, st_err = e\<rparr>"
  by (subst ReadSOCKSDatagram.simps) (simp add: read_full_def be16_val_def)

lemma ReadSOCKSDatagram_keepalives:
  "ReadSOCKSDatagram n \<lparr>st_data = replicate (2 * k) 0 @ xs, st_err = e\<rparr>
   = ReadSOCKSDatagram n \<lparr>st_data = xs, st_err = e\<rparr>"
  by (induction k) (simp_all add: ReadSOCKSDatagram_keepalive)

lemma be16_nth: "be16_val (be16 x ! 0) (be16 x ! 1) = x" "be16_val (be16 x ! 0) (be16 x ! Suc 0) = x"
  by (simp_all add: be16_def be16_val_be16)

lemma ReadSOCKSDatagram_frame:
  assumes "0 < length body" and "length body \<le> 65535"
  shows "ReadSOCKSDatagram n \<lparr>st_data = be16 (of_nat (length body)) @ body @ xs, st_err = e\<rparr>
    = (uot_decode n body, \<lparr>st_data = xs, st_err = e\<rparr>)"
proof -
  have "unat (of_nat (length body) :: u16) = length body"
    using assms(2) by (intro unat_of_nat_u16) simp
  then show ?thesis
    using assms(1) by (subst ReadSOCKSDatagram.simps) (simp add: be16_nth Let_def)
qed

definition uot_body :: "u16 \<Rightarrow> bytes \<Rightarrow> bytes" where
  "uot_body flowID datagram = take 7 (drop 3 datagram) @ be16 flowID @ drop 10 datagram"

lemma writer_accepts:
  assumes "WriteSOCKSDatagram flowID datagram w = (None, w')"
  shows "\<exists>inner. datagram = 0 # 0 # 0 # 1 # inner \<and> 6 \<le> length inner \<and> length inner \<le> 65532
    \<and> wr_out w' = wr_out w @ be16 (of_nat (length (uot_body flowID datagram))) @ uot_body flowID datagram"
proof -
  have l3: "3 \<le> length datagram" and z: "datagram ! 0 = 0" "datagram ! 1 = 0" "datagram ! 2 = 0"
    using assms by (auto simp: WriteSOCKSDatagram_def socksUDPHeaderSize_def split: if_splits)
  define inner where "inner = drop 3 datagram"
  have d: "datagram = 0 # 0 # 0 # inner"
    using l3 z by (cases datagram; cases "tl datagram"; cases "tl (tl datagram)")
      (auto simp: inner_def numeral_2_eq_2 numeral_3_eq_3)
  obtain al where al: "uotAddressLength inner False = Inr al" and i1: "inner ! 0 = 1"
    and len: "length inner + 2 \<le> 65535"
    and wf: "writeFull (be16 (of_nat (length inner + 2)) @ take al inner @ be16 flowID @ drop al inner) w
      = (None, w')"
    using assms d by (auto simp: WriteSOCKSDatagram_def socksUDPHeaderSize_def Let_def
        maxUOTBodySize_def uotFlowIDSize_def split: if_splits sum.splits prod.splits option.splits)
  have ne: "inner \<noteq> []" using al by (auto simp: uotAddressLength_def)
  have a7: "al = 7" "7 \<le> length inner"
    using al i1 ne by (auto simp: uotAddressLength_def Let_def split: if_splits)
  obtain rest where r: "inner = 1 # rest" using ne i1 by (cases inner) auto
  have body: "uot_body flowID datagram = take 7 inner @ be16 flowID @ drop 7 inner"
    by (simp add: uot_body_def d)
  have "length (uot_body flowID datagram) = length inner + 2" using a7 by (simp add: body)
  moreover have "wr_out w' = wr_out w @ be16 (of_nat (length inner + 2)) @ take 7 inner
      @ be16 flowID @ drop 7 inner"
    using writeFull_out [OF wf] a7 by auto
  ultimately show ?thesis using d r len a7 body by auto
qed

lemma uot_decode_body:
  assumes "datagram = 0 # 0 # 0 # 1 # inner" "6 \<le> length inner" "length datagram \<le> n"
  shows "uot_decode n (uot_body flowID datagram) = Inr (datagram, flowID)"
proof -
  have b: "uot_body flowID (0 # 0 # 0 # 1 # inner) = 1 # take 6 inner @ be16 flowID @ drop 6 inner"
    by (simp add: uot_body_def)
  have "uotAddressLength (uot_body flowID (0 # 0 # 0 # 1 # inner)) True = Inr 7"
    using assms(2) by (simp add: b uotAddressLength_def Let_def)
  then show ?thesis
    using assms(2,3) unfolding assms(1)
    by (simp add: uot_decode_def b uotFlowIDSize_def socksUDPHeaderSize_def Let_def
        nth_append be16_def be16_val_be16)
qed

text \<open>
  C17: A UDP datagram survives the UDP-over-TCP stream. Whenever \<open>WriteSOCKSDatagram\<close> reports
  success, however the writer splits the frame, \<open>ReadSOCKSDatagram\<close> on the bytes it put out,
  after any number of keepalive frames and before any other bytes, returns the same datagram
  and flow in a buffer that holds it, and leaves exactly the bytes that follow.
\<close>

theorem uot_roundtrip:
  assumes "WriteSOCKSDatagram flowID datagram w = (None, w')" and "length datagram \<le> dst_len"
  shows "\<exists>frame. wr_out w' = wr_out w @ frame
    \<and> ReadSOCKSDatagram dst_len \<lparr>st_data = replicate (2 * keepalives) 0 @ frame @ rest, st_err = e\<rparr>
        = (Inr (datagram, flowID), \<lparr>st_data = rest, st_err = e\<rparr>)"
proof -
  obtain inner where d: "datagram = 0 # 0 # 0 # 1 # inner" "6 \<le> length inner"
      "length inner \<le> 65532"
    and out: "wr_out w' = wr_out w @ be16 (of_nat (length (uot_body flowID datagram)))
      @ uot_body flowID datagram"
    using writer_accepts [OF assms(1)] by blast
  have len: "length (uot_body flowID datagram) = length inner + 3"
    using d by (simp add: uot_body_def)
  have "ReadSOCKSDatagram dst_len \<lparr>st_data = replicate (2 * keepalives) 0 @
      (be16 (of_nat (length (uot_body flowID datagram))) @ uot_body flowID datagram) @ rest, st_err = e\<rparr>
      = (Inr (datagram, flowID), \<lparr>st_data = rest, st_err = e\<rparr>)"
    using ReadSOCKSDatagram_frame [of "uot_body flowID datagram"] len d(3)
      uot_decode_body [OF d(1,2) assms(2)]
    by (simp add: ReadSOCKSDatagram_keepalives)
  with out show ?thesis by blast
qed

lemma uot_roundtrip_witness:
  "\<exists>frame. ReadSOCKSDatagram 64 \<lparr>st_data = [0, 0] @ frame @ [9], st_err = EOF\<rparr>
     = (Inr ([0, 0, 0, 1, 127, 0, 0, 1, 0, 53, 42], 7), \<lparr>st_data = [9], st_err = EOF\<rparr>)"
proof -
  have "WriteSOCKSDatagram 7 [0, 0, 0, 1, 127, 0, 0, 1, 0, 53, 42]
      \<lparr>wr_script = [(2, None), (1, None)], wr_out = []\<rparr>
    = (None, \<lparr>wr_script = [], wr_out = [0, 10, 1, 127, 0, 0, 1, 0, 53, 0, 7, 42]\<rparr>)"
    by code_simp
  from uot_roundtrip [OF this, of 64 1 "[9]" EOF] show ?thesis
    by (intro exI [of _ "[0, 10, 1, 127, 0, 0, 1, 0, 53, 0, 7, 42]"]) (simp add: numeral_2_eq_2)
qed

lemma uotAddressLength_mask:
  assumes "uotAddressLength body True = Inr al" and "al \<le> length xs"
    and "take al xs = (take al body)[0 := body ! 0 AND 0x0f]"
  shows "uotAddressLength xs False = Inr al \<and> 5 \<le> al"
proof -
  have "body \<noteq> []" using assms(1) by (auto simp: uotAddressLength_def)
  have pos: "1 \<le> unat (body ! Suc 0)" if "body ! Suc 0 \<noteq> 0"
    using that by (simp add: Suc_leI unat_gt_0)
  have al: "5 \<le> al" "al \<le> length body"
    using assms(1) pos by (auto simp: uotAddressLength_def Let_def split: if_splits)
  have x0: "xs ! 0 = body ! 0 AND 0x0f"
    using arg_cong [OF assms(3), of "\<lambda>l. l ! 0"] al by simp
  have x1: "xs ! 1 = body ! 1" "xs ! Suc 0 = body ! Suc 0"
    using arg_cong [OF assms(3), of "\<lambda>l. l ! 1"] al by simp_all
  show ?thesis
    using assms(1,2) al x0 x1
    by (auto simp: uotAddressLength_def Let_def split: if_splits)
qed

lemma uot_decode_wf:
  assumes "uot_decode n body = Inr (datagram, flow)"
  shows "\<exists>inner al. datagram = [0, 0, 0] @ inner \<and> uotAddressLength inner False = Inr al
    \<and> length datagram \<le> n \<and> 8 \<le> length datagram"
proof -
  obtain al where al: "uotAddressLength body True = Inr al" "al + 2 \<le> length body"
      "1 + length body \<le> n"
    and dg: "datagram = [0, 0, 0] @ (take al body)[0 := body ! 0 AND 0x0f] @ drop (al + 2) body"
    using assms by (auto simp: uot_decode_def uotFlowIDSize_def socksUDPHeaderSize_def Let_def
        split: sum.splits if_splits)
  let ?inner = "(take al body)[0 := body ! 0 AND 0x0f] @ drop (al + 2) body"
  have "uotAddressLength ?inner False = Inr al \<and> 5 \<le> al"
    using al by (intro uotAddressLength_mask [of body]) simp_all
  then show ?thesis using al by (auto simp: dg intro!: exI [of _ ?inner])
qed

lemma ReadSOCKSDatagram_Inr:
  "ReadSOCKSDatagram n r = (Inr res, r') \<Longrightarrow>
   (\<exists>body. uot_decode n body = Inr res) \<and> length (st_data r') + 2 \<le> length (st_data r)"
proof (induction n r rule: ReadSOCKSDatagram.induct)
  case (1 n r)
  obtain p r1 where p: "read_full 2 r = (Inr p, r1)"
    using "1.prems" by (subst (asm) ReadSOCKSDatagram.simps)
      (auto split: prod.splits sum.splits)
  note pd = read_full_InrD [OF p]
  let ?n = "unat (be16_val (p ! 0) (p ! 1))"
  show ?case
  proof (cases "?n = 0")
    case True
    then show ?thesis
      using "1.IH" [OF p [symmetric] refl refl True] "1.prems" p pd
      by (simp add: ReadSOCKSDatagram.simps [of n r])
  next
    case False
    then show ?thesis
      using "1.prems" p pd
      by (subst (asm) ReadSOCKSDatagram.simps)
        (auto simp: Let_def split: prod.splits sum.splits dest: read_full_InrD)
  qed
qed

text \<open>
  What \<open>ReadSOCKSDatagram\<close> accepts from the server is a well-formed SOCKS datagram: it has
  the three zero prefix bytes, an address of a known type that is complete, never exceeds the
  caller's buffer, and at least two bytes of the stream are consumed by any call that returns
  a datagram.
\<close>

theorem ReadSOCKSDatagram_sound:
  assumes "ReadSOCKSDatagram dst_len r = (Inr (datagram, flow), r')"
  shows "(\<exists>inner al. datagram = [0, 0, 0] @ inner \<and> uotAddressLength inner False = Inr al)
    \<and> 8 \<le> length datagram \<and> length datagram \<le> dst_len
    \<and> length (st_data r') + 2 \<le> length (st_data r)"
  using ReadSOCKSDatagram_Inr [OF assms] uot_decode_wf by blast

lemma ReadSOCKSDatagram_sound_witness:
  "\<exists>inner al. [0, 0, 0, 1, 10, 0, 0, 1, 0, 80] = [0, 0, 0] @ inner
     \<and> uotAddressLength inner False = Inr al"
proof -
  have "ReadSOCKSDatagram 64 \<lparr>st_data = [0, 9, 0x21, 10, 0, 0, 1, 0, 80, 0, 5], st_err = EOF\<rparr>
      = (Inr ([0, 0, 0, 1, 10, 0, 0, 1, 0, 80], 5), \<lparr>st_data = [], st_err = EOF\<rparr>)"
    by code_simp
  from ReadSOCKSDatagram_sound [OF this] show ?thesis by blast
qed

end
