(* ===== verification/GoNet.thy ===== *)
theory GoNet
  imports GoEncoding
begin

text \<open>
  \<open>net/netip\<close> addresses with \<open>ParseAddr\<close> and \<open>String\<close>, and \<open>net.SplitHostPort\<close> and
  \<open>net.JoinHostPort\<close>.
\<close>

section \<open>Addresses\<close>

text \<open>An IPv4 address is its four octets; an IPv6 address its eight 16-bit groups and zone.\<close>

datatype addr = IP4 "nat list" | IP6 "nat list" string

fun addr_Is4 :: "addr \<Rightarrow> bool" where
  "addr_Is4 (IP4 os) = True"
| "addr_Is4 (IP6 gs z) = False"

fun addr_Zone :: "addr \<Rightarrow> string" where
  "addr_Zone (IP4 os) = []"
| "addr_Zone (IP6 gs z) = z"

fun group_bytes :: "bytes \<Rightarrow> nat list" where
  "group_bytes (a # b # r) = (256 * unat a + unat b) # group_bytes r"
| "group_bytes _ = []"

definition AddrFrom4 :: "bytes \<Rightarrow> addr" where
  "AddrFrom4 b = IP4 (map unat b)"

definition AddrFrom16 :: "bytes \<Rightarrow> addr" where
  "AddrFrom16 b = IP6 (group_bytes b) []"

fun addr_Unmap :: "addr \<Rightarrow> addr" where
  "addr_Unmap (IP4 os) = IP4 os"
| "addr_Unmap (IP6 gs z) =
     (if take 6 gs = [0, 0, 0, 0, 0, 0xffff]
      then IP4 [gs ! 6 div 256, gs ! 6 mod 256, gs ! 7 div 256, gs ! 7 mod 256]
      else IP6 gs z)"

text \<open>\<open>AsSlice\<close>, \<open>AddrFromSlice\<close> and \<open>IsUnspecified\<close>.\<close>

fun addr_AsSlice :: "addr \<Rightarrow> bytes" where
  "addr_AsSlice (IP4 os) = map of_nat os"
| "addr_AsSlice (IP6 gs z) = concat (map (\<lambda>g. [of_nat (g div 256), of_nat (g mod 256)]) gs)"

definition AddrFromSlice :: "bytes \<Rightarrow> addr option" where
  "AddrFromSlice b =
     (if length b = 4 then Some (AddrFrom4 b)
      else if length b = 16 then Some (AddrFrom16 b) else None)"

fun addr_IsUnspecified :: "addr \<Rightarrow> bool" where
  "addr_IsUnspecified (IP4 os) \<longleftrightarrow> os = [0, 0, 0, 0]"
| "addr_IsUnspecified (IP6 gs z) \<longleftrightarrow> gs = replicate 8 0 \<and> z = []"

section \<open>Parsing\<close>

definition parse_octet :: "string \<Rightarrow> nat option" where
  "parse_octet s =
     (if s = [] \<or> \<not> list_all is_digit s \<or> (length s > 1 \<and> hd s = CHR ''0'') \<or> digits_val s > 255
      then None else Some (digits_val s))"

fun sequence :: "'a option list \<Rightarrow> 'a list option" where
  "sequence [] = Some []"
| "sequence (None # r) = None"
| "sequence (Some x # r) = map_option (\<lambda>xs. x # xs) (sequence r)"

definition parse_ipv4 :: "string \<Rightarrow> nat list option" where
  "parse_ipv4 s =
     (let fields = split_on (CHR ''.'') s in
      if length fields \<noteq> 4 then None else sequence (map parse_octet fields))"

definition hex_digit_val :: "char \<Rightarrow> nat option" where
  "hex_digit_val c =
     (let n = chr_code c in
      if 48 \<le> n \<and> n \<le> 57 then Some (n - 48)
      else if 97 \<le> n \<and> n \<le> 102 then Some (n - 97 + 10)
      else if 65 \<le> n \<and> n \<le> 70 then Some (n - 65 + 10) else None)"

definition hex_val :: "string \<Rightarrow> nat" where
  "hex_val s = foldl (\<lambda>n c. n * 16 + (case hex_digit_val c of Some d \<Rightarrow> d | None \<Rightarrow> 0)) 0 s"

text \<open>
  The loop of \<open>parseIPv6\<close>: the groups read so far and the position of the ellipsis. A group is
  followed by the end, a colon and more, or is the start of a dotted tail.
\<close>

function v6_loop :: "string \<Rightarrow> nat list \<Rightarrow> nat option \<Rightarrow> (nat list \<times> nat option) option" where
  "v6_loop s gs ellipsis =
     (if 8 \<le> length gs then (if s = [] then Some (gs, ellipsis) else None)
      else
        let h = takeWhile (\<lambda>c. hex_digit_val c \<noteq> None) s;
            rest = drop (length h) s;
            gs' = gs @ [hex_val h]
        in if h = [] \<or> length h > 4 then None
           else if rest \<noteq> [] \<and> hd rest = CHR ''.'' then
             (if (ellipsis = None \<and> length gs \<noteq> 6) \<or> length gs > 6 then None
              else case parse_ipv4 s of
                     Some [a, b, c, d] \<Rightarrow> Some (gs @ [256 * a + b, 256 * c + d], ellipsis)
                   | _ \<Rightarrow> None)
           else if rest = [] then Some (gs', ellipsis)
           else if hd rest \<noteq> CHR '':'' \<or> length rest = 1 then None
           else if hd (tl rest) = CHR '':'' then
             (if ellipsis \<noteq> None then None
              else if tl (tl rest) = [] then Some (gs', Some (length gs'))
              else v6_loop (tl (tl rest)) gs' (Some (length gs')))
           else v6_loop (tl rest) gs' ellipsis)"
  by pat_completeness auto
termination
  by (relation "measure (\<lambda>(s, _). length s)") (auto simp: less_diff_conv)

declare v6_loop.simps [simp del]

definition parse_ipv6 :: "string \<Rightarrow> addr option" where
  "parse_ipv6 input =
     (let s = takeWhile (\<lambda>c. c \<noteq> CHR ''%'') input;
          has_zone = CHR ''%'' \<in> set input;
          zone = drop (length s + 1) input;
          start = (if take 2 s = ''::'' then Some (0 :: nat) else None);
          body = (if start = None then s else drop 2 s)
      in if has_zone \<and> zone = [] then None
         else if start \<noteq> None \<and> body = [] then Some (IP6 (replicate 8 0) zone)
         else case v6_loop body [] start of
                None \<Rightarrow> None
              | Some (gs, ellipsis) \<Rightarrow>
                  if length gs < 8 then
                    (case ellipsis of
                       None \<Rightarrow> None
                     | Some e \<Rightarrow> Some (IP6 (take e gs @ replicate (8 - length gs) 0 @ drop e gs) zone))
                  else if ellipsis \<noteq> None then None
                  else Some (IP6 gs zone))"

definition ParseAddr :: "string \<Rightarrow> addr option" where
  "ParseAddr s =
     (case dropWhile (\<lambda>c. c \<notin> {CHR ''.'', CHR '':'', CHR ''%''}) s of
        [] \<Rightarrow> None
      | c # _ \<Rightarrow>
          if c = CHR ''.'' then map_option IP4 (parse_ipv4 s)
          else if c = CHR '':'' then parse_ipv6 s
          else None)"

section \<open>Printing\<close>

fun hex :: "nat \<Rightarrow> string" where
  "hex n = (if n < 16 then [''0123456789abcdef'' ! n] else hex (n div 16) @ [''0123456789abcdef'' ! (n mod 16)])"

declare hex.simps [simp del]

definition string4 :: "nat list \<Rightarrow> string" where
  "string4 os = join_on (CHR ''.'') (map dec os)"

text \<open>The first longest run of zero groups, when it has at least two.\<close>

definition zero_run :: "nat list \<Rightarrow> (nat \<times> nat) option" where
  "zero_run gs =
     (let ls = map (\<lambda>i. length (takeWhile (\<lambda>x. x = 0) (drop i gs))) [0..<length gs];
          m = fold max ls 0
      in if 2 \<le> m then Some (length (takeWhile (\<lambda>l. l \<noteq> m) ls), m) else None)"

definition string6 :: "nat list \<Rightarrow> string" where
  "string6 gs =
     (case zero_run gs of
        None \<Rightarrow> join_on (CHR '':'') (map hex gs)
      | Some (i, l) \<Rightarrow>
          join_on (CHR '':'') (map hex (take i gs)) @ ''::''
            @ join_on (CHR '':'') (map hex (drop (i + l) gs)))"

text \<open>\<open>Is4In6\<close> addresses are printed with a dotted tail.\<close>

fun addr_String :: "addr \<Rightarrow> string" where
  "addr_String (IP4 os) = string4 os"
| "addr_String (IP6 gs zone) =
     (if addr_Is4 (addr_Unmap (IP6 gs zone))
      then ''::ffff:'' @ string4 [gs ! 6 div 256, gs ! 6 mod 256, gs ! 7 div 256, gs ! 7 mod 256]
      else string6 gs) @ (if zone = [] then [] else ''%'' @ zone)"

section \<open>Host and port\<close>

definition JoinHostPort :: "string \<Rightarrow> string \<Rightarrow> string" where
  "JoinHostPort host port =
     (if CHR '':'' \<in> set host then ''['' @ host @ '']:'' @ port else host @ '':'' @ port)"

definition SplitHostPort :: "string \<Rightarrow> (string \<times> string) option" where
  "SplitHostPort hostport =
     (if CHR '':'' \<notin> set hostport then None
      else
        let port = rev (takeWhile (\<lambda>c. c \<noteq> CHR '':'') (rev hostport));
            i = length hostport - length port - 1
        in if hd hostport = CHR ''['' then
             (let e = length (takeWhile (\<lambda>c. c \<noteq> CHR '']'') hostport) in
              if e = length hostport \<or> e + 1 \<noteq> i then None
              else if CHR ''['' \<in> set (drop 1 hostport) \<or> CHR '']'' \<in> set (drop (e + 1) hostport)
              then None else Some (drop 1 (take e hostport), port))
           else
             (let host = take i hostport in
              if CHR '':'' \<in> set host \<or> CHR ''['' \<in> set hostport \<or> CHR '']'' \<in> set hostport then None
              else Some (host, port)))"

section \<open>Lemmas\<close>

lemma parse_octet_dec: "n \<le> 255 \<Longrightarrow> parse_octet (dec n) = Some n"
proof -
  assume n: "n \<le> 255"
  have z: "hd (dec m) \<noteq> CHR ''0''" if "10 \<le> m" for m
    using that
  proof (induction m rule: dec.induct)
    case (1 m)
    then have m: "\<not> m < 10" by simp
    have zero: "d = 0" if "d < 10" "digit_char d = CHR ''0''" for d
      using that chr_code_digit_char [of d] by (simp add: chr_code_def)
    show ?case
    proof (cases "m div 10 < 10")
      case True
      then have "dec m = [digit_char (m div 10), digit_char (m mod 10)]"
        using m by (subst dec.simps, subst dec.simps) simp
      then show ?thesis using zero [of "m div 10"] True m by auto
    next
      case False
      then have "hd (dec (m div 10)) \<noteq> CHR ''0''" using "1.IH" m by simp
      then show ?thesis using m by (subst dec.simps) (simp add: hd_append)
    qed
  qed
  have "length (dec n) > 1 \<Longrightarrow> 10 \<le> n"
    by (rule ccontr) (simp add: dec.simps)
  then show ?thesis
    using n z by (auto simp: parse_octet_def dec_digits)
qed

lemma dec_no_dot: "CHR ''.'' \<notin> set (dec n)" "CHR '':'' \<notin> set (dec n)" "CHR ''%'' \<notin> set (dec n)"
  by (rule dec_no_char; simp add: is_digit_def chr_code_def)+

lemma parse_ipv4_string4:
  assumes "length os = 4" and "\<forall>o'\<in>set os. o' \<le> 255"
  shows "parse_ipv4 (string4 os) = Some os"
proof -
  obtain a b c d where os: "os = [a, b, c, d]"
    using assms(1) by (auto simp: numeral_eq_Suc length_Suc_conv)
  then have "split_on (CHR ''.'') (string4 os) = [dec a, dec b, dec c, dec d]"
    by (simp add: string4_def split_on_append split_on_no_sep dec_no_dot)
  then show ?thesis
    using assms(2) by (simp add: parse_ipv4_def os parse_octet_dec)
qed

lemma ParseAddr_string4:
  assumes "length os = 4" and "\<forall>o'\<in>set os. o' \<le> 255"
  shows "ParseAddr (addr_String (IP4 os)) = Some (IP4 os)"
proof -
  obtain a b c d where os: "os = [a, b, c, d]"
    using assms(1) by (auto simp: numeral_eq_Suc length_Suc_conv)
  have "c' \<notin> {CHR ''.'', CHR '':'', CHR ''%''}" if "c' \<in> set (dec a)" for c'
    using that dec_no_dot [of a] by auto
  then have "dropWhile (\<lambda>c. c \<notin> {CHR ''.'', CHR '':'', CHR ''%''}) (string4 os)
      = CHR ''.'' # dec b @ CHR ''.'' # dec c @ CHR ''.'' # dec d"
    by (simp add: string4_def os dropWhile_append2)
  then show ?thesis
    using parse_ipv4_string4 [OF assms] by (simp add: ParseAddr_def)
qed

text \<open>Joining and splitting are inverse on hosts without brackets.\<close>

lemma rev_takeWhile_port:
  assumes "CHR '':'' \<notin> set port"
  shows "rev (takeWhile (\<lambda>c. c \<noteq> CHR '':'') (rev (h @ CHR '':'' # port))) = port"
proof -
  have "takeWhile (\<lambda>c. c \<noteq> CHR '':'') (rev port @ CHR '':'' # rev h) = rev port"
    using assms by (subst takeWhile_append2) auto
  then show ?thesis by simp
qed

lemma SplitHostPort_JoinHostPort:
  assumes "CHR '':'' \<notin> set port" "CHR ''['' \<notin> set (host @ port)" "CHR '']'' \<notin> set (host @ port)"
    and "host \<noteq> []"
  shows "SplitHostPort (JoinHostPort host port) = Some (host, port)"
proof (cases "CHR '':'' \<in> set host")
  case False
  then have "SplitHostPort (JoinHostPort host port) = SplitHostPort (host @ CHR '':'' # port)"
    by (simp add: JoinHostPort_def)
  moreover have "hd (host @ CHR '':'' # port) \<noteq> CHR ''[''" using assms(2,4) by (cases host) auto
  ultimately show ?thesis
    using False assms rev_takeWhile_port [OF assms(1), of host] by (simp add: SplitHostPort_def Let_def)
next
  case True
  have "takeWhile (\<lambda>c. c \<noteq> CHR '']'') (host @ CHR '']'' # CHR '':'' # port) = host"
    using assms(3) by (subst takeWhile_append2) auto
  then show ?thesis
    using True assms rev_takeWhile_port [OF assms(1), of "CHR ''['' # host @ '']''"]
    by (simp add: SplitHostPort_def JoinHostPort_def Let_def)
qed

text \<open>What parsing accepts is a well-formed address.\<close>

fun addr_wf :: "addr \<Rightarrow> bool" where
  "addr_wf (IP4 os) \<longleftrightarrow> length os = 4 \<and> (\<forall>n\<in>set os. n \<le> 255)"
| "addr_wf (IP6 gs z) \<longleftrightarrow> length gs = 8 \<and> (\<forall>n\<in>set gs. n < 65536)"

lemma sequence_Some: "sequence xs = Some ys \<Longrightarrow> map Some ys = xs"
  by (induction xs arbitrary: ys rule: sequence.induct) auto

lemma parse_octet_le: "parse_octet s = Some n \<Longrightarrow> n \<le> 255"
  by (auto simp: parse_octet_def split: if_splits)

lemma parse_ipv4_wf:
  assumes "parse_ipv4 s = Some os"
  shows "length os = 4 \<and> (\<forall>n\<in>set os. n \<le> 255)"
proof -
  have l: "length (split_on (CHR ''.'') s) = 4"
    and "sequence (map parse_octet (split_on (CHR ''.'') s)) = Some os"
    using assms by (auto simp: parse_ipv4_def Let_def split: if_splits)
  from sequence_Some [OF this(2)] have m: "map Some os = map parse_octet (split_on (CHR ''.'') s)" .
  have "length os = 4" using arg_cong [OF m, of length] l by simp
  moreover have "n \<le> 255" if "n \<in> set os" for n
  proof -
    have "Some n \<in> set (map Some os)" using that by simp
    then show ?thesis unfolding m using parse_octet_le by auto
  qed
  ultimately show ?thesis by blast
qed

lemma hex_digit_val_lt: "hex_digit_val c = Some n \<Longrightarrow> n < 16"
  by (auto simp: hex_digit_val_def Let_def split: if_splits)

lemma hex_val_lt: "hex_val s < 16 ^ length s"
proof (induction s rule: rev_induct)
  case Nil
  then show ?case by (simp add: hex_val_def)
next
  case (snoc c s)
  have "(case hex_digit_val c of Some d \<Rightarrow> d | None \<Rightarrow> 0) < 16"
    using hex_digit_val_lt by (auto split: option.splits)
  then show ?case using snoc by (simp add: hex_val_def)
qed

lemma hex_val_group: "length s \<le> 4 \<Longrightarrow> hex_val s < 65536"
proof -
  assume "length s \<le> 4"
  then have "(16 :: nat) ^ length s \<le> 16 ^ 4" by (intro power_increasing) simp_all
  then show ?thesis using hex_val_lt [of s] by simp
qed

definition v6_state_ok :: "nat list \<Rightarrow> nat option \<Rightarrow> bool" where
  "v6_state_ok gs ellipsis \<longleftrightarrow>
     length gs \<le> 8 \<and> (\<forall>n\<in>set gs. n < 65536) \<and> (\<forall>e. ellipsis = Some e \<longrightarrow> e \<le> length gs)"

lemma v6_loop_ok:
  "v6_loop s gs ellipsis = Some (gs', ellipsis') \<Longrightarrow> v6_state_ok gs ellipsis \<Longrightarrow>
   v6_state_ok gs' ellipsis'"
proof (induction s gs ellipsis rule: v6_loop.induct)
  case (1 s gs ellipsis)
  define h where "h = takeWhile (\<lambda>c. hex_digit_val c \<noteq> None) s"
  define rest where "rest = drop (length h) s"
  define gs1 where "gs1 = gs @ [hex_val h]"
  show ?case
  proof (cases "8 \<le> length gs \<or> h = [] \<or> 4 < length h")
    case True
    then show ?thesis
      using "1.prems" by (subst (asm) v6_loop.simps) (auto simp: Let_def h_def split: if_splits)
  next
    case False
    then have lt: "length gs < 8" and h4: "length h \<le> 4" by auto
    have ok1: "v6_state_ok gs1 ellipsis"
      using "1.prems"(2) lt hex_val_group [OF h4] by (auto simp: v6_state_ok_def gs1_def)
    have ok2: "v6_state_ok gs1 (Some (length gs1))"
      using ok1 by (simp add: v6_state_ok_def)
    have tail: "v6_state_ok (gs @ [256 * a + b, 256 * c + d]) ellipsis"
      if "parse_ipv4 s = Some [a, b, c, d]" "length gs \<le> 6" for a b c d
      using parse_ipv4_wf [OF that(1)] that(2) "1.prems"(2) by (auto simp: v6_state_ok_def)
    note unfolded = "1.prems"(1) [unfolded v6_loop.simps [of s gs] Let_def, folded h_def,
        folded rest_def, folded gs1_def]
    note ih = "1.IH" [OF _ h_def rest_def gs1_def]
    consider "rest \<noteq> []" "hd rest = CHR ''.''" | "rest = []"
      | "rest \<noteq> []" "hd rest \<noteq> CHR ''.''" by blast
    then show ?thesis
    proof cases
      case 1
      then show ?thesis
        using unfolded False tail by (auto split: if_splits option.splits list.splits)
    next
      case 2
      then show ?thesis using unfolded False ok1 by auto
    next
      case 3
      then show ?thesis
        using unfolded False ok2 ok1 ih by (auto split: if_splits)
    qed
  qed
qed

lemma ParseAddr_wf:
  assumes "ParseAddr s = Some a"
  shows "addr_wf a"
proof -
  have "addr_wf a" if p: "parse_ipv6 s = Some a"
  proof -
    consider (loop) body start gs e zone where "v6_loop body [] start = Some (gs, e)"
        "start = None \<or> start = Some 0"
        "(\<exists>k. e = Some k \<and> a = IP6 (take k gs @ replicate (8 - length gs) 0 @ drop k gs) zone \<and> length gs < 8)
         \<or> a = IP6 gs zone \<and> \<not> length gs < 8"
      | (unspecified) zone where "a = IP6 (replicate 8 0) zone"
      using p by (auto simp: parse_ipv6_def Let_def split: if_splits option.splits)
    then show ?thesis
    proof cases
      case loop
      have "v6_state_ok gs e" using v6_loop_ok [OF loop(1)] loop(2) by (auto simp: v6_state_ok_def)
      then have "length gs \<le> 8" "\<forall>n\<in>set gs. n < 65536" "\<And>k. e = Some k \<Longrightarrow> k \<le> length gs"
        by (auto simp: v6_state_ok_def)
      moreover from this(2) have "\<forall>n\<in>set (take k gs) \<union> set (drop k gs). n < 65536" for k
        by (meson Un_iff in_set_dropD in_set_takeD)
      ultimately show ?thesis
        using loop(3) by (force simp: min_absorb2)
    next
      case unspecified
      then show ?thesis by simp
    qed
  qed
  then show ?thesis
    using assms parse_ipv4_wf by (auto simp: ParseAddr_def split: list.splits if_splits)
qed

lemma group_bytes_AsSlice:
  "\<forall>g\<in>set gs. g < 65536 \<Longrightarrow> group_bytes (concat (map (\<lambda>g. [of_nat (g div 256), of_nat (g mod 256)]) gs)) = gs"
proof (induction gs)
  case (Cons g gs)
  then have "g div 256 < 256" by (simp add: less_mult_imp_div_less)
  then have "256 * unat (of_nat (g div 256) :: byte) + unat (of_nat (g mod 256) :: byte) = g"
    by (simp add: unat_of_nat)
  with Cons show ?case by simp
qed simp

lemma AsSlice_AddrFrom:
  "addr_wf (IP4 os) \<Longrightarrow> AddrFrom4 (addr_AsSlice (IP4 os)) = IP4 os"
  "addr_wf (IP6 gs z) \<Longrightarrow> AddrFrom16 (addr_AsSlice (IP6 gs z)) = IP6 gs []"
  "addr_wf (IP4 os) \<Longrightarrow> length (addr_AsSlice (IP4 os)) = 4"
  "addr_wf (IP6 gs z) \<Longrightarrow> length (addr_AsSlice (IP6 gs z)) = 16"
proof -
  assume "addr_wf (IP4 os)"
  then have "\<forall>n\<in>set os. n \<le> 255" by simp
  then have "map (\<lambda>n. unat (of_nat n :: byte)) os = os"
    by (induction os) (auto simp: unat_of_nat)
  then show "AddrFrom4 (addr_AsSlice (IP4 os)) = IP4 os" by (simp add: AddrFrom4_def comp_def)
next
  have "length (concat (map (\<lambda>g. [of_nat (g div 256), of_nat (g mod 256) :: byte]) gs)) = 2 * length gs"
    by (induction gs) simp_all
  then show "addr_wf (IP6 gs z) \<Longrightarrow> length (addr_AsSlice (IP6 gs z)) = 16" by simp
qed (simp_all add: AddrFrom16_def group_bytes_AsSlice)

section \<open>Characters of addresses\<close>

lemma hex_chars: "set (hex n) \<subseteq> set ''0123456789abcdef''"
proof (induction n rule: hex.induct)
  case (1 n)
  have nth: "''0123456789abcdef'' ! k \<in> set ''0123456789abcdef''" if "k < 16" for k
    by (rule nth_mem) (use that in simp)
  show ?case
  proof (cases "n < 16")
    case True
    then show ?thesis using nth [of n] by (subst hex.simps) simp
  next
    case False
    have "''0123456789abcdef'' ! (n mod 16) \<in> set ''0123456789abcdef''" by (rule nth) simp
    then show ?thesis using False "1.IH" by (subst hex.simps) auto
  qed
qed

lemma set_join_on: "set (join_on c ws) \<subseteq> insert c (\<Union> (set ` set ws))"
  by (induction c ws rule: join_on.induct) auto

text \<open>What printing an address uses besides its zone: digits, \<open>a\<close> to \<open>f\<close>, the dot and the colon.\<close>

definition addr_char :: "char \<Rightarrow> bool" where
  "addr_char c \<longleftrightarrow> (let n = chr_code c in n = 46 \<or> 48 \<le> n \<and> n \<le> 58 \<or> 97 \<le> n \<and> n \<le> 102)"

lemma addr_char_sep: "addr_char (CHR ''.'')" "addr_char (CHR '':'')"
  by (simp_all add: addr_char_def chr_code_def)

lemma addr_char_join: "addr_char c \<Longrightarrow> \<forall>w\<in>set ws. list_all addr_char w \<Longrightarrow> list_all addr_char (join_on c ws)"
  by (induction c ws rule: join_on.induct) auto

lemma addr_char_dec: "list_all addr_char (dec n)"
  using dec_digits [of n] by (auto simp: list_all_iff is_digit_def addr_char_def Let_def)

lemma addr_char_hex: "list_all addr_char (hex n)"
proof -
  have "list_all addr_char ''0123456789abcdef''" by (simp add: addr_char_def chr_code_def)
  then show ?thesis using hex_chars [of n] by (auto simp only: list_all_iff)
qed

lemma addr_char_string4: "list_all addr_char (string4 os)"
  unfolding string4_def by (rule addr_char_join) (simp_all add: addr_char_sep addr_char_dec)

lemma addr_char_string6: "list_all addr_char (string6 gs)"
proof -
  have "list_all addr_char (join_on (CHR '':'') (map hex xs))" for xs
    by (rule addr_char_join) (simp_all add: addr_char_sep addr_char_hex)
  then show ?thesis by (simp add: string6_def addr_char_sep split: option.splits prod.splits)
qed

lemma addr_String_chars:
  obtains p where "list_all addr_char p" "addr_String a = p @ (if addr_Zone a = [] then [] else ''%'' @ addr_Zone a)"
proof (cases a)
  case (IP4 os)
  then show ?thesis using that [OF addr_char_string4 [of os]] by simp
next
  case (IP6 gs z)
  have "list_all addr_char (''::ffff:'' @ string4 os)" for os
    using addr_char_string4 [of os] by (simp add: addr_char_def chr_code_def)
  then show ?thesis using IP6 that addr_char_string6 [of gs] by (cases "addr_Is4 (addr_Unmap a)") auto
qed

lemma ParseAddr_zone:
  assumes "ParseAddr s = Some a"
  shows "set (addr_Zone a) \<subseteq> set s"
proof -
  have "set z \<subseteq> set s" if "parse_ipv6 s = Some (IP6 gs z)" for gs z
  proof -
    have "z = drop (length (takeWhile (\<lambda>c. c \<noteq> CHR ''%'') s) + 1) s"
      using that by (auto simp: parse_ipv6_def Let_def split: if_splits option.splits)
    then show ?thesis by (simp add: set_drop_subset)
  qed
  moreover have "\<exists>gs z. a = IP6 gs z" if "parse_ipv6 s = Some a"
    using that by (auto simp: parse_ipv6_def Let_def split: if_splits option.splits)
  ultimately show ?thesis
    using assms by (auto simp: ParseAddr_def split: list.splits if_splits)
qed

lemma addr_String_no_nul:
  "nul \<notin> set (addr_Zone a) \<Longrightarrow> nul \<notin> set (addr_String a)"
  by (rule addr_String_chars [of a]) (auto simp: list_all_iff addr_char_def nul_def chr_code_def)

end
