(* ===== verification/Socks_Protocol.thy ===== *)
theory Socks_Protocol
  imports Wifiin_UDP GoNet
begin

text \<open>
  \<open>internal/socks/protocol.go\<close>: the SOCKS5 method negotiation, the RFC 1929 credentials, the
  request and the reply. The client connection is the stream of bytes still to be read from it
  and the writer of the bytes sent to it. A read that fails gives the component's error wrapped
  with the stream's error as text, so only the former can be recognised by \<open>errors.Is\<close>. The
  values Go returns beside an error are not used by any caller and are not represented.
\<close>

section \<open>Constants and errors\<close>

definition version5 :: byte where "version5 = 0x05"
definition version1929 :: byte where "version1929 = 0x01"
definition methodUserPassword :: byte where "methodUserPassword = 0x02"
definition methodNoAcceptable :: byte where "methodNoAcceptable = 0xff"
definition commandConnect :: byte where "commandConnect = 0x01"
definition commandUDP :: byte where "commandUDP = 0x03"
definition addressIPv4 :: byte where "addressIPv4 = 0x01"
definition addressDomain :: byte where "addressDomain = 0x03"
definition addressIPv6 :: byte where "addressIPv6 = 0x04"
definition replySucceeded :: byte where "replySucceeded = 0x00"
definition replyGeneralFailure :: byte where "replyGeneralFailure = 0x01"
definition replyConnectionForbidden :: byte where "replyConnectionForbidden = 0x02"
definition replyNetworkUnreachable :: byte where "replyNetworkUnreachable = 0x03"
definition replyHostUnreachable :: byte where "replyHostUnreachable = 0x04"
definition replyConnectionRefused :: byte where "replyConnectionRefused = 0x05"
definition replyTTLExpired :: byte where "replyTTLExpired = 0x06"
definition replyCommandUnsupported :: byte where "replyCommandUnsupported = 0x07"
definition replyAddressUnsupported :: byte where "replyAddressUnsupported = 0x08"

lemmas socks_constants =
  version5_def version1929_def methodUserPassword_def methodNoAcceptable_def
  addressIPv4_def addressDomain_def addressIPv6_def

lemmas socks_replies =
  replySucceeded_def replyGeneralFailure_def replyConnectionForbidden_def
  replyNetworkUnreachable_def replyHostUnreachable_def replyConnectionRefused_def
  replyTTLExpired_def replyCommandUnsupported_def replyAddressUnsupported_def

abbreviation errBadGreeting :: go_error where
  "errBadGreeting \<equiv> Sent ''socks: malformed method negotiation''"
abbreviation errBadAuth :: go_error where
  "errBadAuth \<equiv> Sent ''socks: malformed RFC1929 authentication''"
abbreviation errBadRequest :: go_error where
  "errBadRequest \<equiv> Sent ''socks: malformed request''"
abbreviation errBadAddress :: go_error where
  "errBadAddress \<equiv> Sent ''socks: malformed target address''"
abbreviation errAddressTypeUnsupported :: go_error where
  "errAddressTypeUnsupported \<equiv> Sent ''socks: unsupported target address type''"

record target =
  tgt_Host :: string
  tgt_Port :: u16

section \<open>Writing\<close>

function writeAll :: "bytes \<Rightarrow> writer \<Rightarrow> go_error option \<times> writer" where
  "writeAll p w =
     (if p \<noteq> [] then
        (case wr_write p w of
           (n, err, w') \<Rightarrow>
             (case err of
                Some e \<Rightarrow> (Some e, w')
              | None \<Rightarrow> if n = 0 then (Some ErrShortWrite, w') else writeAll (drop n p) w'))
      else (None, w))"
  by auto
termination by (relation "measure (\<lambda>(p, _). length p)") auto

declare writeAll.simps [simp del]

definition writeAuthStatus :: "writer \<Rightarrow> bool \<Rightarrow> go_error option \<times> writer" where
  "writeAuthStatus w success = writeAll [version1929, if success then 0 else 0x01] w"

definition writeReply :: "byte \<Rightarrow> target \<Rightarrow> writer \<Rightarrow> go_error option \<times> writer" where
  "writeReply code bound w =
     (if tgt_Host bound = []
      then writeAll [version5, code, 0, addressIPv4, 0, 0, 0, 0, 0, 0] w
      else case ParseAddr (tgt_Host bound) of
        Some ip \<Rightarrow>
          writeAll ([version5, code, 0, if addr_Is4 ip then addressIPv4 else addressIPv6]
            @ addr_AsSlice ip @ be16 (tgt_Port bound)) w
      | None \<Rightarrow>
          if length (tgt_Host bound) > 255 then (Some errBadAddress, w)
          else writeAll ([version5, code, 0, addressDomain, of_nat (length (tgt_Host bound))]
            @ bytes_of_string (tgt_Host bound) @ be16 (tgt_Port bound)) w)"

section \<open>Reading\<close>

definition negotiate :: "stream \<Rightarrow> writer \<Rightarrow> go_error option \<times> stream \<times> writer" where
  "negotiate r w =
     (case read_full 2 r of
        (Inl _, r) \<Rightarrow> (Some (Wrap ''%w: %v'' errBadGreeting), r, w)
      | (Inr header, r) \<Rightarrow>
          if header ! 0 \<noteq> version5 \<or> header ! 1 = 0 then (Some errBadGreeting, r, w)
          else case read_full (unat (header ! 1)) r of
            (Inl _, r) \<Rightarrow> (Some (Wrap ''%w: %v'' errBadGreeting), r, w)
          | (Inr methods, r) \<Rightarrow>
              if methodUserPassword \<in> set methods then
                (case writeAll [version5, methodUserPassword] w of (err, w) \<Rightarrow> (err, r, w))
              else
                (case writeAll [version5, methodNoAcceptable] w of
                   (Some err, w) \<Rightarrow> (Some err, r, w)
                 | (None, w) \<Rightarrow> (Some errBadGreeting, r, w)))"

definition readUserPassword :: "stream \<Rightarrow> (go_error + (string \<times> string)) \<times> stream" where
  "readUserPassword r =
     rd_bind (rd_wrap ''%w: %v'' errBadAuth (read_full 2 r)) (\<lambda>h r.
       if h ! 0 \<noteq> version1929 \<or> h ! 1 = 0 then (Inl errBadAuth, r)
       else rd_bind (rd_wrap ''%w: %v'' errBadAuth (read_full (unat (h ! 1)) r)) (\<lambda>username r.
         rd_bind (rd_wrap ''%w: %v'' errBadAuth (read_full 1 r)) (\<lambda>n r.
           if n ! 0 = 0 then (Inl errBadAuth, r)
           else rd_bind (rd_wrap ''%w: %v'' errBadAuth (read_full (unat (n ! 0)) r)) (\<lambda>password r.
             (Inr (string_of_bytes username, string_of_bytes password), r)))))"

definition readTargetHost :: "byte \<Rightarrow> stream \<Rightarrow> (go_error + string) \<times> stream" where
  "readTargetHost atyp r =
     (if atyp = addressIPv4 then
        rd_bind (rd_wrap ''%w: %v'' errBadAddress (read_full 4 r)) (\<lambda>raw r.
          (Inr (addr_String (AddrFrom4 raw)), r))
      else if atyp = addressIPv6 then
        rd_bind (rd_wrap ''%w: %v'' errBadAddress (read_full 16 r)) (\<lambda>raw r.
          (Inr (addr_String (AddrFrom16 raw)), r))
      else if atyp = addressDomain then
        rd_bind (rd_wrap ''%w: %v'' errBadAddress (read_full 1 r)) (\<lambda>n r.
          if n ! 0 = 0 then (Inl errBadAddress, r)
          else rd_bind (rd_wrap ''%w: %v'' errBadAddress (read_full (unat (n ! 0)) r)) (\<lambda>name r.
            if list_ex (\<lambda>b. b < 0x21 \<or> b > 0x7e) name then (Inl errBadAddress, r)
            else (Inr (string_of_bytes name), r)))
      else (Inl errAddressTypeUnsupported, r))"

definition readTargetAddress :: "stream \<Rightarrow> byte \<Rightarrow> (go_error + (string \<times> u16)) \<times> stream" where
  "readTargetAddress r atyp =
     rd_bind (readTargetHost atyp r) (\<lambda>host r.
       rd_bind (rd_wrap ''%w: %v'' errBadAddress (read_full 2 r)) (\<lambda>portBytes r.
         (Inr (host, be16_val (portBytes ! 0) (portBytes ! 1)), r)))"

definition readRequest :: "stream \<Rightarrow> (go_error + (byte \<times> target)) \<times> stream" where
  "readRequest r =
     rd_bind (rd_wrap ''%w: %v'' errBadRequest (read_full 4 r)) (\<lambda>header r.
       if header ! 0 \<noteq> version5 \<or> header ! 2 \<noteq> 0 then (Inl errBadRequest, r)
       else rd_bind (readTargetAddress r (header ! 3)) (\<lambda>(host, port) r.
         (Inr (header ! 1, \<lparr>tgt_Host = host, tgt_Port = port\<rparr>), r)))"

section \<open>Lemmas\<close>

lemma writeAll_out:
  "writeAll p w = (err, w') \<Longrightarrow>
   \<exists>n. wr_out w' = wr_out w @ take n p \<and> (err = None \<longrightarrow> length p \<le> n)"
proof (induction p w rule: writeAll.induct)
  case (1 p w)
  show ?case
  proof (cases "p = []")
    case True
    then show ?thesis using "1.prems" by (simp add: writeAll.simps [of "[]" w])
  next
    case False
    obtain n e w1 where wr: "wr_write p w = (n, e, w1)" by (metis prod_cases3)
    then have out: "wr_out w1 = wr_out w @ take n p"
      by (auto simp: wr_write_def Let_def split: list.splits)
    show ?thesis
    proof (cases "e = None \<and> n \<noteq> 0")
      case True
      then have "writeAll (drop n p) w1 = (err, w')"
        using "1.prems" False wr by (simp add: writeAll.simps [of p w])
      then obtain m where "wr_out w' = wr_out w1 @ take m (drop n p)"
          and "err = None \<longrightarrow> length (drop n p) \<le> m"
        using "1.IH" [OF False wr [symmetric] refl] True by blast
      then show ?thesis
        using out by (intro exI [of _ "n + m"]) (auto simp: take_add)
    next
      case False
      then have "w' = w1 \<and> err \<noteq> None"
        using "1.prems" \<open>p \<noteq> []\<close> wr
        by (auto simp: writeAll.simps [of p w] split: option.splits if_splits)
      then show ?thesis using out by auto
    qed
  qed
qed

lemma writeAll_Ok: "writeAll p w = (None, w') \<Longrightarrow> wr_out w' = wr_out w @ p"
  using writeAll_out by fastforce

lemma writeAll_open [simp]:
  "wr_script w = [] \<Longrightarrow> writeAll p w = (None, w\<lparr>wr_out := wr_out w @ p\<rparr>)"
  by (subst writeAll.simps, cases "p = []") (auto simp: wr_write_def writeAll.simps [of "[]"])

lemma read_full_Inr_iff:
  "read_full n r = (Inr xs, r') \<longleftrightarrow>
     length xs = n \<and> st_data r = xs @ st_data r' \<and> st_err r' = st_err r"
  by (cases r; cases r') (auto simp: read_full_def)

lemma length_one: "length xs = Suc 0 \<longleftrightarrow> (\<exists>x. xs = [x])"
  by (auto simp: length_Suc_conv)

lemma length_two: "length xs = 2 \<longleftrightarrow> (\<exists>x y. xs = [x, y])"
  by (auto simp: numeral_eq_Suc length_Suc_conv)

lemma length_four: "length xs = 4 \<longleftrightarrow> (\<exists>a b c d. xs = [a, b, c, d])"
  by (auto simp: numeral_eq_Suc length_Suc_conv)

section \<open>The opening exchange\<close>

text \<open>A client's greeting and its user name and password, as RFC 1928 and RFC 1929 lay them out.\<close>

definition greeting :: "bytes \<Rightarrow> bytes" where
  "greeting methods = [0x05, of_nat (length methods)] @ methods"

definition login :: "string \<Rightarrow> string \<Rightarrow> bytes" where
  "login u p = [0x01, of_nat (length u)] @ bytes_of_string u
     @ [of_nat (length p)] @ bytes_of_string p"

definition field_size :: "'a list \<Rightarrow> bool" where
  "field_size xs \<longleftrightarrow> 1 \<le> length xs \<and> length xs \<le> 255"

lemma field_size_byte:
  "field_size xs \<longleftrightarrow> (\<exists>b :: byte. b \<noteq> 0 \<and> length xs = unat b)"
proof
  assume s: "field_size xs"
  then have "unat (of_nat (length xs) :: byte) = length xs"
    by (simp add: field_size_def unat_of_nat)
  with s show "\<exists>b :: byte. b \<noteq> 0 \<and> length xs = unat b"
    by (intro exI [of _ "of_nat (length xs)"]) (auto simp: field_size_def simp flip: unat_eq_0)
next
  assume "\<exists>b :: byte. b \<noteq> 0 \<and> length xs = unat b"
  then obtain b :: byte where "b \<noteq> 0" "length xs = unat b" by blast
  then show "field_size xs"
    using unat_byte_lt [of b] unat_eq_0 [of b] unfolding field_size_def by linarith
qed

lemma negotiate_None_iff:
  assumes "wr_script w = []"
  shows "negotiate r w = (None, r', w') \<longleftrightarrow>
    (\<exists>methods. field_size methods \<and> 0x02 \<in> set methods
       \<and> st_data r = greeting methods @ st_data r' \<and> st_err r' = st_err r
       \<and> w' = w\<lparr>wr_out := wr_out w @ [0x05, 0x02]\<rparr>)"
    (is "?l \<longleftrightarrow> ?r")
proof
  assume ?l
  then obtain h m r1 where "read_full 2 r = (Inr h, r1)" "h ! 0 = version5" "h ! 1 \<noteq> 0"
      "read_full (unat (h ! 1)) r1 = (Inr m, r')" "methodUserPassword \<in> set m"
      "w' = w\<lparr>wr_out := wr_out w @ [version5, methodUserPassword]\<rparr>"
    using assms
    by (auto simp: negotiate_def split: prod.splits sum.splits if_splits)
  then show ?r
    by (intro exI [of _ m])
      (auto simp: read_full_Inr_iff greeting_def socks_constants field_size_byte length_two
        split: if_splits)
next
  assume ?r
  then obtain m where m: "field_size m" "0x02 \<in> set m" "st_data r = greeting m @ st_data r'"
      "st_err r' = st_err r" "w' = w\<lparr>wr_out := wr_out w @ [0x05, 0x02]\<rparr>" by blast
  have n: "unat (of_nat (length m) :: byte) = length m" "(of_nat (length m) :: byte) \<noteq> 0"
    using m(1) by (auto simp: field_size_def unat_of_nat simp flip: unat_eq_0)
  have "read_full 2 r = (Inr [0x05, of_nat (length m)], r\<lparr>st_data := m @ st_data r'\<rparr>)"
    using m(3) by (simp add: read_full_def greeting_def)
  moreover have "read_full (length m) (r\<lparr>st_data := m @ st_data r'\<rparr>) = (Inr m, r')"
    using m(4) by (simp add: read_full_Inr_iff)
  ultimately show ?l
    using m(2,5) n assms by (simp add: negotiate_def socks_constants)
qed

lemma readUserPassword_Inr_iff:
  "readUserPassword r = (Inr (u, p), r') \<longleftrightarrow>
     field_size u \<and> field_size p \<and> st_data r = login u p @ st_data r' \<and> st_err r' = st_err r"
    (is "?l \<longleftrightarrow> ?r")
proof
  assume ?l
  then obtain h us n ps r1 r2 r3 where s: "read_full 2 r = (Inr h, r1)"
      "h ! 0 = version1929" "h ! 1 \<noteq> 0" "read_full (unat (h ! 1)) r1 = (Inr us, r2)"
      "read_full 1 r2 = (Inr n, r3)" "n ! 0 \<noteq> 0" "read_full (unat (n ! 0)) r3 = (Inr ps, r')"
      "u = string_of_bytes us" "p = string_of_bytes ps"
    by (auto simp: readUserPassword_def rd_bind_eq_Inr split: if_splits)
  obtain x y where "h = [x, y]" using s(1) by (auto simp: read_full_Inr_iff length_two)
  moreover obtain z where "n = [z]" using s(5) by (auto simp: read_full_Inr_iff length_one)
  ultimately show ?r
    using s by (auto simp: read_full_Inr_iff login_def socks_constants field_size_byte)
next
  assume r: ?r
  have n: "unat (of_nat (length xs) :: byte) = length xs" "(of_nat (length xs) :: byte) \<noteq> 0"
      if "field_size xs" for xs :: string
    using that by (auto simp: field_size_def unat_of_nat simp flip: unat_eq_0)
  obtain e where e: "r = \<lparr>st_data = login u p @ st_data r', st_err = e\<rparr>" "st_err r' = e"
    using r by (cases r) simp
  show ?l
    using r e n
    by (cases r') (simp add: readUserPassword_def read_full_def login_def socks_constants)
qed

text \<open>
  The opening exchange is exactly that of RFC 1928 and RFC 1929. With a client that takes what
  is written to it, the server selects user name and password authentication and obtains a
  user name and password iff the client sent a greeting with 1 to 255 methods, \<open>0x02\<close> among them,
  followed by a user name and a password of 1 to 255 bytes each; it has answered the two bytes
  \<open>05 02\<close>, and what follows on the connection is untouched. No other byte sequence is accepted
  and none is read in two ways.
\<close>

theorem opening_exchange_exact:
  assumes "wr_script w = []"
  shows "(\<exists>r1. negotiate r w = (None, r1, w') \<and> readUserPassword r1 = (Inr (u, p), r')) \<longleftrightarrow>
    (\<exists>methods. field_size methods \<and> field_size u \<and> field_size p \<and> 0x02 \<in> set methods
       \<and> st_data r = greeting methods @ login u p @ st_data r' \<and> st_err r' = st_err r
       \<and> w' = w\<lparr>wr_out := wr_out w @ [0x05, 0x02]\<rparr>)"
    (is "?l \<longleftrightarrow> ?r")
proof
  assume ?l
  then show ?r
    using assms by (fastforce simp: negotiate_None_iff readUserPassword_Inr_iff)
next
  assume ?r
  then obtain methods where m: "field_size methods" "field_size u" "field_size p"
      "0x02 \<in> set methods" "st_data r = greeting methods @ login u p @ st_data r'"
      "st_err r' = st_err r" "w' = w\<lparr>wr_out := wr_out w @ [0x05, 0x02]\<rparr>" by blast
  then have "negotiate r w = (None, r\<lparr>st_data := login u p @ st_data r'\<rparr>, w')"
    using assms by (auto simp: negotiate_None_iff)
  moreover have "readUserPassword (r\<lparr>st_data := login u p @ st_data r'\<rparr>) = (Inr (u, p), r')"
    using m by (simp add: readUserPassword_Inr_iff)
  ultimately show ?l by blast
qed

lemma opening_exchange_exact_witness:
  "\<exists>r1. negotiate \<lparr>st_data = [5, 2, 0, 2, 1, 1, 0x61, 1, 0x62, 9], st_err = EOF\<rparr>
       \<lparr>wr_script = [], wr_out = []\<rparr> = (None, r1, \<lparr>wr_script = [], wr_out = [5, 2]\<rparr>)
     \<and> readUserPassword r1 = (Inr (''a'', ''b''), \<lparr>st_data = [9], st_err = EOF\<rparr>)"
  apply (subst opening_exchange_exact)
   apply simp
  apply (rule exI [of _ "[0, 2]"])
  apply (simp add: field_size_def greeting_def login_def)
  apply code_simp
  done

section \<open>Requests and replies\<close>

text \<open>The address forms of RFC 1928: type, encoding and the host it stands for.\<close>

definition printable :: "byte \<Rightarrow> bool" where
  "printable b \<longleftrightarrow> 0x21 \<le> b \<and> b \<le> 0x7e"

definition address_form :: "byte \<Rightarrow> bytes \<Rightarrow> string \<Rightarrow> bool" where
  "address_form atyp enc host \<longleftrightarrow>
     atyp = 0x01 \<and> length enc = 4 \<and> host = addr_String (AddrFrom4 enc)
     \<or> atyp = 0x04 \<and> length enc = 16 \<and> host = addr_String (AddrFrom16 enc)
     \<or> atyp = 0x03 \<and> field_size host \<and> list_all printable (bytes_of_string host)
        \<and> enc = of_nat (length host) # bytes_of_string host"

lemma readTargetHost_Inr_iff:
  "readTargetHost atyp r = (Inr host, r') \<longleftrightarrow>
     (\<exists>enc. address_form atyp enc host \<and> st_data r = enc @ st_data r' \<and> st_err r' = st_err r)"
    (is "?l \<longleftrightarrow> ?r")
proof
  assume l: ?l
  consider "atyp = addressIPv4" | "atyp = addressIPv6" | "atyp = addressDomain"
    using l by (auto simp: readTargetHost_def split: if_splits)
  then show ?r
  proof cases
    case 3
    then obtain n name r1 where s: "read_full 1 r = (Inr n, r1)" "n ! 0 \<noteq> 0"
        "read_full (unat (n ! 0)) r1 = (Inr name, r')" "host = string_of_bytes name"
        "list_all printable name"
      using l
      by (auto simp: readTargetHost_def rd_bind_eq_Inr socks_constants list_all_iff list_ex_iff
          printable_def not_less split: if_splits)
    obtain b where "n = [b]" using s(1) by (auto simp: read_full_Inr_iff length_one)
    then show ?thesis
      using s 3 by (auto simp: read_full_Inr_iff address_form_def socks_constants field_size_byte)
  qed (use l in \<open>auto simp: readTargetHost_def rd_bind_eq_Inr read_full_Inr_iff socks_constants
        address_form_def\<close>)
next
  assume ?r
  then obtain enc where f: "address_form atyp enc host" "st_data r = enc @ st_data r'"
      "st_err r' = st_err r" by blast
  show ?l
  proof (cases "atyp = 0x03")
    case True
    then have h: "field_size host" "list_all printable (bytes_of_string host)"
        "enc = of_nat (length host) # bytes_of_string host"
      using f(1) by (auto simp: address_form_def)
    then have n: "unat (of_nat (length host) :: byte) = length host"
        "(of_nat (length host) :: byte) \<noteq> 0"
      by (auto simp: field_size_def unat_of_nat simp flip: unat_eq_0)
    have "\<not> list_ex (\<lambda>b. b < 0x21 \<or> b > 0x7e) (bytes_of_string host)"
      using h(2) by (auto simp: list_ex_iff list_all_iff printable_def not_less)
    moreover have "read_full 1 r = (Inr [of_nat (length host)], r\<lparr>st_data := bytes_of_string host @ st_data r'\<rparr>)"
      using f(2) h(3) by (simp add: read_full_Inr_iff)
    moreover have "read_full (length host) (r\<lparr>st_data := bytes_of_string host @ st_data r'\<rparr>)
        = (Inr (bytes_of_string host), r')"
      using f(3) by (simp add: read_full_Inr_iff)
    ultimately show ?thesis
      using True n by (simp add: readTargetHost_def socks_constants)
  next
    case False
    then have "read_full (length enc) r = (Inr enc, r')"
      using f by (simp add: read_full_Inr_iff)
    then show ?thesis
      using f(1) False by (auto simp: address_form_def readTargetHost_def socks_constants)
  qed
qed

lemma readRequest_Inr_iff:
  "readRequest r = (Inr (c, \<lparr>tgt_Host = host, tgt_Port = port\<rparr>), r') \<longleftrightarrow>
     (\<exists>atyp enc. address_form atyp enc host
        \<and> st_data r = [0x05, c, 0, atyp] @ enc @ be16 port @ st_data r' \<and> st_err r' = st_err r)"
    (is "?l \<longleftrightarrow> ?r")
proof
  assume ?l
  then obtain h pb r1 r2 where s: "read_full 4 r = (Inr h, r1)" "h ! 0 = version5" "h ! 2 = 0"
      "h ! 1 = c" "readTargetHost (h ! 3) r1 = (Inr host, r2)" "read_full 2 r2 = (Inr pb, r')"
      "port = be16_val (pb ! 0) (pb ! 1)"
    by (auto simp: readRequest_def readTargetAddress_def rd_bind_eq_Inr split: if_splits prod.splits)
  obtain a b d where "h = [a, c, b, d]"
    using s(1,4) by (auto simp: read_full_Inr_iff length_four)
  moreover obtain x y where "pb = [x, y]" using s(6) by (auto simp: read_full_Inr_iff length_two)
  ultimately show ?r
    using s by (auto simp: read_full_Inr_iff readTargetHost_Inr_iff socks_constants be16_be16_val)
next
  assume ?r
  then obtain atyp enc where f: "address_form atyp enc host"
      "st_data r = [0x05, c, 0, atyp] @ enc @ be16 port @ st_data r'" "st_err r' = st_err r" by blast
  let ?r1 = "r\<lparr>st_data := enc @ be16 port @ st_data r'\<rparr>"
  let ?r2 = "r\<lparr>st_data := be16 port @ st_data r'\<rparr>"
  have "read_full 4 r = (Inr [0x05, c, 0, atyp], ?r1)"
    using f(2) by (simp add: read_full_Inr_iff)
  moreover have "readTargetHost atyp ?r1 = (Inr host, ?r2)"
    using f(1) by (auto simp: readTargetHost_Inr_iff)
  moreover have "read_full 2 ?r2 = (Inr (be16 port), r')"
    using f(3) by (simp add: read_full_Inr_iff)
  ultimately show ?l
    by (simp add: readRequest_def readTargetAddress_def socks_constants be16_nth)
qed

text \<open>
  A request is accepted iff it is one that RFC 1928 lays out: version 5, a command, a zero
  byte, one of the three address forms and a port in network order. The host obtained is the
  canonical text of an IPv4 or IPv6 address, or a name of 1 to 255 printable bytes without spaces,
  and nothing that follows the request is consumed.
\<close>

theorem readRequest_exact:
  "readRequest r = (Inr (c, t), r') \<longleftrightarrow>
     (\<exists>atyp enc. address_form atyp enc (tgt_Host t)
        \<and> st_data r = [0x05, c, 0, atyp] @ enc @ be16 (tgt_Port t) @ st_data r'
        \<and> st_err r' = st_err r)"
  by (cases t) (simp add: readRequest_Inr_iff)

text \<open>What a reply's host field says: addresses in canonical form without a zone, names as they are.\<close>

definition reply_host :: "string \<Rightarrow> string" where
  "reply_host h =
     (if h = [] then ''0.0.0.0''
      else case ParseAddr h of
        None \<Rightarrow> h
      | Some (IP4 os) \<Rightarrow> addr_String (IP4 os)
      | Some (IP6 gs _) \<Rightarrow> addr_String (IP6 gs []))"

definition reply_port :: "target \<Rightarrow> u16" where
  "reply_port t = (if tgt_Host t = [] then 0 else tgt_Port t)"

lemma writeReply_frame:
  assumes "writeReply code t w = (None, w')"
    and "ParseAddr (tgt_Host t) = None \<Longrightarrow> list_all printable (bytes_of_string (tgt_Host t))"
  shows "\<exists>atyp enc. address_form atyp enc (reply_host (tgt_Host t)) \<and>
    wr_out w' = wr_out w @ [0x05, code, 0, atyp] @ enc @ be16 (reply_port t)"
proof (cases "tgt_Host t = []")
  case True
  have "addr_String (AddrFrom4 [0, 0, 0, 0]) = ''0.0.0.0''" "be16 0 = [0, 0]" by code_simp+
  then show ?thesis
    using assms(1) True
    by (intro exI [of _ "0x01"] exI [of _ "[0, 0, 0, 0]"])
      (auto simp: writeReply_def address_form_def reply_host_def reply_port_def socks_constants
        dest!: writeAll_Ok)
next
  case host: False
  show ?thesis
  proof (cases "ParseAddr (tgt_Host t)")
    case None
    then have "wr_out w' = wr_out w @ [0x05, code, 0, 0x03] @
        (of_nat (length (tgt_Host t)) # bytes_of_string (tgt_Host t)) @ be16 (tgt_Port t)"
      and "length (tgt_Host t) \<le> 255"
      using assms(1) host
      by (auto simp: writeReply_def socks_constants split: if_splits dest!: writeAll_Ok)
    then show ?thesis
      using None assms(2) host
      by (intro exI [of _ "0x03"] exI)
        (auto simp: address_form_def field_size_def reply_host_def reply_port_def Suc_le_eq)
  next
    case (Some ip)
    have out: "wr_out w' = wr_out w @ [0x05, code, 0, if addr_Is4 ip then 0x01 else 0x04] @
        addr_AsSlice ip @ be16 (tgt_Port t)"
      using assms(1) host Some by (auto simp: writeReply_def socks_constants dest!: writeAll_Ok)
    have wf: "addr_wf ip" using Some by (rule ParseAddr_wf)
    show ?thesis
      using out host Some AsSlice_AddrFrom wf
      by (cases ip) (auto intro!: exI simp: address_form_def reply_host_def reply_port_def)
  qed
qed

text \<open>
  A reply that was written is read back by a client. When the bound host is empty, an address
  or a printable name, a successful \<open>writeReply\<close> has sent one reply that an RFC 1928 reader (the
  reply has the layout of a request, with the code in place of the command) reads as that code,
  the canonical host (\<open>0.0.0.0\<close> and port 0 when empty; an IPv6 zone is not sent) and that port,
  whatever follows it; and when \<open>writeReply\<close> refuses a name of more than 255 bytes nothing was sent.
\<close>

theorem reply_roundtrip:
  assumes "ParseAddr (tgt_Host t) = None \<longrightarrow> list_all printable (bytes_of_string (tgt_Host t))"
  shows "(writeReply code t w = (None, w') \<longrightarrow>
      (\<exists>frame. wr_out w' = wr_out w @ frame \<and>
        (\<forall>rest e. readRequest \<lparr>st_data = frame @ rest, st_err = e\<rparr> =
          (Inr (code, \<lparr>tgt_Host = reply_host (tgt_Host t), tgt_Port = reply_port t\<rparr>),
           \<lparr>st_data = rest, st_err = e\<rparr>))))
    \<and> (ParseAddr (tgt_Host t) = None \<and> length (tgt_Host t) > 255 \<longrightarrow>
      writeReply code t w = (Some errBadAddress, w))"
proof (intro conjI impI)
  assume "writeReply code t w = (None, w')"
  from writeReply_frame [OF this] assms
  obtain atyp enc where "address_form atyp enc (reply_host (tgt_Host t))"
    "wr_out w' = wr_out w @ [0x05, code, 0, atyp] @ enc @ be16 (reply_port t)" by blast
  then show "\<exists>frame. wr_out w' = wr_out w @ frame \<and>
      (\<forall>rest e. readRequest \<lparr>st_data = frame @ rest, st_err = e\<rparr> =
        (Inr (code, \<lparr>tgt_Host = reply_host (tgt_Host t), tgt_Port = reply_port t\<rparr>),
         \<lparr>st_data = rest, st_err = e\<rparr>))"
    by (intro exI [of _ "[0x05, code, 0, atyp] @ enc @ be16 (reply_port t)"])
      (auto simp: readRequest_Inr_iff)
qed (auto simp: writeReply_def)

lemma reply_roundtrip_witness:
  "\<exists>frame. frame = [5, 0, 0, 1, 10, 0, 0, 7, 0, 80] \<and>
     (\<forall>rest e. readRequest \<lparr>st_data = frame @ rest, st_err = e\<rparr> =
          (Inr (0, \<lparr>tgt_Host = reply_host ''10.0.0.7'', tgt_Port = 80\<rparr>),
           \<lparr>st_data = rest, st_err = e\<rparr>))"
proof -
  let ?t = "\<lparr>tgt_Host = ''10.0.0.7'', tgt_Port = 80\<rparr> :: target"
  have p: "ParseAddr ''10.0.0.7'' = Some (IP4 [10, 0, 0, 7])" by code_simp
  have "writeReply 0 ?t \<lparr>wr_script = [], wr_out = []\<rparr> =
      (None, \<lparr>wr_script = [], wr_out = [5, 0, 0, 1, 10, 0, 0, 7, 0, 80]\<rparr>)" by code_simp
  then show ?thesis
    using reply_roundtrip [of ?t 0 "\<lparr>wr_script = [], wr_out = []\<rparr>"
        "\<lparr>wr_script = [], wr_out = [5, 0, 0, 1, 10, 0, 0, 7, 0, 80]\<rparr>"] p
    by (simp add: reply_port_def)
qed

end
