(* ===== verification/Wifiin_Lazy.thy ===== *)
theory Wifiin_Lazy
  imports Wifiin_UDP
begin

text \<open>
  \<open>internal/kuaifan/wifiin/lazy.go\<close> and the two halves of the tunnel connection of
  \<open>internal/socks/server.go\<close> (\<open>outboundCFBWriter\<close>, \<open>cipherConn\<close>): the inbound stream whose IV
  the provider may withhold until it has seen application data, and the outbound stream that
  bounds the wait for it.
\<close>

section \<open>The inbound reader\<close>

text \<open>
  The connection's read deadline, and the errors its next \<open>SetReadDeadline\<close> calls return (none
  when the script is used up). A failed call leaves the deadline as it was. \<open>None\<close> is Go's zero
  time: no deadline.
\<close>

record deadline_conn =
  dc_deadline :: "gotime option"
  dc_script :: "go_error option list"

definition SetReadDeadline :: "gotime option \<Rightarrow> deadline_conn \<Rightarrow> go_error option \<times> deadline_conn" where
  "SetReadDeadline d c =
     (case dc_script c of
        [] \<Rightarrow> (None, c\<lparr>dc_deadline := d\<rparr>)
      | None # r \<Rightarrow> (None, c\<lparr>dc_deadline := d, dc_script := r\<rparr>)
      | Some e # r \<Rightarrow> (Some e, c\<lparr>dc_script := r\<rparr>))"

record LazyInboundReader =
  lz_source :: HandshakeReader
  lz_key :: bytes
  lz_conn :: deadline_conn
  lz_timeout :: duration
  lz_reader :: "cfb option"
  lz_init :: bool
  lz_initErr :: "go_error option"
  lz_outboundStarted :: bool
  lz_ivReady :: bool
  lz_deadlineArmed :: bool

definition NewLazyInboundReader ::
  "HandshakeReader option \<Rightarrow> bytes \<Rightarrow> deadline_conn option \<Rightarrow> duration \<Rightarrow> go_error + LazyInboundReader"
where
  "NewLazyInboundReader source key conn timeout =
     (case source of None \<Rightarrow> Inl (New ''wifiin: handshake reader is required'')
      | Some src \<Rightarrow>
          if length key \<noteq> KeySize then Inl ErrInvalidKey
          else case conn of None \<Rightarrow> Inl (New ''wifiin: read deadline connection is required'')
          | Some c \<Rightarrow>
              if timeout \<le> 0 then Inl (New ''wifiin: server IV timeout must be positive'')
              else Inr \<lparr>lz_source = src, lz_key = key, lz_conn = c, lz_timeout = timeout,
                        lz_reader = None, lz_init = False, lz_initErr = None,
                        lz_outboundStarted = False, lz_ivReady = False, lz_deadlineArmed = False\<rparr>)"

definition ArmForOutbound :: "gotime \<Rightarrow> LazyInboundReader \<Rightarrow> go_error option \<times> LazyInboundReader" where
  "ArmForOutbound now r =
     (let r = r\<lparr>lz_outboundStarted := True\<rparr> in
      if lz_ivReady r \<or> lz_deadlineArmed r then (None, r)
      else case SetReadDeadline (Some (now + lz_timeout r)) (lz_conn r) of
             (Some e, c) \<Rightarrow>
               (Some (Wrap ''wifiin: set delayed server IV deadline'' e), r\<lparr>lz_conn := c\<rparr>)
           | (None, c) \<Rightarrow> (None, r\<lparr>lz_conn := c, lz_deadlineArmed := True\<rparr>))"

definition OutboundStarted :: "LazyInboundReader \<Rightarrow> bool" where
  "OutboundStarted r = lz_outboundStarted r"

text \<open>
  \<open>initialize\<close> runs under \<open>initMu\<close> but takes \<open>mu\<close> only for the flags, so \<open>ArmForOutbound\<close> can run
  between its three parts: reading the IV (\<open>Inl\<close>: finished, with this result), setting
  \<open>ivReady\<close>, and clearing the deadline if one was armed by then.
\<close>

definition init_read :: "LazyInboundReader \<Rightarrow> (go_error option + cfb) \<times> LazyInboundReader" where
  "init_read r =
     (if lz_init r then (Inl (lz_initErr r), r)
      else
        let r = r\<lparr>lz_init := True\<rparr> in
        case ReadServerIV (lz_source r) of
          (Inl err, src) \<Rightarrow>
            let e = Wrap ''wifiin: delayed server IV'' err
            in (Inl (Some e), r\<lparr>lz_source := src, lz_initErr := Some e\<rparr>)
        | (Inr iv, src) \<Rightarrow>
            (case NewDecrypter (lz_key r) iv of
               Inl e \<Rightarrow> (Inl (Some e), r\<lparr>lz_source := src, lz_initErr := Some e\<rparr>)
             | Inr stream \<Rightarrow> (Inr stream, r\<lparr>lz_source := src\<rparr>)))"

definition init_ready :: "LazyInboundReader \<Rightarrow> bool \<times> LazyInboundReader" where
  "init_ready r = (lz_deadlineArmed r, r\<lparr>lz_ivReady := True\<rparr>)"

definition init_clear :: "cfb \<Rightarrow> bool \<Rightarrow> LazyInboundReader \<Rightarrow> go_error option \<times> LazyInboundReader" where
  "init_clear stream clearDeadline r =
     (case (if clearDeadline then SetReadDeadline None (lz_conn r) else (None, lz_conn r)) of
        (err, c) \<Rightarrow>
          let r = r\<lparr>lz_conn := c\<rparr> in
          case err of
            Some e \<Rightarrow>
              if \<not> errors_is e ErrNetClosed \<and> \<not> errors_is e ErrClosedPipe then
                let e' = Wrap ''wifiin: clear delayed server IV deadline'' e
                in (Some e', r\<lparr>lz_initErr := Some e'\<rparr>)
              else (None, r\<lparr>lz_reader := Some stream\<rparr>)
          | None \<Rightarrow> (None, r\<lparr>lz_reader := Some stream\<rparr>))"

definition lazy_initialize :: "LazyInboundReader \<Rightarrow> go_error option \<times> LazyInboundReader" where
  "lazy_initialize r =
     (case init_read r of
        (Inl res, r) \<Rightarrow> (res, r)
      | (Inr stream, r) \<Rightarrow> (case init_ready r of (clearDeadline, r) \<Rightarrow> init_clear stream clearDeadline r))"

text \<open>
  \<open>Read\<close> with a buffer of \<open>n\<close> bytes; \<open>cipher.StreamReader\<close> reads from the source and decrypts
  what it got. A reader that is initialised without error has its cipher.
\<close>

definition lazy_Read ::
  "(bytes \<Rightarrow> bytes \<Rightarrow> bytes) \<Rightarrow> nat \<Rightarrow> LazyInboundReader \<Rightarrow> bytes \<times> go_error option \<times> LazyInboundReader"
where
  "lazy_Read blk n r =
     (if n = 0 then ([], None, r)
      else case lazy_initialize r of
        (Some e, r) \<Rightarrow> ([], Some e, r)
      | (None, r) \<Rightarrow>
          (case lz_reader r of
             None \<Rightarrow> ([], Some (New ''nil reader''), r)
           | Some s \<Rightarrow>
               (case hr_Read n (lz_source r) of (bs, err, src) \<Rightarrow>
                  (case XORKeyStream blk s bs of (out, s') \<Rightarrow>
                     (out, err, r\<lparr>lz_source := src, lz_reader := Some s'\<rparr>)))))"

section \<open>The tunnel connection\<close>

text \<open>
  \<open>outboundCFBWriter\<close>: \<open>cipher.StreamWriter\<close> encrypts the whole buffer, writes it, and reports a
  short write. The upstream connection's write side is the writer; half closing and closing are
  recorded.
\<close>

datatype close_state = Open | HalfClosed | Closed

record tunnel_conn =
  tc_inbound :: LazyInboundReader
  tc_stream :: cfb
  tc_writer :: writer
  tc_close :: close_state

definition stream_write ::
  "(bytes \<Rightarrow> bytes \<Rightarrow> bytes) \<Rightarrow> bytes \<Rightarrow> tunnel_conn \<Rightarrow> nat \<times> go_error option \<times> tunnel_conn"
where
  "stream_write blk p t =
     (case XORKeyStream blk (tc_stream t) p of (c, s) \<Rightarrow>
        (case wr_write c (tc_writer t) of (n, err, w) \<Rightarrow>
           (n, (if n \<noteq> length c \<and> err = None then Some ErrShortWrite else err),
            t\<lparr>tc_stream := s, tc_writer := w\<rparr>)))"

definition tunnel_Write ::
  "(bytes \<Rightarrow> bytes \<Rightarrow> bytes) \<Rightarrow> gotime \<Rightarrow> bytes \<Rightarrow> tunnel_conn \<Rightarrow> nat \<times> go_error option \<times> tunnel_conn"
where
  "tunnel_Write blk now p t =
     (if p \<noteq> [] then
        (case ArmForOutbound now (tc_inbound t) of
           (Some e, r) \<Rightarrow> (0, Some e, t\<lparr>tc_inbound := r\<rparr>)
         | (None, r) \<Rightarrow> stream_write blk p (t\<lparr>tc_inbound := r\<rparr>))
      else stream_write blk p t)"

definition tunnel_Read ::
  "(bytes \<Rightarrow> bytes \<Rightarrow> bytes) \<Rightarrow> nat \<Rightarrow> tunnel_conn \<Rightarrow> bytes \<times> go_error option \<times> tunnel_conn"
where
  "tunnel_Read blk n t =
     (case lazy_Read blk n (tc_inbound t) of (bs, err, r) \<Rightarrow> (bs, err, t\<lparr>tc_inbound := r\<rparr>))"

text \<open>\<open>half\<close>: the connection supports closing its write side only, as a TCP connection does.\<close>

definition tunnel_CloseWrite :: "bool \<Rightarrow> tunnel_conn \<Rightarrow> tunnel_conn" where
  "tunnel_CloseWrite half t =
     (if \<not> OutboundStarted (tc_inbound t) then t\<lparr>tc_close := Closed\<rparr>
      else if half then t\<lparr>tc_close := HalfClosed\<rparr>
      else t\<lparr>tc_close := Closed\<rparr>)"

section \<open>Interleavings of the initialisation with the first write\<close>

text \<open>Where the reading goroutine is in \<open>initialize\<close>.\<close>

datatype init_pc = BeforeInit | HaveStream cfb | MarkedReady cfb bool | AfterInit "go_error option"

inductive lazy_step :: "LazyInboundReader \<times> init_pc \<Rightarrow> LazyInboundReader \<times> init_pc \<Rightarrow> bool" where
  arm: "ArmForOutbound now r = (err, r') \<Longrightarrow> lazy_step (r, pc) (r', pc)"
| read_fail: "init_read r = (Inl res, r') \<Longrightarrow> lazy_step (r, BeforeInit) (r', AfterInit res)"
| read_ok: "init_read r = (Inr s, r') \<Longrightarrow> lazy_step (r, BeforeInit) (r', HaveStream s)"
| ready: "init_ready r = (c, r') \<Longrightarrow> lazy_step (r, HaveStream s) (r', MarkedReady s c)"
| clear: "init_clear s c r = (res, r') \<Longrightarrow> lazy_step (r, MarkedReady s c) (r', AfterInit res)"

inductive_cases lazy_stepE: "lazy_step a b"

inductive lazy_reach :: "LazyInboundReader \<Rightarrow> LazyInboundReader \<times> init_pc \<Rightarrow> bool" for r0 where
  lazy_start: "lazy_reach r0 (r0, BeforeInit)"
| lazy_more: "lazy_reach r0 a \<Longrightarrow> lazy_step a b \<Longrightarrow> lazy_reach r0 b"

text \<open>
  The invariant: flags and program counter agree, a deadline is set exactly from a successful
  arming until it is cleared, and arming after \<open>ivReady\<close> cannot bring it back. A closed
  connection reports \<open>net.ErrClosed\<close> or \<open>io.ErrClosedPipe\<close>; \<open>conn_open\<close> says it does not.
\<close>

definition conn_open :: "deadline_conn \<Rightarrow> bool" where
  "conn_open c \<longleftrightarrow>
     (\<forall>e. Some e \<in> set (dc_script c) \<longrightarrow> \<not> errors_is e ErrNetClosed \<and> \<not> errors_is e ErrClosedPipe)"

fun lazy_inv :: "LazyInboundReader \<times> init_pc \<Rightarrow> bool" where
  "lazy_inv (r, BeforeInit) \<longleftrightarrow> conn_open (lz_conn r) \<and> \<not> lz_ivReady r \<and> \<not> lz_init r
     \<and> (dc_deadline (lz_conn r) = None \<longleftrightarrow> \<not> lz_deadlineArmed r)"
| "lazy_inv (r, HaveStream s) \<longleftrightarrow> conn_open (lz_conn r) \<and> \<not> lz_ivReady r
     \<and> (dc_deadline (lz_conn r) = None \<longleftrightarrow> \<not> lz_deadlineArmed r)"
| "lazy_inv (r, MarkedReady s c) \<longleftrightarrow> conn_open (lz_conn r) \<and> lz_ivReady r
     \<and> (dc_deadline (lz_conn r) = None \<longleftrightarrow> \<not> c)"
| "lazy_inv (r, AfterInit res) \<longleftrightarrow> conn_open (lz_conn r)
     \<and> (if lz_ivReady r then res = None \<longrightarrow> lz_reader r \<noteq> None \<and> dc_deadline (lz_conn r) = None
        else res \<noteq> None \<and> (dc_deadline (lz_conn r) = None \<longleftrightarrow> \<not> lz_deadlineArmed r))"

lemma SetReadDeadline_cases:
  assumes "SetReadDeadline d c = (err, c')"
  shows "(err = None \<and> dc_deadline c' = d \<or> err \<noteq> None \<and> dc_deadline c' = dc_deadline c)
    \<and> (conn_open c \<longrightarrow> conn_open c'
        \<and> (\<forall>e. err = Some e \<longrightarrow> \<not> errors_is e ErrNetClosed \<and> \<not> errors_is e ErrClosedPipe))"
  using assms
  by (auto simp: SetReadDeadline_def conn_open_def split: list.splits option.splits)

lemma Arm_cases:
  assumes "ArmForOutbound now r = (err, r')"
  shows "lz_ivReady r' = lz_ivReady r \<and> lz_reader r' = lz_reader r \<and> lz_init r' = lz_init r
    \<and> lz_outboundStarted r'
    \<and> (conn_open (lz_conn r) \<longrightarrow> conn_open (lz_conn r'))
    \<and> (if lz_ivReady r \<or> lz_deadlineArmed r
       then err = None \<and> lz_conn r' = lz_conn r \<and> lz_deadlineArmed r' = lz_deadlineArmed r
       else lz_deadlineArmed r' = (err = None)
          \<and> dc_deadline (lz_conn r') = (if err = None then Some (now + lz_timeout r) else dc_deadline (lz_conn r)))"
  using assms
  by (auto simp: ArmForOutbound_def Let_def split: if_splits option.splits prod.splits
      dest!: SetReadDeadline_cases)

lemma init_read_keeps:
  assumes "init_read r = (x, r')"
  shows "lz_conn r' = lz_conn r \<and> lz_ivReady r' = lz_ivReady r \<and> lz_deadlineArmed r' = lz_deadlineArmed r
    \<and> (\<not> lz_init r \<longrightarrow> x \<noteq> Inl None)"
  using assms
  by (auto simp: init_read_def Let_def split: if_splits prod.splits sum.splits)

lemma lazy_inv_step: "lazy_step a b \<Longrightarrow> lazy_inv a \<Longrightarrow> lazy_inv b"
proof (induction rule: lazy_step.induct)
  case (arm now r err r' pc)
  then show ?case
    by (cases pc) (auto dest!: Arm_cases split: if_splits)
next
  case (clear s c r res r')
  then show ?case
    by (auto simp: init_clear_def Let_def split: if_splits option.splits prod.splits
        dest!: SetReadDeadline_cases)
qed (auto simp: init_ready_def dest!: init_read_keeps)

lemma lazy_inv_reach: "lazy_reach r0 a \<Longrightarrow> lazy_inv (r0, BeforeInit) \<Longrightarrow> lazy_inv a"
  by (induction rule: lazy_reach.induct) (auto dest: lazy_inv_step)

text \<open>
  The wait for the server's IV is bounded exactly when it must be, under every interleaving of
  the reading goroutine with the writers. As long as the IV is outstanding the upstream
  connection has a read deadline iff a write armed it, and a write that returns without error
  leaves one; an idle tunnel has none. Once initialisation has succeeded on a connection that was
  not closed meanwhile, no deadline is left that could cut the established stream, whatever
  writes follow.
\<close>

theorem lazy_deadline_bounded:
  assumes "NewLazyInboundReader (Some src) key (Some c) timeout = Inr r0"
    and "dc_deadline c = None" and "conn_open c"
    and "lazy_reach r0 (r, pc)"
  shows "(\<not> lz_ivReady r \<longrightarrow> (dc_deadline (lz_conn r) \<noteq> None \<longleftrightarrow> lz_deadlineArmed r))
    \<and> (\<forall>now r'. ArmForOutbound now r = (None, r') \<longrightarrow> \<not> lz_ivReady r \<longrightarrow>
         dc_deadline (lz_conn r') \<noteq> None)
    \<and> (pc = AfterInit None \<longrightarrow> lz_reader r \<noteq> None \<and> dc_deadline (lz_conn r) = None
         \<and> (\<forall>now. fst (ArmForOutbound now r) = None \<and> lz_conn (snd (ArmForOutbound now r)) = lz_conn r))"
proof -
  have r0: "lazy_inv (r0, BeforeInit)"
    using assms(1-3) by (auto simp: NewLazyInboundReader_def split: if_splits)
  have inv: "lazy_inv (r, pc)" by (rule lazy_inv_reach [OF assms(4) r0])
  have flag: "\<not> lz_ivReady r \<longrightarrow> (dc_deadline (lz_conn r) \<noteq> None \<longleftrightarrow> lz_deadlineArmed r)"
    using inv by (cases pc) auto
  have "dc_deadline (lz_conn r') \<noteq> None"
      if "ArmForOutbound now r = (None, r')" "\<not> lz_ivReady r" for now r'
    using Arm_cases [OF that(1)] that(2) flag by (auto split: if_splits)
  moreover have "lz_ivReady r" if "pc = AfterInit None"
    using inv that by (auto split: if_splits)
  then have "fst (ArmForOutbound now r) = None \<and> lz_conn (snd (ArmForOutbound now r)) = lz_conn r"
      if "pc = AfterInit None" for now
    using that by (simp add: ArmForOutbound_def)
  ultimately show ?thesis using inv flag by (auto split: if_splits)
qed

section \<open>The inbound stream\<close>

datatype lazy_op = OpArm gotime | OpRead nat

text \<open>Any sequence of armings and reads, up to the first read that returns an error.\<close>

fun lazy_ops ::
  "(bytes \<Rightarrow> bytes \<Rightarrow> bytes) \<Rightarrow> lazy_op list \<Rightarrow> LazyInboundReader \<Rightarrow>
   bytes \<times> go_error option \<times> LazyInboundReader"
where
  "lazy_ops blk [] r = ([], None, r)"
| "lazy_ops blk (OpArm now # ops) r = lazy_ops blk ops (snd (ArmForOutbound now r))"
| "lazy_ops blk (OpRead n # ops) r =
     (case lazy_Read blk n r of
        (bs, Some e, r') \<Rightarrow> (bs, Some e, r')
      | (bs, None, r') \<Rightarrow>
          (case lazy_ops blk ops r' of (out, err, r'') \<Rightarrow> (bs @ out, err, r'')))"

fun productive :: "lazy_op \<Rightarrow> bool" where
  "productive (OpArm now) = False"
| "productive (OpRead n) = (0 < n)"

text \<open>What is still to be delivered: before initialisation all of it, behind the IV; then the rest.\<close>

definition lazy_pending ::
  "(bytes \<Rightarrow> bytes \<Rightarrow> bytes) \<Rightarrow> bytes \<Rightarrow> go_error \<Rightarrow> LazyInboundReader \<Rightarrow> bool"
where
  "lazy_pending blk plain e r \<longleftrightarrow>
     hr_ok (lz_source r) \<and> st_err (hr_abs (lz_source r)) = e \<and> dc_script (lz_conn r) = [] \<and>
     (if lz_init r
      then lz_initErr r = None \<and>
        (\<exists>enc dec enc' c. lz_reader r = Some dec \<and> cfb_mirror enc dec
           \<and> XORKeyStream blk enc plain = (c, enc') \<and> st_data (hr_abs (lz_source r)) = c)
      else lz_initErr r = None \<and> length (lz_key r) = 32 \<and> hr_ackConsumed (lz_source r) \<and>
        (\<exists>iv c enc'. length iv = 16 \<and> XORKeyStream blk (newCFB (lz_key r) iv False) plain = (c, enc')
           \<and> st_data (hr_abs (lz_source r)) = iv @ c))"

lemma ReadServerIV_consumed:
  assumes "hr_ok src" and "hr_ackConsumed src" and "st_data (hr_abs src) = iv @ c" and "length iv = 16"
  shows "\<exists>src'. ReadServerIV src = (Inr iv, src') \<and> hr_ok src' \<and> st_data (hr_abs src') = c
    \<and> st_err (hr_abs src') = st_err (hr_abs src)"
proof -
  obtain res src' where rf: "hr_read_full IVSize src = (res, src')" by (metis surj_pair)
  note full = hr_read_full_ok [OF assms(1) rf]
  then have res: "res = Inr iv" and "hr_abs src' = (hr_abs src)\<lparr>st_data := c\<rparr>"
    using assms(3,4) by (auto simp: read_full_def IVSize_def)
  then have "st_data (hr_abs src') = c" "st_err (hr_abs src') = st_err (hr_abs src)" by simp_all
  then show ?thesis
    using assms(2) rf full res by (simp add: ReadServerIV_def ReadACK_def)
qed

lemma pending_arm:
  "lazy_pending blk plain e r \<Longrightarrow> lazy_pending blk plain e (snd (ArmForOutbound now r))"
  by (auto simp: lazy_pending_def ArmForOutbound_def SetReadDeadline_def Let_def)

lemma pending_initialize:
  assumes "lazy_pending blk plain e r"
  shows "\<exists>r'. lazy_initialize r = (None, r') \<and> lazy_pending blk plain e r' \<and> lz_init r'"
proof (cases "lz_init r")
  case True
  then show ?thesis
    using assms by (auto simp: lazy_initialize_def init_read_def lazy_pending_def)
next
  case False
  then obtain iv c enc' where w: "length iv = 16" "XORKeyStream blk (newCFB (lz_key r) iv False) plain = (c, enc')"
      "st_data (hr_abs (lz_source r)) = iv @ c" "hr_ok (lz_source r)" "hr_ackConsumed (lz_source r)"
      "length (lz_key r) = 32" "st_err (hr_abs (lz_source r)) = e" "dc_script (lz_conn r) = []"
    using assms by (auto simp: lazy_pending_def)
  obtain src' where src': "ReadServerIV (lz_source r) = (Inr iv, src')" "hr_ok src'"
      "st_data (hr_abs src') = c" "st_err (hr_abs src') = e"
    using ReadServerIV_consumed [OF w(4,5,3,1)] w(7) by blast
  let ?d = "newCFB (lz_key r) iv True"
  have "NewDecrypter (lz_key r) iv = Inr ?d" using w by (simp add: NewDecrypter_Inr)
  then have read: "init_read r = (Inr ?d, r\<lparr>lz_init := True, lz_source := src'\<rparr>)"
    using False src'(1) by (simp add: init_read_def Let_def)
  have "\<exists>r'. lazy_initialize r = (None, r') \<and> lz_reader r' = Some ?d \<and> lz_init r'
      \<and> lz_source r' = src' \<and> dc_script (lz_conn r') = [] \<and> lz_initErr r' = lz_initErr r"
    using w(8)
    by (auto simp: lazy_initialize_def read init_ready_def init_clear_def SetReadDeadline_def Let_def)
  moreover have "lz_initErr r = None" using False assms by (simp add: lazy_pending_def)
  moreover have "cfb_mirror (newCFB (lz_key r) iv False) ?d" by (rule cfb_mirror_new)
  ultimately show ?thesis
    using w(2) src' unfolding lazy_pending_def by (metis (no_types, lifting))
qed

lemma pending_read:
  assumes "lazy_pending blk plain e r" and "0 < n" and "lazy_Read blk n r = (out, err, r')"
  shows "\<exists>rest. plain = out @ rest \<and> lazy_pending blk rest e r'
    \<and> (err = None \<and> out \<noteq> [] \<or> err = Some e \<and> rest = [])"
proof -
  obtain r1 where r1: "lazy_initialize r = (None, r1)" "lazy_pending blk plain e r1" "lz_init r1"
    using pending_initialize [OF assms(1)] by blast
  then obtain enc dec enc' c where k: "lz_reader r1 = Some dec" "cfb_mirror enc dec"
      "XORKeyStream blk enc plain = (c, enc')" "st_data (hr_abs (lz_source r1)) = c"
      "hr_ok (lz_source r1)" "st_err (hr_abs (lz_source r1)) = e" "lz_initErr r1 = None"
      "dc_script (lz_conn r1) = []"
    by (auto simp: lazy_pending_def)
  obtain bs er src where rd: "hr_Read n (lz_source r1) = (bs, er, src)" by (metis prod_cases3)
  note ok = hr_Read_ok [OF k(5) assms(2) rd]
  let ?m = "length bs" and ?c' = "st_data (hr_abs src)"
  have c: "c = bs @ ?c'" using ok k(4) by simp
  obtain x enc1 where x: "XORKeyStream blk enc (take ?m plain) = (x, enc1)" by (metis surj_pair)
  obtain y enc2 where y: "XORKeyStream blk enc1 (drop ?m plain) = (y, enc2)" by (metis surj_pair)
  have "length c = length plain" using length_XORKeyStream [OF k(3)] .
  then have "length x = ?m" using length_XORKeyStream [OF x] c by simp
  moreover have "c = x @ y"
    using XORKeyStream_append [of blk enc "take ?m plain" "drop ?m plain"] k(3) x y by simp
  ultimately have xy: "x = bs" "y = ?c'" using c by auto
  obtain dec1 where d: "XORKeyStream blk dec bs = (take ?m plain, dec1)" "cfb_mirror enc1 dec1"
    using XORKeyStream_mirror [OF k(2) x] xy(1) by blast
  have res: "out = take ?m plain" "err = er"
      "r' = r1\<lparr>lz_source := src, lz_reader := Some dec1\<rparr>"
    using assms(2,3) r1(1) k(1) rd d(1) by (auto simp: lazy_Read_def)
  have "lazy_pending blk (drop ?m plain) e r'"
    using res(3) r1(3) d(2) y xy(2) ok k by (auto simp: lazy_pending_def)
  moreover have "out \<noteq> []" if "bs \<noteq> []"
    using that res(1) \<open>length c = length plain\<close> c by auto
  moreover have "drop ?m plain = []" if "?c' = []"
    using that \<open>length c = length plain\<close> c by simp
  ultimately show ?thesis
    using res(1,2) ok k(6) by (intro exI [of _ "drop ?m plain"]) auto
qed

lemma pending_ops:
  "lazy_pending blk plain e r \<Longrightarrow> lazy_ops blk ops r = (out, err, r') \<Longrightarrow>
   \<exists>rest. plain = out @ rest \<and> (err = None \<or> err = Some e \<and> rest = [])
     \<and> (err = None \<longrightarrow> length (filter productive ops) \<le> length out)"
proof (induction blk ops r arbitrary: plain out err r' rule: lazy_ops.induct)
  case (3 blk n ops r)
  obtain bs er r1 where rd: "lazy_Read blk n r = (bs, er, r1)" by (metis prod_cases3)
  show ?case
  proof (cases "n = 0")
    case True
    then have "bs = []" "er = None" "r1 = r" using rd by (auto simp: lazy_Read_def)
    then show ?thesis
      using "3.IH" [OF rd [symmetric] refl _ , of plain] "3.prems" rd True
      by (auto split: prod.splits)
  next
    case False
    then obtain rest where rest: "plain = bs @ rest" "lazy_pending blk rest e r1"
        "er = None \<and> bs \<noteq> [] \<or> er = Some e \<and> rest = []"
      using pending_read [OF "3.prems"(1) _ rd] by blast
    show ?thesis
    proof (cases er)
      case None
      obtain o2 e2 r2 where more: "lazy_ops blk ops r1 = (o2, e2, r2)" by (metis prod_cases3)
      obtain rest2 where "rest = o2 @ rest2" "e2 = None \<or> e2 = Some e \<and> rest2 = []"
          "e2 = None \<longrightarrow> length (filter productive ops) \<le> length o2"
        using "3.IH" [OF rd [symmetric] refl None rest(2) more] by blast
      moreover have "1 \<le> length bs" using rest(3) None by (cases bs) auto
      ultimately show ?thesis
        using rest(1) "3.prems"(2) rd None more by auto
    next
      case (Some e')
      then show ?thesis using rest "3.prems"(2) rd by auto
    qed
  qed
qed (auto intro: pending_arm)

text \<open>
  C23: The inbound half of a tunnel delivers exactly what the server encrypted, for every block
  cipher. After the acknowledgement the server's stream is an IV and the ciphertext under it, in
  chunks of any size. Reads of any sizes, with writes arming the deadline anywhere among them,
  return the plaintext in order: what has been delivered is always a prefix, every non-empty read
  that returns no error makes progress, and the only error is the end of the stream after all of
  it - so enough reads deliver everything.
\<close>

theorem lazy_inbound_faithful:
  assumes "NewLazyInboundReader (Some src) key (Some c) timeout = Inr r0" and "dc_script c = []"
    and "hr_ok src" and "hr_ackConsumed src"
    and "NewEncrypter key iv = Inr enc" and "XORKeyStream blk enc plain = (ciphertext, enc')"
    and "hr_abs src = \<lparr>st_data = iv @ ciphertext, st_err = e\<rparr>"
    and "lazy_ops blk ops r0 = (out, err, r)"
  shows "(\<exists>rest. plain = out @ rest \<and> (err = None \<or> err = Some e \<and> rest = []))
    \<and> (length plain < length (filter productive ops) \<longrightarrow> out = plain \<and> err = Some e)"
proof -
  have enc: "enc = newCFB key iv False" "length iv = 16" "length key = 32"
    using assms(5) by (auto simp: NewEncrypter_Inr)
  have "lazy_pending blk plain e r0"
    using assms(1-4,6,7) enc
    by (auto simp: lazy_pending_def NewLazyInboundReader_def split: if_splits)
  from pending_ops [OF this assms(8)] show ?thesis by fastforce
qed

lemma lazy_inbound_faithful_witness:
  "\<exists>out err r. lazy_ops demo_block [OpRead 2, OpArm 7, OpRead 1, OpRead 9, OpRead 9, OpRead 9, OpRead 4, OpRead 5]
       \<lparr>lz_source = \<lparr>hr_r = \<lparr>src_chunks =
             [(replicate 10 4, None),
              (replicate 6 4 @ fst (XORKeyStream demo_block (newCFB (replicate 32 1) (replicate 16 4) False) [1, 2, 3, 4, 5]), None)],
             src_end = EOF\<rparr>, hr_pending = [], hr_readErr = None, hr_ackConsumed = True\<rparr>,
         lz_key = replicate 32 1, lz_conn = \<lparr>dc_deadline = None, dc_script = []\<rparr>, lz_timeout = 9,
         lz_reader = None, lz_init = False, lz_initErr = None, lz_outboundStarted = False,
         lz_ivReady = False, lz_deadlineArmed = False\<rparr> = (out, err, r)
     \<and> out = [1, 2, 3, 4, 5] \<and> err = Some EOF"
proof -
  let ?e = "newCFB (replicate 32 1) (replicate 16 4) False"
  let ?ops = "[OpRead 2, OpArm 7, OpRead 1, OpRead 9, OpRead 9, OpRead 9, OpRead 4, OpRead 5]"
  let ?c = "fst (XORKeyStream demo_block ?e [1, 2, 3, 4, 5])"
  let ?src = "\<lparr>hr_r = \<lparr>src_chunks = [(replicate 10 4, None), (replicate 6 4 @ ?c, None)], src_end = EOF\<rparr>,
      hr_pending = [], hr_readErr = None, hr_ackConsumed = True\<rparr>"
  let ?conn = "\<lparr>dc_deadline = None, dc_script = []\<rparr>"
  let ?r0 = "\<lparr>lz_source = ?src, lz_key = replicate 32 1, lz_conn = ?conn, lz_timeout = 9,
         lz_reader = None, lz_init = False, lz_initErr = None, lz_outboundStarted = False,
         lz_ivReady = False, lz_deadlineArmed = False\<rparr>"
  obtain enc' where x: "XORKeyStream demo_block ?e [1, 2, 3, 4, 5] = (?c, enc')" by (metis fst_conv surj_pair)
  obtain out err r where run: "lazy_ops demo_block ?ops ?r0 = (out, err, r)" by (metis prod_cases3)
  have new: "NewLazyInboundReader (Some ?src) (replicate 32 1) (Some ?conn) 9 = Inr ?r0"
    by (simp add: NewLazyInboundReader_def KeySize_def)
  have ok: "hr_ok ?src" "hr_ackConsumed ?src" by (simp_all add: hr_ok_def)
  have abs: "hr_abs ?src = \<lparr>st_data = replicate 16 4 @ ?c, st_err = EOF\<rparr>"
    by (simp add: hr_abs_def flip: replicate_add append_assoc)
  have "NewEncrypter (replicate 32 1) (replicate 16 4) = Inr ?e" by (simp add: NewEncrypter_Inr)
  from lazy_inbound_faithful [OF new _ ok this x abs run] run show ?thesis by simp
qed

section \<open>The outbound stream\<close>

fun tunnel_writes ::
  "(bytes \<Rightarrow> bytes \<Rightarrow> bytes) \<Rightarrow> (gotime \<times> bytes) list \<Rightarrow> tunnel_conn \<Rightarrow> go_error option \<times> tunnel_conn"
where
  "tunnel_writes blk [] t = (None, t)"
| "tunnel_writes blk ((now, p) # ws) t =
     (case tunnel_Write blk now p t of
        (_, Some e, t') \<Rightarrow> (Some e, t')
      | (_, None, t') \<Rightarrow> tunnel_writes blk ws t')"

lemma stream_write_None:
  assumes "stream_write blk p t = (n, None, t')"
  shows "\<exists>c s. XORKeyStream blk (tc_stream t) p = (c, s) \<and> n = length p \<and> tc_stream t' = s
    \<and> wr_out (tc_writer t') = wr_out (tc_writer t) @ c \<and> tc_inbound t' = tc_inbound t"
proof -
  obtain c s where x: "XORKeyStream blk (tc_stream t) p = (c, s)" by (metis surj_pair)
  have "length c = length p" by (rule length_XORKeyStream [OF x])
  then show ?thesis
    using assms x
    by (auto simp: stream_write_def wr_write_def Let_def split: prod.splits if_splits list.splits)
qed

lemma tunnel_Write_None:
  assumes "tunnel_Write blk now p t = (n, None, t')"
  shows "\<exists>c s. XORKeyStream blk (tc_stream t) p = (c, s) \<and> n = length p \<and> tc_stream t' = s
    \<and> wr_out (tc_writer t') = wr_out (tc_writer t) @ c
    \<and> (OutboundStarted (tc_inbound t') \<longleftrightarrow> OutboundStarted (tc_inbound t) \<or> p \<noteq> [])"
proof (cases "p = []")
  case True
  then show ?thesis using assms stream_write_None [of blk p t n t'] by (simp add: tunnel_Write_def)
next
  case False
  then obtain r where r: "ArmForOutbound now (tc_inbound t) = (None, r)"
      "stream_write blk p (t\<lparr>tc_inbound := r\<rparr>) = (n, None, t')"
    using assms by (auto simp: tunnel_Write_def split: prod.splits option.splits)
  then show ?thesis
    using stream_write_None [OF r(2)] Arm_cases [OF r(1)] False by (auto simp: OutboundStarted_def)
qed

lemma tunnel_writes_None:
  "tunnel_writes blk ws t = (None, t') \<Longrightarrow>
   \<exists>c. XORKeyStream blk (tc_stream t) (concat (map snd ws)) = (c, tc_stream t')
     \<and> wr_out (tc_writer t') = wr_out (tc_writer t) @ c
     \<and> (OutboundStarted (tc_inbound t') \<longleftrightarrow>
          OutboundStarted (tc_inbound t) \<or> concat (map snd ws) \<noteq> [])"
proof (induction blk ws t rule: tunnel_writes.induct)
  case (2 blk now p ws t)
  obtain n e t1 where w: "tunnel_Write blk now p t = (n, e, t1)" by (metis prod_cases3)
  then have e: "e = None" and more: "tunnel_writes blk ws t1 = (None, t')"
    using "2.prems" by (auto split: option.splits)
  obtain c where c: "XORKeyStream blk (tc_stream t) p = (c, tc_stream t1)"
      "wr_out (tc_writer t1) = wr_out (tc_writer t) @ c"
      "OutboundStarted (tc_inbound t1) \<longleftrightarrow> OutboundStarted (tc_inbound t) \<or> p \<noteq> []"
    using tunnel_Write_None w e by blast
  obtain d where d: "XORKeyStream blk (tc_stream t1) (concat (map snd ws)) = (d, tc_stream t')"
      "wr_out (tc_writer t') = wr_out (tc_writer t1) @ d"
      "OutboundStarted (tc_inbound t') \<longleftrightarrow>
        OutboundStarted (tc_inbound t1) \<or> concat (map snd ws) \<noteq> []"
    using "2.IH" [OF w [symmetric] refl e more] by blast
  show ?case
    using c d by (intro exI [of _ "c @ d"]) (auto simp: XORKeyStream_append)
qed simp

text \<open>
  The outbound half of a tunnel is faithful and its half close is safe. When a sequence of
  writes succeeds, the bytes put on the connection decrypt, in a context in step with the
  writer's, to exactly what was written, and the contexts stay in step. The end of the client's
  data closes the whole connection when no application byte was ever sent (the server would
  withhold its IV for ever), and only the write side otherwise, so that the server's answer can
  still arrive.
\<close>

theorem tunnel_outbound_faithful:
  assumes "tunnel_writes blk ws t = (None, t')" and "cfb_mirror (tc_stream t) dcr"
    and "\<not> OutboundStarted (tc_inbound t)"
  shows "(\<exists>c dcr'. wr_out (tc_writer t') = wr_out (tc_writer t) @ c
      \<and> XORKeyStream blk dcr c = (concat (map snd ws), dcr') \<and> cfb_mirror (tc_stream t') dcr')
    \<and> tc_close (tunnel_CloseWrite True t') = (if concat (map snd ws) = [] then Closed else HalfClosed)"
proof -
  obtain c where c: "XORKeyStream blk (tc_stream t) (concat (map snd ws)) = (c, tc_stream t')"
      "wr_out (tc_writer t') = wr_out (tc_writer t) @ c"
      "OutboundStarted (tc_inbound t') \<longleftrightarrow> concat (map snd ws) \<noteq> []"
    using tunnel_writes_None [OF assms(1)] assms(3) by blast
  then show ?thesis
    using XORKeyStream_mirror [OF assms(2) c(1)] by (auto simp: tunnel_CloseWrite_def)
qed

definition demo_tunnel :: tunnel_conn where
  "demo_tunnel = \<lparr>tc_inbound =
       \<lparr>lz_source = NewHandshakeReader \<lparr>src_chunks = [], src_end = EOF\<rparr>,
        lz_key = replicate 32 1, lz_conn = \<lparr>dc_deadline = None, dc_script = []\<rparr>, lz_timeout = 9,
        lz_reader = None, lz_init = False, lz_initErr = None, lz_outboundStarted = False,
        lz_ivReady = False, lz_deadlineArmed = False\<rparr>,
     tc_stream = newCFB (replicate 32 1) (replicate 16 4) False,
     tc_writer = \<lparr>wr_script = [(9, None)], wr_out = [7]\<rparr>, tc_close = Open\<rparr>"

lemma tunnel_outbound_faithful_witness:
  "\<exists>t'. tunnel_writes demo_block [(5, [1, 2]), (6, []), (7, [3])] demo_tunnel = (None, t')
     \<and> (\<exists>c dec'. wr_out (tc_writer t') = wr_out (tc_writer demo_tunnel) @ c
        \<and> XORKeyStream demo_block (newCFB (replicate 32 1) (replicate 16 4) True) c = ([1, 2, 3], dec')
        \<and> cfb_mirror (tc_stream t') dec')
     \<and> tc_close (tunnel_CloseWrite True t') = HalfClosed"
proof -
  let ?ws = "[(5, [1, 2]), (6, []), (7, [3])] :: (gotime \<times> bytes) list"
  have "fst (tunnel_writes demo_block ?ws demo_tunnel) = None" by code_simp
  then obtain t' where t': "tunnel_writes demo_block ?ws demo_tunnel = (None, t')"
    by (metis prod.collapse)
  have m: "cfb_mirror (tc_stream demo_tunnel) (newCFB (replicate 32 1) (replicate 16 4) True)"
    by (simp add: demo_tunnel_def cfb_mirror_new)
  have "\<not> OutboundStarted (tc_inbound demo_tunnel)"
    by (simp add: demo_tunnel_def OutboundStarted_def)
  from tunnel_outbound_faithful [OF t' m this] t' show ?thesis by simp
qed

lemma lazy_deadline_bounded_witness:
  "let r0 = tc_inbound demo_tunnel; r = snd (ArmForOutbound 5 r0) in
     lazy_reach r0 (r, BeforeInit) \<and> \<not> lz_ivReady r \<and> dc_deadline (lz_conn r) \<noteq> None
     \<and> lz_deadlineArmed r"
proof -
  let ?start = "tc_inbound demo_tunnel" and ?c = "\<lparr>dc_deadline = None, dc_script = []\<rparr>"
  let ?r = "snd (ArmForOutbound 5 ?start)"
  have new: "NewLazyInboundReader (Some (NewHandshakeReader \<lparr>src_chunks = [], src_end = EOF\<rparr>))
      (replicate 32 1) (Some ?c) 9 = Inr ?start"
    by (simp add: NewLazyInboundReader_def demo_tunnel_def KeySize_def)
  have reach: "lazy_reach ?start (?r, BeforeInit)"
  proof (rule lazy_more [OF lazy_start])
    show "lazy_step (?start, BeforeInit) (?r, BeforeInit)" by (rule arm [of 5 _ None]) code_simp
  qed
  have "\<not> lz_ivReady ?r" "lz_deadlineArmed ?r"
    by (simp_all add: demo_tunnel_def ArmForOutbound_def SetReadDeadline_def)
  then show ?thesis
    using lazy_deadline_bounded [OF new _ _ reach] reach by (simp add: conn_open_def)
qed

end
