(* ===== verification/State_Types.thy ===== *)
theory State_Types
  imports Wifiin_TCP
begin

text \<open>
  \<open>internal/state/types.go\<close>: nodes, provider sessions, runtime snapshots, subscription
  generations and the durable state, with their validators. Pointers whose nil value has a
  meaning are options. A Go string type with constants is a datatype where only the constants
  occur, and a string where other values reach the code. HMAC-SHA256, Argon2id and the random
  source are parameters. \<open>subtle.ConstantTimeCompare(a, b) == 1\<close> is equality; copying, wiping
  buffers and constant time are not observable in values.
\<close>

section \<open>Enumerations and errors\<close>

datatype ServiceState =
    StateSignedOut | StateAuthenticating | StateSyncing | StateReady | StateDegraded
  | StateExpired | StateError

datatype Operation = OperationLogin | OperationRefresh | OperationOther string

datatype Outcome = OutcomeSucceeded | OutcomeFailed | OutcomeCancelled

type_synonym ClientProfile = string
type_synonym NodeHealth = string
type_synonym UDPHealth = string

definition maxPersistedNodes :: nat where "maxPersistedNodes = 4096"
definition maxRuntimeNodes :: nat where "maxRuntimeNodes = 4096"
definition maxRuntimeSelectorRefs :: nat where "maxRuntimeSelectorRefs = 4096 + 8192"
definition maxSessionLifetime :: duration where "maxSessionLifetime = 24 * hour"
definition maxSessionFieldBytes :: nat where "maxSessionFieldBytes = 4096"
definition maxSessionExtensionBytes :: nat where
  "maxSessionExtensionBytes = 3 * maxSessionFieldBytes + 128"

abbreviation ErrAccountChanged :: go_error where
  "ErrAccountChanged \<equiv> Sent ''account changed''"
abbreviation ErrAccessTokenAlreadyInitialized :: go_error where
  "ErrAccessTokenAlreadyInitialized \<equiv> Sent ''access token is already initialized''"
abbreviation ErrInvalidAccessToken :: go_error where
  "ErrInvalidAccessToken \<equiv> Sent ''invalid access token''"
abbreviation ErrBindingKeyAlreadyConfigured :: go_error where
  "ErrBindingKeyAlreadyConfigured \<equiv> Sent ''account binding key is already configured''"
abbreviation ErrInvalidSnapshot :: go_error where
  "ErrInvalidSnapshot \<equiv> Sent ''invalid runtime snapshot''"
abbreviation ErrInvalidTransition :: go_error where
  "ErrInvalidTransition \<equiv> Sent ''invalid service state transition''"
abbreviation ErrOperationInProgress :: go_error where
  "ErrOperationInProgress \<equiv> Sent ''service operation already in progress''"
abbreviation ErrNoOperation :: go_error where
  "ErrNoOperation \<equiv> Sent ''no service operation in progress''"
abbreviation ErrSelectorUnknown :: go_error where
  "ErrSelectorUnknown \<equiv> Sent ''unknown selector''"
abbreviation ErrSelectorTombstoned :: go_error where
  "ErrSelectorTombstoned \<equiv> Sent ''selector is tombstoned''"

section \<open>Nodes and selector references\<close>

definition ClientProfileIOS :: ClientProfile where "ClientProfileIOS = ''ios''"
definition ClientProfileWindows :: ClientProfile where "ClientProfileWindows = ''windows''"

definition ClientProfile_Valid :: "ClientProfile \<Rightarrow> bool" where
  "ClientProfile_Valid p \<longleftrightarrow> p = ClientProfileIOS \<or> p = ClientProfileWindows"

record Node =
  node_ID :: string
  node_Selector :: string
  node_Provider :: string
  node_ClientProfile :: ClientProfile
  node_Host :: string
  node_Port :: u16
  node_Name :: string
  node_Group :: string
  node_Model :: string
  node_Weight :: int
  node_Auto :: bool
  node_Eligible :: bool
  node_Excluded :: bool
  node_Health :: NodeHealth
  node_UDPHealth :: UDPHealth
  node_TCPRTT :: duration
  node_ProbedAt :: gotime

definition zero_Node :: Node where
  "zero_Node = \<lparr>node_ID = [], node_Selector = [], node_Provider = [], node_ClientProfile = [],
     node_Host = [], node_Port = 0, node_Name = [], node_Group = [], node_Model = [],
     node_Weight = 0, node_Auto = False, node_Eligible = False, node_Excluded = False,
     node_Health = [], node_UDPHealth = [], node_TCPRTT = 0, node_ProbedAt = time_zero\<rparr>"

definition EffectiveClientProfile :: "Node \<Rightarrow> ClientProfile" where
  "EffectiveClientProfile n =
     (if node_ClientProfile n = [] then ClientProfileIOS else node_ClientProfile n)"

definition TunnelEligible :: "Node \<Rightarrow> bool" where
  "TunnelEligible n \<longleftrightarrow>
     node_Eligible n \<and> ClientProfile_Valid (EffectiveClientProfile n) \<and> node_Port n \<noteq> 0
     \<and> node_Host n \<noteq> [] \<and> equal_fold (node_Provider n) ''WIFIIN''"

definition ValidateNode :: "Node \<Rightarrow> go_error option" where
  "ValidateNode node =
     (if node_ID node = [] \<or> node_Provider node = [] \<or> node_Host node = [] \<or> node_Port node = 0
         \<or> nul \<in> set (node_Provider node) \<or> nul \<in> set (node_Host node)
      then Some (New ''invalid node'') else None)"

record NodeRef =
  ref_NodeID :: string
  ref_Generation :: u64
  ref_Tombstoned :: bool
  ref_TombstoneUntil :: gotime

definition zero_NodeRef :: NodeRef where
  "zero_NodeRef = \<lparr>ref_NodeID = [], ref_Generation = 0, ref_Tombstoned = False,
     ref_TombstoneUntil = time_zero\<rparr>"

definition IsTombstoned :: "NodeRef \<Rightarrow> gotime \<Rightarrow> bool" where
  "IsTombstoned r now \<longleftrightarrow>
     ref_Tombstoned r \<and> (ref_TombstoneUntil r = time_zero \<or> now < ref_TombstoneUntil r)"

section \<open>Sessions\<close>

record SessionSecrets =
  sess_UserID :: string
  sess_LoginToken :: string
  sess_ProviderToken :: string
  sess_TunnelPassword :: string
  sess_TunnelMethod :: string
  sess_ProviderExtension :: string

definition zero_SessionSecrets :: SessionSecrets where
  "zero_SessionSecrets = \<lparr>sess_UserID = [], sess_LoginToken = [], sess_ProviderToken = [],
     sess_TunnelPassword = [], sess_TunnelMethod = [], sess_ProviderExtension = []\<rparr>"

definition validSessionField :: "string \<Rightarrow> nat \<Rightarrow> bool" where
  "validSessionField v limit \<longleftrightarrow>
     v \<noteq> [] \<and> length v \<le> limit \<and> utf8_valid v \<and> nul \<notin> set v"

definition SessionSecrets_Valid :: "SessionSecrets \<Rightarrow> bool" where
  "SessionSecrets_Valid s \<longleftrightarrow>
     validSessionField (sess_UserID s) maxSessionFieldBytes
     \<and> validSessionField (sess_LoginToken s) maxSessionFieldBytes
     \<and> validSessionField (sess_ProviderToken s) maxSessionFieldBytes
     \<and> validSessionField (sess_TunnelPassword s) maxSessionFieldBytes
     \<and> validSessionField (sess_TunnelMethod s) maxSessionFieldBytes
     \<and> validSessionField (sess_ProviderExtension s) maxSessionExtensionBytes"

definition validPersistedSession :: "ClientProfile \<Rightarrow> SessionSecrets \<Rightarrow> bool" where
  "validPersistedSession profile session =
     (if \<not> ClientProfile_Valid profile \<or> \<not> SessionSecrets_Valid session
         \<or> sess_TunnelMethod session \<noteq> ''aes-256-cfb''
         \<or> \<not> ValidProviderExtensionForProfile profile (sess_ProviderExtension session)
      then False
      else let parts = split_on (CHR ''|'') (sess_ProviderExtension session) in
           length parts = 7 \<and> parts ! 1 = sess_ProviderToken session
           \<and> parts ! 4 = sess_UserID session)"

definition SessionSecrets_Wipe :: "SessionSecrets \<Rightarrow> SessionSecrets" where
  "SessionSecrets_Wipe s = zero_SessionSecrets"

record ClientSessions =
  cs_IOS :: SessionSecrets
  cs_Windows :: SessionSecrets

definition ClientSessions_Valid :: "ClientSessions \<Rightarrow> bool" where
  "ClientSessions_Valid s =
     (if \<not> SessionSecrets_Valid (cs_IOS s) then False
      else cs_Windows s = zero_SessionSecrets
           \<or> SessionSecrets_Valid (cs_Windows s) \<and> sess_UserID (cs_Windows s) = sess_UserID (cs_IOS s))"

definition ClientSessions_UserID :: "ClientSessions \<Rightarrow> string" where
  "ClientSessions_UserID s = (if \<not> ClientSessions_Valid s then [] else sess_UserID (cs_IOS s))"

definition ClientSessions_For :: "ClientSessions \<Rightarrow> ClientProfile \<Rightarrow> SessionSecrets \<times> bool" where
  "ClientSessions_For s profile =
     (if profile = [] \<or> profile = ClientProfileIOS then (cs_IOS s, SessionSecrets_Valid (cs_IOS s))
      else if profile = ClientProfileWindows
      then (cs_Windows s, SessionSecrets_Valid (cs_Windows s))
      else (zero_SessionSecrets, False))"

definition ClientSessions_Wipe :: "ClientSessions \<Rightarrow> ClientSessions" where
  "ClientSessions_Wipe s =
     s\<lparr>cs_IOS := SessionSecrets_Wipe (cs_IOS s), cs_Windows := SessionSecrets_Wipe (cs_Windows s)\<rparr>"

lemma zero_session_invalid [simp]: "\<not> SessionSecrets_Valid zero_SessionSecrets"
  by (simp add: SessionSecrets_Valid_def zero_SessionSecrets_def validSessionField_def)

lemma wiped_invalid [simp]: "\<not> ClientSessions_Valid (ClientSessions_Wipe s)"
  by (simp add: ClientSessions_Valid_def ClientSessions_Wipe_def SessionSecrets_Wipe_def)

lemma wiped_unavailable [simp]: "\<not> snd (ClientSessions_For (ClientSessions_Wipe s) p)"
  by (simp add: ClientSessions_For_def ClientSessions_Wipe_def SessionSecrets_Wipe_def)

section \<open>Accounts and runtime snapshots\<close>

record AccountSummary =
  acct_Display :: string
  acct_IsVIP :: bool
  acct_VIPEndsAt :: gotime

definition zero_AccountSummary :: AccountSummary where
  "zero_AccountSummary = \<lparr>acct_Display = [], acct_IsVIP = False, acct_VIPEndsAt = time_zero\<rparr>"

text \<open>
  \<open>RedactAccount\<close> splits at the last \<open>@\<close>; as it then demands that there is only one, the model
  takes the first.
\<close>

text \<open>Three bullets, U+2022 in UTF-8.\<close>

definition bullets :: string where
  "bullets = concat (replicate 3 [CHR 0xE2, CHR 0x80, CHR 0xA2])"

definition RedactAccount :: "string \<Rightarrow> string" where
  "RedactAccount account =
     (let account = trim_space account;
          n = length (takeWhile (\<lambda>c. c \<noteq> CHR ''@'') account)
      in if n = 0 \<or> n = length account \<or> n = length account - 1 \<or> count_list account (CHR ''@'') \<noteq> 1
         then bullets
         else first_rune (take n account) @ bullets @ ''@'' @ drop (n + 1) account)"

definition NewAccountSummary :: "string \<Rightarrow> bool \<Rightarrow> gotime \<Rightarrow> AccountSummary" where
  "NewAccountSummary account isVIP vipEndsAt =
     \<lparr>acct_Display = RedactAccount account, acct_IsVIP = isVIP, acct_VIPEndsAt = vipEndsAt\<rparr>"

record RuntimeSnapshot =
  snap_Generation :: u64
  snap_CreatedAt :: gotime
  snap_ExpiresAt :: gotime
  snap_Account :: AccountSummary
  snap_Sessions :: ClientSessions
  snap_Nodes :: "Node list"
  snap_Selectors :: "(string, NodeRef) gomap"

definition NodeByID :: "RuntimeSnapshot \<Rightarrow> string \<Rightarrow> Node option" where
  "NodeByID s nid = find (\<lambda>node. node_ID node = nid) (snap_Nodes s)"

definition ResolveSelector ::
  "RuntimeSnapshot \<Rightarrow> string \<Rightarrow> gotime \<Rightarrow> go_error + (Node \<times> NodeRef)"
where
  "ResolveSelector s selector now =
     (case map_of (snap_Selectors s) selector of
        None \<Rightarrow> Inl ErrSelectorUnknown
      | Some ref \<Rightarrow>
          if IsTombstoned ref now then Inl ErrSelectorTombstoned
          else if ref_Tombstoned ref then Inl ErrSelectorUnknown
          else case NodeByID s (ref_NodeID ref) of
                 None \<Rightarrow> Inl ErrSelectorUnknown
               | Some node \<Rightarrow> Inr (node, ref))"

text \<open>The loops of \<open>ValidateRuntimeSnapshot\<close>, with the set of node ids built on the way.\<close>

fun validate_nodes ::
  "RuntimeSnapshot \<Rightarrow> gotime \<Rightarrow> string list \<Rightarrow> Node list \<Rightarrow> go_error + string list"
where
  "validate_nodes s now ids [] = Inr ids"
| "validate_nodes s now ids (node # nodes) =
     (if ValidateNode node \<noteq> None then Inl (Wrap ''incomplete node'' ErrInvalidSnapshot)
      else if now < snap_ExpiresAt s
              \<and> \<not> snd (ClientSessions_For (snap_Sessions s) (EffectiveClientProfile node))
      then Inl (Wrap ''node has no client authority'' ErrInvalidSnapshot)
      else if node_ID node \<in> set ids then Inl (Wrap ''duplicate node id'' ErrInvalidSnapshot)
      else validate_nodes s now (ids @ [node_ID node]) nodes)"

fun validate_selectors :: "string list \<Rightarrow> (string, NodeRef) gomap \<Rightarrow> go_error option" where
  "validate_selectors ids [] = None"
| "validate_selectors ids ((selector, ref) # r) =
     (if selector = [] then Some (Wrap ''empty selector'' ErrInvalidSnapshot)
      else if ref_Generation ref = 0
      then Some (Wrap ''selector has no credential generation'' ErrInvalidSnapshot)
      else if ref_Tombstoned ref then
        (if ref_NodeID ref \<noteq> [] \<or> ref_TombstoneUntil ref = time_zero
         then Some (Wrap ''malformed selector tombstone'' ErrInvalidSnapshot)
         else validate_selectors ids r)
      else if ref_NodeID ref = [] then Some (Wrap ''selector has no node'' ErrInvalidSnapshot)
      else if ref_NodeID ref \<notin> set ids
      then Some (Wrap ''selector references absent node'' ErrInvalidSnapshot)
      else validate_selectors ids r)"

definition ValidateRuntimeSnapshot :: "RuntimeSnapshot option \<Rightarrow> gotime \<Rightarrow> go_error option" where
  "ValidateRuntimeSnapshot snapshot now =
     (case snapshot of
        None \<Rightarrow> Some (Wrap ''missing generation, creation time, or expiry'' ErrInvalidSnapshot)
      | Some s \<Rightarrow>
          if snap_Generation s = 0 \<or> snap_CreatedAt s = time_zero \<or> snap_ExpiresAt s = time_zero
          then Some (Wrap ''missing generation, creation time, or expiry'' ErrInvalidSnapshot)
          else if \<not> snap_ExpiresAt s > snap_CreatedAt s
                  \<or> time_sub (snap_ExpiresAt s) (snap_CreatedAt s) > maxSessionLifetime
          then Some (Wrap ''invalid session lifetime'' ErrInvalidSnapshot)
          else if length (snap_Nodes s) > maxRuntimeNodes
                  \<or> length (snap_Selectors s) > maxRuntimeSelectorRefs
          then Some (Wrap ''runtime snapshot exceeds selector bounds'' ErrInvalidSnapshot)
          else if now < snap_ExpiresAt s \<and> \<not> ClientSessions_Valid (snap_Sessions s)
          then Some (Wrap ''incomplete usable client sessions'' ErrInvalidSnapshot)
          else case validate_nodes s now [] (snap_Nodes s) of
                 Inl e \<Rightarrow> Some e
               | Inr ids \<Rightarrow> validate_selectors ids (snap_Selectors s))"

text \<open>What the loops establish, whatever the order of the entries.\<close>

definition selector_entry_ok :: "string set \<Rightarrow> string \<times> NodeRef \<Rightarrow> bool" where
  "selector_entry_ok ids e = (case e of (selector, ref) \<Rightarrow>
     selector \<noteq> [] \<and> ref_Generation ref \<noteq> 0
     \<and> (if ref_Tombstoned ref then ref_NodeID ref = [] \<and> ref_TombstoneUntil ref \<noteq> time_zero
        else ref_NodeID ref \<noteq> [] \<and> ref_NodeID ref \<in> ids))"

lemma validate_selectors_None:
  "validate_selectors ids m = None \<longleftrightarrow> (\<forall>e\<in>set m. selector_entry_ok (set ids) e)"
  by (induction ids m rule: validate_selectors.induct) (auto simp: selector_entry_ok_def)

lemma validate_nodes_Inr:
  "validate_nodes s now ids nodes = Inr ids' \<longleftrightarrow>
     ids' = ids @ map node_ID nodes \<and> (distinct ids \<longrightarrow> distinct ids')
     \<and> set ids \<inter> node_ID ` set nodes = {} \<and> distinct (map node_ID nodes)
     \<and> (\<forall>n\<in>set nodes. ValidateNode n = None
          \<and> (now < snap_ExpiresAt s \<longrightarrow>
               snd (ClientSessions_For (snap_Sessions s) (EffectiveClientProfile n))))"
  by (induction s now ids nodes rule: validate_nodes.induct) (auto 4 3)

definition snapshot_ok :: "RuntimeSnapshot \<Rightarrow> gotime \<Rightarrow> bool" where
  "snapshot_ok s now \<longleftrightarrow>
     snap_Generation s \<noteq> 0 \<and> snap_CreatedAt s \<noteq> time_zero \<and> snap_ExpiresAt s \<noteq> time_zero
     \<and> snap_CreatedAt s < snap_ExpiresAt s
     \<and> snap_ExpiresAt s - snap_CreatedAt s \<le> maxSessionLifetime
     \<and> length (snap_Nodes s) \<le> maxRuntimeNodes
     \<and> length (snap_Selectors s) \<le> maxRuntimeSelectorRefs
     \<and> (now < snap_ExpiresAt s \<longrightarrow> ClientSessions_Valid (snap_Sessions s)
          \<and> (\<forall>n\<in>set (snap_Nodes s).
                snd (ClientSessions_For (snap_Sessions s) (EffectiveClientProfile n))))
     \<and> (\<forall>n\<in>set (snap_Nodes s). ValidateNode n = None) \<and> distinct (map node_ID (snap_Nodes s))
     \<and> (\<forall>e\<in>set (snap_Selectors s). selector_entry_ok (node_ID ` set (snap_Nodes s)) e)"

lemma time_sub_le:
  "u < t \<Longrightarrow> time_sub t u \<le> maxSessionLifetime \<longleftrightarrow> t - u \<le> maxSessionLifetime"
  by (auto simp: time_sub_def maxSessionLifetime_def)

lemma ValidateRuntimeSnapshot_None:
  "ValidateRuntimeSnapshot (Some s) now = None \<longleftrightarrow> snapshot_ok s now"
proof (cases "snap_CreatedAt s < snap_ExpiresAt s")
  case False
  then show ?thesis by (auto simp: ValidateRuntimeSnapshot_def snapshot_ok_def)
next
  case True
  show ?thesis
  proof (cases "validate_nodes s now [] (snap_Nodes s)")
    case (Inl e)
    then have "\<not> snapshot_ok s now"
      using validate_nodes_Inr [of s now "[]" "snap_Nodes s" "map node_ID (snap_Nodes s)"]
      by (auto simp: snapshot_ok_def)
    then show ?thesis using Inl by (simp add: ValidateRuntimeSnapshot_def)
  next
    case (Inr ids)
    then show ?thesis
      using True time_sub_le [OF True] Inr [unfolded validate_nodes_Inr]
      by (auto simp: ValidateRuntimeSnapshot_def snapshot_ok_def validate_selectors_None
          not_le [symmetric])
  qed
qed

end
