(* ===== verification/State_Persist.thy ===== *)
theory State_Persist
  imports State_Types
begin

text \<open>
  \<open>internal/state/types.go\<close>, second part: subscription generations bound to an account, the
  access token verifier, and the durable state. The random source is the stream of bytes that
  \<open>rand.Read\<close> will deliver; \<open>hmac\<close> is HMAC-SHA256 (key, message) and \<open>argon2\<close> is
  \<open>argon2.IDKey\<close>. The validation of a whole aggregate, with the refresh policy and the rendered
  subscription, is in \<open>State_Validate\<close>.
\<close>

section \<open>Durable records\<close>

record Preferences =
  pref_ExcludedNodeIDs :: "(string, bool) gomap"
  pref_RevealEndpoints :: bool
  pref_RefreshPolicy :: string

record PersistedNode =
  pnode_ID :: string
  pnode_Selector :: string
  pnode_Provider :: string
  pnode_Host :: string
  pnode_Port :: u16
  pnode_Name :: string
  pnode_Group :: string
  pnode_Eligible :: bool
  pnode_Excluded :: bool

record LastGoodState =
  lg_Generation :: u64
  lg_CreatedAt :: gotime
  lg_Nodes :: "PersistedNode list"
  lg_RenderedSubscription :: string
  lg_FetchedGeneration :: u64
  lg_FetchedAt :: gotime
  lg_FetchedBodyHash :: bytes

definition zero_LastGoodState :: LastGoodState where
  "zero_LastGoodState = \<lparr>lg_Generation = 0, lg_CreatedAt = time_zero, lg_Nodes = [],
     lg_RenderedSubscription = [], lg_FetchedGeneration = 0, lg_FetchedAt = time_zero,
     lg_FetchedBodyHash = []\<rparr>"

record SubscriptionGeneration =
  sub_Generation :: u64
  sub_SelectorKey :: bytes
  sub_ProxyAuthKey :: bytes
  sub_AccountBinding :: bytes
  sub_ActivatedAt :: gotime

definition sha256_Size :: nat where "sha256_Size = 32"

definition zero_SubscriptionGeneration :: SubscriptionGeneration where
  "zero_SubscriptionGeneration = \<lparr>sub_Generation = 0, sub_SelectorKey = [], sub_ProxyAuthKey = [],
     sub_AccountBinding = [], sub_ActivatedAt = time_zero\<rparr>"

definition AccountBindingString :: "SubscriptionGeneration \<Rightarrow> string" where
  "AccountBindingString g =
     (if length (sub_AccountBinding g) \<noteq> sha256_Size then []
      else raw_url_encode (sub_AccountBinding g))"

definition validateSubscriptionGeneration :: "SubscriptionGeneration \<Rightarrow> go_error option" where
  "validateSubscriptionGeneration g =
     (if sub_Generation g = 0 \<or> sub_ActivatedAt g = time_zero
         \<or> length (sub_SelectorKey g) \<noteq> sha256_Size \<or> length (sub_ProxyAuthKey g) \<noteq> sha256_Size
         \<or> (length (sub_AccountBinding g) \<noteq> 0 \<and> length (sub_AccountBinding g) \<noteq> sha256_Size)
      then Some (New ''invalid subscription generation'') else None)"

section \<open>Access token\<close>

record Argon2idParameters =
  arg_MemoryKiB :: u32
  arg_Iterations :: u32
  arg_Parallelism :: byte

record AccessTokenVerifier =
  ver_Parameters :: Argon2idParameters
  ver_Salt :: bytes
  ver_Hash :: bytes

definition accessTokenMinBytes :: nat where "accessTokenMinBytes = 16"
definition accessTokenMaxBytes :: nat where "accessTokenMaxBytes = 128"
definition accessTokenSaltBytes :: nat where "accessTokenSaltBytes = 16"
definition accessTokenHashBytes :: nat where "accessTokenHashBytes = sha256_Size"

definition productionArgon2idParameters :: Argon2idParameters where
  "productionArgon2idParameters =
     \<lparr>arg_MemoryKiB = 64 * 1024, arg_Iterations = 3, arg_Parallelism = 1\<rparr>"

type_synonym argon2 = "bytes \<Rightarrow> bytes \<Rightarrow> u32 \<Rightarrow> u32 \<Rightarrow> byte \<Rightarrow> nat \<Rightarrow> bytes"

definition validAccessToken :: "string \<Rightarrow> bool" where
  "validAccessToken token =
     (let token = trim_space token in
      utf8_valid token \<and> length token \<ge> accessTokenMinBytes \<and> length token \<le> accessTokenMaxBytes)"

definition sameArgon2idParameters :: "Argon2idParameters \<Rightarrow> Argon2idParameters \<Rightarrow> bool" where
  "sameArgon2idParameters left right \<longleftrightarrow>
     arg_MemoryKiB left = arg_MemoryKiB right \<and> arg_Iterations left = arg_Iterations right
     \<and> arg_Parallelism left = arg_Parallelism right"

definition validateAccessTokenVerifier :: "AccessTokenVerifier option \<Rightarrow> go_error option" where
  "validateAccessTokenVerifier verifier =
     (case verifier of
        None \<Rightarrow> Some ErrInvalidAccessToken
      | Some v \<Rightarrow>
          if \<not> sameArgon2idParameters (ver_Parameters v) productionArgon2idParameters
             \<or> length (ver_Salt v) \<noteq> accessTokenSaltBytes
             \<or> length (ver_Hash v) \<noteq> accessTokenHashBytes
          then Some ErrInvalidAccessToken else None)"

definition BindingKey :: "AccessTokenVerifier option \<Rightarrow> bytes" where
  "BindingKey v =
     (if validateAccessTokenVerifier v \<noteq> None then []
      else case v of None \<Rightarrow> [] | Some w \<Rightarrow> ver_Hash w)"

definition randomBytes :: "nat \<Rightarrow> stream \<Rightarrow> (go_error + bytes) \<times> stream" where
  "randomBytes n rnd =
     (case read_full n rnd of
        (Inl e, r) \<Rightarrow> (Inl (Wrap ''reading random bytes'' e), r)
      | (Inr x, r) \<Rightarrow> (Inr x, r))"

definition NewAccessTokenVerifier ::
  "argon2 \<Rightarrow> string \<Rightarrow> stream \<Rightarrow> (go_error + AccessTokenVerifier) \<times> stream"
where
  "NewAccessTokenVerifier argon2 token rnd =
     (let token = trim_space token in
      if \<not> validAccessToken token then (Inl ErrInvalidAccessToken, rnd)
      else rd_bind (randomBytes accessTokenSaltBytes rnd) (\<lambda>salt rnd.
        let parameters = productionArgon2idParameters;
            hash = argon2 (bytes_of_string token) salt (arg_Iterations parameters)
                     (arg_MemoryKiB parameters) (arg_Parallelism parameters) accessTokenHashBytes
        in (Inr \<lparr>ver_Parameters = parameters, ver_Salt = salt, ver_Hash = hash\<rparr>, rnd)))"

definition Verifier_VerifyAccessToken :: "argon2 \<Rightarrow> AccessTokenVerifier option \<Rightarrow> string \<Rightarrow> bool" where
  "Verifier_VerifyAccessToken argon2 v token =
     (if validateAccessTokenVerifier v \<noteq> None then False
      else let token = trim_space token in
           if \<not> validAccessToken token then False
           else case v of
                  None \<Rightarrow> False
                | Some w \<Rightarrow>
                    argon2 (bytes_of_string token) (ver_Salt w) (arg_Iterations (ver_Parameters w))
                      (arg_MemoryKiB (ver_Parameters w)) (arg_Parallelism (ver_Parameters w))
                      accessTokenHashBytes = ver_Hash w)"

section \<open>Account binding\<close>

type_synonym hmac = "bytes \<Rightarrow> bytes \<Rightarrow> bytes"

definition accountBindingDomain :: string where
  "accountBindingDomain = ''kfadapter/subscription-account/v2'' @ [nul]"

definition canonicalProviderUserID :: "string \<Rightarrow> go_error + string" where
  "canonicalProviderUserID userID =
     (let canonical = trim_space userID in
      if canonical = [] \<or> length canonical > 1024 \<or> \<not> utf8_valid canonical \<or> nul \<in> set canonical
      then Inl ErrAccountChanged else Inr canonical)"

definition accountBindingFor :: "hmac \<Rightarrow> bytes \<Rightarrow> string \<Rightarrow> go_error + bytes" where
  "accountBindingFor hmac bindingKey userID =
     (case canonicalProviderUserID userID of
        Inl _ \<Rightarrow> Inl ErrAccountChanged
      | Inr canonical \<Rightarrow>
          if length bindingKey \<noteq> sha256_Size then Inl ErrAccountChanged
          else Inr (hmac bindingKey (bytes_of_string accountBindingDomain @ bytes_of_string canonical)))"

definition matchesAccountBinding :: "hmac \<Rightarrow> bytes \<Rightarrow> bytes \<Rightarrow> string \<Rightarrow> bool" where
  "matchesAccountBinding hmac binding bindingKey userID =
     (case accountBindingFor hmac bindingKey userID of
        Inl _ \<Rightarrow> False
      | Inr expected \<Rightarrow> if length binding \<noteq> sha256_Size then False else binding = expected)"

section \<open>Persistent state\<close>

record PersistentState =
  pst_InstallationID :: string
  pst_AccessTokenVerifier :: "AccessTokenVerifier option"
  pst_Subscription :: SubscriptionGeneration
  pst_Preferences :: Preferences
  pst_LastGood :: LastGoodState
  pst_ActiveSession :: "RuntimeSnapshot option"

definition AccessTokenInitialized :: "PersistentState \<Rightarrow> bool" where
  "AccessTokenInitialized p \<longleftrightarrow> validateAccessTokenVerifier (pst_AccessTokenVerifier p) = None"

definition SetAccessToken ::
  "argon2 \<Rightarrow> PersistentState \<Rightarrow> string \<Rightarrow> stream \<Rightarrow> go_error option \<times> PersistentState \<times> stream"
where
  "SetAccessToken argon2 p token rnd =
     (if pst_AccessTokenVerifier p \<noteq> None then (Some ErrAccessTokenAlreadyInitialized, p, rnd)
      else case NewAccessTokenVerifier argon2 token rnd of
             (Inl err, rnd') \<Rightarrow> (Some err, p, rnd')
           | (Inr verifier, rnd') \<Rightarrow>
               (None, p\<lparr>pst_AccessTokenVerifier := Some verifier\<rparr>, rnd'))"

definition VerifyAccessToken :: "argon2 \<Rightarrow> PersistentState \<Rightarrow> string \<Rightarrow> bool" where
  "VerifyAccessToken argon2 p token =
     Verifier_VerifyAccessToken argon2 (pst_AccessTokenVerifier p) token"

definition DeriveAccountBinding :: "hmac \<Rightarrow> PersistentState \<Rightarrow> string \<Rightarrow> go_error + bytes" where
  "DeriveAccountBinding hmac p userID =
     (if \<not> AccessTokenInitialized p then Inl ErrAccountChanged
      else case pst_AccessTokenVerifier p of
             None \<Rightarrow> Inl ErrAccountChanged
           | Some v \<Rightarrow> accountBindingFor hmac (ver_Hash v) userID)"

definition MatchesAccount :: "hmac \<Rightarrow> PersistentState \<Rightarrow> string \<Rightarrow> bool" where
  "MatchesAccount hmac p userID =
     (if \<not> AccessTokenInitialized p then False
      else case pst_AccessTokenVerifier p of
             None \<Rightarrow> False
           | Some v \<Rightarrow>
               matchesAccountBinding hmac (sub_AccountBinding (pst_Subscription p)) (ver_Hash v) userID)"

definition newSubscriptionGeneration ::
  "u64 \<Rightarrow> gotime \<Rightarrow> stream \<Rightarrow> (go_error + SubscriptionGeneration) \<times> stream"
where
  "newSubscriptionGeneration number activatedAt rnd =
     rd_bind (randomBytes 32 rnd) (\<lambda>selectorKey rnd.
     rd_bind (randomBytes 32 rnd) (\<lambda>proxyKey rnd.
       (Inr \<lparr>sub_Generation = number, sub_SelectorKey = selectorKey, sub_ProxyAuthKey = proxyKey,
              sub_AccountBinding = [], sub_ActivatedAt = activatedAt\<rparr>, rnd)))"

text \<open>\<open>hex.EncodeToString\<close>.\<close>

definition hex_digit :: "nat \<Rightarrow> char" where
  "hex_digit n = ''0123456789abcdef'' ! n"

definition hex_encode :: "bytes \<Rightarrow> string" where
  "hex_encode bs = concat (map (\<lambda>b. [hex_digit (unat b div 16), hex_digit (unat b mod 16)]) bs)"

definition randomInstallationID :: "stream \<Rightarrow> (go_error + string) \<times> stream" where
  "randomInstallationID rnd =
     rd_bind (randomBytes 16 rnd) (\<lambda>v rnd. (Inr (hex_encode v), rnd))"

definition validInstallationID :: "string \<Rightarrow> bool" where
  "validInstallationID s =
     (if length s \<noteq> 32 then False
      else list_all (\<lambda>c. \<not> ((chr_code c < chr_code (CHR ''0'') \<or> chr_code c > chr_code (CHR ''9''))
                          \<and> (chr_code c < chr_code (CHR ''a'') \<or> chr_code c > chr_code (CHR ''f'')))) s)"

definition NewPersistentState :: "gotime \<Rightarrow> stream \<Rightarrow> (go_error + PersistentState) \<times> stream" where
  "NewPersistentState now rnd =
     rd_bind (randomInstallationID rnd) (\<lambda>installation rnd.
     rd_bind (newSubscriptionGeneration 1 now rnd) (\<lambda>generation rnd.
       (Inr \<lparr>pst_InstallationID = installation, pst_AccessTokenVerifier = None,
             pst_Subscription = generation,
             pst_Preferences = \<lparr>pref_ExcludedNodeIDs = [], pref_RevealEndpoints = False,
                                 pref_RefreshPolicy = []\<rparr>,
             pst_LastGood = zero_LastGoodState, pst_ActiveSession = None\<rparr>, rnd)))"

definition EnsureSubscriptionAccountBinding ::
  "hmac \<Rightarrow> PersistentState \<Rightarrow> string \<Rightarrow> gotime \<Rightarrow> stream \<Rightarrow>
   (go_error + bool) \<times> PersistentState \<times> stream"
where
  "EnsureSubscriptionAccountBinding hmac p userID now rnd =
     (if \<not> AccessTokenInitialized p \<or> validateSubscriptionGeneration (pst_Subscription p) \<noteq> None
      then (Inl ErrAccountChanged, p, rnd)
      else case DeriveAccountBinding hmac p userID of
             Inl err \<Rightarrow> (Inl err, p, rnd)
           | Inr binding \<Rightarrow>
               if length (sub_AccountBinding (pst_Subscription p)) = 0
               then (Inr False,
                     p\<lparr>pst_Subscription := (pst_Subscription p)\<lparr>sub_AccountBinding := binding\<rparr>\<rparr>, rnd)
               else if sub_AccountBinding (pst_Subscription p) = binding then (Inr False, p, rnd)
               else case newSubscriptionGeneration (sub_Generation (pst_Subscription p) + 1) now rnd of
                      (Inl err, rnd') \<Rightarrow> (Inl err, p, rnd')
                    | (Inr next, rnd') \<Rightarrow>
                        (Inr True,
                         p\<lparr>pst_Subscription := next\<lparr>sub_AccountBinding := binding\<rparr>,
                           pst_LastGood := zero_LastGoodState, pst_ActiveSession := None\<rparr>, rnd'))"

definition lastGoodStateEmpty :: "LastGoodState \<Rightarrow> bool" where
  "lastGoodStateEmpty lg \<longleftrightarrow>
     lg_Generation lg = 0 \<and> lg_CreatedAt lg = time_zero \<and> length (lg_Nodes lg) = 0
     \<and> lg_RenderedSubscription lg = [] \<and> lg_FetchedGeneration lg = 0
     \<and> lg_FetchedAt lg = time_zero \<and> length (lg_FetchedBodyHash lg) = 0"

fun validate_persisted :: "string list \<Rightarrow> PersistedNode list \<Rightarrow> go_error option" where
  "validate_persisted ids [] = None"
| "validate_persisted ids (persisted # nodes) =
     (if pnode_Selector persisted = [] then Some (New ''invalid persisted node selector'')
      else
        let node = zero_Node\<lparr>node_ID := pnode_ID persisted, node_Provider := pnode_Provider persisted,
                     node_Host := pnode_Host persisted, node_Port := pnode_Port persisted,
                     node_Eligible := pnode_Eligible persisted\<rparr>
        in (case ValidateNode node of
              Some err \<Rightarrow> Some err
            | None \<Rightarrow>
                if pnode_ID persisted \<in> set ids then Some (New ''duplicate persisted node id'')
                else validate_persisted (pnode_ID persisted # ids) nodes))"

definition validatePersistedNodes :: "PersistedNode list \<Rightarrow> go_error option" where
  "validatePersistedNodes nodes =
     (if length nodes = 0 \<or> length nodes > maxPersistedNodes
      then Some (New ''invalid persisted node count'')
      else validate_persisted [] nodes)"

section \<open>Lemmas\<close>

lemma randomBytes_Inr:
  "randomBytes n rnd = (Inr x, r) \<Longrightarrow> length x = n"
  by (auto simp: randomBytes_def split: sum.splits prod.splits dest: read_full_InrD)

lemma randomBytes_stream:
  "randomBytes n rnd = (Inr x, r) \<Longrightarrow> length x = n \<and> st_data rnd = x @ st_data r"
  by (auto simp: randomBytes_def split: sum.splits prod.splits dest!: read_full_InrD)

text \<open>The two keys of a new generation are the next 64 bytes of the random source.\<close>

lemma newSubscriptionGeneration_stream:
  "newSubscriptionGeneration g t rnd = (Inr s, r) \<Longrightarrow>
     st_data rnd = sub_SelectorKey s @ sub_ProxyAuthKey s @ st_data r"
  by (auto simp: newSubscriptionGeneration_def rd_bind_eq_Inr dest!: randomBytes_stream)

lemma newSubscriptionGeneration_Inr:
  assumes "newSubscriptionGeneration g t rnd = (Inr s, r)"
  shows "sub_Generation s = g \<and> sub_ActivatedAt s = t \<and> sub_AccountBinding s = []
    \<and> length (sub_SelectorKey s) = 32 \<and> length (sub_ProxyAuthKey s) = 32"
  using assms
  by (auto simp: newSubscriptionGeneration_def rd_bind_eq_Inr dest: randomBytes_Inr)

lemma generation_valid_iff:
  "validateSubscriptionGeneration g = None \<longleftrightarrow>
     sub_Generation g \<noteq> 0 \<and> sub_ActivatedAt g \<noteq> time_zero \<and> length (sub_SelectorKey g) = 32
     \<and> length (sub_ProxyAuthKey g) = 32
     \<and> (sub_AccountBinding g = [] \<or> length (sub_AccountBinding g) = 32)"
  by (auto simp: validateSubscriptionGeneration_def sha256_Size_def)

lemma accountBindingFor_Inr:
  "accountBindingFor hmac key user = Inr b \<longleftrightarrow>
     length key = 32 \<and> (\<exists>c. canonicalProviderUserID user = Inr c
       \<and> b = hmac key (bytes_of_string accountBindingDomain @ bytes_of_string c))"
  by (auto simp: accountBindingFor_def sha256_Size_def split: sum.splits)

lemma matchesAccountBinding_iff:
  "matchesAccountBinding hmac b key user \<longleftrightarrow> length b = 32 \<and> accountBindingFor hmac key user = Inr b"
  by (auto simp: matchesAccountBinding_def sha256_Size_def split: sum.splits if_splits)

lemma DeriveAccountBinding_Inr:
  "DeriveAccountBinding hmac p user = Inr b \<longleftrightarrow>
     AccessTokenInitialized p \<and> (\<exists>v. pst_AccessTokenVerifier p = Some v
       \<and> accountBindingFor hmac (ver_Hash v) user = Inr b)"
  by (auto simp: DeriveAccountBinding_def split: option.splits)

lemma MatchesAccount_iff:
  "MatchesAccount hmac p user \<longleftrightarrow>
     length (sub_AccountBinding (pst_Subscription p)) = 32
     \<and> DeriveAccountBinding hmac p user = Inr (sub_AccountBinding (pst_Subscription p))"
  by (auto simp: MatchesAccount_def DeriveAccountBinding_Inr matchesAccountBinding_iff split: option.splits)

lemma NewAccessTokenVerifier_Inr:
  assumes "NewAccessTokenVerifier argon2 token rnd = (Inr v, rnd')"
    and "\<And>pw salt t m p n. length (argon2 pw salt t m p n) = n"
  shows "validateAccessTokenVerifier (Some v) = None
    \<and> Verifier_VerifyAccessToken argon2 (Some v) token"
  using assms
  by (auto simp: NewAccessTokenVerifier_def rd_bind_eq_Inr validateAccessTokenVerifier_def
      Verifier_VerifyAccessToken_def Let_def sameArgon2idParameters_def accessTokenSaltBytes_def
      dest!: randomBytes_Inr split: if_splits)

text \<open>
  C18: Setup claims an installation once and for all: after \<open>SetAccessToken\<close> succeeds the
  installation is initialized, the token it was given verifies, and every later attempt fails
  with \<open>ErrAccessTokenAlreadyInitialized\<close> and changes nothing. A failing attempt never changes
  the state.
\<close>

theorem access_token_set_once:
  assumes argon2: "\<And>pw salt t m p n. length (argon2 pw salt t m p n) = n"
    and set: "SetAccessToken argon2 p token rnd = (res, p', rnd')"
  shows "case res of
      Some err \<Rightarrow> p' = p
    | None \<Rightarrow> AccessTokenInitialized p' \<and> VerifyAccessToken argon2 p' token
        \<and> SetAccessToken argon2 p' other rnd2 = (Some ErrAccessTokenAlreadyInitialized, p', rnd2)"
proof (cases "NewAccessTokenVerifier argon2 token rnd")
  case (Pair r rnd'')
  show ?thesis
  proof (cases r)
    case (Inl e)
    with Pair set show ?thesis by (auto simp: SetAccessToken_def split: if_splits)
  next
    case (Inr v)
    note ok = NewAccessTokenVerifier_Inr [OF Pair [unfolded Inr] argon2]
    with Pair Inr set show ?thesis
      by (auto simp: SetAccessToken_def AccessTokenInitialized_def VerifyAccessToken_def split: if_splits)
  qed
qed

definition demo_argon2 :: argon2 where
  "demo_argon2 pw salt t m p n = take n (pw @ salt @ replicate n 0)"

lemma access_token_set_once_witness:
  "\<exists>p' r. SetAccessToken demo_argon2
       \<lparr>pst_InstallationID = [], pst_AccessTokenVerifier = None,
        pst_Subscription = zero_SubscriptionGeneration,
        pst_Preferences = \<lparr>pref_ExcludedNodeIDs = [], pref_RevealEndpoints = False, pref_RefreshPolicy = []\<rparr>,
        pst_LastGood = zero_LastGoodState, pst_ActiveSession = None\<rparr>
       '' correct horse battery '' \<lparr>st_data = replicate 16 7, st_err = EOF\<rparr> = (None, p', r)
     \<and> VerifyAccessToken demo_argon2 p' '' correct horse battery ''"
  (is "\<exists>p' r. SetAccessToken _ ?p ?t ?r = _ \<and> _")
proof -
  have len: "length (demo_argon2 pw salt t m p n) = n" for pw salt t m p n
    by (simp add: demo_argon2_def)
  obtain res p' r where s: "SetAccessToken demo_argon2 ?p ?t ?r = (res, p', r)" by (metis prod_cases3)
  have "fst (SetAccessToken demo_argon2 ?p ?t ?r) = None" by code_simp
  then have "res = None" using s by simp
  then show ?thesis using access_token_set_once [OF len s] s by auto
qed

lemma Ensure_cases:
  assumes hmac: "\<And>k m. length (hmac k m) = 32"
    and ens: "EnsureSubscriptionAccountBinding hmac p user now rnd = (Inr changed, p', rnd')"
  obtains b where "DeriveAccountBinding hmac p user = Inr b" "length b = 32"
      "validateSubscriptionGeneration (pst_Subscription p) = None"
      "sub_AccountBinding (pst_Subscription p) = []" "\<not> changed"
      "p' = p\<lparr>pst_Subscription := (pst_Subscription p)\<lparr>sub_AccountBinding := b\<rparr>\<rparr>"
  | b where "DeriveAccountBinding hmac p user = Inr b" "length b = 32"
      "validateSubscriptionGeneration (pst_Subscription p) = None"
      "sub_AccountBinding (pst_Subscription p) = b" "\<not> changed" "p' = p"
  | b nxt where "DeriveAccountBinding hmac p user = Inr b" "length b = 32"
      "validateSubscriptionGeneration (pst_Subscription p) = None"
      "sub_AccountBinding (pst_Subscription p) \<noteq> []"
      "sub_AccountBinding (pst_Subscription p) \<noteq> b" "changed"
      "newSubscriptionGeneration (sub_Generation (pst_Subscription p) + 1) now rnd = (Inr nxt, rnd')"
      "p' = p\<lparr>pst_Subscription := nxt\<lparr>sub_AccountBinding := b\<rparr>, pst_LastGood := zero_LastGoodState,
             pst_ActiveSession := None\<rparr>"
proof -
  obtain b where b: "DeriveAccountBinding hmac p user = Inr b"
      and v: "validateSubscriptionGeneration (pst_Subscription p) = None"
    using ens by (auto simp: EnsureSubscriptionAccountBinding_def split: if_splits sum.splits)
  have len: "length b = 32"
    using b hmac by (auto simp: DeriveAccountBinding_Inr accountBindingFor_Inr)
  show thesis
    using ens b len v that
    by (auto simp: EnsureSubscriptionAccountBinding_def split: if_splits sum.splits prod.splits)
qed

text \<open>
  C19: Binding an installation to an account is stable for that account and forgets another's.
  When \<open>EnsureSubscriptionAccountBinding\<close> succeeds the state matches the account, and identity,
  access token and preferences are kept. Either nothing but the binding is written and no random byte
  is taken - exactly when the state was unbound or already matched - or the credentials are rotated:
  the generation is the next one, activated now, its selector key and its proxy key are the next 32 and
  the 32 following bytes of the random source, and no cached body or session of the old account is
  left. When it fails nothing changes.
\<close>

theorem account_binding_rotation:
  assumes hmac: "\<And>k m. length (hmac k m) = 32"
    and ens: "EnsureSubscriptionAccountBinding hmac p user now rnd = (res, p', rnd')"
  shows "case res of
      Inl err \<Rightarrow> p' = p
    | Inr changed \<Rightarrow>
        MatchesAccount hmac p' user
        \<and> (\<not> changed \<longleftrightarrow> sub_AccountBinding (pst_Subscription p) = [] \<or> MatchesAccount hmac p user)
        \<and> pst_InstallationID p' = pst_InstallationID p \<and> pst_Preferences p' = pst_Preferences p
        \<and> pst_AccessTokenVerifier p' = pst_AccessTokenVerifier p
        \<and> (if changed
           then sub_Generation (pst_Subscription p') = sub_Generation (pst_Subscription p) + 1
             \<and> sub_ActivatedAt (pst_Subscription p') = now
             \<and> st_data rnd = sub_SelectorKey (pst_Subscription p') @ sub_ProxyAuthKey (pst_Subscription p') @ st_data rnd'
             \<and> length (sub_SelectorKey (pst_Subscription p')) = 32
             \<and> length (sub_ProxyAuthKey (pst_Subscription p')) = 32
             \<and> pst_LastGood p' = zero_LastGoodState \<and> pst_ActiveSession p' = None
             \<and> sub_AccountBinding (pst_Subscription p') \<noteq> sub_AccountBinding (pst_Subscription p)
           else rnd' = rnd \<and> sub_Generation (pst_Subscription p') = sub_Generation (pst_Subscription p)
             \<and> sub_SelectorKey (pst_Subscription p') = sub_SelectorKey (pst_Subscription p)
             \<and> sub_ProxyAuthKey (pst_Subscription p') = sub_ProxyAuthKey (pst_Subscription p)
             \<and> sub_ActivatedAt (pst_Subscription p') = sub_ActivatedAt (pst_Subscription p)
             \<and> pst_LastGood p' = pst_LastGood p \<and> pst_ActiveSession p' = pst_ActiveSession p)"
proof (cases res)
  case (Inl err)
  then show ?thesis
    using ens by (auto simp: EnsureSubscriptionAccountBinding_def split: if_splits sum.splits prod.splits)
next
  case (Inr changed)
  have derive: "DeriveAccountBinding hmac (p\<lparr>pst_Subscription := s, pst_LastGood := l, pst_ActiveSession := a\<rparr>) user
      = DeriveAccountBinding hmac p user" for s l a
    by (simp add: DeriveAccountBinding_def AccessTokenInitialized_def)
  have derive2: "DeriveAccountBinding hmac (p\<lparr>pst_Subscription := s\<rparr>) user
      = DeriveAccountBinding hmac p user" for s
    by (simp add: DeriveAccountBinding_def AccessTokenInitialized_def)
  have unread: "\<not> changed \<Longrightarrow> rnd' = rnd"
    using ens Inr by (auto simp: EnsureSubscriptionAccountBinding_def split: if_splits sum.splits prod.splits)
  show ?thesis
  proof (cases rule: Ensure_cases [OF hmac ens [unfolded Inr]])
    case (1 b)
    then show ?thesis using unread by (auto simp: Inr MatchesAccount_iff derive2)
  next
    case (2 b)
    then show ?thesis using unread by (auto simp: Inr MatchesAccount_iff)
  next
    case (3 b nxt)
    then show ?thesis
      using newSubscriptionGeneration_Inr [OF 3(7)] newSubscriptionGeneration_stream [OF 3(7)]
      by (auto simp: Inr MatchesAccount_iff derive)
  qed
qed

definition demo_hmac :: hmac where
  "demo_hmac k m = take 32 (drop 34 m @ k @ replicate 32 0)"

definition demo_verifier :: AccessTokenVerifier where
  "demo_verifier = \<lparr>ver_Parameters = productionArgon2idParameters, ver_Salt = replicate 16 1,
     ver_Hash = replicate 32 2\<rparr>"

definition demo_persistent :: "bytes \<Rightarrow> PersistentState" where
  "demo_persistent binding =
     \<lparr>pst_InstallationID = [], pst_AccessTokenVerifier = Some demo_verifier,
      pst_Subscription = \<lparr>sub_Generation = 4, sub_SelectorKey = replicate 32 3,
        sub_ProxyAuthKey = replicate 32 4, sub_AccountBinding = binding, sub_ActivatedAt = 9\<rparr>,
      pst_Preferences = \<lparr>pref_ExcludedNodeIDs = [], pref_RevealEndpoints = False, pref_RefreshPolicy = []\<rparr>,
      pst_LastGood = zero_LastGoodState, pst_ActiveSession = None\<rparr>"

lemma demo_hmac_length: "length (demo_hmac k m) = 32"
  by (simp add: demo_hmac_def)

lemma account_binding_rotation_witness:
  "\<exists>p' r. EnsureSubscriptionAccountBinding demo_hmac (demo_persistent (replicate 32 8)) ''alice'' 77
      \<lparr>st_data = replicate 32 5 @ replicate 32 6, st_err = EOF\<rparr> = (Inr True, p', r)
    \<and> MatchesAccount demo_hmac p' ''alice'' \<and> sub_Generation (pst_Subscription p') = 5
    \<and> sub_SelectorKey (pst_Subscription p') = replicate 32 5 \<and> sub_ProxyAuthKey (pst_Subscription p') = replicate 32 6"
  (is "\<exists>p' r. EnsureSubscriptionAccountBinding _ ?p _ _ ?r = _ \<and> _")
proof -
  obtain res p' r where e: "EnsureSubscriptionAccountBinding demo_hmac ?p ''alice'' 77 ?r = (res, p', r)"
    by (metis prod_cases3)
  have "fst (EnsureSubscriptionAccountBinding demo_hmac ?p ''alice'' 77 ?r) = Inr True" by code_simp
  then have res: "res = Inr True" using e by simp
  note rot = account_binding_rotation [OF demo_hmac_length e, unfolded res, simplified]
  have "sub_SelectorKey (pst_Subscription p') = take 32 (st_data ?r)"
    "sub_ProxyAuthKey (pst_Subscription p') = take 32 (drop 32 (st_data ?r))" using rot by simp_all
  then have "sub_SelectorKey (pst_Subscription p') = replicate 32 5"
    "sub_ProxyAuthKey (pst_Subscription p') = replicate 32 6" by simp_all
  moreover have "sub_Generation (pst_Subscription ?p) = 4" by (simp add: demo_persistent_def)
  ultimately show ?thesis using rot e res by auto
qed

lemma hex_digit_ok: "n < 16 \<Longrightarrow> 48 \<le> chr_code (hex_digit n) \<and> chr_code (hex_digit n) \<le> 57
    \<or> 97 \<le> chr_code (hex_digit n) \<and> chr_code (hex_digit n) \<le> 102"
proof -
  have "list_all (\<lambda>n. 48 \<le> chr_code (hex_digit n) \<and> chr_code (hex_digit n) \<le> 57
    \<or> 97 \<le> chr_code (hex_digit n) \<and> chr_code (hex_digit n) \<le> 102) [0..<16]"
    by code_simp
  then show "n < 16 \<Longrightarrow> ?thesis" by (simp add: list_all_iff)
qed

lemma length_hex_encode [simp]: "length (hex_encode bs) = 2 * length bs"
  by (induction bs) (simp_all add: hex_encode_def)

lemma hex_encode_valid:
  assumes "length bs = 16"
  shows "validInstallationID (hex_encode bs)"
proof -
  have codes: "chr_code (CHR ''0'') = 48" "chr_code (CHR ''9'') = 57" "chr_code (CHR ''a'') = 97"
      "chr_code (CHR ''f'') = 102"
    by (simp_all add: chr_code_def)
  have ok: "\<not> ((chr_code c < 48 \<or> chr_code c > 57) \<and> (chr_code c < 97 \<or> chr_code c > 102))"
    if c: "c \<in> set (hex_encode bs)" for c
  proof -
    have lt: "unat b div 16 < 16" "unat b mod 16 < 16" for b :: byte
      using unat_byte_lt [of b] by (simp_all add: less_mult_imp_div_less)
    have "\<exists>b :: byte. c = hex_digit (unat b div 16) \<or> c = hex_digit (unat b mod 16)"
      using c by (auto simp: hex_encode_def)
    then obtain n where "n < 16" "c = hex_digit n" using lt by blast
    then show ?thesis using hex_digit_ok [of n] by auto
  qed
  then show ?thesis
    using assms by (simp add: validInstallationID_def list_all_iff codes)
qed

text \<open>
  A new installation is well formed: its id is 32 lower-case hexadecimal digits, its
  subscription generation is valid, number 1 and not bound to an account, and no access token
  is set, so setup can claim it.
\<close>

theorem new_installation_valid:
  assumes "NewPersistentState now rnd = (Inr p, rnd')" and "now \<noteq> time_zero"
  shows "validInstallationID (pst_InstallationID p)
    \<and> validateSubscriptionGeneration (pst_Subscription p) = None
    \<and> sub_Generation (pst_Subscription p) = 1 \<and> sub_AccountBinding (pst_Subscription p) = []
    \<and> \<not> AccessTokenInitialized p \<and> pst_AccessTokenVerifier p = None"
  using assms
  by (auto simp: NewPersistentState_def randomInstallationID_def rd_bind_eq_Inr hex_encode_valid
      generation_valid_iff AccessTokenInitialized_def validateAccessTokenVerifier_def
      dest!: randomBytes_Inr newSubscriptionGeneration_Inr)

lemma new_installation_valid_witness:
  "\<exists>p r. NewPersistentState 5 \<lparr>st_data = replicate 80 0xAB, st_err = EOF\<rparr> = (Inr p, r)
     \<and> validInstallationID (pst_InstallationID p)"
proof -
  obtain res r where n: "NewPersistentState 5 \<lparr>st_data = replicate 80 0xAB, st_err = EOF\<rparr> = (res, r)"
    by (metis surj_pair)
  have "is_ok (fst (NewPersistentState 5 \<lparr>st_data = replicate 80 0xAB, st_err = EOF\<rparr>))" by code_simp
  then obtain p where p: "res = Inr p" using n by (auto simp: is_ok_iff)
  show ?thesis using new_installation_valid [OF n [unfolded p]] n p by (auto simp: time_zero_def)
qed

end
