(* ===== verification/State_Manager.thy ===== *)
theory State_Manager
  imports State_Persist
begin

text \<open>
  \<open>internal/state/manager.go\<close>: the runtime store and the manager that serializes the service's
  lifecycle. Every operation of the manager runs under its mutex, so an operation is one
  function from the manager to its result and the manager after it; \<open>time.Now()\<close> is an argument.
  The function values that \<open>Begin\<close> and \<open>InstallSubscriptionGeneration\<close> return are represented by
  the data they close over (a lease and its operation, a candidate and the generation it
  replaced) and by the operations \<open>finish\<close> and \<open>rollback\<close>; that each is run at most once is part
  of the service's step relation in \<open>State_Service\<close>.
\<close>

section \<open>Runtime store\<close>

definition SessionUsable :: "RuntimeSnapshot option \<Rightarrow> gotime \<Rightarrow> bool" where
  "SessionUsable snapshot now =
     (case snapshot of
        None \<Rightarrow> False
      | Some s \<Rightarrow> ClientSessions_Valid (snap_Sessions s) \<and> snap_CreatedAt s \<noteq> time_zero
          \<and> snap_ExpiresAt s \<noteq> time_zero \<and> \<not> now < snap_CreatedAt s \<and> now < snap_ExpiresAt s)"

definition NewRuntimeStore :: "RuntimeSnapshot option \<Rightarrow> gotime \<Rightarrow> go_error + RuntimeSnapshot option" where
  "NewRuntimeStore initial now =
     (case initial of
        None \<Rightarrow> Inr None
      | Some s \<Rightarrow> (case ValidateRuntimeSnapshot initial now of
                     Some err \<Rightarrow> Inl err
                   | None \<Rightarrow> Inr (Some s)))"

text \<open>
  \<open>RuntimeStore.Publish\<close>. The compare-and-swap loop retries until no other store intervenes; its
  linearization point is the step in which it succeeds or finds a newer generation.
\<close>

definition RuntimeStore_Publish ::
  "RuntimeSnapshot option \<Rightarrow> gotime \<Rightarrow> RuntimeSnapshot option \<Rightarrow> go_error option \<times> RuntimeSnapshot option"
where
  "RuntimeStore_Publish nxt now store =
     (case ValidateRuntimeSnapshot nxt now of
        Some err \<Rightarrow> (Some err, store)
      | None \<Rightarrow>
          (case (nxt, store) of
             (Some n, Some current) \<Rightarrow>
               if snap_Generation n \<le> snap_Generation current
               then (Some (Wrap ''non-monotonic generation'' ErrInvalidSnapshot), store)
               else (None, nxt)
           | _ \<Rightarrow> (None, nxt)))"

section \<open>The manager\<close>

record Manager =
  mgr_runtime :: "RuntimeSnapshot option"
  mgr_state :: ServiceState
  mgr_active :: "Operation option"
  mgr_lease :: u64
  mgr_subscription :: SubscriptionGeneration
  mgr_accountBindingKey :: bytes
  mgr_bindingKeyConfigured :: bool

text \<open>
  The restored snapshot: dropped when it lies in the future, without its sessions and expired
  when they are not usable.
\<close>

definition prepare_initial :: "gotime \<Rightarrow> RuntimeSnapshot option \<Rightarrow> RuntimeSnapshot option" where
  "prepare_initial now initial =
     (case initial of
        None \<Rightarrow> None
      | Some i \<Rightarrow>
          if now < snap_CreatedAt i then None
          else if \<not> SessionUsable initial now
          then (let p = i\<lparr>snap_Sessions := ClientSessions_Wipe (snap_Sessions i)\<rparr>
                in Some (if now < snap_ExpiresAt p then p\<lparr>snap_ExpiresAt := now\<rparr> else p))
          else initial)"

definition NewManagerWithSubscription ::
  "hmac \<Rightarrow> gotime \<Rightarrow> RuntimeSnapshot option \<Rightarrow> SubscriptionGeneration \<Rightarrow> bytes \<Rightarrow> go_error + Manager"
where
  "NewManagerWithSubscription hmac now initial subscription bindingKey =
     (if length bindingKey \<noteq> 0 \<and> length bindingKey \<noteq> sha256_Size then Inl ErrAccountChanged
      else if sub_Generation subscription \<noteq> 0 \<and> validateSubscriptionGeneration subscription \<noteq> None
      then Inl ErrAccountChanged
      else if length (sub_AccountBinding subscription) \<noteq> 0 \<and> length bindingKey \<noteq> sha256_Size
      then Inl ErrAccountChanged
      else
        let prepared = prepare_initial now initial
        in try_bind (NewRuntimeStore prepared now) (\<lambda>store.
             let manager =
                   \<lparr>mgr_runtime = store, mgr_state = StateSignedOut, mgr_active = None, mgr_lease = 0,
                    mgr_subscription = subscription, mgr_accountBindingKey = bindingKey,
                    mgr_bindingKeyConfigured = (length bindingKey = sha256_Size)\<rparr>
             in case initial of
                  None \<Rightarrow> Inr manager
                | Some i \<Rightarrow>
                    if SessionUsable initial now then
                      if \<not> mgr_bindingKeyConfigured manager \<or> sub_Generation subscription = 0
                         \<or> length (sub_AccountBinding subscription) \<noteq> sha256_Size
                         \<or> \<not> matchesAccountBinding hmac (sub_AccountBinding subscription) bindingKey
                               (ClientSessions_UserID (snap_Sessions i))
                      then Inl ErrAccountChanged
                      else Inr (manager\<lparr>mgr_state := StateReady\<rparr>)
                    else (case prepared of
                            Some p \<Rightarrow> if length (snap_Nodes p) \<noteq> 0
                                      then Inr (manager\<lparr>mgr_state := StateExpired\<rparr>)
                                      else Inr manager
                          | None \<Rightarrow> Inr manager)))"

definition NewManager :: "hmac \<Rightarrow> gotime \<Rightarrow> RuntimeSnapshot option \<Rightarrow> go_error + Manager" where
  "NewManager hmac now initial =
     NewManagerWithSubscription hmac now initial zero_SubscriptionGeneration []"

definition ConfigureBindingKey :: "bytes \<Rightarrow> Manager \<Rightarrow> go_error option \<times> Manager" where
  "ConfigureBindingKey bindingKey m =
     (if length bindingKey \<noteq> sha256_Size then (Some ErrAccountChanged, m)
      else if mgr_bindingKeyConfigured m then (Some ErrBindingKeyAlreadyConfigured, m)
      else (None, m\<lparr>mgr_accountBindingKey := bindingKey, mgr_bindingKeyConfigured := True\<rparr>))"

record TunnelPin =
  pin_Session :: SessionSecrets
  pin_ExpiresAt :: gotime
  pin_Node :: Node
  pin_Ref :: NodeRef

definition serving_state :: "ServiceState \<Rightarrow> bool" where
  "serving_state st \<longleftrightarrow> st = StateReady \<or> st = StateDegraded \<or> st = StateSyncing"

definition CompactPin :: "string \<Rightarrow> u64 \<Rightarrow> gotime \<Rightarrow> Manager \<Rightarrow> go_error + TunnelPin" where
  "CompactPin selector credentialGeneration now m =
     (if selector = [] \<or> credentialGeneration = 0 then Inl ErrSelectorUnknown
      else if mgr_state m \<noteq> StateReady \<and> mgr_state m \<noteq> StateDegraded \<and> mgr_state m \<noteq> StateSyncing
      then Inl ErrSelectorUnknown
      else if \<not> SessionUsable (mgr_runtime m) now then Inl ErrSelectorUnknown
      else case mgr_runtime m of
             None \<Rightarrow> Inl ErrSelectorUnknown
           | Some current \<Rightarrow>
               try_bind (ResolveSelector current selector now) (\<lambda>(node, ref).
                 if ref_Generation ref \<noteq> credentialGeneration then Inl ErrSelectorUnknown
                 else case ClientSessions_For (snap_Sessions current) (EffectiveClientProfile node) of
                        (session, available) \<Rightarrow>
                          if \<not> available then Inl ErrSelectorUnknown
                          else Inr \<lparr>pin_Session = session, pin_ExpiresAt = snap_ExpiresAt current,
                                    pin_Node = node, pin_Ref = ref\<rparr>))"

text \<open>\<open>subtle.ConstantTimeCompare\<close> of every field.\<close>

definition sameSessionAuthority :: "SessionSecrets \<Rightarrow> SessionSecrets \<Rightarrow> bool" where
  "sameSessionAuthority a b \<longleftrightarrow>
     sess_UserID a = sess_UserID b \<and> sess_LoginToken a = sess_LoginToken b
     \<and> sess_ProviderToken a = sess_ProviderToken b \<and> sess_TunnelPassword a = sess_TunnelPassword b
     \<and> sess_TunnelMethod a = sess_TunnelMethod b
     \<and> sess_ProviderExtension a = sess_ProviderExtension b"

definition sameClientSessions :: "ClientSessions \<Rightarrow> ClientSessions \<Rightarrow> bool" where
  "sameClientSessions left right \<longleftrightarrow>
     sameSessionAuthority (cs_IOS left) (cs_IOS right)
     \<and> sameSessionAuthority (cs_Windows left) (cs_Windows right)"

definition currentSessionMatchesPin :: "RuntimeSnapshot option \<Rightarrow> TunnelPin \<Rightarrow> bool" where
  "currentSessionMatchesPin current pin =
     (case current of
        None \<Rightarrow> False
      | Some c \<Rightarrow>
          (case ClientSessions_For (snap_Sessions c) (EffectiveClientProfile (pin_Node pin)) of
             (session, available) \<Rightarrow> available \<and> sameSessionAuthority session (pin_Session pin)))"

definition SessionCurrentPin :: "TunnelPin \<Rightarrow> gotime \<Rightarrow> Manager \<Rightarrow> bool" where
  "SessionCurrentPin pin now m \<longleftrightarrow>
     serving_state (mgr_state m)
     \<and> (case mgr_runtime m of None \<Rightarrow> False | Some current \<Rightarrow> snap_ExpiresAt current = pin_ExpiresAt pin)
     \<and> SessionUsable (mgr_runtime m) now
     \<and> currentSessionMatchesPin (mgr_runtime m) pin"

definition SessionCurrent :: "RuntimeSnapshot option \<Rightarrow> gotime \<Rightarrow> Manager \<Rightarrow> bool" where
  "SessionCurrent pinned now m =
     (case (pinned, mgr_runtime m) of
        (Some p, Some current) \<Rightarrow>
          serving_state (mgr_state m) \<and> snap_ExpiresAt current = snap_ExpiresAt p
          \<and> SessionUsable (Some current) now
          \<and> sameClientSessions (snap_Sessions current) (snap_Sessions p)
      | _ \<Rightarrow> False)"

section \<open>Subscription authority\<close>

definition sameSubscriptionCredentials :: "SubscriptionGeneration \<Rightarrow> SubscriptionGeneration \<Rightarrow> bool" where
  "sameSubscriptionCredentials left right \<longleftrightarrow>
     sub_SelectorKey left = sub_SelectorKey right \<and> sub_ProxyAuthKey left = sub_ProxyAuthKey right"

definition sameSubscriptionGeneration :: "SubscriptionGeneration \<Rightarrow> SubscriptionGeneration \<Rightarrow> bool" where
  "sameSubscriptionGeneration left right \<longleftrightarrow>
     sub_Generation left = sub_Generation right \<and> sameSubscriptionCredentials left right
     \<and> sub_AccountBinding left = sub_AccountBinding right"

definition rotatedSubscriptionMaterial :: "SubscriptionGeneration \<Rightarrow> SubscriptionGeneration \<Rightarrow> bool" where
  "rotatedSubscriptionMaterial current candidate \<longleftrightarrow>
     sub_SelectorKey current \<noteq> sub_SelectorKey candidate
     \<and> sub_ProxyAuthKey current \<noteq> sub_ProxyAuthKey candidate"

text \<open>
  \<open>InstallSubscriptionGeneration\<close> returns the generation it replaced; with the candidate, it is
  what the returned rollback function closes over.
\<close>

definition InstallSubscriptionGeneration ::
  "hmac \<Rightarrow> SubscriptionGeneration \<Rightarrow> string \<Rightarrow> Manager \<Rightarrow> (go_error + SubscriptionGeneration) \<times> Manager"
where
  "InstallSubscriptionGeneration hmac candidate userID m =
     (if validateSubscriptionGeneration candidate \<noteq> None then (Inl ErrAccountChanged, m)
      else if (mgr_state m \<noteq> StateAuthenticating \<and> mgr_state m \<noteq> StateSyncing)
              \<or> \<not> mgr_bindingKeyConfigured m \<or> length (mgr_accountBindingKey m) \<noteq> sha256_Size
              \<or> length (sub_AccountBinding candidate) \<noteq> sha256_Size
              \<or> \<not> matchesAccountBinding hmac (sub_AccountBinding candidate) (mgr_accountBindingKey m) userID
      then (Inl ErrAccountChanged, m)
      else
        let current = mgr_subscription m;
            refused =
              (if sub_Generation current = 0 then False
               else if length (sub_AccountBinding current) = 0
               then sub_Generation candidate \<noteq> sub_Generation current
                    \<or> \<not> sameSubscriptionCredentials current candidate
               else if sub_AccountBinding current = sub_AccountBinding candidate
               then sub_Generation candidate \<noteq> sub_Generation current
                    \<or> \<not> sameSubscriptionCredentials current candidate
               else sub_Generation candidate \<noteq> sub_Generation current + 1
                    \<or> \<not> rotatedSubscriptionMaterial current candidate)
        in if refused then (Inl ErrAccountChanged, m)
           else (Inr current, m\<lparr>mgr_subscription := candidate\<rparr>))"

definition rollback :: "SubscriptionGeneration \<Rightarrow> SubscriptionGeneration \<Rightarrow> Manager \<Rightarrow> Manager" where
  "rollback candidate previous m =
     (if sameSubscriptionGeneration (mgr_subscription m) candidate
      then m\<lparr>mgr_subscription := previous\<rparr> else m)"

datatype AccountBindingStatus = AccountBindingUnbound | AccountBindingMatch | AccountBindingMismatch

definition Manager_AccountBindingStatus :: "hmac \<Rightarrow> string \<Rightarrow> Manager \<Rightarrow> AccountBindingStatus" where
  "Manager_AccountBindingStatus hmac userID m =
     (if \<not> mgr_bindingKeyConfigured m \<or> sub_Generation (mgr_subscription m) = 0
         \<or> length (sub_AccountBinding (mgr_subscription m)) = 0
      then AccountBindingUnbound
      else if matchesAccountBinding hmac (sub_AccountBinding (mgr_subscription m))
                (mgr_accountBindingKey m) userID
      then AccountBindingMatch else AccountBindingMismatch)"

section \<open>Lifecycle\<close>

record Status =
  status_State :: ServiceState
  status_Generation :: u64
  status_CreatedAt :: gotime
  status_ExpiresAt :: gotime
  status_Account :: AccountSummary
  status_NodeTotal :: nat
  status_Eligible :: nat

definition Manager_Status :: "Manager \<Rightarrow> Status" where
  "Manager_Status m =
     (case mgr_runtime m of
        None \<Rightarrow> \<lparr>status_State = mgr_state m, status_Generation = 0, status_CreatedAt = time_zero,
                 status_ExpiresAt = time_zero, status_Account = zero_AccountSummary,
                 status_NodeTotal = 0, status_Eligible = 0\<rparr>
      | Some s \<Rightarrow> \<lparr>status_State = mgr_state m, status_Generation = snap_Generation s,
                  status_CreatedAt = snap_CreatedAt s, status_ExpiresAt = snap_ExpiresAt s,
                  status_Account = snap_Account s, status_NodeTotal = length (snap_Nodes s),
                  status_Eligible = length (filter TunnelEligible (snap_Nodes s))\<rparr>)"

definition begin_target :: "Operation \<Rightarrow> ServiceState \<Rightarrow> ServiceState option" where
  "begin_target operation st =
     (case operation of
        OperationLogin \<Rightarrow>
          if st = StateSignedOut \<or> st = StateExpired \<or> st = StateError
          then Some StateAuthenticating else None
      | OperationRefresh \<Rightarrow>
          if st = StateReady \<or> st = StateDegraded then Some StateSyncing else None
      | OperationOther _ \<Rightarrow> None)"

definition Begin :: "Operation \<Rightarrow> Manager \<Rightarrow> (go_error + u64) \<times> Manager" where
  "Begin operation m =
     (if mgr_active m \<noteq> None then (Inl ErrOperationInProgress, m)
      else case begin_target operation (mgr_state m) of
             None \<Rightarrow> (Inl ErrInvalidTransition, m)
           | Some target \<Rightarrow>
               (Inr (mgr_lease m + 1),
                m\<lparr>mgr_state := target, mgr_active := Some operation, mgr_lease := mgr_lease m + 1\<rparr>))"

definition signOutLocked :: "Manager \<Rightarrow> Manager" where
  "signOutLocked m =
     (let m' = (case mgr_runtime m of
                  None \<Rightarrow> m
                | Some current \<Rightarrow>
                    m\<lparr>mgr_runtime := Some (current\<lparr>snap_Sessions := ClientSessions_Wipe (snap_Sessions current),
                                               snap_Account := zero_AccountSummary\<rparr>)\<rparr>)
      in m'\<lparr>mgr_state := StateSignedOut\<rparr>)"

definition expireLocked :: "gotime \<Rightarrow> Manager \<Rightarrow> Manager" where
  "expireLocked now m =
     (let m' = (case mgr_runtime m of
                  None \<Rightarrow> m
                | Some current \<Rightarrow>
                    m\<lparr>mgr_runtime := Some (current\<lparr>snap_ExpiresAt := now,
                                               snap_Sessions := ClientSessions_Wipe (snap_Sessions current)\<rparr>)\<rparr>)
      in m'\<lparr>mgr_state := StateExpired\<rparr>)"

definition finish :: "u64 \<Rightarrow> Operation \<Rightarrow> Outcome \<Rightarrow> gotime \<Rightarrow> Manager \<Rightarrow> Manager" where
  "finish lease operation outcome now m =
     (if mgr_lease m \<noteq> lease \<or> mgr_active m \<noteq> Some operation then m
      else
        let m = m\<lparr>mgr_active := None\<rparr> in
        if outcome = OutcomeSucceeded then
          (if operation = OperationLogin \<and> mgr_state m = StateAuthenticating
           then m\<lparr>mgr_state := StateSyncing\<rparr> else m)
        else if operation = OperationLogin then signOutLocked m
        else case mgr_runtime m of
               None \<Rightarrow> m\<lparr>mgr_state := StateError\<rparr>
             | Some current \<Rightarrow>
                 if ClientSessions_Valid (snap_Sessions current) then
                   (if snap_ExpiresAt current \<noteq> time_zero \<and> \<not> now < snap_ExpiresAt current
                    then expireLocked now m else m\<lparr>mgr_state := StateDegraded\<rparr>)
                 else m\<lparr>mgr_state := StateError\<rparr>)"

fun validTransition :: "ServiceState \<Rightarrow> ServiceState \<Rightarrow> bool" where
  "validTransition StateSignedOut to = (to = StateAuthenticating)"
| "validTransition StateAuthenticating to =
     (to = StateSyncing \<or> to = StateReady \<or> to = StateSignedOut \<or> to = StateError)"
| "validTransition StateSyncing to =
     (to = StateReady \<or> to = StateDegraded \<or> to = StateExpired \<or> to = StateError \<or> to = StateSignedOut)"
| "validTransition StateReady to =
     (to = StateSyncing \<or> to = StateDegraded \<or> to = StateExpired \<or> to = StateSignedOut)"
| "validTransition StateDegraded to =
     (to = StateSyncing \<or> to = StateReady \<or> to = StateExpired \<or> to = StateSignedOut \<or> to = StateError)"
| "validTransition StateExpired to = (to = StateAuthenticating \<or> to = StateSignedOut)"
| "validTransition StateError to = (to = StateAuthenticating \<or> to = StateSignedOut)"

definition Transition :: "ServiceState \<Rightarrow> Manager \<Rightarrow> go_error option \<times> Manager" where
  "Transition nxt m =
     (if \<not> validTransition (mgr_state m) nxt
      then (Some (Wrap ''invalid transition'' ErrInvalidTransition), m)
      else (None, m\<lparr>mgr_state := nxt\<rparr>))"

definition Commit :: "hmac \<Rightarrow> RuntimeSnapshot option \<Rightarrow> gotime \<Rightarrow> Manager \<Rightarrow> go_error option \<times> Manager" where
  "Commit hmac snapshot now m =
     (case snapshot of
        None \<Rightarrow> (Some ErrInvalidSnapshot, m)
      | Some s \<Rightarrow>
          (case ValidateRuntimeSnapshot snapshot now of
             Some err \<Rightarrow> (Some err, m)
           | None \<Rightarrow>
               if \<not> ClientSessions_Valid (snap_Sessions s)
               then (Some (Wrap ''incomplete client sessions'' ErrInvalidSnapshot), m)
               else if \<not> list_ex TunnelEligible (snap_Nodes s)
               then (Some (Wrap ''no eligible nodes'' ErrInvalidSnapshot), m)
               else if mgr_state m \<noteq> StateAuthenticating \<and> mgr_state m \<noteq> StateSyncing
                       \<and> mgr_state m \<noteq> StateReady \<and> mgr_state m \<noteq> StateDegraded
               then (Some (Wrap ''cannot publish'' ErrInvalidTransition), m)
               else if (case mgr_runtime m of
                          None \<Rightarrow> False
                        | Some current \<Rightarrow> snap_Generation s \<le> snap_Generation current)
               then (Some (Wrap ''non-monotonic generation'' ErrInvalidSnapshot), m)
               else if \<not> mgr_bindingKeyConfigured m \<or> sub_Generation (mgr_subscription m) = 0
                       \<or> length (sub_AccountBinding (mgr_subscription m)) \<noteq> sha256_Size
                       \<or> \<not> matchesAccountBinding hmac (sub_AccountBinding (mgr_subscription m))
                             (mgr_accountBindingKey m) (ClientSessions_UserID (snap_Sessions s))
               then (Some ErrAccountChanged, m)
               else
                 let m = m\<lparr>mgr_runtime := snapshot\<rparr> in
                 (None, if mgr_state m = StateAuthenticating \<or> mgr_state m = StateSyncing
                        then m\<lparr>mgr_state := StateReady\<rparr> else m)))"

definition SignOut :: "Manager \<Rightarrow> Manager" where
  "SignOut m = signOutLocked (m\<lparr>mgr_active := None, mgr_lease := mgr_lease m + 1\<rparr>)"

definition MarkDegraded :: "Manager \<Rightarrow> go_error option \<times> Manager" where
  "MarkDegraded m = Transition StateDegraded m"

definition MarkExpired :: "gotime \<Rightarrow> Manager \<Rightarrow> go_error option \<times> Manager" where
  "MarkExpired now m =
     (if mgr_state m = StateExpired then (None, expireLocked now m)
      else if mgr_state m \<noteq> StateReady \<and> mgr_state m \<noteq> StateDegraded \<and> mgr_state m \<noteq> StateSyncing
              \<and> mgr_state m \<noteq> StateError
      then (Some (Wrap ''invalid transition'' ErrInvalidTransition), m)
      else (None, expireLocked now m))"

end
