(* ===== verification/State_Interfaces.thy ===== *)
theory State_Interfaces
  imports State_Manager
begin

text \<open>
  The interfaces between the components that \<open>internal/state\<close> defines or serves, as locales.
  \<open>selector_builder\<close> is the Go interface \<open>state.SelectorBuilder\<close>, provided by
  \<open>selector.Registry\<close> and used to assemble runtime snapshots. \<open>tunnel_authority\<close> is the part of
  the manager that \<open>internal/socks\<close> uses to admit a flow.
\<close>

locale selector_builder =
  fixes build :: "u64 \<Rightarrow> Node list \<Rightarrow> gotime \<Rightarrow> go_error + (string, NodeRef) gomap"
  assumes build_refs: "build g nodes now = Inr m \<Longrightarrow> g \<noteq> 0 \<Longrightarrow> time_zero \<le> now \<Longrightarrow>
      length m \<le> maxRuntimeSelectorRefs \<and> (\<forall>e\<in>set m. selector_entry_ok (node_ID ` set nodes) e)"
    and build_generation: "build g nodes now = Inr m \<Longrightarrow> g \<noteq> 0 \<Longrightarrow> time_zero \<le> now \<Longrightarrow>
      (name, ref) \<in> set m \<Longrightarrow> ref_Generation ref = g"
    and build_nodes: "build g nodes now = Inr m \<Longrightarrow>
      distinct (map node_ID nodes) \<and> length nodes \<le> maxRuntimeNodes"
begin

text \<open>A snapshot assembled from the builder's result is valid when its nodes and times are.\<close>

lemma snapshot_from_build:
  assumes "build g nodes now = Inr m" and "g \<noteq> 0" and "time_zero \<le> now"
    and "snap_Nodes s = nodes" and "snap_Selectors s = m"
    and "snap_Generation s \<noteq> 0" and "snap_CreatedAt s \<noteq> time_zero" "snap_ExpiresAt s \<noteq> time_zero"
    and "snap_CreatedAt s < snap_ExpiresAt s"
      "snap_ExpiresAt s - snap_CreatedAt s \<le> maxSessionLifetime"
    and "ClientSessions_Valid (snap_Sessions s)"
    and "\<forall>n\<in>set nodes. ValidateNode n = None
           \<and> snd (ClientSessions_For (snap_Sessions s) (EffectiveClientProfile n))"
  shows "ValidateRuntimeSnapshot (Some s) t = None"
  unfolding ValidateRuntimeSnapshot_None snapshot_ok_def
  using assms build_refs [OF assms(1-3)] build_nodes [OF assms(1)] by simp

lemma stale_generation_refused:
  assumes "build g nodes now = Inr m" and "g \<noteq> 0" and "time_zero \<le> now"
    and "snap_Selectors s = m" and "mgr_runtime mgr = Some s" and "credential \<noteq> g"
  shows "\<not> is_ok (CompactPin selector credential t mgr)"
proof
  assume "is_ok (CompactPin selector credential t mgr)"
  then obtain node ref where r: "ResolveSelector s selector t = Inr (node, ref)"
      and g: "ref_Generation ref = credential"
    using assms(5) by (auto simp: CompactPin_def is_ok_iff split: if_splits prod.splits)
  have "map_of m selector = Some ref"
    using r assms(4) by (auto simp: ResolveSelector_def split: option.splits if_splits)
  then have "ref_Generation ref = g"
    using build_generation [OF assms(1-3)] map_of_SomeD by fast
  then show False using g assms(6) by simp
qed

end

locale tunnel_authority =
  fixes resolve :: "'m \<Rightarrow> string \<Rightarrow> u64 \<Rightarrow> gotime \<Rightarrow> go_error + 'p"
    and current :: "'m \<Rightarrow> 'p \<Rightarrow> gotime \<Rightarrow> bool"
    and revoked :: "'m \<Rightarrow> bool"
    and evolves :: "'m \<Rightarrow> 'm \<Rightarrow> bool"
  assumes resolved_current: "resolve m selector g t = Inr p \<Longrightarrow> current m p t"
    and revoked_refuses: "revoked m \<Longrightarrow> \<not> current m p t"
    and revoked_stays: "revoked m \<Longrightarrow> evolves m m' \<Longrightarrow> revoked m'"
begin

lemma revoked_resolves_nothing: "revoked m \<Longrightarrow> \<not> is_ok (resolve m selector g t)"
  by (metis is_ok_iff resolved_current revoked_refuses)

text \<open>A flow that passes its last check was not revoked at any of its earlier ones.\<close>

lemma admitted_never_revoked:
  "current m' p t \<Longrightarrow> evolves m m' \<Longrightarrow> \<not> revoked m"
  using revoked_refuses revoked_stays by blast

end

end
