(* ===== verification/Selector.thy ===== *)
theory Selector
  imports State_Interfaces GoNet
begin

text \<open>
  \<open>internal/selector/credentials.go\<close>: canonical node identities, the credentials derived from
  them, and the registry that authenticates and builds the selectors of one subscription
  generation. \<open>hmac\<close> is HMAC-SHA256. \<open>idna\<close> is the lookup profile's \<open>ToASCII\<close> applied to the
  lower-cased host (\<open>golang.org/x/net/idna\<close> with \<open>strings.ToLower\<close> on Unicode).
\<close>

section \<open>Identities\<close>

definition selectorPrefix :: string where "selectorPrefix = ''n_''"
definition passwordPrefix :: string where "passwordPrefix = ''p_''"
definition selectorBytes :: nat where "selectorBytes = 12"
definition passwordBytes :: nat where "passwordBytes = 18"
definition DefaultTombstoneGrace :: duration where "DefaultTombstoneGrace = 24 * hour"
definition MaxLiveSelectorsPerGeneration :: nat where "MaxLiveSelectorsPerGeneration = 4096"
definition MaxTombstonesPerGeneration :: nat where "MaxTombstonesPerGeneration = 8192"
definition maxPreviousSelectors :: nat where
  "maxPreviousSelectors = 2 * (MaxLiveSelectorsPerGeneration + MaxTombstonesPerGeneration)"

abbreviation ErrInvalidIdentity :: go_error where
  "ErrInvalidIdentity \<equiv> Sent ''invalid node identity''"
abbreviation ErrInvalidSelectorKey :: go_error where
  "ErrInvalidSelectorKey \<equiv> Sent ''invalid selector key''"
abbreviation ErrUnknownGeneration :: go_error where
  "ErrUnknownGeneration \<equiv> Sent ''unknown selector generation''"
abbreviation ErrDuplicateNodeID :: go_error where
  "ErrDuplicateNodeID \<equiv> Sent ''duplicate node id''"
abbreviation ErrTooManyNodes :: go_error where
  "ErrTooManyNodes \<equiv> Sent ''too many live selector nodes''"
abbreviation ErrTooManySelectors :: go_error where
  "ErrTooManySelectors \<equiv> Sent ''too many prior selector references''"

record NodeIdentity =
  ident_NodeID :: string
  ident_Provider :: string
  ident_Host :: string
  ident_Port :: int

record CanonicalIdentity =
  canon_NodeID :: string
  canon_Provider :: string
  canon_Host :: string
  canon_Port :: u16

type_synonym idna = "string \<Rightarrow> go_error + string"

fun provider_loop :: "string \<Rightarrow> go_error + string" where
  "provider_loop [] = Inr []"
| "provider_loop (v # r) =
     (if chr_code v > 0x7f \<or> chr_code v = 0 \<or> chr_code v \<le> chr_code (CHR '' '') \<or> chr_code v = 0x7f
      then Inl (Wrap ''provider is not printable ASCII'' ErrInvalidIdentity)
      else try_bind (provider_loop r) (\<lambda>s. Inr (ascii_upper v # s)))"

definition canonicalProvider :: "string \<Rightarrow> go_error + string" where
  "canonicalProvider provider =
     (if provider = [] then Inl (Wrap ''empty provider'' ErrInvalidIdentity)
      else provider_loop provider)"

definition canonicalHost :: "idna \<Rightarrow> string \<Rightarrow> go_error + string" where
  "canonicalHost idna host =
     (if host = [] \<or> nul \<in> set host then Inl (Wrap ''empty host'' ErrInvalidIdentity)
      else case ParseAddr host of
             Some address \<Rightarrow> Inr (addr_String address)
           | None \<Rightarrow>
               (case idna host of
                  Inl _ \<Rightarrow> Inl (Wrap ''IDNA host'' ErrInvalidIdentity)
                | Inr ascii \<Rightarrow>
                    let ascii = trim_suffix ''.'' (map ascii_lower ascii) in
                    if ascii = [] \<or> set ascii \<inter> {nul, CHR ''/'', CHR 0x5C, CHR ''@''} \<noteq> {}
                    then Inl (Wrap ''invalid DNS host'' ErrInvalidIdentity)
                    else Inr ascii))"

definition Canonicalize :: "idna \<Rightarrow> NodeIdentity \<Rightarrow> go_error + CanonicalIdentity" where
  "Canonicalize idna identity =
     (if length (ident_NodeID identity) > 256 \<or> nul \<in> set (ident_NodeID identity)
      then Inl (Wrap ''invalid logical node id'' ErrInvalidIdentity)
      else try_bind (canonicalProvider (ident_Provider identity)) (\<lambda>provider.
           try_bind (canonicalHost idna (ident_Host identity)) (\<lambda>host.
             if ident_Port identity < 1 \<or> ident_Port identity > 65535
             then Inl (Wrap ''port out of range'' ErrInvalidIdentity)
             else Inr \<lparr>canon_NodeID = ident_NodeID identity, canon_Provider = provider,
                       canon_Host = host, canon_Port = of_int (ident_Port identity)\<rparr>)))"

definition Fingerprint :: "CanonicalIdentity \<Rightarrow> bytes" where
  "Fingerprint i =
     bytes_of_string (''credential'' @ [nul] @ canon_NodeID i @ [nul] @ canon_Provider i @ [nul]
       @ canon_Host i @ [nul] @ dec (unat (canon_Port i)))"

section \<open>Credentials\<close>

record Credentials =
  cred_Selector :: string
  cred_Password :: string

definition selector_password :: "hmac \<Rightarrow> bytes \<Rightarrow> string \<Rightarrow> string" where
  "selector_password hmac proxyAuthKey selector =
     passwordPrefix @ raw_url_encode (take passwordBytes
       (hmac proxyAuthKey (bytes_of_string (''selector-password'' @ [nul] @ selector))))"

definition DeriveCanonical ::
  "hmac \<Rightarrow> CanonicalIdentity \<Rightarrow> bytes \<Rightarrow> bytes \<Rightarrow> go_error + Credentials"
where
  "DeriveCanonical hmac identity selectorKey proxyAuthKey =
     (if canon_NodeID identity = [] then Inl ErrInvalidIdentity
      else if length selectorKey \<noteq> sha256_Size \<or> length proxyAuthKey \<noteq> sha256_Size
      then Inl ErrInvalidSelectorKey
      else
        let selectorMAC = hmac selectorKey (Fingerprint identity);
            selector = selectorPrefix @ raw_url_encode (take selectorBytes selectorMAC)
        in Inr \<lparr>cred_Selector = selector,
                cred_Password = selector_password hmac proxyAuthKey selector\<rparr>)"

definition Derive ::
  "hmac \<Rightarrow> idna \<Rightarrow> NodeIdentity \<Rightarrow> bytes \<Rightarrow> bytes \<Rightarrow> go_error + Credentials"
where
  "Derive hmac idna identity selectorKey proxyAuthKey =
     try_bind (Canonicalize idna identity)
       (\<lambda>canonical. DeriveCanonical hmac canonical selectorKey proxyAuthKey)"

section \<open>The registry\<close>

record Registry =
  reg_generation :: u64
  reg_selectorKey :: bytes
  reg_proxyAuthKey :: bytes

definition NewRegistry :: "SubscriptionGeneration \<Rightarrow> go_error + Registry" where
  "NewRegistry source =
     (if sub_Generation source = 0 \<or> length (sub_SelectorKey source) \<noteq> sha256_Size
         \<or> length (sub_ProxyAuthKey source) \<noteq> sha256_Size
      then Inl ErrInvalidSelectorKey
      else Inr \<lparr>reg_generation = sub_Generation source, reg_selectorKey = sub_SelectorKey source,
                reg_proxyAuthKey = sub_ProxyAuthKey source\<rparr>)"

definition Registry_load :: "Registry \<Rightarrow> u64 \<Rightarrow> Registry option" where
  "Registry_load r want = (if want \<noteq> 0 \<and> reg_generation r \<noteq> want then None else Some r)"

definition Registry_Credentials ::
  "hmac \<Rightarrow> idna \<Rightarrow> Registry \<Rightarrow> u64 \<Rightarrow> NodeIdentity \<Rightarrow> Credentials option"
where
  "Registry_Credentials hmac idna r want identity =
     (case Registry_load r want of
        None \<Rightarrow> None
      | Some keys \<Rightarrow>
          (case Derive hmac idna identity (reg_selectorKey keys) (reg_proxyAuthKey keys) of
             Inl _ \<Rightarrow> None
           | Inr credential \<Rightarrow> Some credential))"

definition validSelector :: "string \<Rightarrow> bool" where
  "validSelector selector =
     (if length selector \<noteq> length selectorPrefix + (selectorBytes * 8 + 5) div 6
         \<or> \<not> has_prefix selectorPrefix selector
      then False
      else case raw_url_decode (drop (length selectorPrefix) selector) of
             None \<Rightarrow> False | Some decoded \<Rightarrow> length decoded = selectorBytes)"

definition validPassword :: "string \<Rightarrow> bool" where
  "validPassword password =
     (if length password \<noteq> length passwordPrefix + (passwordBytes * 8 + 5) div 6
         \<or> \<not> has_prefix passwordPrefix password
      then False
      else case raw_url_decode (drop (length passwordPrefix) password) of
             None \<Rightarrow> False | Some decoded \<Rightarrow> length decoded = passwordBytes)"

definition AuthenticateAt :: "hmac \<Rightarrow> Registry \<Rightarrow> string \<Rightarrow> string \<Rightarrow> u64 option" where
  "AuthenticateAt hmac r selector password =
     (case Registry_load r 0 of
        None \<Rightarrow> None
      | Some keys \<Rightarrow>
          if \<not> validSelector selector \<or> \<not> validPassword password then None
          else if password \<noteq> selector_password hmac (reg_proxyAuthKey keys) selector then None
          else Some (reg_generation keys))"

definition Registry_Resolve ::
  "hmac \<Rightarrow> Registry \<Rightarrow> RuntimeSnapshot \<Rightarrow> string \<Rightarrow> string \<Rightarrow> gotime \<Rightarrow> go_error + (Node \<times> NodeRef)"
where
  "Registry_Resolve hmac r snapshot selector password now =
     (case AuthenticateAt hmac r selector password of
        None \<Rightarrow> Inl ErrSelectorUnknown
      | Some generation \<Rightarrow>
          (case ResolveSelector snapshot selector now of
             Inl _ \<Rightarrow> Inl ErrSelectorUnknown
           | Inr (node, ref) \<Rightarrow>
               if ref_Generation ref \<noteq> generation then Inl ErrSelectorUnknown
               else Inr (node, ref)))"

section \<open>Building the selectors of a generation\<close>

record BuildResult =
  br_Nodes :: "Node list"
  br_Selectors :: "(string, NodeRef) gomap"

text \<open>The first loop: ids, the index of each selector, and the selected nodes.\<close>

fun select_nodes ::
  "hmac \<Rightarrow> idna \<Rightarrow> Registry \<Rightarrow> Node list \<Rightarrow> string list \<Rightarrow> (string, nat) gomap \<Rightarrow> Node list \<Rightarrow>
   go_error + ((string, nat) gomap \<times> Node list)"
where
  "select_nodes hmac idna keys [] ids activeIndex selected = Inr (activeIndex, selected)"
| "select_nodes hmac idna keys (source # nodes) ids activeIndex selected =
     (if node_ID source = [] then Inl ErrDuplicateNodeID
      else if node_ID source \<in> set ids then Inl ErrDuplicateNodeID
      else
        try_bind (Canonicalize idna \<lparr>ident_NodeID = node_ID source, ident_Provider = node_Provider source,
                    ident_Host = node_Host source, ident_Port = uint (node_Port source)\<rparr>) (\<lambda>identity.
        try_bind (DeriveCanonical hmac identity (reg_selectorKey keys) (reg_proxyAuthKey keys)) (\<lambda>credential.
          if map_of activeIndex (cred_Selector credential) \<noteq> None then Inl ErrDuplicateNodeID
          else
            let source' = source\<lparr>node_Provider := canon_Provider identity, node_Host := canon_Host identity,
                           node_Port := canon_Port identity, node_Selector := cred_Selector credential\<rparr>
            in select_nodes hmac idna keys nodes (node_ID source # ids)
                 (AList.update (node_Selector source') (length selected) activeIndex)
                 (selected @ [source']))))"

text \<open>The body of the loop over the previous selectors.\<close>

definition carry_selector ::
  "u64 \<Rightarrow> gotime \<Rightarrow> (string, nat) gomap \<Rightarrow> Node list \<Rightarrow>
   bool list \<times> (string \<times> NodeRef) list \<Rightarrow> string \<times> NodeRef \<Rightarrow> bool list \<times> (string \<times> NodeRef) list"
where
  "carry_selector want now activeIndex selected st entry =
     (case st of (active, tombstones) \<Rightarrow>
      case entry of (name, ref) \<Rightarrow>
        if ref_Generation ref \<noteq> want then (active, tombstones)
        else
          let index = map_of activeIndex name;
              deactivated = (case index of None \<Rightarrow> active | Some i \<Rightarrow> active[i := False])
          in if ref_Tombstoned ref then
               (if \<not> IsTombstoned ref now then (active, tombstones)
                else (deactivated, tombstones @ [(name, ref\<lparr>ref_NodeID := []\<rparr>)]))
             else if (case index of None \<Rightarrow> False | Some i \<Rightarrow> ref_NodeID ref = node_ID (selected ! i))
             then (active, tombstones)
             else (deactivated,
                   tombstones @ [(name, \<lparr>ref_NodeID = [], ref_Generation = want, ref_Tombstoned = True,
                                         ref_TombstoneUntil = now + DefaultTombstoneGrace\<rparr>)]))"

definition sort_tombstones :: "(string \<times> NodeRef) list \<Rightarrow> (string \<times> NodeRef) list" where
  "sort_tombstones ts = sort_key (\<lambda>(name, ref). (ref_TombstoneUntil ref, name)) ts"

definition newest_tombstones :: "(string \<times> NodeRef) list \<Rightarrow> (string \<times> NodeRef) list" where
  "newest_tombstones ts =
     (if length ts > MaxTombstonesPerGeneration
      then drop (length ts - MaxTombstonesPerGeneration) ts else ts)"

definition live_ref :: "u64 \<Rightarrow> Node \<Rightarrow> NodeRef" where
  "live_ref want source = \<lparr>ref_NodeID = node_ID source, ref_Generation = want,
     ref_Tombstoned = False, ref_TombstoneUntil = time_zero\<rparr>"

definition BuildWithTombstones ::
  "hmac \<Rightarrow> idna \<Rightarrow> Registry \<Rightarrow> u64 \<Rightarrow> Node list \<Rightarrow> (string, NodeRef) gomap \<Rightarrow> gotime \<Rightarrow>
   go_error + BuildResult"
where
  "BuildWithTombstones hmac idna r want nodes previous now =
     (case Registry_load r want of
        None \<Rightarrow> Inl ErrUnknownGeneration
      | Some keys \<Rightarrow>
          if length nodes > MaxLiveSelectorsPerGeneration then Inl ErrTooManyNodes
          else if length previous > maxPreviousSelectors then Inl ErrTooManySelectors
          else
            try_bind (select_nodes hmac idna keys nodes [] [] []) (\<lambda>(activeIndex, selected).
              let (active, collected) =
                    foldl (carry_selector want now activeIndex selected)
                      (replicate (length selected) True, []) previous;
                  tombstones = newest_tombstones (sort_tombstones collected);
                  kept = map snd (filter fst (zip active selected));
                  selectors = gomap_assign []
                    (map (\<lambda>source. (node_Selector source, live_ref want source)) kept)
              in Inr \<lparr>br_Nodes = kept, br_Selectors = gomap_assign selectors tombstones\<rparr>))"

definition Registry_Build ::
  "hmac \<Rightarrow> idna \<Rightarrow> Registry \<Rightarrow> u64 \<Rightarrow> Node list \<Rightarrow> gotime \<Rightarrow> go_error + (string, NodeRef) gomap"
where
  "Registry_Build hmac idna r generation nodes now =
     try_bind (BuildWithTombstones hmac idna r generation nodes [] now) (\<lambda>result. Inr (br_Selectors result))"

section \<open>Lemmas on the build\<close>

definition index_ok :: "(string, nat) gomap \<Rightarrow> Node list \<Rightarrow> bool" where
  "index_ok ai sel \<longleftrightarrow> distinct (map node_Selector sel)
     \<and> (\<forall>name i. map_of ai name = Some i \<longleftrightarrow> i < length sel \<and> node_Selector (sel ! i) = name)"

lemma index_ok_snoc:
  assumes "index_ok ai sel" and "map_of ai (node_Selector n) = None"
  shows "index_ok (AList.update (node_Selector n) (length sel) ai) (sel @ [n])"
proof -
  have "node_Selector (sel ! i) \<noteq> node_Selector n" if "i < length sel" for i
    using assms that unfolding index_ok_def by (metis option.distinct(1))
  then show ?thesis
    using assms(1)
    by (auto simp: index_ok_def update_conv' nth_append in_set_conv_nth less_Suc_eq split: if_splits)
      metis
qed

text \<open>A node carries the canonical endpoint and the selector derived from it.\<close>

definition derived_node :: "hmac \<Rightarrow> idna \<Rightarrow> Registry \<Rightarrow> Node \<Rightarrow> bool" where
  "derived_node hmac idna keys n \<longleftrightarrow>
     (\<exists>ident canon cred. Canonicalize idna ident = Inr canon \<and> ident_NodeID ident = node_ID n
        \<and> canon = \<lparr>canon_NodeID = node_ID n, canon_Provider = node_Provider n,
                   canon_Host = node_Host n, canon_Port = node_Port n\<rparr>
        \<and> DeriveCanonical hmac canon (reg_selectorKey keys) (reg_proxyAuthKey keys) = Inr cred
        \<and> cred_Selector cred = node_Selector n)"

lemma Canonicalize_NodeID: "Canonicalize idna ident = Inr canon \<Longrightarrow> canon_NodeID canon = ident_NodeID ident"
  by (auto simp: Canonicalize_def split: if_splits)

lemma select_nodes_ok:
  "select_nodes hmac idna keys nodes ids ai sel = Inr (ai', sel') \<Longrightarrow> index_ok ai sel \<Longrightarrow>
   index_ok ai' sel' \<and> (\<exists>new. sel' = sel @ new \<and> map node_ID new = map node_ID nodes
     \<and> distinct (map node_ID new) \<and> set ids \<inter> node_ID ` set new = {} \<and> [] \<notin> node_ID ` set new
     \<and> (\<forall>n\<in>set new. derived_node hmac idna keys n))"
proof (induction hmac idna keys nodes ids ai sel arbitrary: ai' sel' rule: select_nodes.induct)
  case (1 hmac idna keys ids ai sel)
  then show ?case by simp
next
  case (2 hmac idna keys source nodes ids ai sel)
  let ?ident = "\<lparr>ident_NodeID = node_ID source, ident_Provider = node_Provider source,
                    ident_Host = node_Host source, ident_Port = uint (node_Port source)\<rparr>"
  obtain canon cred where canon: "Canonicalize idna ?ident = Inr canon"
    and cred: "DeriveCanonical hmac canon (reg_selectorKey keys) (reg_proxyAuthKey keys) = Inr cred"
    and fresh: "map_of ai (cred_Selector cred) = None" and ne: "node_ID source \<noteq> []"
    and new: "node_ID source \<notin> set ids"
    using "2.prems"(1) by (auto split: if_splits)
  define src where "src = source\<lparr>node_Provider := canon_Provider canon, node_Host := canon_Host canon,
                           node_Port := canon_Port canon, node_Selector := cred_Selector cred\<rparr>"
  have rec: "select_nodes hmac idna keys nodes (node_ID source # ids)
      (AList.update (node_Selector src) (length sel) ai) (sel @ [src]) = Inr (ai', sel')"
    using "2.prems"(1) canon cred fresh ne new by (simp add: src_def Let_def)
  have idx: "index_ok (AList.update (node_Selector src) (length sel) ai) (sel @ [src])"
    using "2.prems"(2) fresh by (intro index_ok_snoc) (simp_all add: src_def)
  have cid: "canon_NodeID canon = node_ID source" using Canonicalize_NodeID [OF canon] by simp
  have der: "derived_node hmac idna keys src"
    unfolding derived_node_def
    by (rule exI [of _ ?ident], rule exI [of _ canon], rule exI [of _ cred])
      (use canon cred cid in \<open>simp add: src_def\<close>)
  have ih: "index_ok ai' sel' \<and> (\<exists>new. sel' = (sel @ [src]) @ new \<and> map node_ID new = map node_ID nodes
     \<and> distinct (map node_ID new) \<and> set (node_ID source # ids) \<inter> node_ID ` set new = {}
     \<and> [] \<notin> node_ID ` set new \<and> (\<forall>n\<in>set new. derived_node hmac idna keys n))"
    using rec idx ne new canon cred fresh
    by (intro "2.IH" [of cred src canon]) (simp_all add: src_def)
  then obtain rest where r: "sel' = (sel @ [src]) @ rest" "map node_ID rest = map node_ID nodes"
     "distinct (map node_ID rest)" "set (node_ID source # ids) \<inter> node_ID ` set rest = {}"
     "[] \<notin> node_ID ` set rest" "\<forall>n\<in>set rest. derived_node hmac idna keys n" by blast
  have sid: "node_ID src = node_ID source" by (simp add: src_def)
  have "node_ID ` set nodes = node_ID ` set rest" using arg_cong [OF r(2), of set] by simp
  then show ?case
    using ih r der ne new sid by (intro conjI exI [of _ "src # rest"]) auto
qed

text \<open>
  The second loop: what an entry contributes does not depend on the entries before it.
\<close>

definition tombstone_of ::
  "u64 \<Rightarrow> gotime \<Rightarrow> (string, nat) gomap \<Rightarrow> Node list \<Rightarrow> string \<times> NodeRef \<Rightarrow> NodeRef option"
where
  "tombstone_of want now ai sel e =
     (case e of (name, ref) \<Rightarrow>
        if ref_Generation ref \<noteq> want then None
        else if ref_Tombstoned ref then
          (if IsTombstoned ref now then Some (ref\<lparr>ref_NodeID := []\<rparr>) else None)
        else if (case map_of ai name of None \<Rightarrow> False | Some i \<Rightarrow> ref_NodeID ref = node_ID (sel ! i))
        then None
        else Some \<lparr>ref_NodeID = [], ref_Generation = want, ref_Tombstoned = True,
                   ref_TombstoneUntil = now + DefaultTombstoneGrace\<rparr>)"

definition collect_tombstones ::
  "u64 \<Rightarrow> gotime \<Rightarrow> (string, nat) gomap \<Rightarrow> Node list \<Rightarrow> (string, NodeRef) gomap \<Rightarrow> (string \<times> NodeRef) list"
where
  "collect_tombstones want now ai sel prev =
     List.map_filter (\<lambda>e. map_option (Pair (fst e)) (tombstone_of want now ai sel e)) prev"

definition kills :: "(string, nat) gomap \<Rightarrow> (string \<times> NodeRef) list \<Rightarrow> nat \<Rightarrow> bool" where
  "kills ai ts i \<longleftrightarrow> (\<exists>t\<in>set ts. map_of ai (fst t) = Some i)"

lemma carry_step:
  "carry_selector want now ai sel (act, ts) e =
     (case tombstone_of want now ai sel e of
        None \<Rightarrow> (act, ts)
      | Some ref \<Rightarrow> ((case map_of ai (fst e) of None \<Rightarrow> act | Some i \<Rightarrow> act[i := False]), ts @ [(fst e, ref)]))"
  by (cases e) (simp add: carry_selector_def tombstone_of_def Let_def split: option.splits)

lemma carry_fold:
  "foldl (carry_selector want now ai sel) (act, ts) prev = (act', ts') \<Longrightarrow>
   ts' = ts @ collect_tombstones want now ai sel prev \<and> length act' = length act
   \<and> (\<forall>i<length act. act' ! i \<longleftrightarrow> act ! i \<and> \<not> kills ai (collect_tombstones want now ai sel prev) i)"
proof (induction prev arbitrary: act ts)
  case Nil
  then show ?case by (simp add: collect_tombstones_def kills_def map_filter_simps)
next
  case (Cons e prev)
  let ?c = "collect_tombstones want now ai sel"
  show ?case
  proof (cases "tombstone_of want now ai sel e")
    case None
    then have "?c (e # prev) = ?c prev" by (simp add: collect_tombstones_def map_filter_simps)
    then show ?thesis using Cons None by (simp add: carry_step)
  next
    case (Some ref)
    then have c: "?c (e # prev) = (fst e, ref) # ?c prev"
      by (simp add: collect_tombstones_def map_filter_simps)
    show ?thesis
    proof (cases "map_of ai (fst e)")
      case None
      then have "foldl (carry_selector want now ai sel) (act, ts @ [(fst e, ref)]) prev = (act', ts')"
        using Cons.prems Some by (simp add: carry_step)
      from Cons.IH [OF this] show ?thesis using None c by (auto simp: kills_def)
    next
      case (Some j)
      note s = \<open>tombstone_of want now ai sel e = Some ref\<close>
      have run: "foldl (carry_selector want now ai sel) (act[j := False], ts @ [(fst e, ref)]) prev = (act', ts')"
        using Cons.prems s Some by (simp add: carry_step)
      have upd: "act[j := False] ! i = (act ! i \<and> i \<noteq> j)" if "i < length act" for i
        using that by (cases "i = j") auto
      from Cons.IH [OF run] show ?thesis
        using Some c by (auto simp: kills_def upd)
    qed
  qed
qed

lemma collect_fst: "map fst (collect_tombstones want now ai sel prev)
    = map fst (filter (\<lambda>e. tombstone_of want now ai sel e \<noteq> None) prev)"
  by (induction prev) (auto simp: collect_tombstones_def map_filter_simps)

lemma collect_mset:
  "mset prev = mset prev' \<Longrightarrow>
   mset (collect_tombstones want now ai sel prev) = mset (collect_tombstones want now ai sel prev')"
  unfolding collect_tombstones_def List.map_filter_def by (simp only: mset_filter mset_map)

lemma collect_distinct: "gomap_ok prev \<Longrightarrow> distinct (map fst (collect_tombstones want now ai sel prev))"
  unfolding collect_fst gomap_ok_def by (rule distinct_map_filter)

lemma set_newest: "set (newest_tombstones ts) \<subseteq> set ts"
  using set_drop_subset [of "length ts - MaxTombstonesPerGeneration" ts]
  by (auto simp: newest_tombstones_def)

lemma length_newest: "length (newest_tombstones ts) \<le> MaxTombstonesPerGeneration"
  by (simp add: newest_tombstones_def)

lemma distinct_newest: "distinct (map fst ts) \<Longrightarrow> distinct (map fst (newest_tombstones ts))"
  by (auto simp: newest_tombstones_def distinct_drop simp flip: drop_map)

lemma distinct_sort_tombstones: "distinct (map fst ts) \<Longrightarrow> distinct (map fst (sort_tombstones ts))"
  unfolding sort_tombstones_def
  by (metis mset_map mset_eq_imp_distinct_iff mset_sort)

text \<open>The result of a build, in terms of the tombstones it collects.\<close>

definition result_of :: "u64 \<Rightarrow> (string, nat) gomap \<Rightarrow> Node list \<Rightarrow> (string \<times> NodeRef) list \<Rightarrow> BuildResult" where
  "result_of want ai sel c =
     (let kept = map ((!) sel) (filter (\<lambda>i. \<not> kills ai c i) [0..<length sel]) in
      \<lparr>br_Nodes = kept,
       br_Selectors = gomap_assign
         (gomap_assign [] (map (\<lambda>n. (node_Selector n, live_ref want n)) kept))
         (newest_tombstones (sort_tombstones c))\<rparr>)"

lemma carry_result:
  assumes c: "foldl (carry_selector want now ai sel) (replicate (length sel) True, []) previous = (act, ts)"
  shows "ts = collect_tombstones want now ai sel previous"
    and "map snd (filter fst (zip act sel))
      = map ((!) sel) (filter (\<lambda>i. \<not> kills ai ts i) [0..<length sel])"
proof -
  note fold = carry_fold [OF c]
  show ts: "ts = collect_tombstones want now ai sel previous" using fold by simp
  have "zip act sel = map (\<lambda>i. (act ! i, sel ! i)) [0..<length sel]"
    using fold by (intro nth_equalityI) auto
  then have "map snd (filter fst (zip act sel)) = map ((!) sel) (filter (\<lambda>i. act ! i) [0..<length sel])"
    by (simp add: filter_map comp_def)
  also have "filter (\<lambda>i. act ! i) [0..<length sel] = filter (\<lambda>i. \<not> kills ai ts i) [0..<length sel]"
    using fold ts by (intro filter_cong) auto
  finally show "map snd (filter fst (zip act sel))
      = map ((!) sel) (filter (\<lambda>i. \<not> kills ai ts i) [0..<length sel])" .
qed

lemma build_eq:
  "BuildWithTombstones hmac idna r want nodes previous now =
     (if want \<noteq> 0 \<and> reg_generation r \<noteq> want then Inl ErrUnknownGeneration
      else if length nodes > MaxLiveSelectorsPerGeneration then Inl ErrTooManyNodes
      else if length previous > maxPreviousSelectors then Inl ErrTooManySelectors
      else try_bind (select_nodes hmac idna r nodes [] [] [])
        (\<lambda>(ai, sel). Inr (result_of want ai sel (collect_tombstones want now ai sel previous))))"
proof -
  have inner: "(let (active, collected) =
        foldl (carry_selector want now ai sel) (replicate (length sel) True, []) previous;
          tombstones = newest_tombstones (sort_tombstones collected);
          kept = map snd (filter fst (zip active sel));
          selectors = gomap_assign [] (map (\<lambda>source. (node_Selector source, live_ref want source)) kept)
      in Inr \<lparr>br_Nodes = kept, br_Selectors = gomap_assign selectors tombstones\<rparr>)
      = (Inr (result_of want ai sel (collect_tombstones want now ai sel previous)) :: go_error + BuildResult)"
    for ai sel
  proof -
    obtain act ts where c: "foldl (carry_selector want now ai sel) (replicate (length sel) True, []) previous
        = (act, ts)" by (metis surj_pair)
    show ?thesis
      by (simp only: c carry_result [OF c] prod.case Let_def result_of_def)
  qed
  show ?thesis
    unfolding BuildWithTombstones_def Registry_load_def inner by simp
qed

text \<open>
  Building selectors does not depend on the order in which Go iterates over the previous
  selectors: for every permutation of them the result is the same, nodes, selectors and errors.
\<close>

theorem build_order_independent:
  assumes "gomap_ok previous" and "mset previous = mset previous'"
  shows "BuildWithTombstones hmac idna r want nodes previous now
    = BuildWithTombstones hmac idna r want nodes previous' now"
proof -
  have len: "length previous = length previous'" using assms(2) by (metis size_mset)
  have "result_of want ai sel (collect_tombstones want now ai sel previous)
      = result_of want ai sel (collect_tombstones want now ai sel previous')" for ai sel
  proof -
    let ?c = "collect_tombstones want now ai sel"
    have m: "mset (?c previous) = mset (?c previous')" using assms(2) by (rule collect_mset)
    have fst: "inj_on fst (set (?c previous))"
      using collect_distinct [OF assms(1)] by (simp add: distinct_map)
    have "inj_on (\<lambda>(name, ref). (ref_TombstoneUntil ref, name)) (set (?c previous))"
      by (rule inj_onI, drule inj_onD [OF fst, rotated]) (auto split: prod.splits)
    then have "sort_tombstones (?c previous) = sort_tombstones (?c previous')"
      unfolding sort_tombstones_def by (rule sort_key_perm_eq [OF m])
    moreover have "kills ai (?c previous) = kills ai (?c previous')"
      unfolding kills_def using m by (metis set_mset_mset)
    ultimately show ?thesis by (simp add: result_of_def)
  qed
  then show ?thesis by (simp only: build_eq len)
qed

lemma Derived_selector: "derived_node hmac idna r n \<Longrightarrow> node_Selector n \<noteq> []"
  by (auto simp: derived_node_def DeriveCanonical_def selectorPrefix_def Let_def split: if_splits)

lemma tombstone_of_Some:
  assumes "tombstone_of want now ai sel (name, ref) = Some t"
  shows "ref_Generation ref = want \<and> ref_NodeID t = [] \<and> ref_Generation t = want \<and> ref_Tombstoned t
    \<and> (if ref_Tombstoned ref then IsTombstoned ref now \<and> ref_TombstoneUntil t = ref_TombstoneUntil ref
       else ref_TombstoneUntil t = now + DefaultTombstoneGrace)"
  using assms by (auto simp: tombstone_of_def IsTombstoned_def split: if_splits option.splits)

lemma collect_iff:
  "(name, t) \<in> set (collect_tombstones want now ai sel prev) \<longleftrightarrow>
     (\<exists>ref. (name, ref) \<in> set prev \<and> tombstone_of want now ai sel (name, ref) = Some t)"
  by (force simp: collect_tombstones_def List.map_filter_def)

text \<open>Everything the properties need from a successful build.\<close>

definition tombstones_of ::
  "u64 \<Rightarrow> gotime \<Rightarrow> (string, nat) gomap \<Rightarrow> Node list \<Rightarrow> (string, NodeRef) gomap \<Rightarrow> (string \<times> NodeRef) list"
where
  "tombstones_of want now ai sel prev =
     newest_tombstones (sort_tombstones (collect_tombstones want now ai sel prev))"

lemma build_Inr:
  assumes build: "BuildWithTombstones hmac idna r want nodes prev now = Inr res"
    and prev: "gomap_ok prev"
  obtains ai sel where "index_ok ai sel" "map node_ID sel = map node_ID nodes"
    "distinct (map node_ID sel)" "\<forall>n\<in>set sel. node_ID n \<noteq> [] \<and> derived_node hmac idna r n"
    "set (br_Nodes res) = {sel ! i | i. i < length sel
        \<and> \<not> kills ai (collect_tombstones want now ai sel prev) i}"
    "distinct (map node_ID (br_Nodes res))" "length (br_Nodes res) \<le> MaxLiveSelectorsPerGeneration"
    "map_of (br_Selectors res) = map_of (map (\<lambda>n. (node_Selector n, live_ref want n)) (br_Nodes res))
        ++ map_of (tombstones_of want now ai sel prev)"
    "distinct (map node_Selector (br_Nodes res))" "gomap_ok (br_Selectors res)"
    "length (br_Selectors res) \<le> MaxLiveSelectorsPerGeneration + MaxTombstonesPerGeneration"
    "set (tombstones_of want now ai sel prev) \<subseteq> set (collect_tombstones want now ai sel prev)"
    "distinct (map fst (tombstones_of want now ai sel prev))"
    "want = 0 \<or> want = reg_generation r"
proof -
  obtain ai sel where s: "select_nodes hmac idna r nodes [] [] [] = Inr (ai, sel)"
    and res: "res = result_of want ai sel (collect_tombstones want now ai sel prev)"
    and len: "length nodes \<le> MaxLiveSelectorsPerGeneration" and w: "want = 0 \<or> want = reg_generation r"
    using build by (auto simp: build_eq split: if_splits)
  have "index_ok [] []" by (simp add: index_ok_def)
  from select_nodes_ok [OF s this] have ok: "index_ok ai sel" "map node_ID sel = map node_ID nodes"
      "distinct (map node_ID sel)" "\<forall>n\<in>set sel. node_ID n \<noteq> [] \<and> derived_node hmac idna r n"
    by (auto simp: image_iff)
  let ?c = "collect_tombstones want now ai sel prev"
  let ?is = "filter (\<lambda>i. \<not> kills ai ?c i) [0..<length sel]"
  have nodes: "br_Nodes res = map ((!) sel) ?is" by (simp add: res result_of_def Let_def)
  have dist: "distinct (map f (br_Nodes res))" if d: "distinct (map f sel)" for f :: "Node \<Rightarrow> string"
  proof -
    have inj: "x = y" if "x < length sel" "y < length sel" "f (sel ! x) = f (sel ! y)" for x y
      using nth_eq_iff_index_eq [OF d, of x y] that by simp
    have "distinct (map (\<lambda>i. f (sel ! i)) ?is)"
      unfolding distinct_map inj_on_def using inj by simp
    moreover have "map f (br_Nodes res) = map (\<lambda>i. f (sel ! i)) ?is" by (simp add: nodes)
    ultimately show ?thesis by simp
  qed
  have dsel: "distinct (map node_Selector (br_Nodes res))"
    using ok(1) by (intro dist) (simp add: index_ok_def)
  have "length ?is \<le> length sel" by (metis length_filter_le length_upt minus_nat.diff_0)
  then have nlen: "length (br_Nodes res) \<le> MaxLiveSelectorsPerGeneration"
    using len arg_cong [OF ok(2), of length] by (simp add: nodes)
  have dt: "distinct (map fst (tombstones_of want now ai sel prev))"
    unfolding tombstones_of_def by (intro distinct_newest distinct_sort_tombstones collect_distinct prev)
  have st: "set (tombstones_of want now ai sel prev) \<subseteq> set ?c"
    using set_newest [of "sort_tombstones ?c"] by (simp add: tombstones_of_def sort_tombstones_def)
  have sels: "br_Selectors res = gomap_assign (gomap_assign [] (map (\<lambda>n. (node_Selector n, live_ref want n))
      (br_Nodes res))) (tombstones_of want now ai sel prev)"
    by (simp add: res result_of_def Let_def tombstones_of_def)
  have dm: "distinct (map fst (map (\<lambda>n. (node_Selector n, live_ref want n)) (br_Nodes res)))"
    using dsel by (simp add: comp_def)
  have lookup: "map_of (br_Selectors res)
      = map_of (map (\<lambda>n. (node_Selector n, live_ref want n)) (br_Nodes res))
        ++ map_of (tombstones_of want now ai sel prev)"
    unfolding sels gomap_assign_lookup map_of_rev_distinct [OF dt] map_of_rev_distinct [OF dm] by simp
  have slen: "length (br_Selectors res) \<le> MaxLiveSelectorsPerGeneration + MaxTombstonesPerGeneration"
    using gomap_assign_length [of "[]" "map (\<lambda>n. (node_Selector n, live_ref want n)) (br_Nodes res)"]
      gomap_assign_length [of "gomap_assign [] (map (\<lambda>n. (node_Selector n, live_ref want n)) (br_Nodes res))"
        "tombstones_of want now ai sel prev"]
      length_newest [of "sort_tombstones ?c"] nlen
    by (simp add: sels tombstones_of_def)
  show thesis
    by (rule that [OF ok]) (use nodes dist [OF ok(3)] nlen lookup dsel slen st dt w in
      \<open>auto simp: sels\<close>)
qed

text \<open>Live references and tombstones never share a selector.\<close>

lemma tombstone_not_live:
  assumes idx: "index_ok ai sel" and t: "(name, t) \<in> set (collect_tombstones want now ai sel prev)"
    and n: "i < length sel" "\<not> kills ai (collect_tombstones want now ai sel prev) i"
  shows "node_Selector (sel ! i) \<noteq> name"
proof
  assume "node_Selector (sel ! i) = name"
  then have "map_of ai name = Some i" using idx n(1) by (simp add: index_ok_def)
  with t n(2) show False by (force simp: kills_def)
qed

lemma live_lookup:
  assumes "distinct (map node_Selector ns)" and "n \<in> set ns"
  shows "map_of (map (\<lambda>n. (node_Selector n, live_ref want n)) ns) (node_Selector n) = Some (live_ref want n)"
  using assms by (intro map_of_is_SomeI) (auto simp: comp_def)

text \<open>Every node a build keeps is derived from the keys and live under its own selector.\<close>

lemma build_live:
  assumes build: "BuildWithTombstones hmac idna r want nodes previous now = Inr res"
    and prev: "gomap_ok previous"
  shows "\<forall>n\<in>set (br_Nodes res). derived_node hmac idna r n
      \<and> map_of (br_Selectors res) (node_Selector n) = Some (live_ref want n)"
    and "distinct (map node_ID (br_Nodes res))" and "want = 0 \<or> want = reg_generation r"
proof (rule build_Inr [OF build prev(1)])
  fix ai sel
  let ?c = "collect_tombstones want now ai sel previous"
  let ?t = "tombstones_of want now ai sel previous"
  assume idx: "index_ok ai sel" and der: "\<forall>n\<in>set sel. node_ID n \<noteq> [] \<and> derived_node hmac idna r n"
    and ns: "set (br_Nodes res) = {sel ! i | i. i < length sel \<and> \<not> kills ai ?c i}"
    and lookup: "map_of (br_Selectors res)
      = map_of (map (\<lambda>n. (node_Selector n, live_ref want n)) (br_Nodes res)) ++ map_of ?t"
    and ds: "distinct (map node_Selector (br_Nodes res))" and st: "set ?t \<subseteq> set ?c"
  show "\<forall>n\<in>set (br_Nodes res). derived_node hmac idna r n
      \<and> map_of (br_Selectors res) (node_Selector n) = Some (live_ref want n)"
  proof
    fix n
    assume n: "n \<in> set (br_Nodes res)"
    then obtain i where i: "n = sel ! i" "i < length sel" "\<not> kills ai ?c i" using ns by auto
    have "map_of ?t (node_Selector n) = None"
      using tombstone_not_live [OF idx _ i(2,3)] st i(1)
      by (metis map_of_SomeD not_Some_eq subsetD)
    then show "derived_node hmac idna r n
        \<and> map_of (br_Selectors res) (node_Selector n) = Some (live_ref want n)"
      using lookup live_lookup [OF ds n] der i by (simp add: map_add_def)
  qed
qed (use build_Inr [OF build prev] in blast)+

text \<open>
  C11: A build is consistent. When the previous selectors are well formed, a build for a
  generation gives a selector map that passes the checks of \<open>ValidateRuntimeSnapshot\<close> against the
  nodes it keeps: within the bounds, every reference of this generation, every live reference to
  a kept node, every tombstone well formed; and each kept node is found under its own selector.
\<close>

theorem build_consistent:
  assumes build: "BuildWithTombstones hmac idna r want nodes previous now = Inr res"
    and prev: "gomap_ok previous"
      "\<forall>(name, ref)\<in>set previous. name \<noteq> [] \<and> (ref_Tombstoned ref \<longrightarrow> ref_TombstoneUntil ref \<noteq> time_zero)"
    and want: "want \<noteq> 0" and now: "time_zero \<le> now"
  shows "gomap_ok (br_Selectors res) \<and> length (br_Selectors res) \<le> maxRuntimeSelectorRefs
    \<and> validate_selectors (map node_ID (br_Nodes res)) (br_Selectors res) = None
    \<and> (\<forall>(name, ref)\<in>set (br_Selectors res). ref_Generation ref = want)
    \<and> distinct (map node_ID (br_Nodes res)) \<and> node_ID ` set (br_Nodes res) \<subseteq> node_ID ` set nodes
    \<and> (\<forall>n\<in>set (br_Nodes res). map_of (br_Selectors res) (node_Selector n) = Some (live_ref want n))"
proof (rule build_Inr [OF build prev(1)])
  fix ai sel
  let ?c = "collect_tombstones want now ai sel previous"
  let ?t = "tombstones_of want now ai sel previous"
  assume idx: "index_ok ai sel" and ids: "map node_ID sel = map node_ID nodes"
    and der: "\<forall>n\<in>set sel. node_ID n \<noteq> [] \<and> derived_node hmac idna r n"
    and ns: "set (br_Nodes res) = {sel ! i | i. i < length sel \<and> \<not> kills ai ?c i}"
    and dn: "distinct (map node_ID (br_Nodes res))"
    and lookup: "map_of (br_Selectors res)
      = map_of (map (\<lambda>n. (node_Selector n, live_ref want n)) (br_Nodes res)) ++ map_of ?t"
    and ds: "distinct (map node_Selector (br_Nodes res))" and ok: "gomap_ok (br_Selectors res)"
    and len: "length (br_Selectors res) \<le> MaxLiveSelectorsPerGeneration + MaxTombstonesPerGeneration"
    and st: "set ?t \<subseteq> set ?c" and dt: "distinct (map fst ?t)"
  have sub: "set (br_Nodes res) \<subseteq> set sel" by (auto simp: ns)
  have entry: "selector_entry_ok (node_ID ` set (br_Nodes res)) (name, ref) \<and> ref_Generation ref = want"
    if e: "map_of (br_Selectors res) name = Some ref" for name ref
  proof (cases "map_of ?t name")
    case None
    then have "map_of (map (\<lambda>n. (node_Selector n, live_ref want n)) (br_Nodes res)) name = Some ref"
      using e lookup by (simp add: map_add_def)
    then obtain n where "n \<in> set (br_Nodes res)" "name = node_Selector n" "ref = live_ref want n"
      using map_of_SomeD by fastforce
    moreover from this have "node_Selector n \<noteq> []" "node_ID n \<noteq> []"
      using der sub Derived_selector by blast+
    ultimately show ?thesis using want by (simp add: selector_entry_ok_def live_ref_def)
  next
    case (Some t)
    then have r: "ref = t" using e lookup by (simp add: map_add_def)
    have "(name, t) \<in> set ?c" using st Some by (auto dest: map_of_SomeD)
    then obtain ref0 where r0: "(name, ref0) \<in> set previous"
        "tombstone_of want now ai sel (name, ref0) = Some t"
      unfolding collect_iff by blast
    have "name \<noteq> []" "ref_Tombstoned ref0 \<longrightarrow> ref_TombstoneUntil ref0 \<noteq> time_zero"
      using prev(2) r0(1) by auto
    then show ?thesis
      using tombstone_of_Some [OF r0(2)] want now r
      by (auto simp: selector_entry_ok_def DefaultTombstoneGrace_def time_zero_def split: if_splits)
  qed
  have found: "map_of (br_Selectors res) (node_Selector n) = Some (live_ref want n)"
    if n: "n \<in> set (br_Nodes res)" for n
    using build_live(1) [OF build prev(1)] n by blast
  have "\<forall>e\<in>set (br_Selectors res). selector_entry_ok (set (map node_ID (br_Nodes res))) e"
    using entry gomap_lookup_iff [OF ok] by fastforce
  moreover have "\<forall>(name, ref)\<in>set (br_Selectors res). ref_Generation ref = want"
    using entry gomap_lookup_iff [OF ok] by fastforce
  moreover have "node_ID ` set (br_Nodes res) \<subseteq> node_ID ` set nodes"
    using sub arg_cong [OF ids, of set] by auto
  ultimately show ?thesis
    using ok len dn found
    by (simp add: validate_selectors_None maxRuntimeSelectorRefs_def MaxLiveSelectorsPerGeneration_def
        MaxTombstonesPerGeneration_def)
qed

text \<open>
  C12: A selector never changes its meaning silently. A selector of this generation that was
  live for one node is, after the build, live for the same node, or an explicit tombstone, or
  gone; an active tombstone stays a tombstone with the same end, whatever nodes reappear; and as
  long as the tombstones fit, a live selector whose node is not kept does become a tombstone
  that is active for the whole grace period.
\<close>

theorem build_no_remap:
  assumes build: "BuildWithTombstones hmac idna r want nodes previous now = Inr res"
    and prev: "gomap_ok previous" "map_of previous name = Some old" "ref_Generation old = want"
  shows "(\<not> ref_Tombstoned old \<longrightarrow>
      (case map_of (br_Selectors res) name of
         None \<Rightarrow> MaxTombstonesPerGeneration < length previous
       | Some ref \<Rightarrow> (if ref_Tombstoned ref then ref_TombstoneUntil ref = now + DefaultTombstoneGrace
                     else ref_NodeID ref = ref_NodeID old)))
    \<and> (IsTombstoned old now \<longrightarrow>
      (case map_of (br_Selectors res) name of
         None \<Rightarrow> MaxTombstonesPerGeneration < length previous
       | Some ref \<Rightarrow> ref_Tombstoned ref \<and> ref_TombstoneUntil ref = ref_TombstoneUntil old))"
proof (rule build_Inr [OF build prev(1)])
  fix ai sel
  let ?c = "collect_tombstones want now ai sel previous"
  let ?t = "tombstones_of want now ai sel previous"
  assume idx: "index_ok ai sel" and ids: "map node_ID sel = map node_ID nodes"
    and ns: "set (br_Nodes res) = {sel ! i | i. i < length sel \<and> \<not> kills ai ?c i}"
    and lookup: "map_of (br_Selectors res)
      = map_of (map (\<lambda>n. (node_Selector n, live_ref want n)) (br_Nodes res)) ++ map_of ?t"
    and ds: "distinct (map node_Selector (br_Nodes res))"
    and st: "set ?t \<subseteq> set ?c" and dt: "distinct (map fst ?t)"
  have unique: "ref0 = old" if "(name, ref0) \<in> set previous" for ref0
    using that prev(1,2) by (metis gomap_lookup_iff option.inject)
  have oldin: "(name, old) \<in> set previous" using prev gomap_lookup_iff [OF prev(1)] by auto
  have clen: "length ?c \<le> length previous"
    using arg_cong [OF collect_fst [of want now ai sel previous], of length]
    by (metis length_filter_le length_map)
  have fits: "(name, t) \<in> set ?t" if "(name, t) \<in> set ?c" "\<not> MaxTombstonesPerGeneration < length previous" for t
    using that clen
    by (simp add: tombstones_of_def newest_tombstones_def sort_tombstones_def)
  have tomb: "tombstone_of want now ai sel (name, old) = Some t" if "map_of ?t name = Some t" for t
  proof -
    have "(name, t) \<in> set ?c" using st that map_of_SomeD by fast
    then show ?thesis unfolding collect_iff using unique by blast
  qed
  have live: "\<exists>n\<in>set (br_Nodes res). node_Selector n = name \<and> ref = live_ref want n
      \<and> map_of ?t name = None"
    if "map_of (br_Selectors res) name = Some ref" "map_of ?t name = None" for ref
  proof -
    have "map_of (map (\<lambda>n. (node_Selector n, live_ref want n)) (br_Nodes res)) name = Some ref"
      using that lookup by (simp add: map_add_def)
    then show ?thesis using map_of_SomeD that(2) by fastforce
  qed
  have notomb: "tombstone_of want now ai sel (name, old) = None"
    if n: "n \<in> set (br_Nodes res)" "node_Selector n = name" for n
  proof (rule ccontr)
    assume "tombstone_of want now ai sel (name, old) \<noteq> None"
    then obtain t where "(name, t) \<in> set ?c" using oldin collect_iff by blast
    moreover obtain i where "n = sel ! i" "i < length sel" "\<not> kills ai ?c i" using n ns by auto
    ultimately show False using tombstone_not_live [OF idx] n(2) by blast
  qed
  have same: "ref_NodeID old = node_ID n"
    if n: "n \<in> set (br_Nodes res)" "node_Selector n = name" and l: "\<not> ref_Tombstoned old" for n
  proof -
    obtain i where i: "n = sel ! i" "i < length sel" using n ns by auto
    then have "map_of ai name = Some i" using idx n(2) by (simp add: index_ok_def)
    then show ?thesis
      using notomb [OF n] l prev(3) i by (auto simp: tombstone_of_def split: if_splits)
  qed
  have present: "map_of (br_Selectors res) name \<noteq> None"
    if fit: "\<not> MaxTombstonesPerGeneration < length previous"
      and act: "ref_Tombstoned old \<longrightarrow> IsTombstoned old now"
  proof (cases "tombstone_of want now ai sel (name, old)")
    case (Some t)
    then have "(name, t) \<in> set ?t" using oldin fit fits by (auto simp: collect_iff)
    then have "map_of ?t name \<noteq> None" by (simp add: dt)
    then show ?thesis using lookup by (auto simp: map_add_def split: option.splits)
  next
    case None
    then obtain i where i: "map_of ai name = Some i" "\<not> ref_Tombstoned old"
      using act prev(3) by (auto simp: tombstone_of_def split: if_splits option.splits)
    then have si: "i < length sel" "node_Selector (sel ! i) = name" using idx by (auto simp: index_ok_def)
    have "\<not> kills ai ?c i"
    proof
      assume "kills ai ?c i"
      then obtain nm t where "(nm, t) \<in> set ?c" "map_of ai nm = Some i" by (auto simp: kills_def)
      moreover from this have "nm = name" using si idx by (auto simp: index_ok_def)
      ultimately show False using None unique by (auto simp: collect_iff)
    qed
    then have "sel ! i \<in> set (br_Nodes res)" using si ns by auto
    then have "map_of (map (\<lambda>n. (node_Selector n, live_ref want n)) (br_Nodes res)) name \<noteq> None"
      using live_lookup [OF ds] si(2) by fastforce
    then show ?thesis using lookup by (auto simp: map_add_def split: option.splits)
  qed
  have tlive: "\<not> ref_Tombstoned (live_ref want n)" "ref_NodeID (live_ref want n) = node_ID n" for n
    by (simp_all add: live_ref_def)
  have dead: "IsTombstoned old now \<Longrightarrow> ref_Tombstoned old" by (simp add: IsTombstoned_def)
  show ?thesis
  proof (cases "map_of (br_Selectors res) name")
    case None
    then show ?thesis using present dead by auto
  next
    case (Some ref)
    show ?thesis
    proof (cases "map_of ?t name")
      case None
      then obtain n where n: "n \<in> set (br_Nodes res)" "node_Selector n = name" "ref = live_ref want n"
        using live [OF Some] by blast
      have "\<not> IsTombstoned old now"
        using notomb [OF n(1,2)] prev(3) dead by (auto simp: tombstone_of_def)
      then show ?thesis using Some n same [OF n(1,2)] tlive by simp
    next
      case (Some t)
      then have "ref = t" using \<open>map_of (br_Selectors res) name = Some ref\<close> lookup by (simp add: map_add_def)
      then show ?thesis
        using tombstone_of_Some [OF tomb [OF Some]] \<open>map_of (br_Selectors res) name = Some ref\<close> dead
        by (auto split: if_splits)
    qed
  qed
qed

section \<open>Authentication\<close>

lemma length_selector: "length x = n \<Longrightarrow> length (p @ raw_url_encode x) = length p + (n * 8 + 5) div 6"
  by simp

lemma valid_encoded:
  assumes "length mac = 32"
  shows "validSelector (selectorPrefix @ raw_url_encode (take selectorBytes mac))"
    and "validPassword (passwordPrefix @ raw_url_encode (take passwordBytes mac))"
  using assms
  by (simp_all add: validSelector_def validPassword_def has_prefix_def selectorBytes_def passwordBytes_def)

text \<open>
  Authentication accepts exactly the derived credentials. What \<open>Derive\<close> gives for a node
  under the registry's keys authenticates, as the registry's generation; and for a selector at
  most one password authenticates, the one derived from it.
\<close>

theorem authenticate_derived:
  assumes hmac: "\<And>k x. length (hmac k x) = 32"
    and r: "NewRegistry source = Inr r"
    and cred: "Derive hmac idna identity (sub_SelectorKey source) (sub_ProxyAuthKey source) = Inr cred"
  shows "AuthenticateAt hmac r (cred_Selector cred) (cred_Password cred) = Some (sub_Generation source)
    \<and> (\<forall>selector password generation. AuthenticateAt hmac r selector password = Some generation \<longrightarrow>
         generation = sub_Generation source
         \<and> password = selector_password hmac (sub_ProxyAuthKey source) selector)"
proof -
  have r_eq: "r = \<lparr>reg_generation = sub_Generation source, reg_selectorKey = sub_SelectorKey source,
      reg_proxyAuthKey = sub_ProxyAuthKey source\<rparr>"
    using r by (auto simp: NewRegistry_def split: if_splits)
  obtain canon where c: "cred_Selector cred
      = selectorPrefix @ raw_url_encode (take selectorBytes (hmac (sub_SelectorKey source) (Fingerprint canon)))"
    "cred_Password cred = selector_password hmac (sub_ProxyAuthKey source) (cred_Selector cred)"
    using cred by (auto simp: Derive_def DeriveCanonical_def Let_def split: if_splits)
  have "validSelector (cred_Selector cred)" "validPassword (cred_Password cred)"
    unfolding c selector_password_def using valid_encoded [OF hmac] by blast+
  then have "AuthenticateAt hmac r (cred_Selector cred) (cred_Password cred) = Some (sub_Generation source)"
    using c(2) by (simp add: AuthenticateAt_def Registry_load_def r_eq)
  then show ?thesis
    by (auto simp: AuthenticateAt_def Registry_load_def r_eq split: if_splits)
qed

section \<open>Fingerprints\<close>

lemma provider_loop_chars: "provider_loop s = Inr t \<Longrightarrow> nul \<notin> set t \<and> length t = length s"
proof (induction s arbitrary: t)
  case (Cons v s)
  have up: "ascii_upper v \<noteq> nul" if "chr_code v > 32"
  proof
    assume "ascii_upper v = nul"
    then have "chr_code (ascii_upper v) = 0" by (simp add: nul_def chr_code_def)
    then show False using that by (simp add: chr_code_ascii_upper split: if_splits)
  qed
  have sp: "chr_code (CHR '' '') = 32" by (simp add: chr_code_def)
  obtain u where "provider_loop s = Inr u" "t = ascii_upper v # u" "chr_code v > 32"
    using Cons.prems sp by (auto split: if_splits)
  then show ?case using Cons.IH up by auto
qed simp

lemma canonicalHost_no_nul: "canonicalHost idna host = Inr h \<Longrightarrow> nul \<notin> set h"
  using ParseAddr_zone [of host] addr_String_no_nul
  by (auto simp: canonicalHost_def Let_def split: if_splits option.splits sum.splits)

lemma Canonicalize_no_nul:
  assumes "Canonicalize idna ident = Inr c"
  shows "nul \<notin> set (canon_NodeID c) \<and> nul \<notin> set (canon_Provider c) \<and> nul \<notin> set (canon_Host c)"
  using assms provider_loop_chars canonicalHost_no_nul
  by (auto simp: Canonicalize_def canonicalProvider_def split: if_splits)

lemma nul_split:
  "nul \<notin> set a \<Longrightarrow> nul \<notin> set b \<Longrightarrow> a @ nul # x = b @ nul # y \<Longrightarrow> a = b \<and> x = y"
proof (induction a arbitrary: b)
  case Nil
  then show ?case by (cases b) auto
next
  case (Cons c a)
  then show ?case by (cases b) auto
qed

text \<open>
  The credential input determines the identity: two canonical identities with the same
  fingerprint are equal, so different logical nodes, providers, hosts or ports never share the
  message their selector is derived from.
\<close>

theorem fingerprint_injective:
  assumes "Canonicalize idna x = Inr i" and "Canonicalize idna y = Inr j"
    and "Fingerprint i = Fingerprint j"
  shows "i = j"
proof -
  note n = Canonicalize_no_nul [OF assms(1)] Canonicalize_no_nul [OF assms(2)]
  have "canon_NodeID i @ nul # canon_Provider i @ nul # canon_Host i @ nul # dec (unat (canon_Port i))
      = canon_NodeID j @ nul # canon_Provider j @ nul # canon_Host j @ nul # dec (unat (canon_Port j))"
    using assms(3) by (simp add: Fingerprint_def flip: bytes_of_string_append)
  from nul_split [OF _ _ this] n
  have 1: "canon_NodeID i = canon_NodeID j"
    "canon_Provider i @ nul # canon_Host i @ nul # dec (unat (canon_Port i))
      = canon_Provider j @ nul # canon_Host j @ nul # dec (unat (canon_Port j))" by simp_all
  from nul_split [OF _ _ 1(2)] n
  have 2: "canon_Provider i = canon_Provider j"
    "canon_Host i @ nul # dec (unat (canon_Port i)) = canon_Host j @ nul # dec (unat (canon_Port j))"
    by simp_all
  from nul_split [OF _ _ 2(2)] n
  have "canon_Host i = canon_Host j" "dec (unat (canon_Port i)) = dec (unat (canon_Port j))" by simp_all
  with 1 2 show ?thesis by (simp add: word_unat_eq_iff)
qed

section \<open>The registry provides the builder interface\<close>

lemma build_empty:
  assumes b: "BuildWithTombstones hmac idna r g nodes [] now = Inr res" and g: "g \<noteq> 0" and t: "time_zero \<le> now"
  shows "length (br_Selectors res) \<le> maxRuntimeSelectorRefs
    \<and> (\<forall>e\<in>set (br_Selectors res). selector_entry_ok (node_ID ` set nodes) e)
    \<and> (\<forall>(name, ref)\<in>set (br_Selectors res). ref_Generation ref = g)"
proof (rule build_Inr [OF b])
  show "gomap_ok ([] :: (string, NodeRef) gomap)" by simp
  fix ai sel
  assume ids: "map node_ID sel = map node_ID nodes"
    and der: "\<forall>n\<in>set sel. node_ID n \<noteq> [] \<and> derived_node hmac idna r n"
    and ns: "set (br_Nodes res) = {sel ! i | i. i < length sel
        \<and> \<not> kills ai (collect_tombstones g now ai sel []) i}"
    and lookup: "map_of (br_Selectors res) = map_of (map (\<lambda>n. (node_Selector n, live_ref g n)) (br_Nodes res))
        ++ map_of (tombstones_of g now ai sel [])"
    and ok: "gomap_ok (br_Selectors res)"
    and len: "length (br_Selectors res) \<le> MaxLiveSelectorsPerGeneration + MaxTombstonesPerGeneration"
    and st: "set (tombstones_of g now ai sel []) \<subseteq> set (collect_tombstones g now ai sel [])"
  have none: "tombstones_of g now ai sel [] = []"
    using st by (simp add: collect_tombstones_def map_filter_simps)
  have entry: "selector_entry_ok (node_ID ` set nodes) (name, ref) \<and> ref_Generation ref = g"
    if "(name, ref) \<in> set (br_Selectors res)" for name ref
  proof -
    have "map_of (map (\<lambda>n. (node_Selector n, live_ref g n)) (br_Nodes res)) name = Some ref"
      using that lookup none gomap_lookup_iff [OF ok, of name ref] by simp
    then obtain n where n: "n \<in> set (br_Nodes res)" "name = node_Selector n" "ref = live_ref g n"
      using map_of_SomeD by fastforce
    then have "n \<in> set sel" by (auto simp: ns)
    then have "node_Selector n \<noteq> []" "node_ID n \<noteq> []" "node_ID n \<in> node_ID ` set nodes"
      using der Derived_selector arg_cong [OF ids, of set] by auto
    then show ?thesis using n(2,3) g by (simp add: selector_entry_ok_def live_ref_def)
  qed
  show ?thesis
    using entry len by (auto simp: maxRuntimeSelectorRefs_def MaxLiveSelectorsPerGeneration_def
        MaxTombstonesPerGeneration_def)
qed

lemma build_input:
  assumes "BuildWithTombstones hmac idna r g nodes previous now = Inr res"
  shows "distinct (map node_ID nodes) \<and> length nodes \<le> maxRuntimeNodes"
proof -
  obtain ai sel where s: "select_nodes hmac idna r nodes [] [] [] = Inr (ai, sel)"
    and len: "length nodes \<le> MaxLiveSelectorsPerGeneration"
    using assms by (auto simp: build_eq split: if_splits)
  have "index_ok [] []" by (simp add: index_ok_def)
  from select_nodes_ok [OF s this] len show ?thesis
    by (auto simp: MaxLiveSelectorsPerGeneration_def maxRuntimeNodes_def)
qed

interpretation registry: selector_builder "Registry_Build hmac idna r" for hmac idna r
proof
  fix g nodes now m
  assume b: "Registry_Build hmac idna r g nodes now = Inr m"
  then obtain res where res: "BuildWithTombstones hmac idna r g nodes [] now = Inr res" "m = br_Selectors res"
    by (auto simp: Registry_Build_def)
  show "distinct (map node_ID nodes) \<and> length nodes \<le> maxRuntimeNodes"
    using build_input [OF res(1)] .
  assume g: "g \<noteq> 0" "time_zero \<le> now"
  show "length m \<le> maxRuntimeSelectorRefs \<and> (\<forall>e\<in>set m. selector_entry_ok (node_ID ` set nodes) e)"
    using build_empty [OF res(1) g] res(2) by simp
  fix name ref
  assume "(name, ref) \<in> set m"
  then show "ref_Generation ref = g" using build_empty [OF res(1) g] res(2) by blast
qed

section \<open>Concrete builds\<close>

definition demo_idna :: idna where
  "demo_idna host = Inr host"

definition demo_registry :: Registry where
  "demo_registry = \<lparr>reg_generation = 4, reg_selectorKey = replicate 32 3, reg_proxyAuthKey = replicate 32 4\<rparr>"

definition demo_line :: "string \<Rightarrow> Node" where
  "demo_line nid = zero_Node\<lparr>node_ID := nid, node_Provider := ''Wifiin'', node_Host := ''node.example'',
     node_Port := 443, node_Eligible := True\<rparr>"

definition demo_mac :: hmac where
  "demo_mac k m = take 32 (m @ k)"

lemma demo_mac_length: "length k = 32 \<Longrightarrow> length (demo_mac k m) = 32"
  by (simp add: demo_mac_def)

definition demo_previous :: "(string, NodeRef) gomap" where
  "demo_previous =
     [(''n_gone'', \<lparr>ref_NodeID = ''old'', ref_Generation = 4, ref_Tombstoned = False, ref_TombstoneUntil = 0\<rparr>),
      (''n_tomb'', \<lparr>ref_NodeID = [], ref_Generation = 4, ref_Tombstoned = True, ref_TombstoneUntil = 900\<rparr>),
      (''n_other'', \<lparr>ref_NodeID = ''x'', ref_Generation = 3, ref_Tombstoned = False, ref_TombstoneUntil = 0\<rparr>)]"

lemma demo_build_ok:
  "is_ok (BuildWithTombstones demo_mac demo_idna demo_registry 4 [demo_line ''a'', demo_line ''b'']
     demo_previous 500)"
  by code_simp

lemma build_order_independent_witness:
  "BuildWithTombstones demo_mac demo_idna demo_registry 4 [demo_line ''a''] demo_previous 500
   = BuildWithTombstones demo_mac demo_idna demo_registry 4 [demo_line ''a''] (rev demo_previous) 500"
  by (rule build_order_independent) (simp_all add: demo_previous_def add.commute)

lemma build_consistent_witness:
  "\<exists>res. BuildWithTombstones demo_mac demo_idna demo_registry 4 [demo_line ''a'', demo_line ''b'']
      demo_previous 500 = Inr res
    \<and> validate_selectors (map node_ID (br_Nodes res)) (br_Selectors res) = None"
proof -
  obtain res where r: "BuildWithTombstones demo_mac demo_idna demo_registry 4
      [demo_line ''a'', demo_line ''b''] demo_previous 500 = Inr res"
    using demo_build_ok unfolding is_ok_iff by blast
  from build_consistent [OF r] r show ?thesis by (simp add: demo_previous_def time_zero_def)
qed

lemma build_no_remap_witness:
  "\<exists>res ref. BuildWithTombstones demo_mac demo_idna demo_registry 4 [demo_line ''a'', demo_line ''b'']
      demo_previous 500 = Inr res
    \<and> map_of (br_Selectors res) ''n_tomb'' = Some ref \<and> ref_Tombstoned ref"
proof -
  obtain res where r: "BuildWithTombstones demo_mac demo_idna demo_registry 4
      [demo_line ''a'', demo_line ''b''] demo_previous 500 = Inr res"
    using demo_build_ok unfolding is_ok_iff by blast
  from build_no_remap [OF r, of "''n_tomb''"] r show ?thesis
    by (auto simp: demo_previous_def IsTombstoned_def MaxTombstonesPerGeneration_def split: option.splits)
qed

lemma authenticate_derived_witness:
  "\<exists>(cred :: Credentials) r. NewRegistry (pst_Subscription (demo_persistent [])) = Inr r
     \<and> AuthenticateAt demo_hmac r (cred_Selector cred) (cred_Password cred) = Some 4"
proof -
  let ?src = "pst_Subscription (demo_persistent [])"
  let ?id = "\<lparr>ident_NodeID = ''a'', ident_Provider = ''wifiin'', ident_Host = ''10.0.0.1'', ident_Port = 443\<rparr>"
  have "is_ok (NewRegistry ?src)" by code_simp
  then obtain r where r: "NewRegistry ?src = Inr r" by (auto simp: is_ok_iff)
  have "is_ok (Derive demo_hmac demo_idna ?id (sub_SelectorKey ?src) (sub_ProxyAuthKey ?src))" by code_simp
  then obtain cred where c: "Derive demo_hmac demo_idna ?id (sub_SelectorKey ?src) (sub_ProxyAuthKey ?src)
      = Inr cred" by (auto simp: is_ok_iff)
  have "sub_Generation ?src = 4" by (simp add: demo_persistent_def)
  moreover have "AuthenticateAt demo_hmac r (cred_Selector cred) (cred_Password cred) = Some (sub_Generation ?src)"
    using authenticate_derived [OF demo_hmac_length r c] by (rule conjunct1)
  ultimately show ?thesis using r by metis
qed

lemma fingerprint_injective_witness:
  "\<exists>c. Canonicalize demo_idna \<lparr>ident_NodeID = ''a'', ident_Provider = ''wifiin'',
          ident_Host = ''::FFFF'', ident_Port = 443\<rparr> = Inr c
     \<and> Canonicalize demo_idna \<lparr>ident_NodeID = ''a'', ident_Provider = ''WIFIIN'',
          ident_Host = ''0:0:0:0:0:0:0:ffff'', ident_Port = 443\<rparr> = Inr c"
proof -
  let ?x = "\<lparr>ident_NodeID = ''a'', ident_Provider = ''wifiin'', ident_Host = ''::FFFF'', ident_Port = 443\<rparr>"
  let ?y = "\<lparr>ident_NodeID = ''a'', ident_Provider = ''WIFIIN'',
    ident_Host = ''0:0:0:0:0:0:0:ffff'', ident_Port = 443\<rparr>"
  have "is_ok (Canonicalize demo_idna ?x)" "is_ok (Canonicalize demo_idna ?y)" by code_simp+
  then obtain i j where i: "Canonicalize demo_idna ?x = Inr i" and j: "Canonicalize demo_idna ?y = Inr j"
    by (auto simp: is_ok_iff)
  have "map_sum id Fingerprint (Canonicalize demo_idna ?x) = map_sum id Fingerprint (Canonicalize demo_idna ?y)"
    by code_simp
  then have "Fingerprint i = Fingerprint j" by (simp add: i j)
  from fingerprint_injective [OF i j this] i j show ?thesis by auto
qed

end
