(* ===== verification/State_Service.thy ===== *)
theory State_Service
  imports State_Interfaces
begin

text \<open>
  The service state machine: the manager of \<open>internal/state/manager.go\<close> together with the
  function values it has handed out and not yet seen run, as a step relation with one rule per
  operation, its invariant, and the trace properties that follow from it.
\<close>

section \<open>Steps\<close>

record Service =
  svc_mgr :: Manager
  svc_leases :: "(u64 \<times> Operation) list"
  svc_rollbacks :: "(SubscriptionGeneration \<times> SubscriptionGeneration) list"

datatype action =
    AConfigure bytes
  | AInstall SubscriptionGeneration string
  | ARollback SubscriptionGeneration SubscriptionGeneration
  | ABegin Operation
  | AFinish u64 Operation Outcome gotime
  | ATransition ServiceState
  | ACommit "RuntimeSnapshot option" gotime
  | ASignOut
  | AMarkExpired gotime

text \<open>
  A finisher or rollback runs at most once (\<open>sync.Once\<close>): a step that runs it takes it out of the
  outstanding ones. The program requests explicit transitions to \<open>syncing\<close> and \<open>degraded\<close> only
  (\<open>internal/kuaifan/refresh.go\<close> and \<open>MarkDegraded\<close>).
\<close>

inductive svc_step :: "hmac \<Rightarrow> Service \<Rightarrow> action \<Rightarrow> Service \<Rightarrow> bool" for hmac where
  configure: "ConfigureBindingKey key (svc_mgr s) = (r, m) \<Longrightarrow>
    svc_step hmac s (AConfigure key) (s\<lparr>svc_mgr := m\<rparr>)"
| install_ok: "InstallSubscriptionGeneration hmac c user (svc_mgr s) = (Inr previous, m) \<Longrightarrow>
    svc_step hmac s (AInstall c user)
      (s\<lparr>svc_mgr := m, svc_rollbacks := (c, previous) # svc_rollbacks s\<rparr>)"
| install_fail: "InstallSubscriptionGeneration hmac c user (svc_mgr s) = (Inl e, m) \<Longrightarrow>
    svc_step hmac s (AInstall c user) (s\<lparr>svc_mgr := m\<rparr>)"
| rollback: "(c, previous) \<in> set (svc_rollbacks s) \<Longrightarrow>
    svc_step hmac s (ARollback c previous)
      (s\<lparr>svc_mgr := rollback c previous (svc_mgr s),
         svc_rollbacks := remove1 (c, previous) (svc_rollbacks s)\<rparr>)"
| begin_ok: "Begin operation (svc_mgr s) = (Inr lease, m) \<Longrightarrow>
    svc_step hmac s (ABegin operation)
      (s\<lparr>svc_mgr := m, svc_leases := (lease, operation) # svc_leases s\<rparr>)"
| begin_fail: "Begin operation (svc_mgr s) = (Inl e, m) \<Longrightarrow>
    svc_step hmac s (ABegin operation) (s\<lparr>svc_mgr := m\<rparr>)"
| finish: "(lease, operation) \<in> set (svc_leases s) \<Longrightarrow>
    svc_step hmac s (AFinish lease operation outcome now)
      (s\<lparr>svc_mgr := finish lease operation outcome now (svc_mgr s),
         svc_leases := remove1 (lease, operation) (svc_leases s)\<rparr>)"
| transition: "Transition nxt (svc_mgr s) = (r, m) \<Longrightarrow> nxt \<in> {StateSyncing, StateDegraded} \<Longrightarrow>
    svc_step hmac s (ATransition nxt) (s\<lparr>svc_mgr := m\<rparr>)"
| commit: "Commit hmac snapshot now (svc_mgr s) = (r, m) \<Longrightarrow>
    svc_step hmac s (ACommit snapshot now) (s\<lparr>svc_mgr := m\<rparr>)"
| sign_out: "svc_step hmac s ASignOut (s\<lparr>svc_mgr := SignOut (svc_mgr s)\<rparr>)"
| mark_expired: "MarkExpired now (svc_mgr s) = (r, m) \<Longrightarrow>
    svc_step hmac s (AMarkExpired now) (s\<lparr>svc_mgr := m\<rparr>)"

inductive_cases svc_stepE: "svc_step hmac s a s'"
inductive_cases svc_commitE: "svc_step hmac s (ACommit snapshot now) s'"
inductive_simps svc_sign_out_iff: "svc_step hmac s ASignOut s'"

text \<open>Runs: sequences of steps, with the actions taken.\<close>

inductive svc_run :: "hmac \<Rightarrow> Service \<Rightarrow> action list \<Rightarrow> Service \<Rightarrow> bool" for hmac where
  run_nil: "svc_run hmac s [] s"
| run_cons: "svc_step hmac s a s1 \<Longrightarrow> svc_run hmac s1 as s2 \<Longrightarrow> svc_run hmac s (a # as) s2"

definition svc_init :: "Manager \<Rightarrow> Service" where
  "svc_init m = \<lparr>svc_mgr = m, svc_leases = [], svc_rollbacks = []\<rparr>"

inductive svc_reach :: "hmac \<Rightarrow> Service \<Rightarrow> bool" for hmac where
  reach_init: "NewManagerWithSubscription hmac now initial subscription key = Inr m \<Longrightarrow>
    svc_reach hmac (svc_init m)"
| reach_step: "svc_reach hmac s \<Longrightarrow> svc_step hmac s a s' \<Longrightarrow> svc_reach hmac s'"

text \<open>
  A relation on managers that is reflexive and transitive and holds between the managers before
  and after each operation holds along a run: the pattern of the trace properties below.
\<close>

lemma svc_run_induct_rel:
  assumes run: "svc_run hmac s as s'"
    and refl: "\<And>s. R s s" and trans: "\<And>s t u. R s t \<Longrightarrow> R t u \<Longrightarrow> R s u"
    and step: "\<And>s a t. a \<in> set as \<Longrightarrow> svc_step hmac s a t \<Longrightarrow> R s t"
  shows "R s s'"
  using run step
proof (induction rule: svc_run.induct)
  case (run_nil s)
  show ?case by (rule refl)
next
  case (run_cons s a s1 as s2)
  have "R s s1" using run_cons.prems run_cons.hyps(1) by (meson list.set_intros(1))
  moreover have "R s1 s2" using run_cons.IH run_cons.prems by (meson list.set_intros(2))
  ultimately show ?case by (rule trans)
qed

section \<open>Effects of the operations\<close>

text \<open>The part of a snapshot that no lifecycle operation changes.\<close>

definition no_authority :: "Manager \<Rightarrow> bool" where
  "no_authority m \<longleftrightarrow>
     (case mgr_runtime m of None \<Rightarrow> True | Some s \<Rightarrow> \<not> ClientSessions_Valid (snap_Sessions s))"

definition snapshot_struct :: "RuntimeSnapshot \<Rightarrow> bool" where
  "snapshot_struct s \<longleftrightarrow>
     snap_Generation s \<noteq> 0 \<and> snap_CreatedAt s \<noteq> time_zero
     \<and> length (snap_Nodes s) \<le> maxRuntimeNodes
     \<and> length (snap_Selectors s) \<le> maxRuntimeSelectorRefs
     \<and> (\<forall>n\<in>set (snap_Nodes s). ValidateNode n = None) \<and> distinct (map node_ID (snap_Nodes s))
     \<and> (\<forall>e\<in>set (snap_Selectors s). selector_entry_ok (node_ID ` set (snap_Nodes s)) e)"

lemma snapshot_ok_struct: "snapshot_ok s now \<Longrightarrow> snapshot_struct s"
  by (simp add: snapshot_ok_def snapshot_struct_def)

lemma signOutLocked_simps [simp]:
  "mgr_state (signOutLocked m) = StateSignedOut"
  "mgr_active (signOutLocked m) = mgr_active m"
  "mgr_lease (signOutLocked m) = mgr_lease m"
  "mgr_subscription (signOutLocked m) = mgr_subscription m"
  "mgr_accountBindingKey (signOutLocked m) = mgr_accountBindingKey m"
  "mgr_bindingKeyConfigured (signOutLocked m) = mgr_bindingKeyConfigured m"
  "no_authority (signOutLocked m)"
  by (auto simp: signOutLocked_def no_authority_def Let_def split: option.splits)

lemma expireLocked_simps [simp]:
  "mgr_state (expireLocked now m) = StateExpired"
  "mgr_active (expireLocked now m) = mgr_active m"
  "mgr_lease (expireLocked now m) = mgr_lease m"
  "mgr_subscription (expireLocked now m) = mgr_subscription m"
  "mgr_accountBindingKey (expireLocked now m) = mgr_accountBindingKey m"
  "mgr_bindingKeyConfigured (expireLocked now m) = mgr_bindingKeyConfigured m"
  "no_authority (expireLocked now m)"
  by (auto simp: expireLocked_def no_authority_def Let_def split: option.splits)

text \<open>
  What an operation other than \<open>Commit\<close> may do to the published snapshot: nothing, or wipe its
  sessions (with the account or the expiry).
\<close>

definition view_kept :: "RuntimeSnapshot option \<Rightarrow> RuntimeSnapshot option \<Rightarrow> bool" where
  "view_kept r r' \<longleftrightarrow>
     r' = r
     \<or> (case (r, r') of
          (Some s, Some s') \<Rightarrow>
            snap_Generation s' = snap_Generation s \<and> snap_CreatedAt s' = snap_CreatedAt s
            \<and> snap_Nodes s' = snap_Nodes s \<and> snap_Selectors s' = snap_Selectors s
            \<and> snap_Sessions s' = ClientSessions_Wipe (snap_Sessions s)
        | _ \<Rightarrow> False)"

lemma view_kept_refl [simp]: "view_kept r r"
  by (simp add: view_kept_def)

lemma view_kept_signOut: "view_kept (mgr_runtime m) (mgr_runtime (signOutLocked m))"
  by (cases "mgr_runtime m") (simp_all add: signOutLocked_def view_kept_def)

lemma view_kept_expire: "view_kept (mgr_runtime m) (mgr_runtime (expireLocked now m))"
  by (cases "mgr_runtime m") (simp_all add: expireLocked_def view_kept_def)

lemma view_kept_finish: "view_kept (mgr_runtime m) (mgr_runtime (finish l op out now m))"
  using view_kept_signOut [of "m\<lparr>mgr_active := None\<rparr>"]
    view_kept_expire [of "m\<lparr>mgr_active := None\<rparr>" now]
  by (auto simp: finish_def Let_def split: option.splits)

lemma Commit_cases:
  assumes "Commit hmac snapshot now m = (r, m')"
  obtains e where "r = Some e" "m' = m"
  | s where "r = None" "snapshot = Some s" "snapshot_ok s now" "ClientSessions_Valid (snap_Sessions s)"
      "list_ex TunnelEligible (snap_Nodes s)"
      "mgr_state m \<in> {StateAuthenticating, StateSyncing, StateReady, StateDegraded}"
      "\<forall>c. mgr_runtime m = Some c \<longrightarrow> snap_Generation c < snap_Generation s"
      "mgr_bindingKeyConfigured m" "sub_Generation (mgr_subscription m) \<noteq> 0"
      "matchesAccountBinding hmac (sub_AccountBinding (mgr_subscription m)) (mgr_accountBindingKey m)
         (ClientSessions_UserID (snap_Sessions s))"
      "m' = m\<lparr>mgr_runtime := Some s,
             mgr_state := (if mgr_state m = StateDegraded then StateDegraded else StateReady)\<rparr>"
proof (cases r)
  case (Some e)
  then have "m' = m"
    using assms by (auto simp: Commit_def Let_def split: option.splits if_splits)
  with Some that(1) show thesis by blast
next
  case None
  then obtain s where s: "snapshot = Some s" "ValidateRuntimeSnapshot snapshot now = None"
    using assms by (auto simp: Commit_def split: option.splits)
  have upd: "m\<lparr>mgr_runtime := Some s\<rparr> = m\<lparr>mgr_runtime := Some s, mgr_state := mgr_state m\<rparr>" by simp
  show thesis
    using assms None s that(2) [of s] ValidateRuntimeSnapshot_None [of s now] upd
    by (auto simp: Commit_def Let_def not_le split: if_splits option.splits)
qed

lemma step_view:
  assumes "svc_step hmac s a s'" and "\<forall>snapshot now. a \<noteq> ACommit snapshot now"
  shows "view_kept (mgr_runtime (svc_mgr s)) (mgr_runtime (svc_mgr s'))"
  using assms(1)
proof cases
  case (configure key r m)
  then show ?thesis by (auto simp: ConfigureBindingKey_def split: if_splits)
next
  case (install_ok c user previous m)
  then show ?thesis by (auto simp: InstallSubscriptionGeneration_def Let_def split: if_splits)
next
  case (install_fail c user e m)
  then show ?thesis by (auto simp: InstallSubscriptionGeneration_def Let_def split: if_splits)
next
  case (rollback c previous)
  then show ?thesis by (simp add: State_Manager.rollback_def)
next
  case (begin_ok operation lease m)
  then show ?thesis by (auto simp: Begin_def split: if_splits option.splits)
next
  case (begin_fail operation e m)
  then show ?thesis by (auto simp: Begin_def split: if_splits option.splits)
next
  case (finish lease operation outcome now)
  then show ?thesis by (simp add: view_kept_finish)
next
  case (transition nxt r m)
  then show ?thesis by (auto simp: Transition_def split: if_splits)
next
  case (commit snapshot now r m)
  with assms(2) show ?thesis by blast
next
  case sign_out
  then show ?thesis
    using view_kept_signOut [of "(svc_mgr s)\<lparr>mgr_active := None, mgr_lease := mgr_lease (svc_mgr s) + 1\<rparr>"]
    by (simp add: SignOut_def)
next
  case (mark_expired now r m)
  then show ?thesis
    using view_kept_expire [of "svc_mgr s" now] by (auto simp: MarkExpired_def split: if_splits)
qed

section \<open>The invariant\<close>

definition subscription_ok :: "SubscriptionGeneration \<Rightarrow> bool" where
  "subscription_ok g \<longleftrightarrow> sub_Generation g = 0 \<or> validateSubscriptionGeneration g = None"

definition key_ok :: "bool \<Rightarrow> bytes \<Rightarrow> bool" where
  "key_ok configured key \<longleftrightarrow> (if configured then length key = 32 else key = [])"

definition runtime_ok :: "RuntimeSnapshot option \<Rightarrow> bool" where
  "runtime_ok r \<longleftrightarrow> (case r of None \<Rightarrow> True | Some s \<Rightarrow> snapshot_struct s)"

lemma runtime_ok_simps [simp]: "runtime_ok None" "runtime_ok (Some s) = snapshot_struct s"
  by (simp_all add: runtime_ok_def)

definition mgr_inv :: "Manager \<Rightarrow> bool" where
  "mgr_inv m \<longleftrightarrow>
     runtime_ok (mgr_runtime m)
     \<and> (mgr_state m \<in> {StateSignedOut, StateAuthenticating, StateExpired, StateError}
          \<longrightarrow> no_authority m)
     \<and> key_ok (mgr_bindingKeyConfigured m) (mgr_accountBindingKey m)
     \<and> subscription_ok (mgr_subscription m)
     \<and> (\<forall>x. mgr_active m \<noteq> Some (OperationOther x))"

definition svc_inv :: "Service \<Rightarrow> bool" where
  "svc_inv s \<longleftrightarrow>
     mgr_inv (svc_mgr s)
     \<and> (\<forall>(c, previous) \<in> set (svc_rollbacks s). validateSubscriptionGeneration c = None
          \<and> subscription_ok previous)"

lemma view_kept_struct: "view_kept r r' \<Longrightarrow> runtime_ok r \<Longrightarrow> runtime_ok r'"
  by (auto simp: view_kept_def snapshot_struct_def split: option.splits)

lemma view_kept_no_authority:
  assumes "view_kept (mgr_runtime m) (mgr_runtime m')" and "no_authority m"
  shows "no_authority m'"
  using assms by (auto simp: view_kept_def no_authority_def split: option.splits)

lemma prepare_initial_unusable:
  assumes "\<not> SessionUsable initial now" and "prepare_initial now initial = Some p"
  shows "\<not> ClientSessions_Valid (snap_Sessions p)"
  using assms by (auto simp: prepare_initial_def Let_def split: option.splits if_splits)

lemma NewRuntimeStore_Inr:
  "NewRuntimeStore p now = Inr r \<Longrightarrow> r = p \<and> runtime_ok r"
  using ValidateRuntimeSnapshot_None snapshot_ok_struct
  by (auto simp: NewRuntimeStore_def split: option.splits)

lemma NewManager_cases:
  assumes "NewManagerWithSubscription hmac now initial sub key = Inr m"
  shows "\<exists>st. m = \<lparr>mgr_runtime = prepare_initial now initial, mgr_state = st, mgr_active = None,
        mgr_lease = 0, mgr_subscription = sub, mgr_accountBindingKey = key,
        mgr_bindingKeyConfigured = (length key = 32)\<rparr>
    \<and> runtime_ok (prepare_initial now initial) \<and> subscription_ok sub
    \<and> key_ok (length key = 32) key
    \<and> (st = StateReady \<and> (\<exists>i. initial = Some i \<and> SessionUsable initial now
            \<and> matchesAccountBinding hmac (sub_AccountBinding sub) key (ClientSessions_UserID (snap_Sessions i)))
       \<or> st \<in> {StateSignedOut, StateExpired} \<and> \<not> SessionUsable initial now)"
proof -
  have guards: "key_ok (length key = 32) key" "subscription_ok sub"
    using assms
    by (auto simp: NewManagerWithSubscription_def key_ok_def sha256_Size_def subscription_ok_def split: if_splits)
  obtain r where r: "NewRuntimeStore (prepare_initial now initial) now = Inr r"
    using assms by (auto simp: NewManagerWithSubscription_def Let_def split: if_splits)
  have "\<not> SessionUsable None now" by (simp add: SessionUsable_def)
  then show ?thesis
    using assms guards r NewRuntimeStore_Inr [OF r]
    by (auto simp: NewManagerWithSubscription_def sha256_Size_def Let_def split: if_splits option.splits)
qed

lemma inv_NewManager:
  "NewManagerWithSubscription hmac now initial sub key = Inr m \<Longrightarrow> mgr_inv m"
  using prepare_initial_unusable
  by (drule_tac NewManager_cases) (auto simp: mgr_inv_def no_authority_def split: option.splits)

lemma inv_ConfigureBindingKey:
  "ConfigureBindingKey key m = (r, m') \<Longrightarrow> mgr_inv m \<Longrightarrow> mgr_inv m'"
  by (auto simp: ConfigureBindingKey_def mgr_inv_def key_ok_def sha256_Size_def no_authority_def split: if_splits)

lemma Install_cases:
  assumes "InstallSubscriptionGeneration hmac c user m = (r, m')"
  shows "(\<exists>e. r = Inl e \<and> m' = m)
    \<or> (r = Inr (mgr_subscription m) \<and> m' = m\<lparr>mgr_subscription := c\<rparr>
       \<and> validateSubscriptionGeneration c = None
       \<and> mgr_state m \<in> {StateAuthenticating, StateSyncing} \<and> mgr_bindingKeyConfigured m
       \<and> matchesAccountBinding hmac (sub_AccountBinding c) (mgr_accountBindingKey m) user)"
  using assms by (auto simp: InstallSubscriptionGeneration_def Let_def split: if_splits)

lemma inv_Install:
  "InstallSubscriptionGeneration hmac c user m = (r, m') \<Longrightarrow> mgr_inv m \<Longrightarrow> mgr_inv m'"
  by (drule Install_cases) (auto simp: mgr_inv_def subscription_ok_def no_authority_def)

lemma inv_rollback: "mgr_inv m \<Longrightarrow> subscription_ok previous \<Longrightarrow> mgr_inv (rollback c previous m)"
  by (auto simp: rollback_def mgr_inv_def no_authority_def)

lemma begin_target_cases:
  "begin_target operation st = Some target \<longleftrightarrow>
     operation = OperationLogin \<and> st \<in> {StateSignedOut, StateExpired, StateError}
       \<and> target = StateAuthenticating
     \<or> operation = OperationRefresh \<and> st \<in> {StateReady, StateDegraded} \<and> target = StateSyncing"
  by (cases operation) (auto simp: begin_target_def)

lemma Begin_cases:
  assumes "Begin operation m = (r, m')"
  shows "(\<exists>e. r = Inl e \<and> m' = m)
    \<or> (\<exists>target. mgr_active m = None \<and> begin_target operation (mgr_state m) = Some target
         \<and> r = Inr (mgr_lease m + 1)
         \<and> m' = m\<lparr>mgr_state := target, mgr_active := Some operation, mgr_lease := mgr_lease m + 1\<rparr>)"
  using assms by (auto simp: Begin_def split: if_splits option.splits)

lemma inv_Begin: "Begin operation m = (r, m') \<Longrightarrow> mgr_inv m \<Longrightarrow> mgr_inv m'"
  by (drule Begin_cases) (auto simp: mgr_inv_def begin_target_cases no_authority_def)

lemma inv_signOutLocked: "mgr_inv m \<Longrightarrow> mgr_inv (signOutLocked m)"
  using view_kept_struct [OF view_kept_signOut [of m]] by (simp add: mgr_inv_def)

lemma inv_expireLocked: "mgr_inv m \<Longrightarrow> mgr_inv (expireLocked now m)"
  using view_kept_struct [OF view_kept_expire [of m now]] by (simp add: mgr_inv_def)

lemma inv_inactive: "mgr_inv m \<Longrightarrow> mgr_inv (m\<lparr>mgr_active := None, mgr_lease := l\<rparr>)"
  by (simp add: mgr_inv_def no_authority_def)

lemma inv_finish:
  assumes "mgr_inv m"
  shows "mgr_inv (finish l operation outcome now m)"
proof -
  let ?m = "m\<lparr>mgr_active := None\<rparr>"
  have m: "mgr_inv ?m" using assms by (simp add: mgr_inv_def no_authority_def)
  have "mgr_inv (?m\<lparr>mgr_state := StateSyncing\<rparr>)" "mgr_inv (?m\<lparr>mgr_state := StateDegraded\<rparr>)"
    using m by (simp_all add: mgr_inv_def)
  moreover have "mgr_inv (?m\<lparr>mgr_state := StateError\<rparr>)" if "no_authority ?m"
    using m that by (simp add: mgr_inv_def no_authority_def)
  ultimately show ?thesis
    using assms m inv_signOutLocked [OF m] inv_expireLocked [OF m, of now]
    by (simp add: finish_def Let_def no_authority_def split: option.splits)
qed

lemma inv_Transition:
  "Transition nxt m = (r, m') \<Longrightarrow> nxt \<in> {StateSyncing, StateDegraded} \<Longrightarrow> mgr_inv m \<Longrightarrow> mgr_inv m'"
  by (auto simp: Transition_def mgr_inv_def split: if_splits)

lemma inv_Commit:
  assumes "Commit hmac snapshot now m = (r, m')" and "mgr_inv m"
  shows "mgr_inv m'"
  using Commit_cases [OF assms(1)]
proof cases
  case (1 e)
  then show ?thesis using assms(2) by simp
next
  case (2 s)
  then show ?thesis using assms(2) snapshot_ok_struct by (auto simp: mgr_inv_def)
qed

lemma inv_SignOut: "mgr_inv m \<Longrightarrow> mgr_inv (SignOut m)"
  unfolding SignOut_def by (intro inv_signOutLocked inv_inactive)

lemma inv_MarkExpired: "MarkExpired now m = (r, m') \<Longrightarrow> mgr_inv m \<Longrightarrow> mgr_inv m'"
  by (auto simp: MarkExpired_def inv_expireLocked split: if_splits)

lemmas mgr_inv_ops = inv_ConfigureBindingKey inv_Install inv_rollback inv_Begin inv_finish
  inv_Transition inv_Commit inv_SignOut inv_MarkExpired

lemma inv_step:
  assumes "svc_step hmac s a s'" and "svc_inv s"
  shows "svc_inv s'"
  using assms(1)
proof cases
  case (install_ok c user previous m)
  then show ?thesis
    using assms(2) Install_cases [OF install_ok(3)] inv_Install [OF install_ok(3)]
    by (auto simp: svc_inv_def mgr_inv_def)
next
  case (rollback c previous)
  then show ?thesis
    using assms(2) inv_rollback set_remove1_subset [of "(c, previous)" "svc_rollbacks s"]
    by (auto simp: svc_inv_def)
qed (use assms(2) in \<open>auto simp: svc_inv_def intro: mgr_inv_ops\<close>)

text \<open>
  C2: In every state the service can reach, for every order of operations: the published
  snapshot is structurally valid (a non-zero generation, bounded valid nodes with distinct ids,
  and selector references that name a present node or are well-formed tombstones); no session
  is published while the service is signed out, authenticating, expired or in error; the account
  binding key is configured exactly when it has 32 bytes; the installed subscription generation
  is valid; and only login and refresh hold the lease.
\<close>

theorem service_invariant:
  assumes "svc_reach hmac s"
  shows "mgr_inv (svc_mgr s)"
proof -
  have "svc_inv s" using assms
  proof (induction rule: svc_reach.induct)
    case (reach_init now initial subscription key m)
    then show ?case using inv_NewManager by (simp add: svc_inv_def svc_init_def)
  next
    case (reach_step s a s')
    then show ?case using inv_step by blast
  qed
  then show ?thesis by (simp add: svc_inv_def)
qed

section \<open>Authority\<close>

lemma no_authority_unusable:
  "no_authority m \<Longrightarrow> \<not> SessionUsable (mgr_runtime m) now"
  by (auto simp: no_authority_def SessionUsable_def split: option.splits)

lemma no_authority_CompactPin: "no_authority m \<Longrightarrow> CompactPin sel g now m = Inl ErrSelectorUnknown"
  by (simp add: CompactPin_def no_authority_unusable)

lemma no_authority_SessionCurrentPin: "no_authority m \<Longrightarrow> \<not> SessionCurrentPin pin now m"
  by (simp add: SessionCurrentPin_def no_authority_unusable)

lemma no_authority_run:
  assumes "svc_run hmac s as s'" and "\<forall>snapshot now. ACommit snapshot now \<notin> set as"
    and "no_authority (svc_mgr s)"
  shows "no_authority (svc_mgr s')"
proof -
  let ?R = "\<lambda>s s'. no_authority (svc_mgr s) \<longrightarrow> no_authority (svc_mgr s')"
  have "?R s s'"
  proof (rule svc_run_induct_rel [OF assms(1), of ?R])
    fix s a t
    assume "a \<in> set as" and st: "svc_step hmac s a t"
    then have "\<forall>snapshot now. a \<noteq> ACommit snapshot now" using assms(2) by blast
    then show "?R s t" using view_kept_no_authority step_view [OF st] by blast
  qed auto
  with assms(3) show ?thesis by blast
qed

lemma revoke_step:
  assumes "svc_step hmac s a s'"
    and "a = ASignOut \<or> (\<exists>now. a = AMarkExpired now) \<and> mgr_state (svc_mgr s') = StateExpired"
  shows "no_authority (svc_mgr s')"
  using assms(1)
proof cases
  case sign_out
  then show ?thesis by (simp add: SignOut_def)
next
  case (mark_expired now r m)
  then show ?thesis using assms(2) by (auto simp: MarkExpired_def split: if_splits)
qed (use assms(2) in auto)

text \<open>
  C3: Signing out, or marking the service expired, revokes the provider authority for good.
  After the step, and after any sequence of further operations of any length that does not
  commit a new snapshot, no selector resolves to a tunnel pin - the same error as an unknown
  selector - and no pin handed out before is still current, at any time.
\<close>

theorem revoked_until_commit:
  assumes "svc_step hmac s a s1"
    and "a = ASignOut \<or> (\<exists>t. a = AMarkExpired t) \<and> mgr_state (svc_mgr s1) = StateExpired"
    and "svc_run hmac s1 as s2" and "\<forall>snapshot t. ACommit snapshot t \<notin> set as"
  shows "CompactPin selector generation now (svc_mgr s2) = Inl ErrSelectorUnknown
    \<and> \<not> SessionCurrentPin pin now (svc_mgr s2)"
  using no_authority_run [OF assms(3,4) revoke_step [OF assms(1,2)]]
  by (simp add: no_authority_CompactPin no_authority_SessionCurrentPin)

lemma CompactPin_pin:
  assumes "CompactPin selector generation now m = Inr pin"
  obtains s where "mgr_runtime m = Some s" "SessionUsable (Some s) now" "serving_state (mgr_state m)"
    "map_of (snap_Selectors s) selector = Some (pin_Ref pin)" "ref_Generation (pin_Ref pin) = generation"
    "\<not> ref_Tombstoned (pin_Ref pin)" "pin_Node pin \<in> set (snap_Nodes s)"
    "node_ID (pin_Node pin) = ref_NodeID (pin_Ref pin)" "pin_ExpiresAt pin = snap_ExpiresAt s"
    "ClientSessions_For (snap_Sessions s) (EffectiveClientProfile (pin_Node pin)) = (pin_Session pin, True)"
proof -
  obtain s where s: "mgr_runtime m = Some s" "SessionUsable (Some s) now" "serving_state (mgr_state m)"
    using assms by (auto simp: CompactPin_def serving_state_def SessionUsable_def
        split: if_splits option.splits)
  obtain node ref session where r: "ResolveSelector s selector now = Inr (node, ref)"
      and g: "ref_Generation ref = generation"
      and p: "ClientSessions_For (snap_Sessions s) (EffectiveClientProfile node) = (session, True)"
      and pin: "pin = \<lparr>pin_Session = session, pin_ExpiresAt = snap_ExpiresAt s,
                       pin_Node = node, pin_Ref = ref\<rparr>"
    using assms s(1) by (auto simp: CompactPin_def split: if_splits prod.splits)
  have "map_of (snap_Selectors s) selector = Some ref" "\<not> ref_Tombstoned ref"
      "node \<in> set (snap_Nodes s)" "node_ID node = ref_NodeID ref"
    using r by (auto simp: ResolveSelector_def NodeByID_def find_Some_iff split: option.splits if_splits)
  then show thesis using that s g p pin by simp
qed

lemma CompactPin_current:
  assumes "CompactPin selector generation now m = Inr pin"
  shows "SessionCurrentPin pin now m"
  by (rule CompactPin_pin [OF assms])
    (simp add: SessionCurrentPin_def currentSessionMatchesPin_def sameSessionAuthority_def)

definition mgr_evolves :: "hmac \<Rightarrow> Manager \<Rightarrow> Manager \<Rightarrow> bool" where
  "mgr_evolves hmac m m' \<longleftrightarrow>
     (\<exists>s as s'. svc_run hmac s as s' \<and> (\<forall>snapshot now. ACommit snapshot now \<notin> set as)
        \<and> svc_mgr s = m \<and> svc_mgr s' = m')"

interpretation manager: tunnel_authority "\<lambda>m selector g t. CompactPin selector g t m"
    "\<lambda>m p t. SessionCurrentPin p t m" no_authority "mgr_evolves hmac" for hmac
proof
  fix m selector g t p
  assume "CompactPin selector g t m = Inr p"
  then show "SessionCurrentPin p t m" by (rule CompactPin_current)
next
  fix m p t
  assume "no_authority m"
  then show "\<not> SessionCurrentPin p t m" by (rule no_authority_SessionCurrentPin)
next
  fix m m'
  assume "no_authority m" and "mgr_evolves hmac m m'"
  then show "no_authority m'" unfolding mgr_evolves_def using no_authority_run by blast
qed

text \<open>
  C4: A pin is sound: it is handed out only in a serving state for a usable snapshot, names a
  node of that snapshot by a live reference of the requested selector and credential
  generation, and carries the valid session of that node's own client profile - never the other
  profile's - with the snapshot's expiry; and it passes the final admission check at the same
  instant.
\<close>

theorem CompactPin_sound:
  assumes "CompactPin selector generation now m = Inr pin"
  shows "serving_state (mgr_state m)
    \<and> (\<exists>s. mgr_runtime m = Some s \<and> SessionUsable (Some s) now
        \<and> map_of (snap_Selectors s) selector = Some (pin_Ref pin)
        \<and> ref_Generation (pin_Ref pin) = generation \<and> \<not> ref_Tombstoned (pin_Ref pin)
        \<and> pin_Node pin \<in> set (snap_Nodes s) \<and> node_ID (pin_Node pin) = ref_NodeID (pin_Ref pin)
        \<and> pin_ExpiresAt pin = snap_ExpiresAt s
        \<and> pin_Session pin = (if EffectiveClientProfile (pin_Node pin) = ClientProfileWindows
                             then cs_Windows (snap_Sessions s) else cs_IOS (snap_Sessions s))
        \<and> SessionSecrets_Valid (pin_Session pin))
    \<and> SessionCurrentPin pin now m"
proof (rule CompactPin_pin [OF assms])
  fix s
  assume s: "mgr_runtime m = Some s" "SessionUsable (Some s) now" "serving_state (mgr_state m)"
    "map_of (snap_Selectors s) selector = Some (pin_Ref pin)" "ref_Generation (pin_Ref pin) = generation"
    "\<not> ref_Tombstoned (pin_Ref pin)" "pin_Node pin \<in> set (snap_Nodes s)"
    "node_ID (pin_Node pin) = ref_NodeID (pin_Ref pin)" "pin_ExpiresAt pin = snap_ExpiresAt s"
  assume f: "ClientSessions_For (snap_Sessions s) (EffectiveClientProfile (pin_Node pin))
      = (pin_Session pin, True)"
  have "ClientProfileWindows \<noteq> ClientProfileIOS" "EffectiveClientProfile (pin_Node pin) \<noteq> []"
    by (auto simp: ClientProfileWindows_def ClientProfileIOS_def EffectiveClientProfile_def)
  with f have "pin_Session pin = (if EffectiveClientProfile (pin_Node pin) = ClientProfileWindows
        then cs_Windows (snap_Sessions s) else cs_IOS (snap_Sessions s))
      \<and> SessionSecrets_Valid (pin_Session pin)"
    by (auto simp: ClientSessions_For_def split: if_splits)
  then show ?thesis using s CompactPin_current [OF assms] by blast
qed

text \<open>
  The published generation never goes back: along every run a published snapshot stays
  published and its generation never decreases, and a successful commit makes it strictly
  larger.
\<close>

theorem generation_monotonic:
  assumes "svc_run hmac s as s'" and "mgr_runtime (svc_mgr s) = Some v"
  shows "\<exists>v'. mgr_runtime (svc_mgr s') = Some v' \<and> snap_Generation v \<le> snap_Generation v'
    \<and> (\<forall>snapshot t m. Commit hmac snapshot t (svc_mgr s') = (None, m) \<longrightarrow>
         (\<exists>w. mgr_runtime m = Some w \<and> snap_Generation v' < snap_Generation w))"
proof -
  let ?R = "\<lambda>s s'. \<forall>v. mgr_runtime (svc_mgr s) = Some v \<longrightarrow>
    (\<exists>v'. mgr_runtime (svc_mgr s') = Some v' \<and> snap_Generation v \<le> snap_Generation v')"
  have "?R s s'"
  proof (rule svc_run_induct_rel [OF assms(1), of ?R])
    fix s a t
    assume st: "svc_step hmac s a t"
    show "?R s t"
    proof (cases "\<exists>snapshot now. a = ACommit snapshot now")
      case False
      then show ?thesis
        using step_view [OF st] by (auto simp: view_kept_def split: option.splits)
    next
      case True
      then obtain snapshot now r m where c: "Commit hmac snapshot now (svc_mgr s) = (r, m)"
          and t: "svc_mgr t = m"
        using st by (auto elim: svc_commitE)
      show ?thesis using Commit_cases [OF c] t by (cases rule: Commit_cases [OF c]) auto
    qed
  next
    fix s t u
    assume "?R s t" and "?R t u"
    then show "?R s u" by (meson order.trans)
  qed blast
  then obtain v' where "mgr_runtime (svc_mgr s') = Some v'" "snap_Generation v \<le> snap_Generation v'"
    using assms(2) by blast
  then show ?thesis by (auto elim!: Commit_cases)
qed

text \<open>
  C7: A commit is all or nothing. It succeeds exactly for a valid snapshot with complete
  sessions and an eligible node, in an authenticating, syncing, ready or degraded service, with
  a generation above the published one, and for the account the installed subscription is bound
  to; then exactly that snapshot is published and a synchronizing service becomes ready. In
  every other case the manager is left as it was.
\<close>

theorem commit_atomic:
  "(fst (Commit hmac snapshot now m) = None) =
     (\<exists>s. snapshot = Some s \<and> snapshot_ok s now \<and> ClientSessions_Valid (snap_Sessions s)
        \<and> (\<exists>n\<in>set (snap_Nodes s). TunnelEligible n)
        \<and> mgr_state m \<in> {StateAuthenticating, StateSyncing, StateReady, StateDegraded}
        \<and> (case mgr_runtime m of None \<Rightarrow> True | Some c \<Rightarrow> snap_Generation c < snap_Generation s)
        \<and> Manager_AccountBindingStatus hmac (ClientSessions_UserID (snap_Sessions s)) m
            = AccountBindingMatch)
   \<and> snd (Commit hmac snapshot now m) =
       (if fst (Commit hmac snapshot now m) = None
        then m\<lparr>mgr_runtime := snapshot,
               mgr_state := (if mgr_state m = StateDegraded then StateDegraded else StateReady)\<rparr>
        else m)"
proof -
  have bound: "Manager_AccountBindingStatus hmac u m = AccountBindingMatch \<longleftrightarrow>
      mgr_bindingKeyConfigured m \<and> sub_Generation (mgr_subscription m) \<noteq> 0
      \<and> length (sub_AccountBinding (mgr_subscription m)) = 32
      \<and> matchesAccountBinding hmac (sub_AccountBinding (mgr_subscription m)) (mgr_accountBindingKey m) u" for u
    by (auto simp: Manager_AccountBindingStatus_def matchesAccountBinding_iff)
  obtain r m' where c: "Commit hmac snapshot now m = (r, m')" by (metis surj_pair)
  show ?thesis
  proof (cases rule: Commit_cases [OF c])
    case (1 e)
    have "\<not> (\<exists>s. snapshot = Some s \<and> snapshot_ok s now \<and> ClientSessions_Valid (snap_Sessions s)
        \<and> (\<exists>n\<in>set (snap_Nodes s). TunnelEligible n)
        \<and> mgr_state m \<in> {StateAuthenticating, StateSyncing, StateReady, StateDegraded}
        \<and> (case mgr_runtime m of None \<Rightarrow> True | Some c \<Rightarrow> snap_Generation c < snap_Generation s)
        \<and> Manager_AccountBindingStatus hmac (ClientSessions_UserID (snap_Sessions s)) m
            = AccountBindingMatch)"
    proof
      assume "\<exists>s. snapshot = Some s \<and> snapshot_ok s now \<and> ClientSessions_Valid (snap_Sessions s)
        \<and> (\<exists>n\<in>set (snap_Nodes s). TunnelEligible n)
        \<and> mgr_state m \<in> {StateAuthenticating, StateSyncing, StateReady, StateDegraded}
        \<and> (case mgr_runtime m of None \<Rightarrow> True | Some c \<Rightarrow> snap_Generation c < snap_Generation s)
        \<and> Manager_AccountBindingStatus hmac (ClientSessions_UserID (snap_Sessions s)) m
            = AccountBindingMatch"
      then obtain s where s: "snapshot = Some s" "ValidateRuntimeSnapshot (Some s) now = None"
          "ClientSessions_Valid (snap_Sessions s)" "\<exists>n\<in>set (snap_Nodes s). TunnelEligible n"
        and g: "case mgr_runtime m of None \<Rightarrow> True | Some c \<Rightarrow> snap_Generation c < snap_Generation s"
        and m: "mgr_state m \<in> {StateAuthenticating, StateSyncing, StateReady, StateDegraded}"
          "mgr_bindingKeyConfigured m" "sub_Generation (mgr_subscription m) \<noteq> 0"
          "length (sub_AccountBinding (mgr_subscription m)) = 32"
          "matchesAccountBinding hmac (sub_AccountBinding (mgr_subscription m))
             (mgr_accountBindingKey m) (ClientSessions_UserID (snap_Sessions s))"
        unfolding bound ValidateRuntimeSnapshot_None [symmetric] by blast
      have "\<not> (case mgr_runtime m of None \<Rightarrow> False
              | Some current \<Rightarrow> snap_Generation s \<le> snap_Generation current)"
        using g by (cases "mgr_runtime m") (simp_all add: not_le)
      then have "fst (Commit hmac snapshot now m) = None"
        using s m by (simp add: Commit_def sha256_Size_def list_ex_iff Let_def)
      then show False using c 1(1) by simp
    qed
    with c 1 show ?thesis by simp
  next
    case (2 s)
    then show ?thesis
      using c by (auto simp: bound matchesAccountBinding_iff list_ex_iff split: option.splits)
  qed
qed

section \<open>Leases\<close>

lemma lease_step:
  assumes "svc_step hmac s a t" and "mgr_active (svc_mgr s) = Some operation" and "a \<noteq> ASignOut"
    and "\<forall>o' n. a \<noteq> AFinish (mgr_lease (svc_mgr s)) operation o' n"
  shows "mgr_active (svc_mgr t) = Some operation \<and> mgr_lease (svc_mgr t) = mgr_lease (svc_mgr s)"
  using assms(1)
proof cases
  case (configure key r m)
  then show ?thesis using assms by (auto simp: ConfigureBindingKey_def split: if_splits)
next
  case (install_ok c user previous m)
  then show ?thesis using assms Install_cases [OF install_ok(3)] by auto
next
  case (install_fail c user e m)
  then show ?thesis using assms Install_cases [OF install_fail(3)] by auto
next
  case (rollback c previous)
  then show ?thesis using assms by (simp add: State_Manager.rollback_def)
next
  case (begin_ok op2 l m)
  then show ?thesis using assms Begin_cases [OF begin_ok(3)] by auto
next
  case (begin_fail op2 e m)
  then show ?thesis using assms Begin_cases [OF begin_fail(3)] by auto
next
  case (finish l op2 outcome now)
  then show ?thesis using assms by (auto simp: State_Manager.finish_def)
next
  case (transition nxt r m)
  then show ?thesis using assms by (auto simp: Transition_def split: if_splits)
next
  case (commit snapshot now r m)
  then show ?thesis using assms by (cases rule: Commit_cases [OF commit(3)]) auto
next
  case sign_out
  then show ?thesis using assms by simp
next
  case (mark_expired now r m)
  then show ?thesis using assms by (auto simp: MarkExpired_def split: if_splits)
qed

text \<open>
  C8: The lease is exclusive: from the moment an operation holds it, through any run without a
  sign-out and without its own finisher, it still holds it and no operation can begin.
\<close>

theorem lease_exclusive:
  assumes "svc_run hmac s as s'" and "mgr_active (svc_mgr s) = Some operation"
    and "ASignOut \<notin> set as"
    and "\<forall>outcome t. AFinish (mgr_lease (svc_mgr s)) operation outcome t \<notin> set as"
  shows "mgr_active (svc_mgr s') = Some operation
    \<and> mgr_lease (svc_mgr s') = mgr_lease (svc_mgr s)
    \<and> Begin other (svc_mgr s') = (Inl ErrOperationInProgress, svc_mgr s')"
proof -
  have "mgr_active (svc_mgr s') = Some operation \<and> mgr_lease (svc_mgr s') = mgr_lease (svc_mgr s)"
    using assms
  proof (induction rule: svc_run.induct)
    case (run_cons s a s1 as s2)
    then have "mgr_active (svc_mgr s1) = Some operation \<and> mgr_lease (svc_mgr s1) = mgr_lease (svc_mgr s)"
      by (intro lease_step [OF run_cons.hyps(1)]) auto
    then show ?case using run_cons.IH run_cons.prems by auto
  qed simp
  then show ?thesis by (simp add: Begin_def)
qed

text \<open>The lease counter: sign-outs and begins add one, nothing else changes it.\<close>

definition bumps :: "action \<Rightarrow> bool" where
  "bumps a \<longleftrightarrow> (a = ASignOut \<or> (\<exists>operation. a = ABegin operation))"

lemma lease_count_step:
  assumes "svc_step hmac s a t"
  shows "\<exists>k. mgr_lease (svc_mgr t) = mgr_lease (svc_mgr s) + of_nat k
    \<and> k \<le> (if bumps a then 1 else 0) \<and> (a = ASignOut \<longrightarrow> k = 1)"
  using assms
proof cases
  case (configure key r m)
  then show ?thesis by (auto simp: ConfigureBindingKey_def split: if_splits intro!: exI [of _ 0])
next
  case (install_ok c user previous m)
  then show ?thesis using Install_cases [OF install_ok(3)] by (auto intro!: exI [of _ 0])
next
  case (install_fail c user e m)
  then show ?thesis using Install_cases [OF install_fail(3)] by (auto intro!: exI [of _ 0])
next
  case (rollback c previous)
  then show ?thesis by (auto simp: State_Manager.rollback_def intro!: exI [of _ 0])
next
  case (begin_ok op2 l m)
  then show ?thesis using Begin_cases [OF begin_ok(3)] by (auto simp: bumps_def intro!: exI [of _ 1])
next
  case (begin_fail op2 e m)
  then show ?thesis using Begin_cases [OF begin_fail(3)] by (auto intro!: exI [of _ 0])
next
  case (finish l op2 outcome now)
  then show ?thesis
    by (auto simp: State_Manager.finish_def Let_def split: option.splits intro!: exI [of _ 0])
next
  case (transition nxt r m)
  then show ?thesis by (auto simp: Transition_def split: if_splits intro!: exI [of _ 0])
next
  case (commit snapshot now r m)
  then show ?thesis by (cases rule: Commit_cases [OF commit(3)]) (auto intro!: exI [of _ 0])
next
  case sign_out
  then show ?thesis by (auto simp: SignOut_def bumps_def intro!: exI [of _ 1])
next
  case (mark_expired now r m)
  then show ?thesis by (auto simp: MarkExpired_def split: if_splits intro!: exI [of _ 0])
qed

lemma lease_count:
  "svc_run hmac s as t \<Longrightarrow>
   \<exists>k. mgr_lease (svc_mgr t) = mgr_lease (svc_mgr s) + of_nat k
     \<and> k \<le> length (filter bumps as) \<and> (ASignOut \<in> set as \<longrightarrow> 0 < k)"
proof (induction rule: svc_run.induct)
  case (run_nil s)
  show ?case by (auto intro: exI [of _ 0])
next
  case (run_cons s a s1 as s2)
  obtain k where k: "mgr_lease (svc_mgr s1) = mgr_lease (svc_mgr s) + of_nat k"
      "k \<le> (if bumps a then 1 else 0)" "a = ASignOut \<longrightarrow> k = 1"
    using lease_count_step [OF run_cons.hyps(1)] by blast
  obtain k' where k': "mgr_lease (svc_mgr s2) = mgr_lease (svc_mgr s1) + of_nat k'"
      "k' \<le> length (filter bumps as)" "ASignOut \<in> set as \<longrightarrow> 0 < k'"
    using run_cons.IH by blast
  show ?case
    using k k' by (intro exI [of _ "k + k'"]) (auto simp: add.assoc split: if_splits)
qed

text \<open>
  A stale finisher does nothing. Once a sign-out has interrupted an operation, running its
  finisher with any outcome leaves the manager as it is, however many operations began since,
  as long as fewer than 2^64 sign-outs and begins have happened (the lease counter is 64 bits
  wide and wraps).
\<close>

theorem stale_finish_noop:
  assumes "svc_run hmac s as t" and "ASignOut \<in> set as" and "length (filter bumps as) < 2 ^ 64"
  shows "finish (mgr_lease (svc_mgr s)) operation outcome now (svc_mgr t) = svc_mgr t"
proof -
  obtain k where k: "mgr_lease (svc_mgr t) = mgr_lease (svc_mgr s) + of_nat k"
      "k \<le> length (filter bumps as)" "0 < k"
    using lease_count [OF assms(1)] assms(2) by blast
  then have "(of_nat k :: u64) \<noteq> 0" using assms(3) by (simp add: word_of_nat_eq_0_iff nat_dvd_not_less)
  then show ?thesis using k(1) by (simp add: finish_def)
qed

section \<open>Refresh and account installation\<close>

lemma CompactPin_cong:
  assumes "serving_state (mgr_state m)" and "serving_state (mgr_state m')"
    and "mgr_runtime m = mgr_runtime m'"
  shows "CompactPin selector generation now m = CompactPin selector generation now m'"
proof -
  have not: "(mgr_state k \<noteq> StateReady \<and> mgr_state k \<noteq> StateDegraded \<and> mgr_state k \<noteq> StateSyncing)
      = False" if "serving_state (mgr_state k)" for k
    using that by (auto simp: serving_state_def)
  show ?thesis
    unfolding CompactPin_def not [OF assms(1)] not [OF assms(2)] assms(3) by (rule refl)
qed

text \<open>
  A refresh is invisible to tunnels until it commits: when a ready or degraded service
  begins a refresh and it fails or is cancelled before the session expires, every selector
  resolves to the same pin, or the same error, at every time, before the refresh, while it
  runs and after it; the service ends degraded with nothing holding the lease.
\<close>

theorem failed_refresh_transparent:
  assumes "Begin OperationRefresh m = (Inr lease, m1)"
    and "outcome \<noteq> OutcomeSucceeded" and "SessionUsable (mgr_runtime m) t"
  shows "CompactPin selector generation now m1 = CompactPin selector generation now m
    \<and> CompactPin selector generation now (finish lease OperationRefresh outcome t m1)
        = CompactPin selector generation now m
    \<and> mgr_state (finish lease OperationRefresh outcome t m1) = StateDegraded
    \<and> mgr_active (finish lease OperationRefresh outcome t m1) = None"
proof -
  have st: "mgr_state m = StateReady \<or> mgr_state m = StateDegraded"
    and m1: "m1 = m\<lparr>mgr_state := StateSyncing, mgr_active := Some OperationRefresh,
                     mgr_lease := mgr_lease m + 1\<rparr>" and l: "lease = mgr_lease m + 1"
    using Begin_cases [OF assms(1)] by (auto simp: begin_target_cases)
  obtain s where s: "mgr_runtime m = Some s" "ClientSessions_Valid (snap_Sessions s)"
      "snap_ExpiresAt s \<noteq> time_zero" "t < snap_ExpiresAt s"
    using assms(3) by (auto simp: SessionUsable_def split: option.splits)
  have fin: "finish lease OperationRefresh outcome t m1
    = m1\<lparr>mgr_active := None, mgr_state := StateDegraded\<rparr>"
    using s assms(2) by (simp add: finish_def m1 l)
  have serving: "serving_state (mgr_state m)" using st by (auto simp: serving_state_def)
  have "CompactPin selector generation now m1 = CompactPin selector generation now m"
    by (rule CompactPin_cong) (use serving in \<open>simp_all add: m1 serving_state_def\<close>)
  moreover have "CompactPin selector generation now (finish lease OperationRefresh outcome t m1)
      = CompactPin selector generation now m"
    unfolding fin by (rule CompactPin_cong) (use serving in \<open>simp_all add: m1 serving_state_def\<close>)
  ultimately show ?thesis by (simp add: fin)
qed

lemma status_match:
  assumes "mgr_bindingKeyConfigured m" and "sub_Generation (mgr_subscription m) \<noteq> 0"
    and "matchesAccountBinding hmac (sub_AccountBinding (mgr_subscription m)) (mgr_accountBindingKey m) user"
  shows "Manager_AccountBindingStatus hmac user m = AccountBindingMatch"
proof -
  have "length (sub_AccountBinding (mgr_subscription m)) \<noteq> 0"
    using assms(3) by (simp add: matchesAccountBinding_iff)
  with assms show ?thesis by (simp add: Manager_AccountBindingStatus_def)
qed

text \<open>What the switch of \<open>InstallSubscriptionGeneration\<close> accepts.\<close>

definition install_accepts :: "SubscriptionGeneration \<Rightarrow> SubscriptionGeneration \<Rightarrow> bool" where
  "install_accepts c candidate \<longleftrightarrow>
     sub_Generation c = 0
     \<or> sub_AccountBinding c \<in> {[], sub_AccountBinding candidate}
       \<and> sub_Generation candidate = sub_Generation c \<and> sameSubscriptionCredentials c candidate
     \<or> sub_AccountBinding c \<notin> {[], sub_AccountBinding candidate}
       \<and> sub_Generation candidate = sub_Generation c + 1 \<and> rotatedSubscriptionMaterial c candidate"

lemma Install_Inr:
  "InstallSubscriptionGeneration hmac candidate user m = (Inr previous, m1) \<longleftrightarrow>
     validateSubscriptionGeneration candidate = None
     \<and> mgr_state m \<in> {StateAuthenticating, StateSyncing}
     \<and> mgr_bindingKeyConfigured m \<and> length (mgr_accountBindingKey m) = 32
     \<and> length (sub_AccountBinding candidate) = 32
     \<and> matchesAccountBinding hmac (sub_AccountBinding candidate) (mgr_accountBindingKey m) user
     \<and> install_accepts (mgr_subscription m) candidate
     \<and> previous = mgr_subscription m \<and> m1 = m\<lparr>mgr_subscription := candidate\<rparr>"
  unfolding InstallSubscriptionGeneration_def install_accepts_def Let_def sha256_Size_def
  by (cases "sub_AccountBinding (mgr_subscription m) = []";
      cases "sub_AccountBinding (mgr_subscription m) = sub_AccountBinding candidate") auto

lemma rollback_undo: "rollback candidate (mgr_subscription m) (m\<lparr>mgr_subscription := candidate\<rparr>) = m"
  by (simp add: rollback_def sameSubscriptionGeneration_def sameSubscriptionCredentials_def)

text \<open>
  Installing a subscription generation is guarded and undoable. It is accepted only while
  authenticating or syncing, for the account the candidate is bound to under the configured key;
  for an installed generation it either keeps number and keys, or, for another account, is the
  next number with both keys changed. Rolling back right away restores the manager exactly, and
  a rollback after another generation was installed changes nothing.
\<close>

theorem install_guarded_undoable:
  assumes "InstallSubscriptionGeneration hmac candidate user m = (Inr previous, m1)"
  shows "mgr_state m \<in> {StateAuthenticating, StateSyncing}
    \<and> Manager_AccountBindingStatus hmac user m1 = AccountBindingMatch
    \<and> install_accepts (mgr_subscription m) candidate
    \<and> rollback candidate previous m1 = m
    \<and> (if sameSubscriptionGeneration (mgr_subscription m2) candidate
       then mgr_subscription (rollback candidate previous m2) = mgr_subscription m
       else rollback candidate previous m2 = m2)"
proof -
  note ok = assms [unfolded Install_Inr]
  have "sub_Generation candidate \<noteq> 0" using ok by (simp add: generation_valid_iff)
  then have "Manager_AccountBindingStatus hmac user m1 = AccountBindingMatch"
    using ok by (intro status_match) simp_all
  then show ?thesis using ok rollback_undo by (simp add: rollback_def)
qed

text \<open>
  The durable state and the manager agree on what a change of account is: what
  \<open>EnsureSubscriptionAccountBinding\<close> stores for a user, a manager holding the previous durable
  generation accepts for the same user while authenticating - for the first binding, for the
  same account and for another account, as long as the fresh keys differ from the old ones and
  the generation number does not wrap - and then recognizes the user.
\<close>

theorem durable_binding_installs:
  assumes hmac: "\<And>k x. length (hmac k x) = 32"
    and ens: "EnsureSubscriptionAccountBinding hmac p user now rnd = (Inr changed, p', rnd')"
    and mgr: "mgr_subscription m = pst_Subscription p" "mgr_bindingKeyConfigured m"
      "mgr_accountBindingKey m = BindingKey (pst_AccessTokenVerifier p)"
      "mgr_state m \<in> {StateAuthenticating, StateSyncing}"
    and fresh: "changed \<longrightarrow> rotatedSubscriptionMaterial (pst_Subscription p) (pst_Subscription p')"
    and wrap: "now \<noteq> time_zero" "sub_Generation (pst_Subscription p) + 1 \<noteq> 0"
  shows "InstallSubscriptionGeneration hmac (pst_Subscription p') user m
      = (Inr (pst_Subscription p), m\<lparr>mgr_subscription := pst_Subscription p'\<rparr>)
    \<and> Manager_AccountBindingStatus hmac user (m\<lparr>mgr_subscription := pst_Subscription p'\<rparr>)
      = AccountBindingMatch"
proof -
  have match: "matchesAccountBinding hmac b (mgr_accountBindingKey m) user"
      "length (mgr_accountBindingKey m) = 32"
    if "DeriveAccountBinding hmac p user = Inr b" "length b = 32" for b
    using that mgr(3)
    by (auto simp: DeriveAccountBinding_Inr AccessTokenInitialized_def BindingKey_def
        accountBindingFor_Inr matchesAccountBinding_iff)
  have *: "validateSubscriptionGeneration (pst_Subscription p') = None
      \<and> install_accepts (pst_Subscription p) (pst_Subscription p')
      \<and> (\<exists>b. DeriveAccountBinding hmac p user = Inr b \<and> length b = 32
            \<and> sub_AccountBinding (pst_Subscription p') = b)"
  proof (cases rule: Ensure_cases [OF hmac ens])
    case (1 b)
    then show ?thesis
      by (simp add: generation_valid_iff install_accepts_def sameSubscriptionCredentials_def)
  next
    case (2 b)
    then show ?thesis by (simp add: install_accepts_def sameSubscriptionCredentials_def)
  next
    case (3 b nxt)
    then show ?thesis
      using newSubscriptionGeneration_Inr [OF 3(7)] fresh wrap
      by (simp add: generation_valid_iff install_accepts_def)
  qed
  then obtain b where b: "DeriveAccountBinding hmac p user = Inr b" "length b = 32"
      "sub_AccountBinding (pst_Subscription p') = b" by blast
  have gen: "sub_Generation (pst_Subscription p') \<noteq> 0"
    using * by (simp add: generation_valid_iff)
  show ?thesis
    using * b gen mgr match [OF b(1,2)] by (auto simp: Install_Inr intro!: status_match)
qed

section \<open>A concrete service\<close>

definition demo_session :: SessionSecrets where
  "demo_session = \<lparr>sess_UserID = ''u1'', sess_LoginToken = ''login'', sess_ProviderToken = ''t'',
     sess_TunnelPassword = ''pw'', sess_TunnelMethod = ''aes-256-cfb'',
     sess_ProviderExtension = ''|t|cc.fancast.major|o|u1|MAC|1.0.46''\<rparr>"

definition demo_node :: Node where
  "demo_node = zero_Node\<lparr>node_ID := ''n1'', node_Provider := ''WIFIIN'', node_Host := ''node.example'',
     node_Port := 443, node_Eligible := True\<rparr>"

definition demo_snapshot :: "u64 \<Rightarrow> RuntimeSnapshot" where
  "demo_snapshot g = \<lparr>snap_Generation = g, snap_CreatedAt = 100, snap_ExpiresAt = 200,
     snap_Account = zero_AccountSummary,
     snap_Sessions = \<lparr>cs_IOS = demo_session, cs_Windows = zero_SessionSecrets\<rparr>,
     snap_Nodes = [demo_node],
     snap_Selectors = [(''sel'', \<lparr>ref_NodeID = ''n1'', ref_Generation = 4, ref_Tombstoned = False,
                         ref_TombstoneUntil = time_zero\<rparr>)]\<rparr>"

definition demo_binding :: bytes where
  "demo_binding = bytes_of_string ''u1'' @ replicate 30 2"

definition demo_manager :: Manager where
  "demo_manager =
     \<lparr>mgr_runtime = Some (demo_snapshot 3), mgr_state = StateReady, mgr_active = None, mgr_lease = 0,
      mgr_subscription = pst_Subscription (demo_persistent demo_binding),
      mgr_accountBindingKey = replicate 32 2, mgr_bindingKeyConfigured = True\<rparr>"

lemma demo_manager_new:
  "NewManagerWithSubscription demo_hmac 150 (Some (demo_snapshot 3))
     (pst_Subscription (demo_persistent demo_binding)) (replicate 32 2) = Inr demo_manager"
  by code_simp

abbreviation demo_service :: Service where
  "demo_service \<equiv> svc_init demo_manager"

lemma demo_run_sign_out:
  "svc_run hmac demo_service [ASignOut] (demo_service\<lparr>svc_mgr := SignOut demo_manager\<rparr>)"
proof -
  have "svc_step hmac demo_service ASignOut (demo_service\<lparr>svc_mgr := SignOut (svc_mgr demo_service)\<rparr>)"
    by (rule svc_step.sign_out)
  then show ?thesis by (auto simp: svc_init_def intro: svc_run.intros)
qed

lemma service_invariant_witness:
  "mgr_inv (SignOut demo_manager)"
proof -
  have "svc_reach demo_hmac demo_service" by (rule reach_init [OF demo_manager_new])
  then have "svc_reach demo_hmac (demo_service\<lparr>svc_mgr := SignOut (svc_mgr demo_service)\<rparr>)"
    by (rule reach_step) (rule svc_step.sign_out)
  from service_invariant [OF this] show ?thesis by (simp add: svc_init_def)
qed

lemma revoked_until_commit_witness:
  "is_ok (CompactPin ''sel'' 4 150 demo_manager)
   \<and> CompactPin ''sel'' 4 150 (SignOut (SignOut demo_manager)) = Inl ErrSelectorUnknown"
proof -
  let ?s1 = "demo_service\<lparr>svc_mgr := SignOut (svc_mgr demo_service)\<rparr>"
  have st: "svc_step demo_hmac demo_service ASignOut ?s1" by (rule svc_step.sign_out)
  have "svc_step demo_hmac ?s1 ASignOut (?s1\<lparr>svc_mgr := SignOut (svc_mgr ?s1)\<rparr>)"
    by (rule svc_step.sign_out)
  then have run: "svc_run demo_hmac ?s1 [ASignOut] (?s1\<lparr>svc_mgr := SignOut (svc_mgr ?s1)\<rparr>)"
    by (auto intro: svc_run.intros)
  have "is_ok (CompactPin ''sel'' 4 150 demo_manager)" by code_simp
  with revoked_until_commit [OF st _ run, of "''sel''" 4 150] show ?thesis
    by (simp add: svc_init_def)
qed

lemma CompactPin_sound_witness:
  "\<exists>pin. CompactPin ''sel'' 4 150 demo_manager = Inr pin \<and> SessionCurrentPin pin 150 demo_manager
     \<and> SessionSecrets_Valid (pin_Session pin)"
proof -
  have "is_ok (CompactPin ''sel'' 4 150 demo_manager)" by code_simp
  then obtain pin where p: "CompactPin ''sel'' 4 150 demo_manager = Inr pin" by (auto simp: is_ok_iff)
  from CompactPin_sound [OF p] p show ?thesis by blast
qed

lemma generation_monotonic_witness:
  "\<exists>v. mgr_runtime (SignOut demo_manager) = Some v \<and> 3 \<le> snap_Generation v"
proof -
  have "mgr_runtime (svc_mgr demo_service) = Some (demo_snapshot 3)"
    by (simp add: svc_init_def demo_manager_def)
  moreover have "snap_Generation (demo_snapshot 3) = 3" by (simp add: demo_snapshot_def)
  ultimately show ?thesis
    using generation_monotonic [OF demo_run_sign_out [of demo_hmac], of "demo_snapshot 3"] by auto
qed

definition demo_refreshing :: Manager where
  "demo_refreshing = demo_manager\<lparr>mgr_state := StateSyncing, mgr_active := Some OperationRefresh,
     mgr_lease := 1\<rparr>"

lemma demo_begin: "Begin OperationRefresh demo_manager = (Inr 1, demo_refreshing)"
  by code_simp

lemma lease_exclusive_witness:
  "fst (Begin OperationRefresh (snd (MarkExpired 170 demo_refreshing))) = Inl ErrOperationInProgress"
proof -
  let ?s = "svc_init demo_refreshing"
  obtain r m where e: "MarkExpired 170 demo_refreshing = (r, m)" by (metis surj_pair)
  then have "svc_step demo_hmac ?s (AMarkExpired 170) (?s\<lparr>svc_mgr := m\<rparr>)"
    by (intro svc_step.mark_expired) (simp add: svc_init_def)
  then have "svc_run demo_hmac ?s [AMarkExpired 170] (?s\<lparr>svc_mgr := m\<rparr>)"
    by (auto intro: svc_run.intros)
  from lease_exclusive [OF this, of OperationRefresh OperationRefresh] e show ?thesis
    by (simp add: svc_init_def demo_refreshing_def)
qed

lemma stale_finish_noop_witness:
  "finish 1 OperationRefresh OutcomeFailed 160 (SignOut demo_refreshing) = SignOut demo_refreshing"
proof -
  let ?s = "svc_init demo_refreshing"
  have "svc_step demo_hmac ?s ASignOut (?s\<lparr>svc_mgr := SignOut (svc_mgr ?s)\<rparr>)"
    by (rule svc_step.sign_out)
  then have "svc_run demo_hmac ?s [ASignOut] (?s\<lparr>svc_mgr := SignOut (svc_mgr ?s)\<rparr>)"
    by (auto intro: svc_run.intros)
  from stale_finish_noop [OF this, of OperationRefresh OutcomeFailed 160] show ?thesis
    by (simp add: bumps_def svc_init_def demo_refreshing_def)
qed

lemma failed_refresh_transparent_witness:
  "is_ok (CompactPin ''sel'' 4 180 (finish 1 OperationRefresh OutcomeFailed 160 demo_refreshing))"
proof -
  have "SessionUsable (mgr_runtime demo_manager) 160" by code_simp
  moreover have "is_ok (CompactPin ''sel'' 4 180 demo_manager)" by code_simp
  ultimately show ?thesis
    using failed_refresh_transparent [OF demo_begin, of OutcomeFailed 160 "''sel''" 4 180] by simp
qed

definition demo_login :: "bytes \<Rightarrow> Manager" where
  "demo_login binding =
     \<lparr>mgr_runtime = None, mgr_state = StateAuthenticating, mgr_active = Some OperationLogin,
      mgr_lease = 1, mgr_subscription = pst_Subscription (demo_persistent binding),
      mgr_accountBindingKey = replicate 32 2, mgr_bindingKeyConfigured = True\<rparr>"

lemma install_guarded_undoable_witness:
  "\<exists>previous m1. InstallSubscriptionGeneration demo_hmac
       (pst_Subscription (demo_persistent demo_binding)) ''u1'' (demo_login []) = (Inr previous, m1)
     \<and> rollback (pst_Subscription (demo_persistent demo_binding)) previous m1 = demo_login []"
proof -
  let ?c = "pst_Subscription (demo_persistent demo_binding)"
  obtain r m1 where i: "InstallSubscriptionGeneration demo_hmac ?c ''u1'' (demo_login []) = (r, m1)"
    by (metis surj_pair)
  have "is_ok (fst (InstallSubscriptionGeneration demo_hmac ?c ''u1'' (demo_login [])))" by code_simp
  then obtain previous where p: "r = Inr previous" using i by (auto simp: is_ok_iff)
  from install_guarded_undoable [OF i [unfolded p]] i p show ?thesis by auto
qed

lemma durable_binding_installs_witness:
  "\<exists>p' :: PersistentState. InstallSubscriptionGeneration demo_hmac (pst_Subscription p') ''u2'' (demo_login demo_binding)
     = (Inr (pst_Subscription (demo_persistent demo_binding)),
        (demo_login demo_binding)\<lparr>mgr_subscription := pst_Subscription p'\<rparr>)"
proof -
  let ?p = "demo_persistent demo_binding" and ?rnd = "\<lparr>st_data = replicate 64 5, st_err = EOF\<rparr>"
  let ?e = "EnsureSubscriptionAccountBinding demo_hmac ?p ''u2'' 77 ?rnd"
  obtain res p' r where e: "?e = (res, p', r)" by (metis prod_cases3)
  have "fst ?e = Inr True" by code_simp
  then have res: "res = Inr True" using e by simp
  have "rotatedSubscriptionMaterial (pst_Subscription ?p) (pst_Subscription (fst (snd ?e)))"
    by code_simp
  then have fresh: "rotatedSubscriptionMaterial (pst_Subscription ?p) (pst_Subscription p')"
    using e by simp
  have key: "mgr_accountBindingKey (demo_login demo_binding) = BindingKey (pst_AccessTokenVerifier ?p)"
    by code_simp
  have nowrap: "sub_Generation (pst_Subscription ?p) + 1 \<noteq> 0" "(77 :: gotime) \<noteq> time_zero"
    by (simp_all add: demo_persistent_def time_zero_def)
  have login: "mgr_subscription (demo_login demo_binding) = pst_Subscription ?p"
      "mgr_bindingKeyConfigured (demo_login demo_binding)"
      "mgr_state (demo_login demo_binding) \<in> {StateAuthenticating, StateSyncing}"
    by (simp_all add: demo_login_def)
  show ?thesis
    by (rule exI [of _ p'], rule conjunct1)
      (rule durable_binding_installs [OF demo_hmac_length e [unfolded res] login(1,2) key login(3) _
         nowrap(2,1)], simp add: fresh)
qed

end
