(* ===== verification/Socks_Server.thy ===== *)
theory Socks_Server
  imports Socks_Protocol Wifiin_Lazy Selector State_Service
begin

text \<open>
  \<open>internal/socks/server.go\<close> and the association of \<open>udp.go\<close>: what one accepted connection does,
  from the greeting to the point where the relay starts.

  The handler runs beside the rest of the program. What it observes on the way is an argument:
  the instants it reads, the registry it loads each time (with the identity of the pointer), the
  state of the manager at each of its calls, and the results of the network operations. The
  theorems constrain only how these are related (a manager later in a run of the service, for
  instance). HMAC, the IDNA profile, the MD5 digest and the block cipher are parameters.
\<close>

section \<open>Addresses and comparisons\<close>

text \<open>A \<open>net.Addr\<close>: \<open>IP\<close> bytes, port and zone of a TCP or UDP address, or anything else.\<close>

datatype net_addr = TCPAddr bytes int string | UDPAddr bytes int string | OtherAddr

definition ip_To4 :: "bytes \<Rightarrow> addr option" where
  "ip_To4 ip =
     (case AddrFromSlice ip of
        Some a \<Rightarrow> if addr_Is4 (addr_Unmap a) then Some (addr_Unmap a) else None
      | None \<Rightarrow> None)"

text \<open>\<open>net.IP.String\<close>; other lengths than 4 and 16 print as a question mark and hex digits.\<close>

definition ip_String :: "bytes \<Rightarrow> string" where
  "ip_String ip =
     (if ip = [] then ''<nil>''
      else case AddrFromSlice ip of
        Some a \<Rightarrow> addr_String (addr_Unmap a)
      | None \<Rightarrow> CHR ''?'' # concat (map (\<lambda>b. [''0123456789abcdef'' ! (unat b div 16),
                                             ''0123456789abcdef'' ! (unat b mod 16)]) ip))"

abbreviation no_target :: target where
  "no_target \<equiv> \<lparr>tgt_Host = [], tgt_Port = 0\<rparr>"

fun targetFromAddr :: "net_addr \<Rightarrow> target" where
  "targetFromAddr (TCPAddr ip port zone) =
     (if port > 0 \<and> port \<le> 65535 then \<lparr>tgt_Host = ip_String ip, tgt_Port = of_int port\<rparr> else no_target)"
| "targetFromAddr (UDPAddr ip port zone) =
     (if port > 0 \<and> port \<le> 65535 then \<lparr>tgt_Host = ip_String ip, tgt_Port = of_int port\<rparr> else no_target)"
| "targetFromAddr OtherAddr = no_target"

text \<open>\<open>subtle.ConstantTimeCompare\<close> of two strings is equality.\<close>

definition constantTimeEqual :: "string \<Rightarrow> string \<Rightarrow> bool" where
  "constantTimeEqual left right \<longleftrightarrow> bytes_of_string left = bytes_of_string right"

definition samePinAuthority :: "TunnelPin \<Rightarrow> TunnelPin \<Rightarrow> bool" where
  "samePinAuthority left right \<longleftrightarrow>
     pin_ExpiresAt left = pin_ExpiresAt right
     \<and> constantTimeEqual (sess_UserID (pin_Session left)) (sess_UserID (pin_Session right))
     \<and> constantTimeEqual (sess_LoginToken (pin_Session left)) (sess_LoginToken (pin_Session right))
     \<and> constantTimeEqual (sess_ProviderToken (pin_Session left)) (sess_ProviderToken (pin_Session right))
     \<and> constantTimeEqual (sess_TunnelPassword (pin_Session left)) (sess_TunnelPassword (pin_Session right))
     \<and> constantTimeEqual (sess_TunnelMethod (pin_Session left)) (sess_TunnelMethod (pin_Session right))
     \<and> constantTimeEqual (sess_ProviderExtension (pin_Session left)) (sess_ProviderExtension (pin_Session right))"

definition node_identity :: "Node \<Rightarrow> NodeIdentity" where
  "node_identity n = \<lparr>ident_NodeID = node_ID n, ident_Provider = node_Provider n,
     ident_Host = node_Host n, ident_Port = uint (node_Port n)\<rparr>"

definition sameCanonicalNode :: "idna \<Rightarrow> Node \<Rightarrow> Node \<Rightarrow> bool" where
  "sameCanonicalNode idna left right \<longleftrightarrow>
     (case (Canonicalize idna (node_identity left), Canonicalize idna (node_identity right)) of
        (Inr l, Inr r) \<Rightarrow> l = r
      | _ \<Rightarrow> False)"

text \<open>A failed dial: the error, and whether it is a \<open>net.Error\<close> that reports a timeout.\<close>

record dial_error =
  de_err :: go_error
  de_timeout :: bool

definition dialReply :: "dial_error \<Rightarrow> byte" where
  "dialReply e =
     (if errors_is (de_err e) ContextDeadlineExceeded then replyTTLExpired
      else if de_timeout e then replyTTLExpired
      else if errors_is (de_err e) (Sent ''syscall.EACCES'') \<or> errors_is (de_err e) (Sent ''syscall.EPERM'')
      then replyConnectionForbidden
      else if errors_is (de_err e) (Sent ''syscall.ENETUNREACH'') then replyNetworkUnreachable
      else if errors_is (de_err e) (Sent ''syscall.EHOSTUNREACH'') then replyHostUnreachable
      else if errors_is (de_err e) (Sent ''syscall.ECONNREFUSED'') then replyConnectionRefused
      else replyGeneralFailure)"

section \<open>UDP associations\<close>

text \<open>
  \<open>ua_local\<close> is the bound address of the association's socket, \<open>ua_endpoint\<close> the client endpoint
  (an IP, a port and a zone), set at most once.
\<close>

record udpAssociation =
  ua_local :: net_addr
  ua_clientIP :: addr
  ua_flowID :: u16
  ua_endpoint :: "(bytes \<times> int \<times> string) option"

text \<open>
  \<open>listen_udp\<close> is \<open>net.ListenUDP\<close> for a network, IP and zone: an error, or the address the socket
  was bound to. A socket bound to an unusable address is closed again.
\<close>

definition newUDPAssociation ::
  "net_addr \<Rightarrow> net_addr \<Rightarrow> (string \<Rightarrow> bytes \<Rightarrow> string \<Rightarrow> go_error + net_addr) \<Rightarrow> target \<Rightarrow>
   go_error + udpAssociation"
where
  "newUDPAssociation remote_addr local_addr listen_udp requested =
     (case remote_addr of
        TCPAddr rip rport rzone \<Rightarrow>
          (case AddrFromSlice rip of
             None \<Rightarrow> Inl errBadAddress
           | Some ip \<Rightarrow>
               let clientIP = addr_Unmap ip in
               case ParseAddr (tgt_Host requested) of
                 None \<Rightarrow> Inl errAddressTypeUnsupported
               | Some req \<Rightarrow>
                   let requestedIP = addr_Unmap req in
                   if \<not> addr_IsUnspecified requestedIP \<and> requestedIP \<noteq> clientIP then Inl errBadAddress
                   else
                     (case local_addr of
                        TCPAddr lip lport lzone \<Rightarrow>
                          let network = (if ip_To4 lip \<noteq> None then ''udp4'' else ''udp6'') in
                          (case listen_udp network lip lzone of
                             Inl e \<Rightarrow> Inl (Wrap ''socks: bind UDP association'' e)
                           | Inr bound \<Rightarrow>
                               (case bound of
                                  UDPAddr bip bport bzone \<Rightarrow>
                                    if bport < 1 \<or> bport > 65535
                                    then Inl (New ''socks: invalid UDP association address'')
                                    else Inr \<lparr>ua_local = bound, ua_clientIP = clientIP,
                                        ua_flowID = of_int bport,
                                        ua_endpoint = (if tgt_Port requested \<noteq> 0
                                          then Some (rip, uint (tgt_Port requested), rzone)
                                          else None)\<rparr>
                                | _ \<Rightarrow> Inl (New ''socks: invalid UDP association address'')))
                      | _ \<Rightarrow> Inl (New ''socks: UDP association requires a TCP listener address'')))
      | _ \<Rightarrow> Inl (New ''socks: UDP association requires a TCP client address''))"

text \<open>
  One atomic step: a single goroutine reads datagrams, so the compare-and-swap from \<open>nil\<close> succeeds
  when the load just before it saw \<open>nil\<close>.
\<close>

definition acceptSource :: "udpAssociation \<Rightarrow> (bytes \<times> int \<times> string) option \<Rightarrow> bool \<times> udpAssociation" where
  "acceptSource a address =
     (case address of
        None \<Rightarrow> (False, a)
      | Some (ip, port, zone) \<Rightarrow>
          if port < 1 \<or> port > 65535 then (False, a)
          else case AddrFromSlice ip of
            None \<Rightarrow> (False, a)
          | Some p \<Rightarrow>
              if addr_Unmap p \<noteq> ua_clientIP a then (False, a)
              else case ua_endpoint a of
                Some (_, eport, _) \<Rightarrow> (port = eport, a)
              | None \<Rightarrow> (True, a\<lparr>ua_endpoint := Some (ip, port, zone)\<rparr>))"

section \<open>The connection handler\<close>

text \<open>
  What the handler sees at each of its three authorisation points: the instant, the registry it
  loads (the identity of the pointer and the registry behind it), the manager when it asks for a
  pin, and the pointer it loads afterwards.
\<close>

record checkpoint =
  ck_now :: gotime
  ck_registry :: "(nat \<times> Registry) option"
  ck_manager :: Manager
  ck_reloaded :: "nat option"

text \<open>A connected upstream: what it will send, how it takes writes, its deadlines and local address.\<close>

record upstream =
  us_source :: source
  us_writer :: writer
  us_set_deadline :: "go_error option"
  us_clear_deadline :: "go_error option"
  us_read_deadlines :: deadline_conn
  us_local :: net_addr

record handler_env =
  he_timeout :: duration
  he_set_deadline :: "go_error option"
  he_clear_deadline :: "go_error option"
  he_authenticate :: checkpoint
  he_revalidate :: checkpoint
  he_current_manager :: Manager
  he_final :: checkpoint
  he_remote :: net_addr
  he_local :: net_addr
  he_listen_udp :: "string \<Rightarrow> bytes \<Rightarrow> string \<Rightarrow> go_error + net_addr"
  he_dial :: "string \<Rightarrow> string \<Rightarrow> dial_error + upstream"
  he_ctx_err :: "go_error option"
  he_random :: stream
  he_relay :: "go_error option"

record primitives =
  pr_hmac :: hmac
  pr_idna :: idna
  pr_md5 :: "bytes \<Rightarrow> bytes"
  pr_block :: "bytes \<Rightarrow> bytes \<Rightarrow> bytes"

text \<open>
  The state of the handler: both directions of the client connection, the addresses dialled so
  far, the bytes written to the upstream, the resources opened and closed, and the tunnel once the
  relay starts.
\<close>

datatype resource = ClientConn | UDPSocket | UpstreamConn

record tunnel =
  tun_pin :: TunnelPin
  tun_command :: byte
  tun_destination :: target
  tun_association :: "udpAssociation option"
  tun_conn :: tunnel_conn

record flow =
  fl_in :: stream
  fl_out :: writer
  fl_dialed :: "(string \<times> string) list"
  fl_sent :: bytes
  fl_opened :: "resource list"
  fl_closed :: "resource list"
  fl_tunnel :: "tunnel option"

definition new_flow :: "stream \<Rightarrow> writer \<Rightarrow> flow" where
  "new_flow r w = \<lparr>fl_in = r, fl_out = w, fl_dialed = [], fl_sent = [], fl_opened = [ClientConn],
     fl_closed = [], fl_tunnel = None\<rparr>"

type_synonym result = "go_error option \<times> flow"

text \<open>\<open>_ = writeReply(client, code, target{})\<close> and a deferred \<open>Close\<close>.\<close>

definition refuse :: "byte \<Rightarrow> go_error option \<Rightarrow> flow \<Rightarrow> result" where
  "refuse code err fl = (err, fl\<lparr>fl_out := snd (writeReply code no_target (fl_out fl))\<rparr>)"

definition refuse_auth :: "go_error option \<Rightarrow> flow \<Rightarrow> result" where
  "refuse_auth err fl = (err, fl\<lparr>fl_out := snd (writeAuthStatus (fl_out fl) False)\<rparr>)"

definition deferred_close :: "resource \<Rightarrow> result \<Rightarrow> result" where
  "deferred_close x res = (case res of (err, fl) \<Rightarrow> (err, fl\<lparr>fl_closed := fl_closed fl @ [x]\<rparr>))"

text \<open>
  One authorisation point: load the registry, authenticate, resolve a pin; \<open>None\<close> is a missing
  registry or failed authentication. The two later ones compare with the pin in force.
\<close>

definition checkpoint_pin :: "hmac \<Rightarrow> string \<Rightarrow> string \<Rightarrow> checkpoint \<Rightarrow> (go_error + TunnelPin) option" where
  "checkpoint_pin hmac username password ck =
     (case ck_registry ck of
        None \<Rightarrow> None
      | Some (_, registry) \<Rightarrow>
          (case AuthenticateAt hmac registry username password of
             None \<Rightarrow> None
           | Some credentialGeneration \<Rightarrow>
               Some (CompactPin username credentialGeneration (ck_now ck) (ck_manager ck))))"

definition revalidated :: "primitives \<Rightarrow> string \<Rightarrow> string \<Rightarrow> TunnelPin \<Rightarrow> checkpoint \<Rightarrow> go_error + TunnelPin" where
  "revalidated pr username password pin ck =
     (case checkpoint_pin (pr_hmac pr) username password ck of
        None \<Rightarrow> Inl ErrSelectorUnknown
      | Some (Inl err) \<Rightarrow> Inl err
      | Some (Inr revalidatedPin) \<Rightarrow>
          if ck_reloaded ck \<noteq> map_option fst (ck_registry ck)
             \<or> \<not> samePinAuthority pin revalidatedPin \<or> \<not> TunnelEligible (pin_Node revalidatedPin)
             \<or> \<not> sameCanonicalNode (pr_idna pr) (pin_Node pin) (pin_Node revalidatedPin)
          then Inl ErrSelectorUnknown
          else Inr revalidatedPin)"

text \<open>
  The phases, last first. \<open>hc_relay\<close>: the tunnel is set up and the relay runs until it returns
  \<open>he_relay\<close>.
\<close>

definition hc_relay ::
  "handler_env \<Rightarrow> string \<Rightarrow> TunnelPin \<Rightarrow> byte \<Rightarrow> target \<Rightarrow> udpAssociation option \<Rightarrow> bytes \<Rightarrow> OutboundHeader \<Rightarrow>
   HandshakeReader \<Rightarrow> writer \<Rightarrow> deadline_conn \<Rightarrow> flow \<Rightarrow> result"
where
  "hc_relay env msg pin command destination association key header reader w conn fl =
     (case NewLazyInboundReader (Some reader) key (Some conn) (he_timeout env) of
        Inl e \<Rightarrow> (Some (Wrap msg e), fl)
      | Inr lazy \<Rightarrow>
          (he_relay env, fl\<lparr>fl_tunnel := Some \<lparr>tun_pin = pin, tun_command = command,
             tun_destination = destination, tun_association = association,
             tun_conn = \<lparr>tc_inbound = lazy, tc_stream = oh_Stream header, tc_writer = w, tc_close = Open\<rparr>\<rparr>\<rparr>))"

definition hc_admit ::
  "primitives \<Rightarrow> handler_env \<Rightarrow> string \<Rightarrow> string \<Rightarrow> TunnelPin \<Rightarrow> byte \<Rightarrow> target \<Rightarrow> udpAssociation option \<Rightarrow>
   upstream \<Rightarrow> bytes \<Rightarrow> OutboundHeader \<Rightarrow> HandshakeReader \<Rightarrow> writer \<Rightarrow> flow \<Rightarrow> result"
where
  "hc_admit pr env username password pin command destination association up key header reader w fl =
     (if \<not> SessionCurrentPin pin (ck_now (he_final env)) (he_current_manager env)
      then refuse replyGeneralFailure (Some ErrSelectorUnknown) fl
      else case revalidated pr username password pin (he_final env) of
        Inl err \<Rightarrow> refuse replyGeneralFailure (Some err) fl
      | Inr finalPin \<Rightarrow>
          (case association of
             Some a \<Rightarrow>
               (case writeReply replySucceeded (targetFromAddr (ua_local a)) (fl_out fl) of
                  (Some e, out) \<Rightarrow> (Some e, fl\<lparr>fl_out := out\<rparr>)
                | (None, out) \<Rightarrow>
                    hc_relay env ''socks: configure delayed WIFIIN UOT IV'' finalPin command destination
                      association key header reader w (us_read_deadlines up) (fl\<lparr>fl_out := out\<rparr>))
           | None \<Rightarrow>
               (case writeReply replySucceeded (targetFromAddr (us_local up)) (fl_out fl) of
                  (Some e, out) \<Rightarrow> (Some e, fl\<lparr>fl_out := out\<rparr>)
                | (None, out) \<Rightarrow>
                    hc_relay env ''socks: configure delayed WIFIIN IV'' finalPin command destination
                      association key header reader w (us_read_deadlines up) (fl\<lparr>fl_out := out\<rparr>))))"

text \<open>The initial packet is sent and acknowledged; the writer holds what was sent.\<close>

definition wifiin_handshake ::
  "primitives \<Rightarrow> stream \<Rightarrow> bytes \<Rightarrow> byte \<Rightarrow> Node \<Rightarrow> target \<Rightarrow> string \<Rightarrow> upstream \<Rightarrow>
   (go_error + (OutboundHeader \<times> HandshakeReader)) \<times> writer"
where
  "wifiin_handshake pr random key command node destination extension up =
     (case (if command = commandUDP
            then NewUOTOutboundHeader (pr_block pr) random key (node_Host node) (node_Port node) extension
            else NewOutboundHeader (pr_block pr) random key (tgt_Host destination)
                   (tgt_Port destination) extension) of
        Inl err \<Rightarrow> (Inl err, us_writer up)
      | Inr header \<Rightarrow>
          (case writeAll (oh_Packet header) (us_writer up) of
             (Some err, w) \<Rightarrow> (Inl err, w)
           | (None, w) \<Rightarrow>
               (case ReadACK (NewHandshakeReader (us_source up)) of
                  (Some err, _) \<Rightarrow> (Inl err, w)
                | (None, reader) \<Rightarrow> (Inr (header, reader), w))))"

definition hc_upstream ::
  "primitives \<Rightarrow> handler_env \<Rightarrow> string \<Rightarrow> string \<Rightarrow> TunnelPin \<Rightarrow> byte \<Rightarrow> target \<Rightarrow> udpAssociation option \<Rightarrow>
   upstream \<Rightarrow> flow \<Rightarrow> result"
where
  "hc_upstream pr env username password pin command destination association up fl =
     (case us_set_deadline up of
        Some e \<Rightarrow> refuse replyGeneralFailure (Some (Wrap ''socks: set handshake deadline'' e)) fl
      | None \<Rightarrow>
          let key = (case DeriveKey (pr_md5 pr) (sess_TunnelPassword (pin_Session pin)) of
                       Some k \<Rightarrow> k | None \<Rightarrow> [])
          in case wifiin_handshake pr (he_random env) key command (pin_Node pin) destination
                    (sess_ProviderExtension (pin_Session pin)) up of
            (Inl err, w) \<Rightarrow>
              refuse replyGeneralFailure (Some (Wrap ''socks: WIFIIN handshake'' err))
                (fl\<lparr>fl_sent := wr_out w\<rparr>)
          | (Inr (header, reader), w) \<Rightarrow>
              let fl = fl\<lparr>fl_sent := wr_out w\<rparr> in
              (case us_clear_deadline up of
                 Some e \<Rightarrow>
                   if \<not> errors_is e ErrNetClosed \<and> \<not> errors_is e ErrClosedPipe
                   then refuse replyGeneralFailure (Some (Wrap ''socks: clear handshake deadline'' e)) fl
                   else hc_admit pr env username password pin command destination association up key
                          header reader w fl
               | None \<Rightarrow> hc_admit pr env username password pin command destination association up key
                          header reader w fl))"

definition hc_connect ::
  "primitives \<Rightarrow> handler_env \<Rightarrow> string \<Rightarrow> string \<Rightarrow> TunnelPin \<Rightarrow> byte \<Rightarrow> target \<Rightarrow> udpAssociation option \<Rightarrow>
   flow \<Rightarrow> result"
where
  "hc_connect pr env username password pin command destination association fl =
     (let node = pin_Node pin;
          address = JoinHostPort (node_Host node) (dec (unat (node_Port node)));
          dialed = he_dial env ''tcp'' address;
          fl = fl\<lparr>fl_dialed := fl_dialed fl @ [(''tcp'', address)],
                  fl_opened := fl_opened fl @ (case dialed of Inr _ \<Rightarrow> [UpstreamConn] | Inl _ \<Rightarrow> [])\<rparr>
      in if he_ctx_err env \<noteq> None then (he_ctx_err env, fl)
         else case dialed of
           Inl e \<Rightarrow> refuse (dialReply e) (Some (Wrap ''socks: connect selected upstream'' (de_err e))) fl
         | Inr up \<Rightarrow>
             deferred_close UpstreamConn
               (hc_upstream pr env username password pin command destination association up fl))"

definition hc_associate ::
  "primitives \<Rightarrow> handler_env \<Rightarrow> string \<Rightarrow> string \<Rightarrow> TunnelPin \<Rightarrow> byte \<Rightarrow> target \<Rightarrow> flow \<Rightarrow> result"
where
  "hc_associate pr env username password pin command destination fl =
     (if command = commandUDP then
        (case newUDPAssociation (he_remote env) (he_local env) (he_listen_udp env) destination of
           Inl err \<Rightarrow>
             refuse (if errors_is err errAddressTypeUnsupported then replyAddressUnsupported
                     else replyGeneralFailure) (Some err) fl
         | Inr a \<Rightarrow>
             deferred_close UDPSocket
               (hc_connect pr env username password pin command destination (Some a)
                 (fl\<lparr>fl_opened := fl_opened fl @ [UDPSocket]\<rparr>)))
      else hc_connect pr env username password pin command destination None fl)"

definition hc_revalidate ::
  "primitives \<Rightarrow> handler_env \<Rightarrow> string \<Rightarrow> string \<Rightarrow> TunnelPin \<Rightarrow> byte \<Rightarrow> target \<Rightarrow> flow \<Rightarrow> result"
where
  "hc_revalidate pr env username password pin command destination fl =
     (case revalidated pr username password pin (he_revalidate env) of
        Inl err \<Rightarrow> refuse replyGeneralFailure (Some err) fl
      | Inr pin \<Rightarrow>
          (case he_clear_deadline env of
             Some e \<Rightarrow> refuse replyGeneralFailure (Some (Wrap ''socks: clear client setup deadline'' e)) fl
           | None \<Rightarrow>
               if \<not> equal_fold (sess_TunnelMethod (pin_Session pin)) ''aes-256-cfb''
               then refuse replyGeneralFailure (Some (New ''socks: unsupported WIFIIN tunnel cipher'')) fl
               else hc_associate pr env username password pin command destination fl))"

definition hc_request ::
  "primitives \<Rightarrow> handler_env \<Rightarrow> string \<Rightarrow> string \<Rightarrow> TunnelPin \<Rightarrow> flow \<Rightarrow> result"
where
  "hc_request pr env username password pin fl =
     (case readRequest (fl_in fl) of
        (Inl err, r) \<Rightarrow>
          refuse (if errors_is err errAddressTypeUnsupported then replyAddressUnsupported
                  else replyGeneralFailure) (Some err) (fl\<lparr>fl_in := r\<rparr>)
      | (Inr (command, destination), r) \<Rightarrow>
          let fl = fl\<lparr>fl_in := r\<rparr> in
          if command \<noteq> commandConnect \<and> command \<noteq> commandUDP
          then refuse replyCommandUnsupported None fl
          else if command = commandConnect \<and> tgt_Port destination = 0
          then refuse replyGeneralFailure (Some errBadAddress) fl
          else hc_revalidate pr env username password pin command destination fl)"

definition hc_authenticate :: "primitives \<Rightarrow> handler_env \<Rightarrow> string \<Rightarrow> string \<Rightarrow> flow \<Rightarrow> result" where
  "hc_authenticate pr env username password fl =
     (case checkpoint_pin (pr_hmac pr) username password (he_authenticate env) of
        None \<Rightarrow> refuse_auth (Some ErrSelectorUnknown) fl
      | Some (Inl err) \<Rightarrow> refuse_auth (Some err) fl
      | Some (Inr pin) \<Rightarrow>
          if \<not> TunnelEligible (pin_Node pin) then refuse_auth (Some ErrSelectorUnknown) fl
          else case writeAuthStatus (fl_out fl) True of
            (Some err, out) \<Rightarrow> (Some err, fl\<lparr>fl_out := out\<rparr>)
          | (None, out) \<Rightarrow> hc_request pr env username password pin (fl\<lparr>fl_out := out\<rparr>))"

definition hc_negotiate :: "primitives \<Rightarrow> handler_env \<Rightarrow> flow \<Rightarrow> result" where
  "hc_negotiate pr env fl =
     (case he_set_deadline env of
        Some e \<Rightarrow> (Some (Wrap ''socks: set client setup deadline'' e), fl)
      | None \<Rightarrow>
          (case negotiate (fl_in fl) (fl_out fl) of
             (Some err, r, out) \<Rightarrow> (Some err, fl\<lparr>fl_in := r, fl_out := out\<rparr>)
           | (None, r, out) \<Rightarrow>
               let fl = fl\<lparr>fl_in := r, fl_out := out\<rparr> in
               (case readUserPassword (fl_in fl) of
                  (Inl err, r) \<Rightarrow> refuse_auth (Some err) (fl\<lparr>fl_in := r\<rparr>)
                | (Inr (username, password), r) \<Rightarrow>
                    hc_authenticate pr env username password (fl\<lparr>fl_in := r\<rparr>))))"

definition HandleConn :: "primitives \<Rightarrow> handler_env \<Rightarrow> stream \<Rightarrow> writer \<Rightarrow> result" where
  "HandleConn pr env r w = deferred_close ClientConn (hc_negotiate pr env (new_flow r w))"

section \<open>What each phase can do\<close>

text \<open>
  A phase either refuses - it appends a failure reply, or as much of it as the client takes - or
  goes on to the next. The case lemmas say so phase by phase, with what is known then.
\<close>

definition failure_frame :: "byte \<Rightarrow> bytes" where
  "failure_frame code = [0x05, code, 0, 0x01, 0, 0, 0, 0, 0, 0]"

definition refusal :: "flow \<Rightarrow> flow \<Rightarrow> bool" where
  "refusal fl fl' \<longleftrightarrow> (\<exists>code n out. code \<noteq> 0 \<and> fl' = fl\<lparr>fl_out := out\<rparr>
     \<and> wr_out out = wr_out (fl_out fl) @ take n (failure_frame code))"

lemma writeReply_prefix:
  "writeReply code t w = (err, w') \<Longrightarrow>
   \<exists>n body. wr_out w' = wr_out w @ take n ([0x05, code, 0] @ body)
     \<and> (err = None \<longrightarrow> 3 + length body \<le> n)"
proof -
  assume w: "writeReply code t w = (err, w')"
  have "(\<exists>body. writeReply code t w = writeAll ([0x05, code, 0] @ body) w)
      \<or> writeReply code t w = (Some errBadAddress, w)"
    unfolding writeReply_def socks_constants
    by (auto split: option.split intro: exI [of _ "0x01 # addr_AsSlice ip @ be16 (tgt_Port t)" for ip])
  with w consider body where "writeAll ([0x05, code, 0] @ body) w = (err, w')"
      | "err = Some errBadAddress" "w' = w" by auto
  then show ?thesis
  proof cases
    case 1
    from writeAll_out [OF this] obtain n
      where "wr_out w' = wr_out w @ take n ([0x05, code, 0] @ body)"
        "err = None \<longrightarrow> length ([0x05, code, 0] @ body) \<le> n" by blast
    then show ?thesis by (intro exI [of _ n] exI [of _ body]) (simp add: numeral_3_eq_3)
  next
    case 2
    then show ?thesis by (auto intro: exI [of _ 0])
  qed
qed

lemma refuse_cases: "refuse code err fl = (e, fl') \<Longrightarrow> code \<noteq> 0 \<Longrightarrow> e = err \<and> refusal fl fl'"
proof -
  assume r: "refuse code err fl = (e, fl')" and c: "code \<noteq> 0"
  obtain e0 w where w: "writeReply code no_target (fl_out fl) = (e0, w)" by (metis surj_pair)
  then have "writeAll (failure_frame code) (fl_out fl) = (e0, w)"
    by (simp add: writeReply_def failure_frame_def socks_constants)
  from writeAll_out [OF this] show ?thesis
    using r c w by (auto simp: refuse_def refusal_def)
qed

lemma dialReply_nonzero: "dialReply e \<noteq> 0"
  by (simp add: dialReply_def socks_replies)

lemmas refusals = refuse_cases [OF _ dialReply_nonzero]

lemma hc_relay_cases:
  assumes "hc_relay env msg pin command destination association key header reader w conn fl = (err, fl')"
  shows "fl' = fl \<and> err \<noteq> None \<or>
    (\<exists>lazy. NewLazyInboundReader (Some reader) key (Some conn) (he_timeout env) = Inr lazy
      \<and> err = he_relay env
      \<and> fl' = fl\<lparr>fl_tunnel := Some \<lparr>tun_pin = pin, tun_command = command,
             tun_destination = destination, tun_association = association,
             tun_conn = \<lparr>tc_inbound = lazy, tc_stream = oh_Stream header, tc_writer = w,
                         tc_close = Open\<rparr>\<rparr>\<rparr>)"
  using assms by (auto simp: hc_relay_def split: sum.splits)

text \<open>The success reply went out, wholly when the tunnel is set up.\<close>

definition answered :: "TunnelPin \<Rightarrow> byte \<Rightarrow> target \<Rightarrow> udpAssociation option \<Rightarrow> cfb \<Rightarrow> writer \<Rightarrow> flow \<Rightarrow> flow \<Rightarrow> bool" where
  "answered pin command destination association stream w fl fl' \<longleftrightarrow>
     (\<exists>n body out t. fl' = fl\<lparr>fl_out := out, fl_tunnel := t\<rparr>
       \<and> wr_out out = wr_out (fl_out fl) @ take n ([0x05, 0, 0] @ body)
       \<and> (t = fl_tunnel fl \<or> 3 + length body \<le> n \<and>
          (\<exists>tun. t = Some tun \<and> tun_pin tun = pin \<and> tun_command tun = command
             \<and> tun_destination tun = destination \<and> tun_association tun = association
             \<and> tc_stream (tun_conn tun) = stream \<and> tc_writer (tun_conn tun) = w)))"

lemma answer_cases:
  assumes "(case writeReply replySucceeded t (fl_out fl) of
      (Some e, out) \<Rightarrow> (Some e, fl\<lparr>fl_out := out\<rparr>)
    | (None, out) \<Rightarrow> hc_relay env msg pin command destination association key header reader w conn
        (fl\<lparr>fl_out := out\<rparr>)) = (err, fl')"
  shows "answered pin command destination association (oh_Stream header) w fl fl'"
proof -
  obtain e out where wr: "writeReply replySucceeded t (fl_out fl) = (e, out)" by (metis surj_pair)
  obtain n body where pre: "wr_out out = wr_out (fl_out fl) @ take n ([0x05, 0, 0] @ body)"
      "e = None \<longrightarrow> 3 + length body \<le> n"
    using writeReply_prefix [OF wr] by (auto simp: replySucceeded_def)
  have same: "fl\<lparr>fl_out := out\<rparr> = fl\<lparr>fl_out := out, fl_tunnel := fl_tunnel fl\<rparr>" by simp
  show ?thesis
  proof (cases e)
    case None
    then have "hc_relay env msg pin command destination association key header reader w conn
        (fl\<lparr>fl_out := out\<rparr>) = (err, fl')" using assms wr by simp
    from hc_relay_cases [OF this] show ?thesis
      using pre None same unfolding answered_def
      by (elim disjE conjE exE) (rule exI [of _ n], rule exI [of _ body], rule exI [of _ out],
        fastforce)+
  next
    case (Some x)
    then show ?thesis using assms wr pre same by (auto simp: answered_def)
  qed
qed

lemma hc_admit_cases:
  assumes "hc_admit pr env username password pin command destination association up key header reader w fl
    = (err, fl')"
  shows "refusal fl fl' \<or>
    (\<exists>finalPin. SessionCurrentPin pin (ck_now (he_final env)) (he_current_manager env)
      \<and> revalidated pr username password pin (he_final env) = Inr finalPin
      \<and> answered finalPin command destination association (oh_Stream header) w fl fl')"
proof -
  have nz: "replyGeneralFailure \<noteq> 0" by (simp add: replyGeneralFailure_def)
  consider (gone) "\<not> SessionCurrentPin pin (ck_now (he_final env)) (he_current_manager env)"
    | (changed) e where "revalidated pr username password pin (he_final env) = Inl e"
        "SessionCurrentPin pin (ck_now (he_final env)) (he_current_manager env)"
    | (ok) finalPin where "revalidated pr username password pin (he_final env) = Inr finalPin"
        "SessionCurrentPin pin (ck_now (he_final env)) (he_current_manager env)"
    by (cases "revalidated pr username password pin (he_final env)") auto
  then show ?thesis
  proof cases
    case gone
    then show ?thesis using assms nz by (auto simp: hc_admit_def dest: refuse_cases)
  next
    case changed
    then show ?thesis using assms nz by (auto simp: hc_admit_def dest: refuse_cases)
  next
    case ok
    then show ?thesis
      using assms by (cases association) (auto simp: hc_admit_def dest!: answer_cases)
  qed
qed

text \<open>
  The later phases in terms of what the client and the network see: the replies, the tunnel, and
  the addresses dialled.
\<close>

definition node_address :: "Node \<Rightarrow> string" where
  "node_address n = JoinHostPort (node_Host n) (dec (unat (node_Port n)))"

definition declined :: "flow \<Rightarrow> flow \<Rightarrow> bool" where
  "declined fl fl' \<longleftrightarrow> fl_tunnel fl' = fl_tunnel fl \<and>
     (\<exists>code n. code \<noteq> 0 \<and> wr_out (fl_out fl') = wr_out (fl_out fl) @ take n (failure_frame code))"

definition accepted :: "TunnelPin \<Rightarrow> byte \<Rightarrow> target \<Rightarrow> cfb \<Rightarrow> writer \<Rightarrow> flow \<Rightarrow> flow \<Rightarrow> bool" where
  "accepted pin command destination stream w fl fl' \<longleftrightarrow>
     (\<exists>n body. wr_out (fl_out fl') = wr_out (fl_out fl) @ take n ([0x05, 0, 0] @ body)
       \<and> (fl_tunnel fl' = fl_tunnel fl \<or> 3 + length body \<le> n \<and>
          (\<exists>tun. fl_tunnel fl' = Some tun \<and> tun_pin tun = pin \<and> tun_command tun = command
             \<and> tun_destination tun = destination
             \<and> tc_stream (tun_conn tun) = stream \<and> tc_writer (tun_conn tun) = w)))"

lemma declined_silent: "fl_tunnel fl' = fl_tunnel fl \<Longrightarrow> fl_out fl' = fl_out fl \<Longrightarrow> declined fl fl'"
  unfolding declined_def by (metis append_Nil2 take0 zero_neq_one)

lemma refusal_declined:
  "refusal fl0 fl' \<Longrightarrow> fl_tunnel fl0 = fl_tunnel fl \<Longrightarrow> fl_out fl0 = fl_out fl \<Longrightarrow>
   declined fl fl' \<and> fl_dialed fl' = fl_dialed fl0 \<and> fl_sent fl' = fl_sent fl0"
  unfolding refusal_def declined_def
  by (elim exE conjE, intro conjI, simp_all only: flow.simps, auto)

lemma refuse_declined:
  assumes "refuse code err fl0 = (e, fl')" and "code \<noteq> 0"
    and "fl_tunnel fl0 = fl_tunnel fl" and "fl_out fl0 = fl_out fl"
  shows "declined fl fl' \<and> fl_dialed fl' = fl_dialed fl0 \<and> fl_sent fl' = fl_sent fl0"
  using refuse_cases [OF assms(1,2)] refusal_declined assms(3,4) by blast

lemma answered_accepted:
  "answered pin command destination association stream w fl0 fl' \<Longrightarrow>
   fl_tunnel fl0 = fl_tunnel fl \<Longrightarrow> fl_out fl0 = fl_out fl \<Longrightarrow>
   accepted pin command destination stream w fl fl' \<and> fl_dialed fl' = fl_dialed fl0
   \<and> fl_sent fl' = fl_sent fl0"
  unfolding answered_def accepted_def
  by (elim exE conjE, intro conjI, rule_tac x = n in exI, rule_tac x = body in exI, auto)

lemma deferred_close_fields [simp]:
  "fl_tunnel (snd (deferred_close x res)) = fl_tunnel (snd res)"
  "fl_out (snd (deferred_close x res)) = fl_out (snd res)"
  "fl_dialed (snd (deferred_close x res)) = fl_dialed (snd res)"
  "fl_sent (snd (deferred_close x res)) = fl_sent (snd res)"
  "fl_opened (snd (deferred_close x res)) = fl_opened (snd res)"
  "fl_closed (snd (deferred_close x res)) = fl_closed (snd res) @ [x]"
  "fst (deferred_close x res) = fst res"
  by (simp_all add: deferred_close_def split: prod.splits)

lemma deferred_close_E:
  assumes "deferred_close x res = (err, fl')"
  obtains fl1 where "res = (err, fl1)" "fl' = fl1\<lparr>fl_closed := fl_closed fl1 @ [x]\<rparr>"
  using assms by (auto simp: deferred_close_def split: prod.splits)

lemma accepted_closed [simp]:
  "accepted pin command destination stream w fl (fl'\<lparr>fl_closed := c\<rparr>) = accepted pin command destination stream w fl fl'"
  "declined fl (fl'\<lparr>fl_closed := c\<rparr>) = declined fl fl'"
  "accepted pin command destination stream w (fl\<lparr>fl_opened := c\<rparr>) fl' = accepted pin command destination stream w fl fl'"
  "declined (fl\<lparr>fl_opened := c\<rparr>) fl' = declined fl fl'"
  by (simp_all add: accepted_def declined_def)

text \<open>What is known when the success reply is sent.\<close>

definition admitted ::
  "primitives \<Rightarrow> handler_env \<Rightarrow> string \<Rightarrow> string \<Rightarrow> TunnelPin \<Rightarrow> byte \<Rightarrow> target \<Rightarrow> flow \<Rightarrow> flow \<Rightarrow> bool"
where
  "admitted pr env username password pin command destination fl fl' \<longleftrightarrow>
     (\<exists>up key header reader w finalPin.
        he_ctx_err env = None \<and> he_dial env ''tcp'' (node_address (pin_Node pin)) = Inr up
        \<and> wifiin_handshake pr (he_random env) key command (pin_Node pin) destination
            (sess_ProviderExtension (pin_Session pin)) up = (Inr (header, reader), w)
        \<and> key = (case DeriveKey (pr_md5 pr) (sess_TunnelPassword (pin_Session pin)) of
                    Some k \<Rightarrow> k | None \<Rightarrow> [])
        \<and> SessionCurrentPin pin (ck_now (he_final env)) (he_current_manager env)
        \<and> revalidated pr username password pin (he_final env) = Inr finalPin
        \<and> fl_sent fl' = wr_out w
        \<and> accepted finalPin command destination (oh_Stream header) w fl fl')"

lemma hc_upstream_cases:
  assumes "hc_upstream pr env username password pin command destination association up fl = (err, fl')"
    and "he_ctx_err env = None" and "he_dial env ''tcp'' (node_address (pin_Node pin)) = Inr up"
  shows "(declined fl fl' \<or> admitted pr env username password pin command destination fl fl')
    \<and> fl_dialed fl' = fl_dialed fl"
proof -
  have nz: "replyGeneralFailure \<noteq> 0" by (simp add: replyGeneralFailure_def)
  let ?key = "case DeriveKey (pr_md5 pr) (sess_TunnelPassword (pin_Session pin)) of
                       Some k \<Rightarrow> k | None \<Rightarrow> []"
  obtain res w where h: "wifiin_handshake pr (he_random env) ?key command (pin_Node pin) destination
      (sess_ProviderExtension (pin_Session pin)) up = (res, w)" by (metis surj_pair)
  show ?thesis
  proof (cases "us_set_deadline up")
    case (Some e)
    then show ?thesis using assms(1) nz by (auto simp: hc_upstream_def dest!: refuse_declined)
  next
    case None
    show ?thesis
    proof (cases res)
      case (Inl e)
      then show ?thesis
        using assms(1) nz None h
        by (auto simp: hc_upstream_def Let_def dest!: refuse_declined [where fl = fl])
    next
      case (Inr hr)
      obtain header reader where hr: "hr = (header, reader)" by (metis surj_pair)
      let ?fl = "fl\<lparr>fl_sent := wr_out w\<rparr>"
      consider (no) msg where "refuse replyGeneralFailure msg ?fl = (err, fl')"
        | (yes) "hc_admit pr env username password pin command destination association up ?key header
            reader w ?fl = (err, fl')"
        using assms(1) None h Inr hr
        by (auto simp: hc_upstream_def Let_def split: option.splits if_splits)
      then show ?thesis
      proof cases
        case no
        then show ?thesis using nz by (auto dest!: refuse_declined [where fl = fl])
      next
        case yes
        then show ?thesis
          using hc_admit_cases [OF yes]
        proof (elim disjE exE conjE)
          assume "refusal ?fl fl'"
          from refusal_declined [OF this, of fl] show ?thesis by simp
        next
          fix finalPin
          assume f: "SessionCurrentPin pin (ck_now (he_final env)) (he_current_manager env)"
            "revalidated pr username password pin (he_final env) = Inr finalPin"
            "answered finalPin command destination association (oh_Stream header) w ?fl fl'"
          from answered_accepted [OF f(3), of fl] show ?thesis
            using f(1,2) assms(2,3) h Inr hr unfolding admitted_def by auto
        qed
      qed
    qed
  qed
qed

lemma admitted_flow [simp]:
  "admitted pr env u p pin c d (fl\<lparr>fl_dialed := x\<rparr>) fl' = admitted pr env u p pin c d fl fl'"
  "admitted pr env u p pin c d (fl\<lparr>fl_opened := y\<rparr>) fl' = admitted pr env u p pin c d fl fl'"
  "admitted pr env u p pin c d fl (fl'\<lparr>fl_closed := y\<rparr>) = admitted pr env u p pin c d fl fl'"
  "declined (fl\<lparr>fl_dialed := x\<rparr>) fl' = declined fl fl'"
  by (simp_all add: admitted_def accepted_def declined_def)

lemma hc_connect_cases:
  assumes "hc_connect pr env username password pin command destination association fl = (err, fl')"
  shows "(declined fl fl' \<or> admitted pr env username password pin command destination fl fl')
    \<and> fl_dialed fl' = fl_dialed fl @ [(''tcp'', node_address (pin_Node pin))]"
proof -
  let ?a = "node_address (pin_Node pin)"
  let ?o = "fl_opened fl @ (case he_dial env ''tcp'' ?a of Inr _ \<Rightarrow> [UpstreamConn] | Inl _ \<Rightarrow> [])"
  let ?fl = "fl\<lparr>fl_dialed := fl_dialed fl @ [(''tcp'', ?a)], fl_opened := ?o\<rparr>"
  have eq: "(if he_ctx_err env \<noteq> None then (he_ctx_err env, ?fl)
      else case he_dial env ''tcp'' ?a of
        Inl e \<Rightarrow> refuse (dialReply e) (Some (Wrap ''socks: connect selected upstream'' (de_err e))) ?fl
      | Inr up \<Rightarrow> deferred_close UpstreamConn
          (hc_upstream pr env username password pin command destination association up ?fl)) = (err, fl')"
    using assms unfolding hc_connect_def Let_def node_address_def .
  show ?thesis
  proof (cases "he_ctx_err env = None")
    case False
    then show ?thesis using eq by (auto intro: declined_silent)
  next
    case ctx: True
    show ?thesis
    proof (cases "he_dial env ''tcp'' ?a")
      case (Inl e)
      then show ?thesis
        using eq ctx refuse_declined [of "dialReply e" _ ?fl err fl' fl] dialReply_nonzero by auto
    next
      case (Inr up)
      then obtain fl1 where up: "hc_upstream pr env username password pin command destination association
          up ?fl = (err, fl1)" "fl' = fl1\<lparr>fl_closed := fl_closed fl1 @ [UpstreamConn]\<rparr>"
        using eq ctx by (auto elim: deferred_close_E)
      from hc_upstream_cases [OF up(1) ctx Inr] show ?thesis
        using up(2) by auto
    qed
  qed
qed

lemma nonzero_replies [simp]:
  "replyGeneralFailure \<noteq> 0" "replyAddressUnsupported \<noteq> 0" "replyCommandUnsupported \<noteq> 0"
  "(if b then replyAddressUnsupported else replyGeneralFailure) \<noteq> 0"
  by (simp_all add: socks_replies)

lemma hc_associate_cases:
  assumes "hc_associate pr env username password pin command destination fl = (err, fl')"
  shows "(declined fl fl' \<or> admitted pr env username password pin command destination fl fl'
        \<and> fl_dialed fl' \<noteq> fl_dialed fl)
    \<and> fl_dialed fl' \<in> {fl_dialed fl, fl_dialed fl @ [(''tcp'', node_address (pin_Node pin))]}"
proof -
  consider (no) e where "refuse (if errors_is e errAddressTypeUnsupported then replyAddressUnsupported
        else replyGeneralFailure) (Some e) fl = (err, fl')"
    | (udp) a fl1 where "hc_connect pr env username password pin command destination (Some a)
          (fl\<lparr>fl_opened := fl_opened fl @ [UDPSocket]\<rparr>) = (err, fl1)"
        "fl' = fl1\<lparr>fl_closed := fl_closed fl1 @ [UDPSocket]\<rparr>"
    | (tcp) "hc_connect pr env username password pin command destination None fl = (err, fl')"
    using assms by (auto simp: hc_associate_def split: if_splits sum.splits elim: deferred_close_E)
  then show ?thesis
  proof cases
    case no
    from refuse_declined [OF this, of fl] show ?thesis by simp
  next
    case udp
    from hc_connect_cases [OF udp(1)] udp(2) show ?thesis by auto
  next
    case tcp
    from hc_connect_cases [OF tcp] show ?thesis by auto
  qed
qed

lemma hc_revalidate_cases:
  assumes "hc_revalidate pr env username password pin0 command destination fl = (err, fl')"
  shows "declined fl fl' \<and> fl_dialed fl' = fl_dialed fl \<or>
    (\<exists>pin. revalidated pr username password pin0 (he_revalidate env) = Inr pin
      \<and> he_clear_deadline env = None \<and> equal_fold (sess_TunnelMethod (pin_Session pin)) ''aes-256-cfb''
      \<and> (declined fl fl' \<or> admitted pr env username password pin command destination fl fl'
        \<and> fl_dialed fl' \<noteq> fl_dialed fl)
      \<and> fl_dialed fl' \<in> {fl_dialed fl, fl_dialed fl @ [(''tcp'', node_address (pin_Node pin))]})"
proof -
  consider (no) msg where "refuse replyGeneralFailure msg fl = (err, fl')"
    | (yes) pin where "revalidated pr username password pin0 (he_revalidate env) = Inr pin"
        "he_clear_deadline env = None" "equal_fold (sess_TunnelMethod (pin_Session pin)) ''aes-256-cfb''"
        "hc_associate pr env username password pin command destination fl = (err, fl')"
    using assms by (auto simp: hc_revalidate_def split: sum.splits option.splits if_splits)
  then show ?thesis
  proof cases
    case no
    from refuse_declined [OF this, of fl] show ?thesis by simp
  next
    case yes
    from hc_associate_cases [OF yes(4)] yes show ?thesis by blast
  qed
qed

lemma hc_request_cases:
  assumes "hc_request pr env username password pin0 fl = (err, fl')"
  shows "declined fl fl' \<and> fl_dialed fl' = fl_dialed fl \<or>
    (\<exists>command destination pin. fst (readRequest (fl_in fl)) = Inr (command, destination)
      \<and> (command = commandConnect \<and> tgt_Port destination \<noteq> 0 \<or> command = commandUDP)
      \<and> revalidated pr username password pin0 (he_revalidate env) = Inr pin
      \<and> he_clear_deadline env = None \<and> equal_fold (sess_TunnelMethod (pin_Session pin)) ''aes-256-cfb''
      \<and> (declined fl fl' \<or> admitted pr env username password pin command destination fl fl'
        \<and> fl_dialed fl' \<noteq> fl_dialed fl)
      \<and> fl_dialed fl' \<in> {fl_dialed fl, fl_dialed fl @ [(''tcp'', node_address (pin_Node pin))]})"
proof -
  obtain res r where rq: "readRequest (fl_in fl) = (res, r)" by (metis surj_pair)
  let ?fl = "fl\<lparr>fl_in := r\<rparr>"
  consider (no) code msg where "refuse code msg ?fl = (err, fl')" "code \<noteq> 0"
    | (yes) command destination where "res = Inr (command, destination)"
        "command = commandConnect \<and> tgt_Port destination \<noteq> 0 \<or> command = commandUDP"
        "hc_revalidate pr env username password pin0 command destination ?fl = (err, fl')"
    using assms rq
    by (cases res) (fastforce simp: hc_request_def Let_def split: if_splits prod.splits)+
  then show ?thesis
  proof cases
    case no
    from refuse_declined [OF this, of fl] show ?thesis by simp
  next
    case yes
    have "declined fl fl' = declined ?fl fl'"
      "admitted pr env username password pin c d fl fl' = admitted pr env username password pin c d ?fl fl'"
      for pin c d by (simp_all add: declined_def admitted_def accepted_def)
    then show ?thesis using hc_revalidate_cases [OF yes(3)] yes(1,2) rq by auto
  qed
qed

text \<open>The phases up to the request, for a flow whose tunnel and dialled addresses are still empty.\<close>

lemma writeAuthStatus_out:
  assumes "writeAuthStatus w b = (err, w')"
  shows "\<exists>n. wr_out w' = wr_out w @ take n [0x01, if b then 0 else 0x01] \<and> (err = None \<longrightarrow> 2 \<le> n)"
  using writeAll_out [of "[0x01, if b then 0 else 0x01]" w err w'] assms
  by (auto simp: writeAuthStatus_def socks_constants numeral_2_eq_2)

lemma hc_authenticate_cases:
  assumes "hc_authenticate pr env username password fl = (err, fl')"
  shows "(\<exists>n s. wr_out (fl_out fl') = wr_out (fl_out fl) @ take n [0x01, s] \<and> s \<in> {0, 0x01}
       \<and> fl_tunnel fl' = fl_tunnel fl \<and> fl_dialed fl' = fl_dialed fl) \<or>
    (\<exists>pin0 fl1. checkpoint_pin (pr_hmac pr) username password (he_authenticate env) = Some (Inr pin0)
       \<and> TunnelEligible (pin_Node pin0)
       \<and> wr_out (fl_out fl1) = wr_out (fl_out fl) @ [0x01, 0]
       \<and> fl_tunnel fl1 = fl_tunnel fl \<and> fl_dialed fl1 = fl_dialed fl \<and> fl_in fl1 = fl_in fl
       \<and> hc_request pr env username password pin0 fl1 = (err, fl'))"
proof -
  consider (no) e where "refuse_auth e fl = (err, fl')"
    | (yes) pin0 e out where "checkpoint_pin (pr_hmac pr) username password (he_authenticate env) = Some (Inr pin0)"
        "TunnelEligible (pin_Node pin0)" "writeAuthStatus (fl_out fl) True = (e, out)"
        "case e of Some x \<Rightarrow> (err, fl') = (Some x, fl\<lparr>fl_out := out\<rparr>)
          | None \<Rightarrow> hc_request pr env username password pin0 (fl\<lparr>fl_out := out\<rparr>) = (err, fl')"
    using assms by (auto simp: hc_authenticate_def split: option.splits sum.splits if_splits prod.splits)
  then show ?thesis
  proof cases
    case no
    obtain e0 out where w: "writeAuthStatus (fl_out fl) False = (e0, out)" by (metis surj_pair)
    then obtain n where "wr_out out = wr_out (fl_out fl) @ take n [0x01, 0x01]"
      using writeAuthStatus_out [OF w] by (auto simp only: if_False)
    then show ?thesis
      using no w by (intro disjI1 exI [of _ n] exI [of _ "0x01"]) (auto simp: refuse_auth_def)
  next
    case yes
    show ?thesis
    proof (cases e)
      case None
      then show ?thesis
        using writeAuthStatus_out [OF yes(3)] yes
        by (intro disjI2 exI [of _ pin0] exI [of _ "fl\<lparr>fl_out := out\<rparr>"]) auto
    next
      case (Some x)
      obtain n where "wr_out out = wr_out (fl_out fl) @ take n [0x01, 0]"
        using writeAuthStatus_out [OF yes(3)] by auto
      then show ?thesis
        using Some yes(4) by (intro disjI1 exI [of _ n] exI [of _ 0]) auto
    qed
  qed
qed

lemma negotiate_out:
  assumes "negotiate r w = (err, r', w')"
  shows "\<exists>n m. wr_out w' = wr_out w @ take n [0x05, m] \<and> m \<in> {0x02, 0xff}
    \<and> (err = None \<longrightarrow> 2 \<le> n \<and> m = 0x02)"
proof -
  consider (none) "w' = w" "err \<noteq> None"
    | (some) m e where "m \<in> {0x02, 0xff}" "writeAll [0x05, m] w = (e, w')"
        "err = None \<longrightarrow> e = None \<and> m = 0x02"
    using assms
    by (auto simp: negotiate_def socks_constants split: prod.splits sum.splits if_splits option.splits)
  then show ?thesis
  proof cases
    case none
    then show ?thesis by (intro exI [of _ 0] exI [of _ "0x02"]) simp
  next
    case some
    from writeAll_out [OF some(2)] obtain n where "wr_out w' = wr_out w @ take n [0x05, m]"
        "e = None \<longrightarrow> 2 \<le> n" by (auto simp: numeral_2_eq_2)
    then show ?thesis using some by (intro exI [of _ n] exI [of _ m]) simp
  qed
qed

text \<open>Everything a connection can come to.\<close>

lemma HandleConn_cases:
  assumes "HandleConn pr env r w = (err, fl)"
  shows "(\<exists>n x. wr_out (fl_out fl) = wr_out w @ take n x
        \<and> x \<in> {[0x05, 0xff], [0x05, 0x02, 0x01, 0x01], [0x05, 0x02, 0x01, 0]}
        \<and> fl_tunnel fl = None \<and> fl_dialed fl = []) \<or>
    (\<exists>r1 r2 w1 username password pin0 fl1 fl2. negotiate r w = (None, r1, w1)
        \<and> readUserPassword r1 = (Inr (username, password), r2)
        \<and> checkpoint_pin (pr_hmac pr) username password (he_authenticate env) = Some (Inr pin0)
        \<and> TunnelEligible (pin_Node pin0)
        \<and> wr_out (fl_out fl1) = wr_out w @ [0x05, 0x02, 0x01, 0]
        \<and> fl_tunnel fl1 = None \<and> fl_dialed fl1 = [] \<and> fl_in fl1 = r2
        \<and> hc_request pr env username password pin0 fl1 = (err, fl2)
        \<and> fl = fl2\<lparr>fl_closed := fl_closed fl2 @ [ClientConn]\<rparr>)"
    (is "?early \<or> ?late")
proof -
  obtain fl2 where n: "hc_negotiate pr env (new_flow r w) = (err, fl2)"
      and fl: "fl = fl2\<lparr>fl_closed := fl_closed fl2 @ [ClientConn]\<rparr>"
    using assms by (auto simp: HandleConn_def elim: deferred_close_E)
  obtain e1 r1 w1 where neg: "negotiate r w = (e1, r1, w1)" by (metis prod_cases3)
  obtain n1 m where out1: "wr_out w1 = wr_out w @ take n1 [0x05, m]" "m \<in> {0x02, 0xff}"
      "e1 = None \<longrightarrow> 2 \<le> n1 \<and> m = 0x02"
    using negotiate_out [OF neg] by blast
  consider (dead) "fl2 = new_flow r w" | (failed) e where "e1 = Some e" "he_set_deadline env = None"
    | (login) "e1 = None" "he_set_deadline env = None"
    using n by (cases "he_set_deadline env"; cases e1) (auto simp: hc_negotiate_def)
  then show ?thesis
  proof cases
    case dead
    have "wr_out (fl_out fl) = wr_out w @ take 0 [0x05, 0xff]" by (simp add: fl dead new_flow_def)
    then show ?thesis using fl dead by (intro disjI1) (auto simp: new_flow_def)
  next
    case failed
    then have f: "fl2 = (new_flow r w)\<lparr>fl_in := r1, fl_out := w1\<rparr>"
      using n neg by (auto simp: hc_negotiate_def new_flow_def)
    have "take n1 [0x05, m] = take n1 [0x05, 0xff]
        \<or> take n1 [0x05, m] = take (min n1 2) [0x05, 0x02, 0x01, 0]"
      using out1(2) by (auto simp: take_Cons' min_def)
    then show ?thesis using out1(1) fl f by (intro disjI1) (auto simp: new_flow_def)
  next
    case login
    have w1: "wr_out w1 = wr_out w @ [0x05, 0x02]" using out1 login(1) by auto
    obtain res r2 where up: "readUserPassword r1 = (res, r2)" by (metis surj_pair)
    let ?fl = "(new_flow r w)\<lparr>fl_in := r2, fl_out := w1\<rparr>"
    have pre: "take n [0x05, 0x02, 0x01, s] = [0x05, 0x02] @ take (n - 2) [0x01, s]" if "2 \<le> n" for n s
      using that by (auto simp: take_Cons' numeral_2_eq_2)
    show ?thesis
    proof (cases res)
      case (Inl e)
      obtain e0 out where wa: "writeAuthStatus w1 False = (e0, out)" by (metis surj_pair)
      then have "fl2 = ?fl\<lparr>fl_out := out\<rparr>"
        using n neg login up Inl by (auto simp: hc_negotiate_def refuse_auth_def new_flow_def)
      moreover obtain n2 where "wr_out out = wr_out w @ [0x05, 0x02] @ take n2 [0x01, 0x01]"
        using writeAuthStatus_out [OF wa] w1 by auto
      then have "wr_out out = wr_out w @ take (n2 + 2) [0x05, 0x02, 0x01, 0x01]"
        by (simp add: pre)
      ultimately show ?thesis
        using fl by (intro disjI1 exI [of _ "n2 + 2"] exI [of _ "[0x05, 0x02, 0x01, 0x01]"])
          (auto simp: new_flow_def)
    next
      case (Inr cred)
      obtain u p where cred: "cred = (u, p)" by (metis surj_pair)
      have a: "hc_authenticate pr env u p ?fl = (err, fl2)"
        using n neg login up Inr cred by (auto simp: hc_negotiate_def new_flow_def)
      from hc_authenticate_cases [OF a] show ?thesis
      proof (elim disjE exE conjE)
        fix n2 s
        assume s: "wr_out (fl_out fl2) = wr_out (fl_out ?fl) @ take n2 [0x01, s]" "s \<in> {0, 0x01}"
          "fl_tunnel fl2 = fl_tunnel ?fl" "fl_dialed fl2 = fl_dialed ?fl"
        then have "wr_out (fl_out fl) = wr_out w @ take (n2 + 2) [0x05, 0x02, 0x01, s]"
          using w1 fl by (simp add: pre)
        then show ?thesis
          using s(2-4) fl
          by (intro disjI1 exI [of _ "n2 + 2"] exI [of _ "[0x05, 0x02, 0x01, s]"]) (auto simp: new_flow_def)
      next
        fix pin0 fl1
        assume s: "checkpoint_pin (pr_hmac pr) u p (he_authenticate env) = Some (Inr pin0)"
          "TunnelEligible (pin_Node pin0)" "wr_out (fl_out fl1) = wr_out (fl_out ?fl) @ [0x01, 0]"
          "fl_tunnel fl1 = fl_tunnel ?fl" "fl_dialed fl1 = fl_dialed ?fl" "fl_in fl1 = fl_in ?fl"
          "hc_request pr env u p pin0 fl1 = (err, fl2)"
        then show ?thesis
          using neg login(1) up Inr cred w1 fl
          by (intro disjI2 exI [of _ r1] exI [of _ r2] exI [of _ w1] exI [of _ u] exI [of _ p]
              exI [of _ pin0] exI [of _ fl1] exI [of _ fl2]) (simp add: new_flow_def)
      qed
    qed
  qed
qed

section \<open>Admission\<close>

text \<open>The credentials hold at a checkpoint and stand for this pin.\<close>

definition authorised :: "hmac \<Rightarrow> string \<Rightarrow> string \<Rightarrow> checkpoint \<Rightarrow> TunnelPin \<Rightarrow> bool" where
  "authorised hmac username password ck pin \<longleftrightarrow>
     (\<exists>i registry generation. ck_registry ck = Some (i, registry)
        \<and> AuthenticateAt hmac registry username password = Some generation
        \<and> CompactPin username generation (ck_now ck) (ck_manager ck) = Inr pin)"

definition same_authority :: "idna \<Rightarrow> TunnelPin \<Rightarrow> TunnelPin \<Rightarrow> bool" where
  "same_authority idna pin pin' \<longleftrightarrow> pin_Session pin' = pin_Session pin
     \<and> pin_ExpiresAt pin' = pin_ExpiresAt pin \<and> sameCanonicalNode idna (pin_Node pin) (pin_Node pin')"

lemma checkpoint_authorised:
  "checkpoint_pin hmac u p ck = Some (Inr pin) \<longleftrightarrow> authorised hmac u p ck pin"
  by (auto simp: checkpoint_pin_def authorised_def split: option.splits)

lemma samePinAuthority_iff:
  "samePinAuthority a b \<longleftrightarrow> pin_ExpiresAt a = pin_ExpiresAt b \<and> pin_Session a = pin_Session b"
  by (cases "pin_Session a"; cases "pin_Session b") (auto simp: samePinAuthority_def constantTimeEqual_def)

lemma revalidated_Inr:
  "revalidated pr u p pin ck = Inr pin' \<Longrightarrow>
   authorised (pr_hmac pr) u p ck pin' \<and> ck_reloaded ck = map_option fst (ck_registry ck)
   \<and> same_authority (pr_idna pr) pin pin' \<and> TunnelEligible (pin_Node pin')"
  by (auto simp: revalidated_def same_authority_def samePinAuthority_iff
      simp flip: checkpoint_authorised split: option.splits sum.splits if_splits)

lemma declined_code:
  assumes "declined fl fl'" and "wr_out (fl_out fl) = [0x05, 0x02, 0x01, 0]" and "fl_tunnel fl = None"
  shows "fl_tunnel fl' = None \<and> \<not> (5 < length (wr_out (fl_out fl')) \<and> wr_out (fl_out fl') ! 5 = 0)"
proof -
  obtain code n where c: "code \<noteq> 0" "wr_out (fl_out fl') = [0x05, 0x02, 0x01, 0] @ take n (failure_frame code)"
    using assms by (auto simp: declined_def)
  then show ?thesis
    using assms by (cases n; cases "n - 1") (auto simp: declined_def failure_frame_def)
qed

text \<open>A success reply was sent, at least up to its code, or the tunnel was set up.\<close>

definition success_sent :: "flow \<Rightarrow> bool" where
  "success_sent fl \<longleftrightarrow> fl_tunnel fl \<noteq> None
     \<or> (5 < length (wr_out (fl_out fl)) \<and> wr_out (fl_out fl) ! 5 = replySucceeded)"

lemma success_cases:
  assumes "HandleConn pr env r w = (err, fl)" and "wr_out w = []" and "success_sent fl"
  obtains r1 r2 w1 username password pin0 pin1 fl1 fl2 command destination
  where "negotiate r w = (None, r1, w1)" "readUserPassword r1 = (Inr (username, password), r2)"
    "authorised (pr_hmac pr) username password (he_authenticate env) pin0" "TunnelEligible (pin_Node pin0)"
    "fst (readRequest r2) = Inr (command, destination)"
    "command = commandConnect \<and> tgt_Port destination \<noteq> 0 \<or> command = commandUDP"
    "revalidated pr username password pin0 (he_revalidate env) = Inr pin1"
    "equal_fold (sess_TunnelMethod (pin_Session pin1)) ''aes-256-cfb''"
    "admitted pr env username password pin1 command destination fl1 fl"
    "fl_tunnel fl1 = None" "fl_dialed fl = [(''tcp'', node_address (pin_Node pin1))]"
proof -
  have short: "\<not> 5 < length (take n x)" if "x \<in> {[0x05, 0xff], [0x05, 0x02, 0x01, 0x01], [0x05, 0x02, 0x01, 0]}"
      for n and x :: bytes
    using that by auto
  obtain r1 r2 w1 u p pin0 fl1 fl2 where e: "negotiate r w = (None, r1, w1)"
      "readUserPassword r1 = (Inr (u, p), r2)"
      "checkpoint_pin (pr_hmac pr) u p (he_authenticate env) = Some (Inr pin0)"
      "TunnelEligible (pin_Node pin0)" "wr_out (fl_out fl1) = wr_out w @ [0x05, 0x02, 0x01, 0]"
      "fl_tunnel fl1 = None" "fl_dialed fl1 = []" "fl_in fl1 = r2"
      "hc_request pr env u p pin0 fl1 = (err, fl2)" "fl = fl2\<lparr>fl_closed := fl_closed fl2 @ [ClientConn]\<rparr>"
    using HandleConn_cases [OF assms(1)] assms(2,3) short by (fastforce simp: success_sent_def)
  have no: "\<not> declined fl1 fl2"
    using declined_code [of fl1 fl2] e(5,6,10) assms(2,3)
    by (auto simp: success_sent_def replySucceeded_def)
  then obtain command destination pin1 where q: "fst (readRequest (fl_in fl1)) = Inr (command, destination)"
      "command = commandConnect \<and> tgt_Port destination \<noteq> 0 \<or> command = commandUDP"
      "revalidated pr u p pin0 (he_revalidate env) = Inr pin1"
      "equal_fold (sess_TunnelMethod (pin_Session pin1)) ''aes-256-cfb''"
      "admitted pr env u p pin1 command destination fl1 fl2" "fl_dialed fl2 \<noteq> fl_dialed fl1"
      "fl_dialed fl2 \<in> {fl_dialed fl1, fl_dialed fl1 @ [(''tcp'', node_address (pin_Node pin1))]}"
    using hc_request_cases [OF e(9)] by blast
  have "fl_dialed fl2 = [(''tcp'', node_address (pin_Node pin1))]"
    using q(6,7) e(7) by auto
  then show thesis
    using that [of r1 w1 u p r2 pin0 command destination pin1 fl1] e q
    by (simp add: checkpoint_authorised)
qed

text \<open>
  C5: Nothing reaches the network or the client without authority. If the SOCKS success reply was
  sent, even in part, or the relay started, then the client negotiated and sent a user name and
  password and a CONNECT with a port or a UDP request; the credentials authenticated against the
  registry and resolved to an eligible node's pin three times - before the authentication status,
  after the request, and after the upstream's acknowledgement, the registry pointer unchanged
  around the last two - always with the session, expiry and canonical node of the first; the
  session was current at the end; the cipher is AES-256-CFB; the only address dialled is that of
  the pinned node, never the client's destination; the bytes sent there are one WIFIIN packet for
  the request under the pinned session; the server acknowledged it; and the tunnel carries the
  pin of the last check.
\<close>

theorem admission_safe:
  assumes "HandleConn pr env r w = (err, fl)" and "wr_out w = []" and "success_sent fl"
  shows "\<exists>r1 r2 w1 u p pin0 pin1 pin2 command destination up key header w2.
      negotiate r w = (None, r1, w1) \<and> readUserPassword r1 = (Inr (u, p), r2)
    \<and> fst (readRequest r2) = Inr (command, destination)
    \<and> (command = commandConnect \<and> tgt_Port destination \<noteq> 0 \<or> command = commandUDP)
    \<and> authorised (pr_hmac pr) u p (he_authenticate env) pin0
    \<and> authorised (pr_hmac pr) u p (he_revalidate env) pin1
    \<and> authorised (pr_hmac pr) u p (he_final env) pin2
    \<and> (\<forall>ck\<in>{he_revalidate env, he_final env}. ck_reloaded ck = map_option fst (ck_registry ck))
    \<and> (\<forall>pin\<in>{pin0, pin1, pin2}. TunnelEligible (pin_Node pin))
    \<and> same_authority (pr_idna pr) pin0 pin1 \<and> same_authority (pr_idna pr) pin1 pin2
    \<and> SessionCurrentPin pin1 (ck_now (he_final env)) (he_current_manager env)
    \<and> equal_fold (sess_TunnelMethod (pin_Session pin1)) ''aes-256-cfb''
    \<and> fl_dialed fl = [(''tcp'', node_address (pin_Node pin1))]
    \<and> he_dial env ''tcp'' (node_address (pin_Node pin1)) = Inr up
    \<and> (if command = commandUDP
       then NewUOTOutboundHeader (pr_block pr) (he_random env) key (node_Host (pin_Node pin1))
              (node_Port (pin_Node pin1)) (sess_ProviderExtension (pin_Session pin1))
       else NewOutboundHeader (pr_block pr) (he_random env) key (tgt_Host destination)
              (tgt_Port destination) (sess_ProviderExtension (pin_Session pin1))) = Inr header
    \<and> (\<forall>k. DeriveKey (pr_md5 pr) (sess_TunnelPassword (pin_Session pin1)) = Some k \<longrightarrow> key = k)
    \<and> writeAll (oh_Packet header) (us_writer up) = (None, w2) \<and> fl_sent fl = wr_out w2
    \<and> fst (ReadACK (NewHandshakeReader (us_source up))) = None
    \<and> (\<forall>tun. fl_tunnel fl = Some tun \<longrightarrow> tun_pin tun = pin2 \<and> tun_command tun = command
         \<and> tun_destination tun = destination \<and> tc_stream (tun_conn tun) = oh_Stream header)"
proof (rule success_cases [OF assms])
  fix r1 r2 w1 u p pin0 pin1 and fl1 :: flow and command destination
  assume f: "negotiate r w = (None, r1, w1)" "readUserPassword r1 = (Inr (u, p), r2)"
    "authorised (pr_hmac pr) u p (he_authenticate env) pin0" "TunnelEligible (pin_Node pin0)"
    "fst (readRequest r2) = Inr (command, destination)"
    "command = commandConnect \<and> tgt_Port destination \<noteq> 0 \<or> command = commandUDP"
    "revalidated pr u p pin0 (he_revalidate env) = Inr pin1"
    "equal_fold (sess_TunnelMethod (pin_Session pin1)) ''aes-256-cfb''"
    "fl_tunnel fl1 = None" "fl_dialed fl = [(''tcp'', node_address (pin_Node pin1))]"
  assume "admitted pr env u p pin1 command destination fl1 fl"
  then obtain up key header reader w2 pin2 where a:
      "he_dial env ''tcp'' (node_address (pin_Node pin1)) = Inr up"
      "wifiin_handshake pr (he_random env) key command (pin_Node pin1) destination
         (sess_ProviderExtension (pin_Session pin1)) up = (Inr (header, reader), w2)"
      "key = (case DeriveKey (pr_md5 pr) (sess_TunnelPassword (pin_Session pin1)) of
                Some k \<Rightarrow> k | None \<Rightarrow> [])"
      "SessionCurrentPin pin1 (ck_now (he_final env)) (he_current_manager env)"
      "revalidated pr u p pin1 (he_final env) = Inr pin2" "fl_sent fl = wr_out w2"
      "accepted pin2 command destination (oh_Stream header) w2 fl1 fl"
    unfolding admitted_def by blast
  have k: "DeriveKey (pr_md5 pr) (sess_TunnelPassword (pin_Session pin1)) = Some k \<longrightarrow> key = k" for k
    using a(3) by simp
  have h: "(if command = commandUDP
       then NewUOTOutboundHeader (pr_block pr) (he_random env) key (node_Host (pin_Node pin1))
              (node_Port (pin_Node pin1)) (sess_ProviderExtension (pin_Session pin1))
       else NewOutboundHeader (pr_block pr) (he_random env) key (tgt_Host destination)
              (tgt_Port destination) (sess_ProviderExtension (pin_Session pin1))) = Inr header
      \<and> writeAll (oh_Packet header) (us_writer up) = (None, w2)
      \<and> fst (ReadACK (NewHandshakeReader (us_source up))) = None"
    using a(2) unfolding wifiin_handshake_def
    by (auto split: sum.splits prod.splits option.splits)
  have t: "\<forall>tun. fl_tunnel fl = Some tun \<longrightarrow> tun_pin tun = pin2 \<and> tun_command tun = command
         \<and> tun_destination tun = destination \<and> tc_stream (tun_conn tun) = oh_Stream header"
    using a(7) f(9) by (auto simp: accepted_def)
  note rv = revalidated_Inr [OF f(7)] revalidated_Inr [OF a(5)]
  show ?thesis
    apply (rule exI [of _ r1], rule exI [of _ r2], rule exI [of _ w1], rule exI [of _ u],
        rule exI [of _ p], rule exI [of _ pin0], rule exI [of _ pin1], rule exI [of _ pin2],
        rule exI [of _ command], rule exI [of _ destination], rule exI [of _ up],
        rule exI [of _ key], rule exI [of _ header], rule exI [of _ w2])
    using f(1-6,8,10) a(1,4,6) h t k rv by simp
qed

text \<open>
  C6: No tunnel outlives a sign-out that came before its admission. If at some point before the
  last check of the session - during the handshake, the dial, or while the client delayed its
  request - the account had signed out or its authority expired, and nothing was committed since,
  then no success reply is sent and no relay starts, whatever the client and the upstream do.
\<close>

theorem revoked_never_admitted:
  assumes "HandleConn pr env r w = (err, fl)" and "wr_out w = []"
    and "svc_run hmac s as s'" and "no_authority (svc_mgr s)"
    and "\<And>snapshot t. ACommit snapshot t \<notin> set as" and "he_current_manager env = svc_mgr s'"
  shows "\<not> success_sent fl \<and> fl_tunnel fl = None"
proof -
  have "mgr_evolves hmac (svc_mgr s) (he_current_manager env)"
    unfolding mgr_evolves_def using assms(3,5,6)
    by (intro exI [of _ s] exI [of _ as] exI [of _ s']) simp
  then have "\<not> SessionCurrentPin pin t (he_current_manager env)" for pin t
    using manager.admitted_never_revoked assms(4) by blast
  then have no: "\<not> admitted pr env u p pin c d fl1 fl" for u p pin c d fl1
    by (simp add: admitted_def)
  have "\<not> success_sent fl"
  proof
    assume "success_sent fl"
    then show False by (rule success_cases [OF assms(1,2)]) (simp add: no)
  qed
  then show ?thesis by (simp add: success_sent_def)
qed

definition conversation :: "bytes \<Rightarrow> bool" where
  "conversation x \<longleftrightarrow> x = [0x05, 0xff] \<or> x = [0x05, 0x02, 0x01, 0x01]
     \<or> (\<exists>code. code \<noteq> 0 \<and> x = [0x05, 0x02, 0x01, 0] @ [0x05, code, 0, 0x01, 0, 0, 0, 0, 0, 0])
     \<or> (\<exists>body. x = [0x05, 0x02, 0x01, 0] @ [0x05, replySucceeded, 0] @ body)"

lemma conversation_simps [simp]:
  "conversation [0x05, 0xff]" "conversation [0x05, 0x02, 0x01, 0x01]"
  "code \<noteq> 0 \<Longrightarrow> conversation ([0x05, 0x02, 0x01, 0] @ failure_frame code)"
  "conversation ([0x05, 0x02, 0x01, 0] @ [0x05, 0, 0] @ body)"
  by (simp_all add: conversation_def failure_frame_def replySucceeded_def)


section \<open>Resources\<close>

text \<open>
  What a phase opened it has closed, in reverse order - or it has left the upstream connection,
  opened last, when the context ended during the dial.
\<close>

definition balanced :: "handler_env \<Rightarrow> flow \<Rightarrow> flow \<Rightarrow> bool" where
  "balanced env fl fl' \<longleftrightarrow>
     (\<exists>xs ys. fl_opened fl' = fl_opened fl @ xs @ ys \<and> fl_closed fl' = fl_closed fl @ rev xs
        \<and> (ys = [] \<or> ys = [UpstreamConn] \<and> he_ctx_err env \<noteq> None))"

lemma balanced_same:
  "fl_opened fl' = fl_opened fl \<Longrightarrow> fl_closed fl' = fl_closed fl \<Longrightarrow> balanced env fl fl'"
  unfolding balanced_def by (intro exI [of _ "[]"]) simp

lemma balanced_fields [simp]:
  "balanced env (fl\<lparr>fl_in := a\<rparr>) fl' = balanced env fl fl'"
  "balanced env (fl\<lparr>fl_out := b\<rparr>) fl' = balanced env fl fl'"
  "balanced env (fl\<lparr>fl_sent := c\<rparr>) fl' = balanced env fl fl'"
  by (simp_all add: balanced_def)

lemma balanced_wrap:
  assumes "balanced env (fl\<lparr>fl_opened := fl_opened fl @ [x]\<rparr>) fl1" and "res = (err, fl1)"
  shows "balanced env fl (snd (deferred_close x res))"
proof -
  obtain xs ys where "fl_opened fl1 = (fl_opened fl @ [x]) @ xs @ ys" "fl_closed fl1 = fl_closed fl @ rev xs"
      "ys = [] \<or> ys = [UpstreamConn] \<and> he_ctx_err env \<noteq> None"
    using assms(1) by (auto simp: balanced_def)
  then show ?thesis
    using assms(2) unfolding balanced_def by (intro exI [of _ "x # xs"] exI [of _ ys]) simp
qed

lemma refuse_balanced [simp]: "balanced env fl (snd (refuse code err fl))"
  by (rule balanced_same) (simp_all add: refuse_def)

lemma refuse_auth_balanced [simp]: "balanced env fl (snd (refuse_auth err fl))"
  by (rule balanced_same) (simp_all add: refuse_auth_def)

lemma hc_relay_balanced [simp]:
  "balanced env' fl (snd (hc_relay env msg pin c d a key header reader w conn fl))"
  by (rule balanced_same) (simp_all add: hc_relay_def split: sum.split)

lemma balanced_refl [simp]: "balanced env fl fl"
  by (rule balanced_same) simp_all

lemma balanced_update [simp]:
  "balanced env fl (fl\<lparr>fl_out := o'\<rparr>)" "balanced env fl (fl\<lparr>fl_in := i, fl_out := o'\<rparr>)"
  by (rule balanced_same; simp)+

text \<open>The same for a flow whose other fields were updated on the way.\<close>

lemmas refuse_balanced' [simp] =
  refuse_balanced [where fl = "fl\<lparr>fl_sent := s\<rparr>" for fl s, simplified balanced_fields]
  refuse_balanced [where fl = "fl\<lparr>fl_in := s\<rparr>" for fl s, simplified balanced_fields]
  refuse_auth_balanced [where fl = "fl\<lparr>fl_out := b, fl_in := i\<rparr>" for fl i b, simplified balanced_fields]

lemmas hc_relay_balanced' [simp] =
  hc_relay_balanced [where fl = "fl\<lparr>fl_out := s\<rparr>" for fl s, simplified balanced_fields]

lemma hc_admit_balanced [simp]: "balanced env fl (snd (hc_admit pr env u p pin c d a up k h rd w fl))"
  by (simp add: hc_admit_def split: sum.split option.split prod.split)

lemmas hc_admit_balanced' [simp] =
  hc_admit_balanced [where fl = "fl\<lparr>fl_sent := s\<rparr>" for fl s, simplified balanced_fields]

lemma hc_upstream_balanced: "balanced env fl (snd (hc_upstream pr env u p pin c d a up fl))"
  by (simp add: hc_upstream_def Let_def split: sum.split option.split prod.split)

lemma hc_connect_balanced: "balanced env fl (snd (hc_connect pr env u p pin c d a fl))"
proof -
  let ?a = "(''tcp'', JoinHostPort (node_Host (pin_Node pin)) (dec (unat (node_Port (pin_Node pin)))))"
  have dialed: "balanced env fl (fl\<lparr>fl_dialed := x, fl_opened := fl_opened fl @ ys\<rparr>)"
    if "ys = [] \<or> ys = [UpstreamConn] \<and> he_ctx_err env \<noteq> None" for x ys
    using that unfolding balanced_def by (intro exI [of _ "[]"] exI [of _ ys]) simp
  have up: "balanced env fl (snd (deferred_close UpstreamConn (hc_upstream pr env u p pin c d a up
      (fl\<lparr>fl_dialed := x, fl_opened := fl_opened fl @ [UpstreamConn]\<rparr>))))" for x up
  proof -
    let ?fl = "fl\<lparr>fl_dialed := x, fl_opened := fl_opened fl @ [UpstreamConn]\<rparr>"
    have "balanced env ?fl fl1 = balanced env (fl\<lparr>fl_opened := fl_opened fl @ [UpstreamConn]\<rparr>) fl1" for fl1
      by (simp add: balanced_def)
    with hc_upstream_balanced [of env ?fl pr u p pin c d a up] show ?thesis
      by (intro balanced_wrap [OF _ prod.collapse [symmetric]]) simp
  qed
  have no: "balanced env fl (snd (refuse code err (fl\<lparr>fl_dialed := x\<rparr>)))" for code err x
    by (rule balanced_same) (simp_all add: refuse_def)
  show ?thesis
    using up no dialed
    by (auto simp: hc_connect_def Let_def split: sum.split)
qed

lemma hc_associate_balanced [simp]: "balanced env fl (snd (hc_associate pr env u p pin c d fl))"
  using balanced_wrap [OF hc_connect_balanced prod.collapse [symmetric]]
  by (simp add: hc_associate_def hc_connect_balanced split: sum.split)

lemma hc_revalidate_balanced [simp]: "balanced env fl (snd (hc_revalidate pr env u p pin c d fl))"
  by (simp add: hc_revalidate_def split: sum.split option.split)

lemmas hc_revalidate_balanced' [simp] =
  hc_revalidate_balanced [where fl = "fl\<lparr>fl_in := s\<rparr>" for fl s, simplified balanced_fields]

lemma hc_request_balanced [simp]: "balanced env fl (snd (hc_request pr env u p pin fl))"
  by (simp add: hc_request_def Let_def split: sum.split prod.split)

lemmas hc_request_balanced' [simp] =
  hc_request_balanced [where fl = "fl\<lparr>fl_out := s\<rparr>" for fl s, simplified balanced_fields]

lemma hc_authenticate_balanced [simp]: "balanced env fl (snd (hc_authenticate pr env u p fl))"
  by (simp add: hc_authenticate_def split: sum.split option.split prod.split)

lemmas hc_authenticate_balanced' [simp] =
  hc_authenticate_balanced [where fl = "fl\<lparr>fl_out := b, fl_in := i\<rparr>" for fl i b, simplified balanced_fields]

lemma hc_negotiate_balanced: "balanced env fl (snd (hc_negotiate pr env fl))"
  by (simp add: hc_negotiate_def Let_def split: sum.split option.split prod.split)

text \<open>
  A handler gives back what it took. When \<open>HandleConn\<close> returns, the client connection, the UDP
  socket of an association and the upstream connection have been closed in the reverse order of
  their opening, on every path, with one exception: if the handler's context ends while the dial
  succeeds, the handler returns without closing the new upstream connection.
\<close>

theorem handler_closes_resources:
  assumes "HandleConn pr env r w = (err, fl)"
  shows "fl_opened fl = rev (fl_closed fl)
    \<or> he_ctx_err env \<noteq> None \<and> fl_opened fl = rev (fl_closed fl) @ [UpstreamConn]"
proof -
  have "snd (HandleConn pr env r w) = snd (deferred_close ClientConn (hc_negotiate pr env (new_flow r w)))"
    by (simp add: HandleConn_def)
  moreover obtain xs ys where "fl_opened (snd (hc_negotiate pr env (new_flow r w))) = ClientConn # xs @ ys"
      "fl_closed (snd (hc_negotiate pr env (new_flow r w))) = rev xs"
      "ys = [] \<or> ys = [UpstreamConn] \<and> he_ctx_err env \<noteq> None"
    using hc_negotiate_balanced [of env "new_flow r w" pr]
    by (auto simp: balanced_def new_flow_def)
  ultimately show ?thesis using assms by auto
qed

section \<open>A concrete connection\<close>

definition demo_md5 :: "bytes \<Rightarrow> bytes" where
  "demo_md5 b = take 16 (b @ replicate 16 7)"
definition demo_selector :: string where
  "demo_selector = selectorPrefix @ raw_url_encode (take selectorBytes
     (demo_mac (reg_selectorKey demo_registry) (bytes_of_string ''n1'')))"

definition demo_password :: string where
  "demo_password = selector_password demo_mac (reg_proxyAuthKey demo_registry) demo_selector"

definition demo_admitting :: Manager where
  "demo_admitting = demo_manager\<lparr>mgr_runtime := Some ((demo_snapshot 3)\<lparr>snap_Selectors :=
     [(demo_selector, \<lparr>ref_NodeID = ''n1'', ref_Generation = 4, ref_Tombstoned = False,
        ref_TombstoneUntil = time_zero\<rparr>)]\<rparr>)\<rparr>"

definition demo_checkpoint :: checkpoint where
  "demo_checkpoint = \<lparr>ck_now = 150, ck_registry = Some (1, demo_registry), ck_manager = demo_admitting,
     ck_reloaded = Some 1\<rparr>"

definition demo_upstream :: upstream where
  "demo_upstream = \<lparr>us_source = \<lparr>src_chunks = [([0, 0], None), ([0], None)], src_end = EOF\<rparr>,
     us_writer = \<lparr>wr_script = [], wr_out = []\<rparr>, us_set_deadline = None, us_clear_deadline = None,
     us_read_deadlines = \<lparr>dc_deadline = None, dc_script = []\<rparr>,
     us_local = TCPAddr [10, 0, 0, 7] 4000 []\<rparr>"

definition demo_env :: handler_env where
  "demo_env = \<lparr>he_timeout = 10 * second, he_set_deadline = None, he_clear_deadline = None,
     he_authenticate = demo_checkpoint, he_revalidate = demo_checkpoint,
     he_current_manager = demo_admitting, he_final = demo_checkpoint,
     he_remote = TCPAddr [127, 0, 0, 1] 5000 [], he_local = TCPAddr [127, 0, 0, 1] 1080 [],
     he_listen_udp = (\<lambda>network ip zone. Inr (UDPAddr ip 6000 zone)),
     he_dial = (\<lambda>network address. Inr demo_upstream), he_ctx_err = None,
     he_random = \<lparr>st_data = replicate 16 9, st_err = EOF\<rparr>, he_relay = None\<rparr>"

definition demo_primitives :: primitives where
  "demo_primitives = \<lparr>pr_hmac = demo_mac, pr_idna = demo_idna, pr_md5 = demo_md5, pr_block = demo_block\<rparr>"

definition demo_client :: "stream" where
  "demo_client = \<lparr>st_data = greeting [2] @ login demo_selector demo_password
     @ [5, 1, 0, 1, 93, 184, 216, 34, 1, 187], st_err = EOF\<rparr>"

abbreviation demo_writer :: writer where
  "demo_writer \<equiv> \<lparr>wr_script = [], wr_out = []\<rparr>"

text \<open>The packet is built by the lemma on headers; the rest of the handshake is evaluated.\<close>

lemma demo_handshake:
  assumes "length key = 32"
  shows "\<exists>header w. wifiin_handshake demo_primitives (he_random demo_env) key 0x01 node
    \<lparr>tgt_Host = ''93.184.216.34'', tgt_Port = 443\<rparr> ''|t|cc.fancast.major|o|u1|MAC|1.0.46'' demo_upstream
    = (Inr (header, snd (ReadACK (NewHandshakeReader (us_source demo_upstream)))), w)"
proof -
  let ?hdr = "NewOutboundHeader (pr_block demo_primitives) (he_random demo_env) key ''93.184.216.34'' 443
      ''|t|cc.fancast.major|o|u1|MAC|1.0.46''"
  have "is_ok ?hdr"
  proof -
    have "validASCIIHost ''93.184.216.34''" "ValidProviderExtension ''|t|cc.fancast.major|o|u1|MAC|1.0.46''"
      by code_simp+
    moreover have "read_full IVSize (he_random demo_env) = (Inr (replicate 16 9), \<lparr>st_data = [], st_err = EOF\<rparr>)"
      by code_simp
    ultimately show ?thesis
      using assms unfolding is_ok_iff
      by (simp add: NewOutboundHeader_def newOutboundHeader_def header_success)
  qed
  then obtain header where "?hdr = Inr header" by (auto simp: is_ok_iff)
  moreover have "fst (ReadACK (NewHandshakeReader (us_source demo_upstream))) = None" by code_simp
  moreover have "us_writer demo_upstream = \<lparr>wr_script = [], wr_out = []\<rparr>" by (simp add: demo_upstream_def)
  ultimately show ?thesis
    by (auto simp: wifiin_handshake_def commandUDP_def split: prod.splits)
qed

lemma demo_steps:
  "negotiate demo_client demo_writer = (None, \<lparr>st_data = login demo_selector demo_password
     @ [5, 1, 0, 1, 93, 184, 216, 34, 1, 187], st_err = EOF\<rparr>, \<lparr>wr_script = [], wr_out = [5, 2]\<rparr>)"
  "readUserPassword \<lparr>st_data = login demo_selector demo_password
     @ [5, 1, 0, 1, 93, 184, 216, 34, 1, 187], st_err = EOF\<rparr>
   = (Inr (demo_selector, demo_password), \<lparr>st_data = [5, 1, 0, 1, 93, 184, 216, 34, 1, 187], st_err = EOF\<rparr>)"
  "checkpoint_pin demo_mac demo_selector demo_password demo_checkpoint =
     Some (Inr \<lparr>pin_Session = demo_session, pin_ExpiresAt = 200, pin_Node = demo_node,
       pin_Ref = \<lparr>ref_NodeID = ''n1'', ref_Generation = 4, ref_Tombstoned = False,
        ref_TombstoneUntil = time_zero\<rparr>\<rparr>)"
  "readRequest \<lparr>st_data = [5, 1, 0, 1, 93, 184, 216, 34, 1, 187], st_err = EOF\<rparr>
   = (Inr (1, \<lparr>tgt_Host = ''93.184.216.34'', tgt_Port = 443\<rparr>), \<lparr>st_data = [], st_err = EOF\<rparr>)"
  "sameCanonicalNode demo_idna demo_node demo_node"
  "TunnelEligible demo_node" "equal_fold ''aes-256-cfb'' ''aes-256-cfb''"
  "map_option length (DeriveKey demo_md5 ''pw'') = Some 32"
  by code_simp+

lemma demo_connection:
  "fl_tunnel (snd (HandleConn demo_primitives demo_env demo_client demo_writer)) \<noteq> None"
proof -
  let ?pin = "\<lparr>pin_Session = demo_session, pin_ExpiresAt = 200, pin_Node = demo_node,
       pin_Ref = \<lparr>ref_NodeID = ''n1'', ref_Generation = 4, ref_Tombstoned = False,
        ref_TombstoneUntil = time_zero\<rparr>\<rparr> :: TunnelPin"
  obtain key where key: "DeriveKey demo_md5 ''pw'' = Some key" "length key = 32"
    using demo_steps(8) by auto
  obtain header w where h: "wifiin_handshake demo_primitives (he_random demo_env) key 0x01 demo_node
    \<lparr>tgt_Host = ''93.184.216.34'', tgt_Port = 443\<rparr> ''|t|cc.fancast.major|o|u1|MAC|1.0.46'' demo_upstream
    = (Inr (header, snd (ReadACK (NewHandshakeReader (us_source demo_upstream)))), w)"
    using demo_handshake [OF key(2)] by blast
  have pr: "pr_hmac demo_primitives = demo_mac" "pr_idna demo_primitives = demo_idna"
      "pr_md5 demo_primitives = demo_md5" by (simp_all add: demo_primitives_def)
  have env: "he_timeout demo_env = 10 * second" "he_set_deadline demo_env = None"
      "he_clear_deadline demo_env = None" "he_authenticate demo_env = demo_checkpoint"
      "he_revalidate demo_env = demo_checkpoint" "he_final demo_env = demo_checkpoint"
      "he_current_manager demo_env = demo_admitting" "he_dial demo_env n a = Inr demo_upstream"
      "he_ctx_err demo_env = None" "he_relay demo_env = None" for n a
    by (simp_all add: demo_env_def)
  have up: "us_set_deadline demo_upstream = None" "us_clear_deadline demo_upstream = None"
      "us_local demo_upstream = TCPAddr [10, 0, 0, 7] 4000 []"
    by (simp_all add: demo_upstream_def)
  have rv: "revalidated demo_primitives demo_selector demo_password ?pin demo_checkpoint = Inr ?pin"
    using demo_steps(3,5,6) by (simp add: revalidated_def pr samePinAuthority_iff demo_checkpoint_def)
  have current: "SessionCurrentPin ?pin (ck_now demo_checkpoint) demo_admitting" by code_simp
  have session: "sess_TunnelPassword demo_session = ''pw''" "sess_TunnelMethod demo_session = ''aes-256-cfb''"
      "sess_ProviderExtension demo_session = ''|t|cc.fancast.major|o|u1|MAC|1.0.46''"
    by (simp_all add: demo_session_def)
  have local: "ip_String [10, 0, 0, 7] = ''10.0.0.7''" "ParseAddr ''10.0.0.7'' = Some (IP4 [10, 0, 0, 7])"
    by code_simp+
  show ?thesis
    using demo_steps
    by (simp add: HandleConn_def hc_negotiate_def hc_authenticate_def hc_request_def hc_revalidate_def
        hc_associate_def hc_connect_def hc_upstream_def hc_admit_def hc_relay_def new_flow_def pr env up
        rv current session key h local writeReply_def writeAuthStatus_def commandConnect_def commandUDP_def Let_def
        NewLazyInboundReader_def KeySize_def split: prod.splits)
qed

lemma admission_safe_witness:
  "let fl = snd (HandleConn demo_primitives demo_env demo_client demo_writer) in
     fl_tunnel fl \<noteq> None
     \<and> (\<exists>u p pin. authorised demo_mac u p demo_checkpoint pin
          \<and> fl_dialed fl = [(''tcp'', node_address (pin_Node pin))])"
proof -
  obtain err fl where h: "HandleConn demo_primitives demo_env demo_client demo_writer = (err, fl)"
    by (metis surj_pair)
  then have t: "fl_tunnel fl \<noteq> None" using demo_connection by simp
  then have "success_sent fl" by (simp add: success_sent_def)
  from admission_safe [OF h _ this] have "\<exists>u p pin. authorised demo_mac u p demo_checkpoint pin
          \<and> fl_dialed fl = [(''tcp'', node_address (pin_Node pin))]"
    by (simp add: demo_primitives_def demo_env_def) blast
  with t h show ?thesis by (simp add: Let_def)
qed

lemma revoked_never_admitted_witness:
  "fl_tunnel (snd (HandleConn demo_primitives (demo_env\<lparr>he_current_manager := SignOut demo_admitting\<rparr>)
     demo_client demo_writer)) = None"
proof -
  let ?env = "demo_env\<lparr>he_current_manager := SignOut demo_admitting\<rparr>"
  obtain err fl where h: "HandleConn demo_primitives ?env demo_client demo_writer = (err, fl)"
    by (metis surj_pair)
  have n: "no_authority (svc_mgr (svc_init (SignOut demo_admitting)))" by code_simp
  have "he_current_manager ?env = svc_mgr (svc_init (SignOut demo_admitting))"
    by (simp add: svc_init_def)
  from revoked_never_admitted [OF h _ run_nil n _ this] h show ?thesis by simp
qed


lemma handler_closes_resources_witness:
  "fl_closed (snd (HandleConn demo_primitives (demo_env\<lparr>he_dial := \<lambda>n a.
     Inl \<lparr>de_err = Sent ''syscall.ECONNREFUSED'', de_timeout = False\<rparr>\<rparr>) demo_client demo_writer))
   = [ClientConn]"
proof -
  let ?env = "demo_env\<lparr>he_dial := \<lambda>n a. Inl \<lparr>de_err = Sent ''syscall.ECONNREFUSED'', de_timeout = False\<rparr>\<rparr>"
  obtain err fl where h: "HandleConn demo_primitives ?env demo_client demo_writer = (err, fl)"
    by (metis surj_pair)
  have "fl_opened (snd (HandleConn demo_primitives ?env demo_client demo_writer)) = [ClientConn]"
    by code_simp
  moreover have "he_ctx_err ?env = None" by (simp add: demo_env_def)
  ultimately show ?thesis
    using handler_closes_resources [OF h] h by (simp add: rev_swap [symmetric])
qed

text \<open>
  The exception is real: a dial that succeeds while the context ends leaves the upstream open
  (\<open>server.go\<close> returns before \<open>defer upstream.Close()\<close>).
\<close>

lemma upstream_left_open:
  "let fl = snd (HandleConn demo_primitives (demo_env\<lparr>he_ctx_err := Some ContextCanceled\<rparr>) demo_client
     demo_writer) in fl_opened fl = [ClientConn, UpstreamConn] \<and> fl_closed fl = [ClientConn]"
  by code_simp

end
