(* ===== verification/Socks_Relay.thy ===== *)
theory Socks_Relay
  imports Socks_Server
begin

text \<open>
  The data phase: the two pumps of a UDP association and the end of its relay
  (\<open>internal/socks/udp.go\<close>), and the end of the TCP relay
  (\<open>internal/kuaifan/wifiin/relay.go\<close>).
\<close>

section \<open>From the client to the tunnel\<close>

text \<open>
  What \<open>ReadMsgUDP\<close> returns, call by call: a datagram cut to the buffer of 65535 bytes, whether it
  was truncated, and its source; then an error. Bad datagrams and datagrams from elsewhere are
  skipped; the loop ends with the first error of the socket or of the tunnel.
\<close>

definition maxUDPDatagramSize :: nat where "maxUDPDatagramSize = 65535"

record datagram =
  dg_data :: bytes
  dg_truncated :: bool
  dg_source :: "(bytes \<times> int \<times> string) option"

definition skippable :: "go_error \<Rightarrow> bool" where
  "skippable err \<longleftrightarrow> errors_is err ErrInvalidUDPDatagram \<or> errors_is err ErrFragmentedUDP
     \<or> errors_is err ErrUnsupportedUDPAddress"

fun clientToUOT ::
  "datagram list \<Rightarrow> go_error \<Rightarrow> udpAssociation \<Rightarrow> writer \<Rightarrow> go_error \<times> udpAssociation \<times> writer"
where
  "clientToUOT [] err a w = (Wrap ''socks: read client UDP datagram'' err, a, w)"
| "clientToUOT (d # ds) err a w =
     (if dg_truncated d then clientToUOT ds err a w
      else case acceptSource a (dg_source d) of
        (False, a) \<Rightarrow> clientToUOT ds err a w
      | (True, a) \<Rightarrow>
          (case WriteSOCKSDatagram (ua_flowID a) (dg_data d) w of
             (None, w) \<Rightarrow> clientToUOT ds err a w
           | (Some e, w) \<Rightarrow> if skippable e then clientToUOT ds err a w else (e, a, w)))"

section \<open>From the tunnel to the client\<close>

text \<open>
  Each frame is read with a buffer of 65535 bytes; one of this flow is sent to the endpoint loaded
  at that moment (\<open>endpoints\<close>, by the number of the load), with the error of \<open>WriteToUDP\<close>. The
  result lists what was sent.
\<close>

lemma ReadSOCKSDatagram_shrinks:
  "ReadSOCKSDatagram n st = (Inr x, st') \<Longrightarrow> length (st_data st') < length (st_data st)"
proof (induction n st rule: ReadSOCKSDatagram.induct)
  case (1 n st)
  obtain prefix r1 where p: "read_full 2 st = (Inr prefix, r1)"
    using "1.prems" by (subst (asm) ReadSOCKSDatagram.simps) (auto split: prod.splits sum.splits)
  then have lt: "length (st_data r1) < length (st_data st)" by (auto dest: read_full_InrD)
  show ?case
  proof (cases "unat (be16_val (prefix ! 0) (prefix ! 1)) = 0")
    case True
    then have "ReadSOCKSDatagram n r1 = (Inr x, st')"
      using "1.prems" p by (subst (asm) ReadSOCKSDatagram.simps) (simp add: Let_def)
    with "1.IH" [OF p [symmetric] refl refl] True lt show ?thesis by fastforce
  next
    case False
    then obtain body where "read_full (unat (be16_val (prefix ! 0) (prefix ! 1))) r1 = (Inr body, st')"
      using "1.prems" p
      by (subst (asm) ReadSOCKSDatagram.simps) (auto simp: Let_def split: prod.splits sum.splits)
    then show ?thesis using lt by (auto dest: read_full_InrD)
  qed
qed

function uotToClient ::
  "(nat \<Rightarrow> (bytes \<times> int \<times> string) option) \<Rightarrow> (nat \<Rightarrow> go_error option) \<Rightarrow> u16 \<Rightarrow> nat \<Rightarrow> stream \<Rightarrow>
   (bytes \<times> (bytes \<times> int \<times> string)) list \<times> go_error \<times> stream"
where
  "uotToClient endpoints writes flow i st =
     (case ReadSOCKSDatagram maxUDPDatagramSize st of
        (Inl err, st) \<Rightarrow> ([], Wrap ''socks: read WIFIIN UOT datagram'' err, st)
      | (Inr (packet, flowID), st') \<Rightarrow>
          if flowID \<noteq> flow then uotToClient endpoints writes flow i st'
          else (case endpoints i of
              None \<Rightarrow> uotToClient endpoints writes flow (Suc i) st'
            | Some endpoint \<Rightarrow>
                (case writes i of
                   Some e \<Rightarrow> ([(packet, endpoint)], Wrap ''socks: write client UDP datagram'' e, st')
                 | None \<Rightarrow>
                     (case uotToClient endpoints writes flow (Suc i) st' of
                        (sent, err, st'') \<Rightarrow> ((packet, endpoint) # sent, err, st'')))))"
  by auto
termination
  by (relation "measure (\<lambda>(_, _, _, _, st). length (st_data st))")
    (auto dest: ReadSOCKSDatagram_shrinks [OF sym])

declare uotToClient.simps [simp del]

section \<open>The end of the relays\<close>

text \<open>
  \<open>watchUDPControl\<close> reads and discards until the control connection fails: the end of its data
  is no error. \<open>relayUDPAssociation\<close> takes the first result of the three goroutines, closes the
  socket and both connections, and reports a cancelled context first and an orderly end as none.
\<close>

definition watchUDPControl :: "stream \<Rightarrow> go_error option" where
  "watchUDPControl control = (if errors_is (st_err control) EOF then None else Some (st_err control))"

definition relayUDPAssociation :: "go_error option \<Rightarrow> go_error option \<Rightarrow> go_error option" where
  "relayUDPAssociation ctx_err first =
     (case ctx_err of
        Some e \<Rightarrow> Some e
      | None \<Rightarrow>
          (case first of
             None \<Rightarrow> None
           | Some err \<Rightarrow>
               if errors_is err EOF \<or> errors_is err ErrNetClosed \<or> errors_is err ErrClosedPipe
               then None else Some err))"

text \<open>
  One direction of \<open>Relay\<close> after its copy: half close (or close) the destination when the source
  ended, and close both connections after a real error.
\<close>

datatype side = LeftConn | RightConn

datatype close_action = HalfClose side | FullClose side

definition pump_end ::
  "side \<Rightarrow> bool \<Rightarrow> (close_action \<Rightarrow> go_error option) \<Rightarrow> go_error option \<Rightarrow> go_error option \<times> close_action list"
where
  "pump_end dst half close_err copied =
     (let (err, acts) =
        (case copied of
           None \<Rightarrow> let a = (if half then HalfClose dst else FullClose dst) in (close_err a, [a])
         | Some e \<Rightarrow> (Some e, []))
      in (err, acts @ (case err of
            Some e \<Rightarrow> if errors_is e ErrNetClosed then [] else [FullClose LeftConn, FullClose RightConn]
          | None \<Rightarrow> [])))"

definition Relay_result :: "go_error option \<Rightarrow> go_error option \<Rightarrow> go_error option \<Rightarrow> go_error option" where
  "Relay_result err1 err2 ctx_err =
     (case err1 of
        Some e \<Rightarrow> if \<not> errors_is e ErrNetClosed then Some e else
          (case err2 of
             Some e2 \<Rightarrow> if \<not> errors_is e2 ErrNetClosed then Some e2 else ctx_err
           | None \<Rightarrow> ctx_err)
      | None \<Rightarrow>
          (case err2 of
             Some e2 \<Rightarrow> if \<not> errors_is e2 ErrNetClosed then Some e2 else ctx_err
           | None \<Rightarrow> ctx_err))"

section \<open>Isolation of associations\<close>

text \<open>The datagrams that belong to the association: from its client, from the pinned port.\<close>

definition from_client :: "udpAssociation \<Rightarrow> datagram \<Rightarrow> bool" where
  "from_client a d \<longleftrightarrow> \<not> dg_truncated d \<and>
     (\<exists>ip port zone p. dg_source d = Some (ip, port, zone) \<and> 1 \<le> port \<and> port \<le> 65535
        \<and> AddrFromSlice ip = Some p \<and> addr_Unmap p = ua_clientIP a)"

definition source_port :: "datagram \<Rightarrow> int" where
  "source_port d = (case dg_source d of Some (ip, port, zone) \<Rightarrow> port | None \<Rightarrow> 0)"

definition pinned_port :: "udpAssociation \<Rightarrow> datagram list \<Rightarrow> int option" where
  "pinned_port a ds =
     (case ua_endpoint a of
        Some (ip, port, zone) \<Rightarrow> Some port
      | None \<Rightarrow> map_option source_port (find (from_client a) ds))"

lemma acceptSource_iff:
  assumes "\<not> dg_truncated d" and "acceptSource a (dg_source d) = (b, a')"
  shows "ua_clientIP a' = ua_clientIP a \<and> ua_flowID a' = ua_flowID a
    \<and> (b \<longleftrightarrow> from_client a d \<and> pinned_port a [d] = Some (source_port d))
    \<and> (if ua_endpoint a = None \<and> from_client a d then ua_endpoint a' = dg_source d
       else a' = a)"
  using assms
  by (auto simp: acceptSource_def from_client_def pinned_port_def source_port_def
      split: option.splits prod.splits if_splits)

lemma writeFull_open: "wr_script w = [] \<Longrightarrow> writeFull p w = (None, w\<lparr>wr_out := wr_out w @ p\<rparr>)"
  by (subst writeFull.simps, cases "p = []") (auto simp: wr_write_def writeFull.simps [of "[]"])

definition uot_frame :: "u16 \<Rightarrow> bytes \<Rightarrow> bytes" where
  "uot_frame flow d = wr_out (snd (WriteSOCKSDatagram flow d \<lparr>wr_script = [], wr_out = []\<rparr>))"

lemma WriteSOCKSDatagram_open:
  assumes "wr_script w = []"
  shows "\<exists>e. WriteSOCKSDatagram flow d w = (e, w\<lparr>wr_out := wr_out w @ uot_frame flow d\<rparr>)
    \<and> (\<forall>x. e = Some x \<longrightarrow> skippable x)"
  using assms
  by (auto simp: uot_frame_def WriteSOCKSDatagram_def writeFull_open skippable_def Let_def
      split: sum.splits if_splits)

text \<open>
  C24: An association sends into the tunnel exactly the client's datagrams. Over a tunnel that takes
  what is written, the bytes that \<open>clientToUOT\<close> adds are, in order, the frames of those datagrams
  that were not truncated, came from the control connection's address and from the pinned port -
  the requested one, or that of the first such datagram - with the association's own flow
  identifier. Malformed, fragmented and non-IPv4 datagrams add nothing and do not end the loop,
  and neither do datagrams from elsewhere: it ends with the socket's error.
\<close>

theorem udp_client_isolation:
  assumes "wr_script w = []" and "clientToUOT ds err a w = (e, a', w')"
  shows "e = Wrap ''socks: read client UDP datagram'' err
    \<and> wr_out w' = wr_out w @ concat (map (\<lambda>d. uot_frame (ua_flowID a) (dg_data d))
        (filter (\<lambda>d. from_client a d \<and> pinned_port a ds = Some (source_port d)) ds))"
  using assms
proof (induction ds err a w rule: clientToUOT.induct)
  case (2 d ds err a w)
  show ?case
  proof (cases "dg_truncated d")
    case True
    then have "\<not> from_client a d" by (simp add: from_client_def)
    then show ?thesis
      using "2.IH"(1) [OF True "2.prems"(1)] "2.prems"(2) True
      by (auto simp: pinned_port_def split: option.splits)
  next
    case False
    obtain b a1 where acc: "acceptSource a (dg_source d) = (b, a1)" by (metis surj_pair)
    note iff = acceptSource_iff [OF False acc]
    have fc: "from_client a1 = from_client a" using iff by (simp add: from_client_def fun_eq_iff)
    have pin: "pinned_port a1 ds = pinned_port a (d # ds)" if "b \<or> \<not> from_client a d \<or> ua_endpoint a \<noteq> None"
      using iff that
      by (cases "ua_endpoint a"; cases "from_client a d")
        (auto simp: pinned_port_def from_client_def source_port_def split: if_splits)
    have here: "b \<longleftrightarrow> from_client a d \<and> pinned_port a (d # ds) = Some (source_port d)"
      using iff by (auto simp: pinned_port_def split: option.splits)
    have pin': "pinned_port a1 ds = pinned_port a (d # ds)"
    proof (cases "ua_endpoint a = None \<and> from_client a d")
      case True
      then have b using here by (simp add: pinned_port_def)
      then show ?thesis using pin by blast
    next
      case False
      then show ?thesis using pin by blast
    qed
    show ?thesis
    proof (cases b)
      case b: False
      then have "clientToUOT ds err a1 w = (e, a', w')" using "2.prems"(2) False acc by simp
      moreover have "(False, a1) = acceptSource a (dg_source d)" using acc b by simp
      ultimately have "e = Wrap ''socks: read client UDP datagram'' err
        \<and> wr_out w' = wr_out w @ concat (map (\<lambda>d. uot_frame (ua_flowID a1) (dg_data d))
            (filter (\<lambda>d. from_client a1 d \<and> pinned_port a1 ds = Some (source_port d)) ds))"
        using "2.IH"(4) [OF False _ refl "2.prems"(1)] by blast
      then show ?thesis
        using here b fc pin' iff by auto
    next
      case b: True
      obtain x where wr: "WriteSOCKSDatagram (ua_flowID a1) (dg_data d) w
          = (x, w\<lparr>wr_out := wr_out w @ uot_frame (ua_flowID a1) (dg_data d)\<rparr>)"
          "\<forall>y. x = Some y \<longrightarrow> skippable y"
        using WriteSOCKSDatagram_open [OF "2.prems"(1)] by blast
      let ?w = "w\<lparr>wr_out := wr_out w @ uot_frame (ua_flowID a1) (dg_data d)\<rparr>"
      have run: "clientToUOT ds err a1 ?w = (e, a', w')"
        using "2.prems"(2) False acc b wr by (cases x) auto
      have acc': "(True, a1) = acceptSource a (dg_source d)" using acc b by simp
      have script: "wr_script ?w = []" using "2.prems"(1) by simp
      have "e = Wrap ''socks: read client UDP datagram'' err
        \<and> wr_out w' = wr_out ?w @ concat (map (\<lambda>d. uot_frame (ua_flowID a1) (dg_data d))
            (filter (\<lambda>d. from_client a1 d \<and> pinned_port a1 ds = Some (source_port d)) ds))"
      proof (cases x)
        case None
        from "2.IH"(2) [OF False acc' refl wr(1) [symmetric] None script run] show ?thesis .
      next
        case (Some y)
        from "2.IH"(3) [OF False acc' refl wr(1) [symmetric] Some _ script run] wr(2) Some
        show ?thesis by blast
      qed
      then show ?thesis using here b fc pin' iff by simp
    qed
  qed
qed simp

lemma uot_frame_read:
  assumes "fst (WriteSOCKSDatagram f d \<lparr>wr_script = [], wr_out = []\<rparr>) = None" and "length d \<le> n"
  shows "ReadSOCKSDatagram n \<lparr>st_data = uot_frame f d @ rest, st_err = e\<rparr>
    = (Inr (d, f), \<lparr>st_data = rest, st_err = e\<rparr>)"
proof -
  obtain w' where w: "WriteSOCKSDatagram f d \<lparr>wr_script = [], wr_out = []\<rparr> = (None, w')"
    using assms(1) by (metis prod.collapse)
  from writer_accepts [OF w] obtain inner where i: "d = 0 # 0 # 0 # 1 # inner" "6 \<le> length inner"
      "length inner \<le> 65532"
      "wr_out w' = be16 (of_nat (length (uot_body f d))) @ uot_body f d" by auto
  have len: "length (uot_body f d) = length inner + 3" using i(1,2) by (simp add: uot_body_def)
  have "uot_frame f d = be16 (of_nat (length (uot_body f d))) @ uot_body f d"
    using w i(4) by (simp add: uot_frame_def)
  then show ?thesis
    using ReadSOCKSDatagram_frame [of "uot_body f d"] len i(3) uot_decode_body [OF i(1,2) assms(2)] by simp
qed

text \<open>
  A client receives exactly its own answers. Whatever datagrams of whatever flows the server
  multiplexes into one tunnel, \<open>uotToClient\<close> passes those of the association's flow, unchanged and
  in order, to the client's endpoint, drops the others, and returns when the tunnel ends with the
  tunnel's error.
\<close>

theorem udp_answers_demultiplexed:
  assumes "\<forall>(f, d)\<in>set fs. fst (WriteSOCKSDatagram f d \<lparr>wr_script = [], wr_out = []\<rparr>) = None
      \<and> length d \<le> maxUDPDatagramSize"
  shows "uotToClient (\<lambda>_. Some endpoint) (\<lambda>_. None) flow i
      \<lparr>st_data = concat (map (\<lambda>(f, d). uot_frame f d) fs), st_err = e\<rparr>
    = (map (\<lambda>(f, d). (d, endpoint)) (filter (\<lambda>(f, d). f = flow) fs),
       Wrap ''socks: read WIFIIN UOT datagram'' (Wrap ''wifiin: read UOT frame length'' e),
       \<lparr>st_data = [], st_err = e\<rparr>)"
  using assms
proof (induction fs arbitrary: i)
  case Nil
  have "ReadSOCKSDatagram maxUDPDatagramSize \<lparr>st_data = [], st_err = e\<rparr>
      = (Inl (Wrap ''wifiin: read UOT frame length'' e), \<lparr>st_data = [], st_err = e\<rparr>)"
    by (subst ReadSOCKSDatagram.simps) (simp add: read_full_def)
  then show ?case by (subst uotToClient.simps) simp
next
  case (Cons x fs)
  obtain f d where x: "x = (f, d)" by (metis surj_pair)
  have "ReadSOCKSDatagram maxUDPDatagramSize \<lparr>st_data = uot_frame f d
        @ concat (map (\<lambda>(f, d). uot_frame f d) fs), st_err = e\<rparr>
      = (Inr (d, f), \<lparr>st_data = concat (map (\<lambda>(f, d). uot_frame f d) fs), st_err = e\<rparr>)"
    using Cons.prems x by (intro uot_frame_read) auto
  moreover have "uotToClient (\<lambda>_. Some endpoint) (\<lambda>_. None) flow j
      \<lparr>st_data = concat (map (\<lambda>(f, d). uot_frame f d) fs), st_err = e\<rparr>
    = (map (\<lambda>(f, d). (d, endpoint)) (filter (\<lambda>(f, d). f = flow) fs),
       Wrap ''socks: read WIFIIN UOT datagram'' (Wrap ''wifiin: read UOT frame length'' e),
       \<lparr>st_data = [], st_err = e\<rparr>)" for j
    using Cons by simp
  ultimately show ?case by (subst uotToClient.simps) (simp add: x)
qed

definition demo_datagram :: bytes where
  "demo_datagram = [0, 0, 0, 1, 127, 0, 0, 1, 0, 53, 42]"

definition demo_association :: udpAssociation where
  "demo_association = \<lparr>ua_local = UDPAddr [127, 0, 0, 1] 6000 [], ua_clientIP = IP4 [127, 0, 0, 1],
     ua_flowID = 6000, ua_endpoint = None\<rparr>"

lemma udp_answers_demultiplexed_witness:
  "fst (uotToClient (\<lambda>_. Some ([127, 0, 0, 1], 7, [])) (\<lambda>_. None) 6000 0
     \<lparr>st_data = uot_frame 5 demo_datagram @ uot_frame 6000 demo_datagram, st_err = EOF\<rparr>)
   = [(demo_datagram, ([127, 0, 0, 1], 7, []))]"
proof -
  have "fst (WriteSOCKSDatagram 5 demo_datagram \<lparr>wr_script = [], wr_out = []\<rparr>) = None"
    "fst (WriteSOCKSDatagram 6000 demo_datagram \<lparr>wr_script = [], wr_out = []\<rparr>) = None" by code_simp+
  then show ?thesis
    using udp_answers_demultiplexed [of "[(5, demo_datagram), (6000, demo_datagram)]"
        "([127, 0, 0, 1], 7, [])" 6000 0 EOF]
    by (simp add: maxUDPDatagramSize_def demo_datagram_def)
qed

lemma udp_client_isolation_witness:
  "wr_out (snd (snd (clientToUOT
     [\<lparr>dg_data = demo_datagram, dg_truncated = False, dg_source = Some ([10, 0, 0, 1], 7, [])\<rparr>,
      \<lparr>dg_data = demo_datagram, dg_truncated = False, dg_source = Some ([127, 0, 0, 1], 7, [])\<rparr>,
      \<lparr>dg_data = demo_datagram, dg_truncated = False, dg_source = Some ([127, 0, 0, 1], 8, [])\<rparr>]
     ErrNetClosed demo_association \<lparr>wr_script = [], wr_out = []\<rparr>))) = uot_frame 6000 demo_datagram"
proof -
  let ?ds = "[\<lparr>dg_data = demo_datagram, dg_truncated = False, dg_source = Some ([10, 0, 0, 1], 7, [])\<rparr>,
      \<lparr>dg_data = demo_datagram, dg_truncated = False, dg_source = Some ([127, 0, 0, 1], 7, [])\<rparr>,
      \<lparr>dg_data = demo_datagram, dg_truncated = False, dg_source = Some ([127, 0, 0, 1], 8, [])\<rparr>]
      :: datagram list"
  obtain e a' w' where run: "clientToUOT ?ds ErrNetClosed demo_association \<lparr>wr_script = [], wr_out = []\<rparr>
      = (e, a', w')" by (metis prod_cases3)
  show ?thesis
    using udp_client_isolation [OF _ run] run
    by (simp add: demo_association_def from_client_def pinned_port_def source_port_def
        AddrFromSlice_def AddrFrom4_def)
qed

end
