(* ===== verification/Socks_Lifecycle.thy ===== *)
theory Socks_Lifecycle
  imports Socks_Server
begin

text \<open>
  The server object of \<open>internal/socks/server.go\<close>: construction, the accept loop with its slots,
  the set of active handlers and the \<open>drained\<close> channel that \<open>Shutdown\<close> waits on. Every method
  body under \<open>lifecycleMu\<close> is one function; what the accept loop and the handler goroutines do
  around them is a step relation, so that a shutdown can come between any two of them.
\<close>

section \<open>The server and its operations\<close>

text \<open>
  Connections, listeners and channels are identified by numbers. A channel that is closed twice
  panics: \<open>sv_panicked\<close>.
\<close>

record Server =
  sv_handshakeTimeout :: duration
  sv_maxConnections :: nat
  sv_slots :: nat
  sv_selectors :: Registry
  sv_listener :: "nat option"
  sv_shuttingDown :: bool
  sv_active :: "nat list"
  sv_drained :: nat
  sv_channels :: nat
  sv_closed :: "nat list"
  sv_panicked :: bool

definition defaultHandshakeTimeout :: duration where "defaultHandshakeTimeout = 10 * second"
definition defaultMaxConnections :: int where "defaultMaxConnections = 1024"
definition maximumMaxConnections :: int where "maximumMaxConnections = 65536"

text \<open>
  \<open>New\<close>; the snapshot source and the dialler are interfaces whose presence only is checked here
  (a missing dialler is replaced by the standard one).
\<close>

definition NewServer :: "bool \<Rightarrow> Registry option \<Rightarrow> duration \<Rightarrow> int \<Rightarrow> go_error + Server" where
  "NewServer has_snapshots selectors handshakeTimeout maxConnections =
     (if \<not> has_snapshots then Inl (New ''socks: snapshot source is required'')
      else case selectors of
        None \<Rightarrow> Inl (New ''socks: selector registry is required'')
      | Some registry \<Rightarrow>
          let timeout = (if handshakeTimeout = 0 then defaultHandshakeTimeout else handshakeTimeout) in
          if timeout < 0 then Inl (New ''socks: handshake timeout must be positive'')
          else
            let n = (if maxConnections = 0 then defaultMaxConnections else maxConnections) in
            if n < 1 \<or> n > maximumMaxConnections then Inl (New ''socks: max connections must be in 1..%d'')
            else Inr \<lparr>sv_handshakeTimeout = timeout, sv_maxConnections = nat n, sv_slots = 0,
              sv_selectors = registry, sv_listener = None, sv_shuttingDown = False, sv_active = [],
              sv_drained = 0, sv_channels = 1, sv_closed = [0], sv_panicked = False\<rparr>)"

definition SetSelectors :: "Registry option \<Rightarrow> Server \<Rightarrow> go_error option \<times> Server" where
  "SetSelectors registry s =
     (case registry of
        None \<Rightarrow> (Some (New ''socks: selector registry is required''), s)
      | Some r \<Rightarrow> (None, s\<lparr>sv_selectors := r\<rparr>))"

definition beginServe :: "nat \<Rightarrow> Server \<Rightarrow> go_error option \<times> Server" where
  "beginServe listener s =
     (if sv_shuttingDown s then (Some (New ''socks: server is shutting down''), s)
      else if sv_listener s \<noteq> None then (Some (New ''socks: server is already serving''), s)
      else (None, s\<lparr>sv_listener := Some listener\<rparr>))"

definition endServe :: "nat \<Rightarrow> Server \<Rightarrow> Server" where
  "endServe listener s = (if sv_listener s = Some listener then s\<lparr>sv_listener := None\<rparr> else s)"

definition accepting :: "nat \<Rightarrow> Server \<Rightarrow> bool" where
  "accepting listener s \<longleftrightarrow> \<not> sv_shuttingDown s \<and> sv_listener s = Some listener"

definition close_channel :: "nat \<Rightarrow> Server \<Rightarrow> Server" where
  "close_channel ch s =
     (if ch \<in> set (sv_closed s) then s\<lparr>sv_panicked := True\<rparr>
      else s\<lparr>sv_closed := ch # sv_closed s\<rparr>)"

definition addActiveHandler :: "nat \<Rightarrow> Server \<Rightarrow> bool \<times> Server" where
  "addActiveHandler connection s =
     (if sv_shuttingDown s then (False, s)
      else
        let s = (if sv_active s = [] then s\<lparr>sv_drained := sv_channels s, sv_channels := Suc (sv_channels s)\<rparr>
                 else s)
        in (True, s\<lparr>sv_active := List.insert connection (sv_active s)\<rparr>))"

definition removeActiveHandler :: "nat \<Rightarrow> Server \<Rightarrow> Server" where
  "removeActiveHandler connection s =
     (let s = s\<lparr>sv_active := removeAll connection (sv_active s)\<rparr> in
      if sv_active s = [] then close_channel (sv_drained s) s else s)"

text \<open>\<open>Shutdown\<close> up to its wait: the channel it waits on and the listener it closes.\<close>

definition beginShutdown :: "Server \<Rightarrow> nat \<times> nat option \<times> Server" where
  "beginShutdown s =
     (sv_drained s, sv_listener s, s\<lparr>sv_shuttingDown := True, sv_listener := None\<rparr>)"

text \<open>The wait: it returns when the channel is closed, or forces the handlers when its context ends.\<close>

definition forceActiveHandlers :: "Server \<Rightarrow> nat list" where
  "forceActiveHandlers s = sv_active s"

definition awaitDrained :: "nat \<Rightarrow> go_error option \<Rightarrow> Server \<Rightarrow> (go_error option \<times> nat list) option" where
  "awaitDrained ch ctx_done s =
     (if ch \<in> set (sv_closed s) then Some (None, [])
      else case ctx_done of
        Some err \<Rightarrow> Some (Some err, forceActiveHandlers s)
      | None \<Rightarrow> None)"

section \<open>The accept loop and the handlers\<close>

text \<open>
  Beside the server: the connection the loop has taken a slot for and not yet registered, the
  handler goroutines that run, those that have removed themselves and not yet given their slot
  back, and the channels that calls of \<open>Shutdown\<close> wait on. Accepted connections are new.
\<close>

record Serving =
  sg_server :: Server
  sg_pending :: "nat option"
  sg_running :: "nat list"
  sg_releasing :: nat
  sg_waiting :: "nat list"
  sg_next :: nat

datatype serve_action =
    SBegin nat | SEnd nat | SAccept | SRefuse | SRegister | SFinish nat | SRelease | SShutdown
  | SSelectors Registry

inductive serve_step :: "Serving \<Rightarrow> serve_action \<Rightarrow> Serving \<Rightarrow> bool" where
  begin_serve: "beginServe l (sg_server g) = (r, s) \<Longrightarrow> serve_step g (SBegin l) (g\<lparr>sg_server := s\<rparr>)"
| end_serve: "serve_step g (SEnd l) (g\<lparr>sg_server := endServe l (sg_server g)\<rparr>)"
| accept: "sg_pending g = None \<Longrightarrow> sv_slots (sg_server g) < sv_maxConnections (sg_server g) \<Longrightarrow>
    serve_step g SAccept (g\<lparr>sg_server := (sg_server g)\<lparr>sv_slots := Suc (sv_slots (sg_server g))\<rparr>,
      sg_pending := Some (sg_next g), sg_next := Suc (sg_next g)\<rparr>)"
| refuse: "sg_pending g = None \<Longrightarrow> \<not> sv_slots (sg_server g) < sv_maxConnections (sg_server g) \<Longrightarrow>
    serve_step g SRefuse (g\<lparr>sg_next := Suc (sg_next g)\<rparr>)"
| register: "sg_pending g = Some c \<Longrightarrow> addActiveHandler c (sg_server g) = (True, s) \<Longrightarrow>
    serve_step g SRegister (g\<lparr>sg_server := s, sg_pending := None, sg_running := c # sg_running g\<rparr>)"
| register_late: "sg_pending g = Some c \<Longrightarrow> addActiveHandler c (sg_server g) = (False, s) \<Longrightarrow>
    serve_step g SRegister (g\<lparr>sg_server := s\<lparr>sv_slots := sv_slots s - 1\<rparr>, sg_pending := None\<rparr>)"
| finish: "c \<in> set (sg_running g) \<Longrightarrow>
    serve_step g (SFinish c) (g\<lparr>sg_server := removeActiveHandler c (sg_server g),
      sg_running := removeAll c (sg_running g), sg_releasing := Suc (sg_releasing g)\<rparr>)"
| release: "sg_releasing g = Suc n \<Longrightarrow>
    serve_step g SRelease (g\<lparr>sg_server := (sg_server g)\<lparr>sv_slots := sv_slots (sg_server g) - 1\<rparr>,
      sg_releasing := n\<rparr>)"
| shutdown: "beginShutdown (sg_server g) = (ch, l, s) \<Longrightarrow>
    serve_step g SShutdown (g\<lparr>sg_server := s, sg_waiting := ch # sg_waiting g\<rparr>)"
| selectors: "SetSelectors (Some r) (sg_server g) = (None, s) \<Longrightarrow>
    serve_step g (SSelectors r) (g\<lparr>sg_server := s\<rparr>)"

inductive_cases serve_stepE: "serve_step g a g'"

definition serving_init :: "Server \<Rightarrow> Serving" where
  "serving_init s = \<lparr>sg_server = s, sg_pending = None, sg_running = [], sg_releasing = 0,
     sg_waiting = [], sg_next = 0\<rparr>"

inductive serve_reach :: "Serving \<Rightarrow> bool" where
  serve_start: "NewServer b sel t n = Inr s \<Longrightarrow> serve_reach (serving_init s)"
| serve_more: "serve_reach g \<Longrightarrow> serve_step g a g' \<Longrightarrow> serve_reach g'"

inductive serve_run :: "Serving \<Rightarrow> serve_action list \<Rightarrow> Serving \<Rightarrow> bool" where
  serve_nil: "serve_run g [] g"
| serve_cons: "serve_step g a g1 \<Longrightarrow> serve_run g1 as g2 \<Longrightarrow> serve_run g (a # as) g2"

section \<open>The invariant\<close>

text \<open>
  The active map holds exactly the running handlers; slots are accounted for; the current
  channel is closed exactly when no handler is active; and once shutting down, every waiting
  \<open>Shutdown\<close> waits on the current channel.
\<close>

definition server_ok :: "Server \<Rightarrow> bool" where
  "server_ok s \<longleftrightarrow> \<not> sv_panicked s \<and> sv_drained s < sv_channels s
     \<and> (\<forall>ch\<in>set (sv_closed s). ch < sv_channels s)
     \<and> (sv_active s = [] \<longleftrightarrow> sv_drained s \<in> set (sv_closed s))"

definition serving_ok :: "Serving \<Rightarrow> bool" where
  "serving_ok g \<longleftrightarrow> server_ok (sg_server g)
     \<and> set (sv_active (sg_server g)) = set (sg_running g) \<and> distinct (sg_running g)
     \<and> (\<forall>c\<in>set (sg_running g). c < sg_next g) \<and> (\<forall>c. sg_pending g = Some c \<longrightarrow> c < sg_next g \<and> c \<notin> set (sg_running g))
     \<and> sv_slots (sg_server g) = (if sg_pending g = None then 0 else 1) + length (sg_running g) + sg_releasing g
     \<and> sv_slots (sg_server g) \<le> sv_maxConnections (sg_server g)
     \<and> (sv_shuttingDown (sg_server g) \<longleftrightarrow> sg_waiting g \<noteq> [])
     \<and> (\<forall>ch\<in>set (sg_waiting g). ch = sv_drained (sg_server g))"

lemma NewServer_ok: "NewServer b sel t n = Inr s \<Longrightarrow> serving_ok (serving_init s)"
  by (auto simp: NewServer_def serving_init_def serving_ok_def server_ok_def Let_def
      split: if_splits option.splits)

lemma insert_not_Nil [simp]: "List.insert c xs \<noteq> []"
  by (cases xs) (auto simp: List.insert_def)

lemma addActiveHandler_cases:
  assumes "addActiveHandler c s = (b, s')" and "server_ok s"
  shows "b = (\<not> sv_shuttingDown s) \<and> server_ok s' \<and> sv_slots s' = sv_slots s
    \<and> sv_maxConnections s' = sv_maxConnections s \<and> sv_shuttingDown s' = sv_shuttingDown s
    \<and> (if b then set (sv_active s') = insert c (set (sv_active s)) else s' = s)"
  using assms
  by (auto simp: addActiveHandler_def server_ok_def Let_def less_SucI split: if_splits)

lemma removeActiveHandler_cases:
  assumes "server_ok s" and "c \<in> set (sv_active s)"
  shows "server_ok (removeActiveHandler c s)
    \<and> sv_active (removeActiveHandler c s) = removeAll c (sv_active s)
    \<and> sv_drained (removeActiveHandler c s) = sv_drained s
    \<and> sv_slots (removeActiveHandler c s) = sv_slots s
    \<and> sv_maxConnections (removeActiveHandler c s) = sv_maxConnections s
    \<and> sv_shuttingDown (removeActiveHandler c s) = sv_shuttingDown s"
proof -
  have "sv_active s \<noteq> []" using assms(2) by auto
  then show ?thesis
    using assms(1) by (auto simp: removeActiveHandler_def close_channel_def server_ok_def Let_def)
qed

lemma serving_ok_step: "serve_step g a g' \<Longrightarrow> serving_ok g \<Longrightarrow> serving_ok g'"
proof (induction rule: serve_step.induct)
  case (register g c s)
  then show ?case
    using addActiveHandler_cases [OF register(2)] by (auto simp: serving_ok_def)
next
  case (register_late g c s)
  then show ?case
    using addActiveHandler_cases [OF register_late(2)] by (auto simp: serving_ok_def server_ok_def)
next
  case (finish c g)
  have "length (removeAll c (sg_running g)) = length (sg_running g) - 1"
    using finish by (simp add: serving_ok_def length_remove1 distinct_remove1_removeAll [symmetric])
  moreover have "0 < length (sg_running g)" using finish(1) by auto
  moreover have "c \<in> set (sv_active (sg_server g))" "server_ok (sg_server g)"
    using finish by (auto simp: serving_ok_def)
  ultimately show ?case
    using finish removeActiveHandler_cases [of "sg_server g" c]
    by (auto simp: serving_ok_def distinct_removeAll)
qed (auto simp: serving_ok_def server_ok_def beginServe_def endServe_def beginShutdown_def
    SetSelectors_def less_Suc_eq split: if_splits)

lemma serving_ok_reach: "serve_reach g \<Longrightarrow> serving_ok g"
  by (induction rule: serve_reach.induct) (auto intro: NewServer_ok serving_ok_step)

text \<open>
  C22: The server's bookkeeping under every interleaving of accepting, handlers, \<open>Serve\<close> and
  \<open>Shutdown\<close>: no channel is closed twice (which would panic), the active map holds exactly the
  running handlers, at most the configured number of connections hold a slot, every slot is
  accounted for, and the \<open>drained\<close> channel is closed exactly when no handler is active.
\<close>

theorem lifecycle_invariant:
  assumes "serve_reach g"
  shows "\<not> sv_panicked (sg_server g)
    \<and> set (sv_active (sg_server g)) = set (sg_running g)
    \<and> length (sg_running g) + sg_releasing g + (if sg_pending g = None then 0 else 1)
        = sv_slots (sg_server g)
    \<and> sv_slots (sg_server g) \<le> sv_maxConnections (sg_server g)
    \<and> (sv_drained (sg_server g) \<in> set (sv_closed (sg_server g)) \<longleftrightarrow> sg_running g = [])"
proof -
  have ok: "serving_ok g" by (rule serving_ok_reach [OF assms])
  then have "sv_active (sg_server g) = [] \<longleftrightarrow> sg_running g = []"
    by (metis serving_ok_def set_empty)
  then show ?thesis using ok by (auto simp: serving_ok_def server_ok_def)
qed

text \<open>After a shutdown has begun nothing registers any more, and its channel stays the current one.\<close>

lemma shutdown_step:
  assumes "serve_step g a g'" and "serving_ok g" and "sv_shuttingDown (sg_server g)"
  shows "sv_shuttingDown (sg_server g') \<and> set (sg_running g') \<subseteq> set (sg_running g)
    \<and> set (sg_waiting g) \<subseteq> set (sg_waiting g')"
  using assms
proof cases
  case (register c s)
  then show ?thesis using assms(3) by (auto simp: addActiveHandler_def)
next
  case (register_late c s)
  then show ?thesis using assms(3) by (auto simp: addActiveHandler_def)
next
  case (finish c)
  then show ?thesis
    using assms(2,3) removeActiveHandler_cases [of "sg_server g" c] by (auto simp: serving_ok_def)
qed (auto simp: beginServe_def endServe_def beginShutdown_def SetSelectors_def split: if_splits)

lemma shutdown_run:
  "serve_run g as g' \<Longrightarrow> serving_ok g \<Longrightarrow> sv_shuttingDown (sg_server g) \<Longrightarrow>
   serving_ok g' \<and> sv_shuttingDown (sg_server g') \<and> set (sg_running g') \<subseteq> set (sg_running g)
   \<and> set (sg_waiting g) \<subseteq> set (sg_waiting g')"
proof (induction rule: serve_run.induct)
  case (serve_cons g a g1 as g2)
  then show ?case
    using shutdown_step [OF serve_cons(1)] serving_ok_step [OF serve_cons(1)] by blast
qed simp

text \<open>
  C21: \<open>Shutdown\<close> waits for the handlers that were running, and no others. Once it has begun, no
  connection becomes a handler any more, along any run; the wait returns \<open>nil\<close> exactly when every
  handler has finished; and if its context ends first, it forces exactly the handlers that are
  left.
\<close>

theorem shutdown_drains:
  assumes "serve_reach g" and "beginShutdown (sg_server g) = (ch, l, s)"
    and "serve_step g SShutdown g1" and "serve_run g1 as g2"
  shows "set (sg_running g2) \<subseteq> set (sg_running g)
    \<and> (awaitDrained ch None (sg_server g2) = Some (None, []) \<longleftrightarrow> sg_running g2 = [])
    \<and> (sg_running g2 \<noteq> [] \<longrightarrow> (\<exists>forced. awaitDrained ch (Some e) (sg_server g2) = Some (Some e, forced)
         \<and> set forced = set (sg_running g2)))"
proof -
  have g1: "sg_server g1 = s" "sg_running g1 = sg_running g" "ch \<in> set (sg_waiting g1)"
    using assms(2,3) by (auto elim: serve_stepE)
  have ok1: "serving_ok g1" using serving_ok_step [OF assms(3) serving_ok_reach [OF assms(1)]] .
  have "sv_shuttingDown s" using assms(2) by (auto simp: beginShutdown_def)
  then have "sv_shuttingDown (sg_server g1)" by (simp add: g1(1))
  note run = shutdown_run [OF assms(4) ok1 this]
  have ch: "ch = sv_drained (sg_server g2)"
    using run g1(3) unfolding serving_ok_def by blast
  have act: "set (sv_active (sg_server g2)) = set (sg_running g2)" "server_ok (sg_server g2)"
    using run unfolding serving_ok_def by blast+
  then have "sv_active (sg_server g2) = [] \<longleftrightarrow> sg_running g2 = []" by (metis set_empty)
  then show ?thesis
    using run g1(2) ch act
    by (auto simp: awaitDrained_def forceActiveHandlers_def server_ok_def)
qed

definition demo_server :: Server where
  "demo_server = \<lparr>sv_handshakeTimeout = defaultHandshakeTimeout, sv_maxConnections = 2, sv_slots = 0,
     sv_selectors = demo_registry, sv_listener = None, sv_shuttingDown = False, sv_active = [],
     sv_drained = 0, sv_channels = 1, sv_closed = [0], sv_panicked = False\<rparr>"

lemma demo_serving:
  "serve_reach ((serving_init demo_server)\<lparr>sg_server := demo_server\<lparr>sv_slots := 1, sv_active := [0],
     sv_drained := 1, sv_channels := 2\<rparr>, sg_running := [0], sg_next := 1\<rparr>)" (is "serve_reach ?g")
proof -
  have "NewServer True (Some demo_registry) 0 2 = Inr demo_server"
    by (simp add: NewServer_def demo_server_def defaultHandshakeTimeout_def maximumMaxConnections_def)
  then have 0: "serve_reach (serving_init demo_server)" by (rule serve_start)
  let ?g1 = "(serving_init demo_server)\<lparr>sg_server := demo_server\<lparr>sv_slots := 1\<rparr>, sg_pending := Some 0,
      sg_next := 1\<rparr>"
  have "serve_step (serving_init demo_server) SAccept ?g1"
    using accept [of "serving_init demo_server"] by (simp add: serving_init_def demo_server_def)
  with 0 have 1: "serve_reach ?g1" by (rule serve_more)
  have "serve_step ?g1 SRegister ?g"
    using register [of ?g1 0 "demo_server\<lparr>sv_slots := 1, sv_active := [0], sv_drained := 1, sv_channels := 2\<rparr>"]
    by (simp add: serving_init_def demo_server_def addActiveHandler_def)
  with 1 show ?thesis by (rule serve_more)
qed

lemma lifecycle_invariant_witness:
  "\<exists>g. serve_reach g \<and> sg_running g = [0] \<and> sv_drained (sg_server g) \<notin> set (sv_closed (sg_server g))"
  using lifecycle_invariant [OF demo_serving] demo_serving by (intro exI conjI) auto

lemma shutdown_drains_witness:
  "\<exists>g g1 ch l s. serve_reach g \<and> beginShutdown (sg_server g) = (ch, l, s) \<and> serve_step g SShutdown g1
     \<and> awaitDrained ch None (sg_server g1) \<noteq> Some (None, [])"
proof -
  let ?g = "(serving_init demo_server)\<lparr>sg_server := demo_server\<lparr>sv_slots := 1, sv_active := [0],
     sv_drained := 1, sv_channels := 2\<rparr>, sg_running := [0], sg_next := 1\<rparr>"
  obtain ch l s where b: "beginShutdown (sg_server ?g) = (ch, l, s)" by (metis prod_cases3)
  let ?g1 = "?g\<lparr>sg_server := s, sg_waiting := ch # sg_waiting ?g\<rparr>"
  have st: "serve_step ?g SShutdown ?g1" by (rule shutdown [OF b])
  have "sg_running ?g1 \<noteq> []" by simp
  then have "awaitDrained ch None (sg_server ?g1) \<noteq> Some (None, [])"
    using shutdown_drains [OF demo_serving b st serve_nil] by blast
  then show ?thesis using demo_serving b st by blast
qed

end
