(* ===== verification/App_Coordinator.thy ===== *)
theory App_Coordinator
  imports Socks_Lifecycle
begin

text \<open>
  \<open>internal/app/selector_coordinator.go\<close>: the object that makes a new credential registry visible
  to the control plane and to the SOCKS server together, and can take it back. The applier it
  holds is the SOCKS server of \<open>Socks_Lifecycle\<close> (the only implementation of \<open>SelectorApplier\<close>);
  the closure \<open>InstallGeneration\<close> returns is the data it closes over. Every method body that
  changes the state runs under the mutex of the coordinator and is one function; calls of them
  and of the rollback closures in any order are a step relation.
\<close>

section \<open>The coordinator\<close>

record Coordinator =
  co_socks :: "Server option"
  co_registry :: Registry

definition NewSelectorCoordinator :: "Server option \<Rightarrow> Registry option \<Rightarrow> go_error + Coordinator" where
  "NewSelectorCoordinator socks registry =
     (case registry of
        None \<Rightarrow> Inl (New ''app: selector registry is required'')
      | Some r \<Rightarrow> Inr \<lparr>co_socks = socks, co_registry = r\<rparr>)"

text \<open>\<open>Build\<close> and \<open>BuildWithTombstones\<close> on the registry of the moment.\<close>

definition Coordinator_Build ::
  "hmac \<Rightarrow> idna \<Rightarrow> Coordinator \<Rightarrow> u64 \<Rightarrow> Node list \<Rightarrow> gotime \<Rightarrow> go_error + (string, NodeRef) gomap"
where
  "Coordinator_Build hmac idna c generation nodes now =
     Registry_Build hmac idna (co_registry c) generation nodes now"

definition Coordinator_BuildWithTombstones ::
  "hmac \<Rightarrow> idna \<Rightarrow> Coordinator \<Rightarrow> u64 \<Rightarrow> Node list \<Rightarrow> (string, NodeRef) gomap \<Rightarrow> gotime \<Rightarrow>
   go_error + BuildResult"
where
  "Coordinator_BuildWithTombstones hmac idna c generation nodes previous now =
     BuildWithTombstones hmac idna (co_registry c) generation nodes previous now"

definition Coordinator_Generations :: "Coordinator \<Rightarrow> u64 list" where
  "Coordinator_Generations c = [reg_generation (co_registry c)]"

text \<open>The selectors of the snapshot that belong to the generation.\<close>

definition previous_selectors :: "u64 \<Rightarrow> RuntimeSnapshot \<Rightarrow> (string, NodeRef) gomap" where
  "previous_selectors generation snapshot =
     filter (\<lambda>(name, ref). ref_Generation ref = generation) (snap_Selectors snapshot)"

text \<open>The rollback closure: the registry it restores and its \<open>sync.Once\<close>.\<close>

record RegistryRollback =
  rb_previous :: Registry
  rb_done :: bool

definition swap_registry :: "Registry \<Rightarrow> Coordinator \<Rightarrow> (go_error + RegistryRollback) \<times> Coordinator" where
  "swap_registry nextRegistry c =
     (let install = (\<lambda>socks. (Inr \<lparr>rb_previous = co_registry c, rb_done = False\<rparr>,
            c\<lparr>co_socks := socks, co_registry := nextRegistry\<rparr>)) in
      case co_socks c of
        None \<Rightarrow> install None
      | Some server \<Rightarrow>
          (case SetSelectors (Some nextRegistry) server of
             (Some e, server') \<Rightarrow>
               (Inl (Wrap ''app: install selector registry'' e), c\<lparr>co_socks := Some server'\<rparr>)
           | (None, server') \<Rightarrow> install (Some server')))"

definition InstallGeneration ::
  "hmac \<Rightarrow> idna \<Rightarrow> SubscriptionGeneration \<Rightarrow> RuntimeSnapshot option \<Rightarrow> gotime \<Rightarrow> Coordinator \<Rightarrow>
   (go_error + RuntimeSnapshot \<times> RegistryRollback) \<times> Coordinator"
where
  "InstallGeneration hmac idna generation snapshot now c =
     (case snapshot of
        None \<Rightarrow> (Inl (New ''app: selector installation requires coordinator and snapshot''), c)
      | Some s \<Rightarrow>
          (case NewRegistry generation of
             Inl e \<Rightarrow> (Inl (Wrap ''app: build selector registry'' e), c)
           | Inr nextRegistry \<Rightarrow>
               (case BuildWithTombstones hmac idna nextRegistry (sub_Generation generation) (snap_Nodes s)
                       (previous_selectors (sub_Generation generation) s) now of
                  Inl e \<Rightarrow> (Inl (Wrap ''app: build selector snapshot'' e), c)
                | Inr result \<Rightarrow>
                    let nxt = s\<lparr>snap_Nodes := br_Nodes result, snap_Selectors := br_Selectors result\<rparr> in
                    (case swap_registry nextRegistry c of
                       (Inl e, c') \<Rightarrow> (Inl e, c')
                     | (Inr undo, c') \<Rightarrow> (Inr (nxt, undo), c')))))"

definition rollback_registry :: "RegistryRollback \<Rightarrow> Coordinator \<Rightarrow> RegistryRollback \<times> Coordinator" where
  "rollback_registry rb c =
     (if rb_done rb then (rb, c)
      else
        (rb\<lparr>rb_done := True\<rparr>,
         c\<lparr>co_socks := map_option (\<lambda>server. snd (SetSelectors (Some (rb_previous rb)) server)) (co_socks c),
           co_registry := rb_previous rb\<rparr>))"

interpretation coordinator: selector_builder "Coordinator_Build hmac idna c" for hmac idna c
  unfolding Coordinator_Build_def by unfold_locales

section \<open>What an installation gives\<close>

lemma NewRegistry_Inr:
  "NewRegistry g = Inr r \<longleftrightarrow>
     sub_Generation g \<noteq> 0 \<and> length (sub_SelectorKey g) = sha256_Size \<and> length (sub_ProxyAuthKey g) = sha256_Size
     \<and> r = \<lparr>reg_generation = sub_Generation g, reg_selectorKey = sub_SelectorKey g,
            reg_proxyAuthKey = sub_ProxyAuthKey g\<rparr>"
  by (auto simp: NewRegistry_def)

lemma swap_registry_eq:
  "swap_registry r c =
     (Inr \<lparr>rb_previous = co_registry c, rb_done = False\<rparr>,
      c\<lparr>co_socks := map_option (\<lambda>s. s\<lparr>sv_selectors := r\<rparr>) (co_socks c), co_registry := r\<rparr>)"
  by (simp add: swap_registry_def SetSelectors_def split: option.splits)

lemma rollback_registry_eq:
  "rollback_registry rb c =
     (if rb_done rb then (rb, c)
      else (rb\<lparr>rb_done := True\<rparr>,
        c\<lparr>co_socks := map_option (\<lambda>s. s\<lparr>sv_selectors := rb_previous rb\<rparr>) (co_socks c),
          co_registry := rb_previous rb\<rparr>))"
  by (simp add: rollback_registry_def SetSelectors_def)

lemma InstallGeneration_Inl: "InstallGeneration hmac idna g s now c = (Inl e, c') \<Longrightarrow> c' = c"
  by (auto simp: InstallGeneration_def swap_registry_eq Let_def split: option.splits sum.splits)

lemma InstallGeneration_Inr:
  "InstallGeneration hmac idna g snapshot now c = (Inr (nxt, rb), c') \<longleftrightarrow>
     (\<exists>s r result. snapshot = Some s \<and> NewRegistry g = Inr r
       \<and> BuildWithTombstones hmac idna r (sub_Generation g) (snap_Nodes s)
           (previous_selectors (sub_Generation g) s) now = Inr result
       \<and> nxt = s\<lparr>snap_Nodes := br_Nodes result, snap_Selectors := br_Selectors result\<rparr>
       \<and> rb = \<lparr>rb_previous = co_registry c, rb_done = False\<rparr>
       \<and> c' = c\<lparr>co_socks := map_option (\<lambda>s. s\<lparr>sv_selectors := r\<rparr>) (co_socks c), co_registry := r\<rparr>)"
  by (auto simp: InstallGeneration_def swap_registry_eq Let_def split: option.splits sum.splits)

lemma derived_authenticates:
  assumes hmac: "\<And>k x. length (hmac k x) = 32"
    and n: "derived_node hmac idna r n"
  shows "AuthenticateAt hmac r (node_Selector n) (selector_password hmac (reg_proxyAuthKey r) (node_Selector n))
    = Some (reg_generation r)"
proof -
  have "\<exists>canon. node_Selector n
      = selectorPrefix @ raw_url_encode (take selectorBytes (hmac (reg_selectorKey r) (Fingerprint canon)))"
    using n by (auto simp: derived_node_def DeriveCanonical_def Let_def split: if_splits intro: sym)
  then obtain canon where "node_Selector n
      = selectorPrefix @ raw_url_encode (take selectorBytes (hmac (reg_selectorKey r) (Fingerprint canon)))" ..
  then have "validSelector (node_Selector n)" using valid_encoded(1) [OF hmac] by simp
  moreover have "validPassword (selector_password hmac (reg_proxyAuthKey r) (node_Selector n))"
    unfolding selector_password_def by (rule valid_encoded(2) [OF hmac])
  ultimately show ?thesis by (simp add: AuthenticateAt_def Registry_load_def)
qed

lemma NodeByID_distinct:
  assumes "distinct (map node_ID (snap_Nodes s))" and "n \<in> set (snap_Nodes s)"
  shows "NodeByID s (node_ID n) = Some n"
proof -
  have "find (\<lambda>m. node_ID m = node_ID n) ns = Some n" if "distinct (map node_ID ns)" "n \<in> set ns" for ns
    using that by (induction ns) (auto simp: rev_image_eqI)
  then show ?thesis using assms by (simp add: NodeByID_def)
qed

text \<open>
  C25: an installed generation is coherent. When \<open>InstallGeneration\<close> returns a snapshot, the
  registry of the coordinator and the one the SOCKS server authenticates with are the registry of
  that generation, and for every node of the snapshot the credentials derived from the node
  authenticate there and resolve, in that snapshot, to exactly this node: no published node is
  unreachable, and none is reached through the selector of another.
\<close>

theorem install_coherent:
  assumes hmac: "\<And>k x. length (hmac k x) = 32"
    and inst: "InstallGeneration hmac idna g (Some s) now c = (Inr (nxt, rb), c')"
    and sel: "gomap_ok (snap_Selectors s)" and n: "n \<in> set (snap_Nodes nxt)"
  shows "NewRegistry g = Inr (co_registry c')
    \<and> map_option sv_selectors (co_socks c') = map_option (\<lambda>_. co_registry c') (co_socks c)
    \<and> Registry_Resolve hmac (co_registry c') nxt (node_Selector n)
        (selector_password hmac (sub_ProxyAuthKey g) (node_Selector n)) t
      = Inr (n, live_ref (sub_Generation g) n)"
proof -
  obtain r result where r: "NewRegistry g = Inr r"
    and b: "BuildWithTombstones hmac idna r (sub_Generation g) (snap_Nodes s)
        (previous_selectors (sub_Generation g) s) now = Inr result"
    and nxt: "nxt = s\<lparr>snap_Nodes := br_Nodes result, snap_Selectors := br_Selectors result\<rparr>"
    and c': "c' = c\<lparr>co_socks := map_option (\<lambda>s. s\<lparr>sv_selectors := r\<rparr>) (co_socks c), co_registry := r\<rparr>"
    using inst by (auto simp: InstallGeneration_Inr)
  have "gomap_ok (previous_selectors (sub_Generation g) s)"
    using sel by (simp add: previous_selectors_def)
  note live = build_live [OF b this]
  have r': "reg_generation r = sub_Generation g" "reg_proxyAuthKey r = sub_ProxyAuthKey g"
    using r by (auto simp: NewRegistry_Inr)
  have nin: "n \<in> set (br_Nodes result)" using n by (simp add: nxt)
  have "AuthenticateAt hmac r (node_Selector n)
      (selector_password hmac (sub_ProxyAuthKey g) (node_Selector n)) = Some (sub_Generation g)"
    using derived_authenticates [of hmac idna r n, OF hmac] live(1) nin r' by simp
  moreover have "ResolveSelector nxt (node_Selector n) t = Inr (n, live_ref (sub_Generation g) n)"
    using live(1) nin NodeByID_distinct [of nxt n] live(2)
    by (simp add: nxt ResolveSelector_def live_ref_def IsTombstoned_def)
  ultimately show ?thesis
    by (simp add: Registry_Resolve_def r c' live_ref_def option.map_comp comp_def)
qed

section \<open>Taking an installation back\<close>

definition coherent :: "Coordinator \<Rightarrow> bool" where
  "coherent c \<longleftrightarrow> map_option sv_selectors (co_socks c) = map_option (\<lambda>_. co_registry c) (co_socks c)"

lemma coherent_iff: "coherent c \<longleftrightarrow> (\<forall>sv. co_socks c = Some sv \<longrightarrow> sv_selectors sv = co_registry c)"
  by (cases "co_socks c") (simp_all add: coherent_def)

text \<open>
  Between the installation and its rollback the SOCKS server goes on serving, which never
  changes its registry.
\<close>

definition serving_on :: "(Server \<Rightarrow> Server) \<Rightarrow> Coordinator \<Rightarrow> Coordinator" where
  "serving_on f c = c\<lparr>co_socks := map_option f (co_socks c)\<rparr>"

lemma rollback_after_serving:
  assumes "coherent c" and "InstallGeneration hmac idna g snapshot now c = (Inr (nxt, rb), c1)"
    and "\<And>s r. f (s\<lparr>sv_selectors := r\<rparr>) = (f s)\<lparr>sv_selectors := r\<rparr>"
  shows "rollback_registry rb (serving_on f c1) = (rb\<lparr>rb_done := True\<rparr>, serving_on f c)"
proof -
  have same: "(f s)\<lparr>sv_selectors := r\<rparr> = f s" if "sv_selectors s = r" for s r
    using assms(3) [where s = s and r = "sv_selectors s"] by (simp add: that [symmetric])
  show ?thesis
    using assms(1,2)
    by (cases "co_socks c")
      (auto simp: same InstallGeneration_Inr rollback_registry_eq serving_on_def assms(3) coherent_def)
qed

lemma rollback_twice: "rollback_registry (fst (rollback_registry rb c)) c' = (fst (rollback_registry rb c), c')"
  by (simp add: rollback_registry_eq)

lemma rollback_exact:
  assumes "coherent c" and "InstallGeneration hmac idna g snapshot now c = (Inr (nxt, rb), c1)"
  shows "rollback_registry rb c1 = (rb\<lparr>rb_done := True\<rparr>, c)"
  using rollback_after_serving [OF assms, of id]
  by (simp add: serving_on_def option.map_id)

lemma install_coherent_state:
  "InstallGeneration hmac idna g snapshot now c = (res, c') \<Longrightarrow> coherent c \<Longrightarrow> coherent c'"
  by (cases res) (auto simp: InstallGeneration_Inr coherent_iff dest: InstallGeneration_Inl)

lemma rollback_coherent: "coherent c \<Longrightarrow> coherent (snd (rollback_registry rb c))"
  by (auto simp: rollback_registry_eq coherent_iff)

text \<open>Installations, rollbacks and the work of the server, in any order.\<close>

record CoRun =
  cr_coordinator :: Coordinator
  cr_rollbacks :: "RegistryRollback list"

inductive co_step :: "hmac \<Rightarrow> idna \<Rightarrow> CoRun \<Rightarrow> CoRun \<Rightarrow> bool" for hmac idna where
  install_ok: "InstallGeneration hmac idna g s now (cr_coordinator x) = (Inr (nxt, rb), c) \<Longrightarrow>
     co_step hmac idna x (x\<lparr>cr_coordinator := c, cr_rollbacks := rb # cr_rollbacks x\<rparr>)"
| install_fail: "InstallGeneration hmac idna g s now (cr_coordinator x) = (Inl e, c) \<Longrightarrow>
     co_step hmac idna x (x\<lparr>cr_coordinator := c\<rparr>)"
| undo: "i < length (cr_rollbacks x) \<Longrightarrow>
     rollback_registry (cr_rollbacks x ! i) (cr_coordinator x) = (rb, c) \<Longrightarrow>
     co_step hmac idna x (x\<lparr>cr_coordinator := c, cr_rollbacks := (cr_rollbacks x)[i := rb]\<rparr>)"
| serve: "co_socks (cr_coordinator x) = Some sv \<Longrightarrow> sv_selectors sv' = sv_selectors sv \<Longrightarrow>
     co_step hmac idna x (x\<lparr>cr_coordinator := (cr_coordinator x)\<lparr>co_socks := Some sv'\<rparr>\<rparr>)"

inductive co_reach :: "hmac \<Rightarrow> idna \<Rightarrow> CoRun \<Rightarrow> CoRun \<Rightarrow> bool" for hmac idna x where
  start: "co_reach hmac idna x x"
| more: "co_reach hmac idna x y \<Longrightarrow> co_step hmac idna y z \<Longrightarrow> co_reach hmac idna x z"

definition registry_wf :: "Registry \<Rightarrow> bool" where
  "registry_wf r \<longleftrightarrow> reg_generation r \<noteq> 0 \<and> length (reg_selectorKey r) = sha256_Size
     \<and> length (reg_proxyAuthKey r) = sha256_Size"

definition co_inv :: "CoRun \<Rightarrow> bool" where
  "co_inv x \<longleftrightarrow> coherent (cr_coordinator x) \<and> registry_wf (co_registry (cr_coordinator x))
     \<and> (\<forall>rb\<in>set (cr_rollbacks x). registry_wf (rb_previous rb))"

lemma co_step_inv: "co_step hmac idna x y \<Longrightarrow> co_inv x \<Longrightarrow> co_inv y"
proof (induction rule: co_step.induct)
  case (install_ok g s now x nxt rb c)
  then show ?case
    using install_coherent_state [OF install_ok(1)]
    by (auto simp: co_inv_def InstallGeneration_Inr NewRegistry_Inr registry_wf_def)
next
  case (install_fail g s now x e c)
  then show ?case using InstallGeneration_Inl by fastforce
next
  case (undo i x rb c)
  then have wf: "registry_wf (rb_previous (cr_rollbacks x ! i))" by (simp add: co_inv_def)
  have "coherent c" using undo rollback_coherent by (metis co_inv_def snd_conv)
  moreover have "registry_wf (co_registry c)" "rb_previous rb = rb_previous (cr_rollbacks x ! i)"
    using undo wf by (auto simp: rollback_registry_eq co_inv_def split: if_splits)
  ultimately show ?case
    using undo wf by (auto simp: co_inv_def dest: set_update_subset_insert [THEN subsetD])
next
  case (serve x sv sv')
  then show ?case by (simp add: co_inv_def coherent_iff)
qed

text \<open>
  control and data plane agree on the credentials. In every run of installations, rollbacks
  (in any order, each any number of times) and traffic, the SOCKS server authenticates with the
  registry the coordinator builds selectors with, and that registry always has a generation
  number and two keys of full length.
\<close>

theorem registries_agree:
  assumes "co_reach hmac idna x y"
    and "coherent (cr_coordinator x)" and "registry_wf (co_registry (cr_coordinator x))"
    and "cr_rollbacks x = []"
  shows "map_option sv_selectors (co_socks (cr_coordinator y))
      = map_option (\<lambda>_. co_registry (cr_coordinator y)) (co_socks (cr_coordinator y))
    \<and> registry_wf (co_registry (cr_coordinator y))"
proof -
  have "co_inv x" using assms by (simp add: co_inv_def)
  with assms(1) have "co_inv y" by (induction rule: co_reach.induct) (auto intro: co_step_inv)
  then show ?thesis by (simp add: co_inv_def coherent_def)
qed

section \<open>A concrete installation\<close>

definition demo_server :: Server where
  "demo_server = \<lparr>sv_handshakeTimeout = defaultHandshakeTimeout, sv_maxConnections = 4, sv_slots = 0,
     sv_selectors = demo_registry, sv_listener = None, sv_shuttingDown = False, sv_active = [],
     sv_drained = 0, sv_channels = 1, sv_closed = [0], sv_panicked = False\<rparr>"

definition demo_coordinator :: Coordinator where
  "demo_coordinator = \<lparr>co_socks = Some demo_server, co_registry = demo_registry\<rparr>"

definition demo_generation :: SubscriptionGeneration where
  "demo_generation = \<lparr>sub_Generation = 4, sub_SelectorKey = replicate 32 3,
     sub_ProxyAuthKey = replicate 32 4, sub_AccountBinding = [], sub_ActivatedAt = 1\<rparr>"

lemma demo_installs:
  "\<exists>nxt rb c'. InstallGeneration demo_hmac demo_idna demo_generation (Some (demo_snapshot 4)) 150
      demo_coordinator = (Inr (nxt, rb), c') \<and> snap_Nodes nxt \<noteq> []"
proof -
  have "case InstallGeneration demo_hmac demo_idna demo_generation (Some (demo_snapshot 4)) 150 demo_coordinator of
      (Inl e, c') \<Rightarrow> False | (Inr (nxt, rb), c') \<Rightarrow> snap_Nodes nxt \<noteq> []" by code_simp
  then show ?thesis by (auto split: prod.splits sum.splits)
qed

lemma install_coherent_witness:
  "\<exists>nxt rb c' n. InstallGeneration demo_hmac demo_idna demo_generation (Some (demo_snapshot 4)) 150
      demo_coordinator = (Inr (nxt, rb), c') \<and> n \<in> set (snap_Nodes nxt)
    \<and> Registry_Resolve demo_hmac (co_registry c') nxt (node_Selector n)
        (selector_password demo_hmac (sub_ProxyAuthKey demo_generation) (node_Selector n)) 150
      = Inr (n, live_ref 4 n)"
proof -
  obtain nxt rb c' n where i: "InstallGeneration demo_hmac demo_idna demo_generation (Some (demo_snapshot 4)) 150
      demo_coordinator = (Inr (nxt, rb), c')" and n: "n \<in> set (snap_Nodes nxt)"
    using demo_installs by (metis last_in_set)
  have "gomap_ok (snap_Selectors (demo_snapshot 4))" by (simp add: demo_snapshot_def)
  from install_coherent [OF demo_hmac_length i this n, of 150] i n show ?thesis
    by (auto simp: demo_generation_def)
qed

lemma registries_agree_witness:
  "\<exists>y. co_reach demo_hmac demo_idna \<lparr>cr_coordinator = demo_coordinator, cr_rollbacks = []\<rparr> y
    \<and> cr_rollbacks y \<noteq> [] \<and> registry_wf (co_registry (cr_coordinator y))"
proof -
  let ?x = "\<lparr>cr_coordinator = demo_coordinator, cr_rollbacks = []\<rparr>"
  obtain nxt rb c' where i: "InstallGeneration demo_hmac demo_idna demo_generation (Some (demo_snapshot 4)) 150
      demo_coordinator = (Inr (nxt, rb), c')" using demo_installs by blast
  let ?y = "?x\<lparr>cr_coordinator := c', cr_rollbacks := rb # cr_rollbacks ?x\<rparr>"
  have "co_step demo_hmac demo_idna ?x ?y" by (rule co_step.install_ok) (use i in simp)
  then have r: "co_reach demo_hmac demo_idna ?x ?y" by (rule co_reach.more [OF co_reach.start])
  have "coherent demo_coordinator" "registry_wf (co_registry demo_coordinator)"
    by (simp_all add: coherent_def registry_wf_def demo_coordinator_def demo_server_def demo_registry_def
        sha256_Size_def)
  with registries_agree [OF r] have "registry_wf (co_registry (cr_coordinator ?y))" by simp
  with r show ?thesis by (intro exI [of _ ?y]) simp
qed

end
