(* ===== verification/Config.thy ===== *)
theory Config
  imports GoNet
begin

text \<open>
  \<open>internal/endpoint/hostname.go\<close> and \<open>internal/config/config.go\<close>: the container configuration,
  its defaults and its validation. The YAML library is a parameter: the two fields of a node the
  unmarshallers look at, and the outcome of decoding a document. \<open>time.ParseDuration\<close>, whose
  arithmetic on fractions is floating point, is a parameter without hypotheses.
\<close>

section \<open>Hostnames\<close>

definition errInvalidHostname :: go_error where
  "errInvalidHostname = New ''must be a bare DNS hostname''"

definition label_char :: "char \<Rightarrow> bool" where
  "label_char c \<longleftrightarrow>
     \<not> ((chr_code c < chr_code (CHR ''a'') \<or> chr_code c > chr_code (CHR ''z''))
        \<and> (chr_code c < chr_code (CHR ''A'') \<or> chr_code c > chr_code (CHR ''Z''))
        \<and> (chr_code c < chr_code (CHR ''0'') \<or> chr_code c > chr_code (CHR ''9''))
        \<and> c \<noteq> CHR ''-'')"

definition valid_label :: "string \<Rightarrow> bool" where
  "valid_label label \<longleftrightarrow>
     \<not> (length label = 0 \<or> length label > 63 \<or> hd label = CHR ''-'' \<or> last label = CHR ''-'')
     \<and> list_all label_char label"

definition ValidateHostname :: "string \<Rightarrow> go_error option" where
  "ValidateHostname hostname =
     (if hostname = [] \<or> length hostname > 253 \<or> has_suffix ''.'' hostname then Some errInvalidHostname
      else if \<not> list_all valid_label (split_on (CHR ''.'') hostname) then Some errInvalidHostname
      else if ParseAddr hostname \<noteq> None then Some errInvalidHostname
      else None)"

text \<open>A valid hostname uses letters, digits, the hyphen and the dot only.\<close>

lemma ValidateHostname_chars:
  assumes "ValidateHostname h = None" and "c \<in> set h"
  shows "label_char c \<or> c = CHR ''.''"
proof -
  have "\<forall>w\<in>set (split_on (CHR ''.'') h). list_all label_char w"
    using assms(1) by (auto simp: ValidateHostname_def valid_label_def list_all_iff split: if_splits)
  moreover have "set h \<subseteq> insert (CHR ''.'') (\<Union> (set ` set (split_on (CHR ''.'') h)))"
    using set_join_on [of "CHR ''.''" "split_on (CHR ''.'') h"] by (simp add: join_split)
  ultimately show ?thesis using assms(2) by (fastforce simp: list_all_iff)
qed

lemma ValidateHostname_no:
  assumes "ValidateHostname h = None"
  shows "CHR '':'' \<notin> set h" "CHR ''['' \<notin> set h" "CHR '']'' \<notin> set h" "CHR ''/'' \<notin> set h"
    "CHR ''%'' \<notin> set h" "h \<noteq> []"
  using ValidateHostname_chars [OF assms, of "CHR '':''"] ValidateHostname_chars [OF assms, of "CHR ''[''"]
    ValidateHostname_chars [OF assms, of "CHR '']''"] ValidateHostname_chars [OF assms, of "CHR ''/''"]
    ValidateHostname_chars [OF assms, of "CHR ''%''"] assms
  by (auto simp: label_char_def chr_code_def ValidateHostname_def)

section \<open>Durations and ports\<close>

type_synonym port = u16

record yaml_node =
  yn_scalar :: bool
  yn_Tag :: string
  yn_Value :: string

definition Duration_UnmarshalYAML ::
  "(string \<Rightarrow> go_error + duration) \<Rightarrow> yaml_node \<Rightarrow> go_error + duration" where
  "Duration_UnmarshalYAML parse_duration node =
     (if \<not> yn_scalar node then Inl (New ''duration must be a string'')
      else case parse_duration (yn_Value node) of
        Inl e \<Rightarrow> Inl (Wrap ''invalid duration %q'' e)
      | Inr v \<Rightarrow> if v \<le> 0 then Inl (New ''duration must be positive'') else Inr v)"

definition isCanonicalPort :: "string \<Rightarrow> bool" where
  "isCanonicalPort port =
     (if length port = 0 \<or> length port > 1 \<and> hd port = CHR ''0'' then False
      else case parse_uint16 port of None \<Rightarrow> False | Some parsedPort \<Rightarrow> parsedPort > 0)"

definition Port_UnmarshalYAML :: "yaml_node \<Rightarrow> go_error + port" where
  "Port_UnmarshalYAML node =
     (if \<not> yn_scalar node \<or> yn_Tag node \<noteq> ''!!int'' \<or> \<not> isCanonicalPort (yn_Value node)
      then Inl (New ''port must be a decimal integer between 1 and 65535'')
      else Inr (of_nat (the (parse_uint16 (yn_Value node)))))"

definition Port_String :: "port \<Rightarrow> string" where
  "Port_String p = dec (unat p)"

section \<open>The configuration\<close>

record Management =
  mg_Port :: port
  mg_SessionTTL :: duration

record Proxy =
  px_Port :: port
  px_DialTimeout :: duration
  px_HandshakeTimeout :: duration

record Provider =
  pv_RequestTimeout :: duration
  pv_RefreshInterval :: duration

record Config =
  cf_ListenAddr :: string
  cf_Hostname :: string
  cf_Management :: Management
  cf_Proxy :: Proxy
  cf_Provider :: Provider

definition maxConfigBytes :: nat where "maxConfigBytes = 64 * 2 ^ 10"
definition minProviderRequestTimeout :: duration where "minProviderRequestTimeout = second"
definition maxProviderRequestTimeout :: duration where "maxProviderRequestTimeout = 15 * second"
definition minRefreshInterval :: duration where "minRefreshInterval = 15 * minute"
definition maxRefreshInterval :: duration where "maxRefreshInterval = 24 * hour"
definition minProxyTimeout :: duration where "minProxyTimeout = second"
definition maxDialTimeout :: duration where "maxDialTimeout = 10 * second"
definition maxHandshakeTimeout :: duration where "maxHandshakeTimeout = minute"
definition minSessionTTL :: duration where "minSessionTTL = minute"
definition maxSessionTTL :: duration where "maxSessionTTL = 24 * hour"

lemmas config_limits = minProviderRequestTimeout_def maxProviderRequestTimeout_def minRefreshInterval_def
  maxRefreshInterval_def minProxyTimeout_def maxDialTimeout_def maxHandshakeTimeout_def
  minSessionTTL_def maxSessionTTL_def

definition DefaultConfig :: Config where
  "DefaultConfig =
     \<lparr>cf_ListenAddr = ''127.0.0.1'', cf_Hostname = [],
      cf_Management = \<lparr>mg_Port = 10809, mg_SessionTTL = 30 * minute\<rparr>,
      cf_Proxy = \<lparr>px_Port = 10808, px_DialTimeout = 10 * second, px_HandshakeTimeout = 15 * second\<rparr>,
      cf_Provider = \<lparr>pv_RequestTimeout = 15 * second, pv_RefreshInterval = 2 * hour\<rparr>\<rparr>"

definition ManagementAddress :: "Config \<Rightarrow> string" where
  "ManagementAddress c = JoinHostPort (cf_ListenAddr c) (Port_String (mg_Port (cf_Management c)))"

definition ProxyAddress :: "Config \<Rightarrow> string" where
  "ProxyAddress c = JoinHostPort (cf_ListenAddr c) (Port_String (px_Port (cf_Proxy c)))"

definition default_management :: "Management \<Rightarrow> Management \<Rightarrow> Management" where
  "default_management d m =
     m\<lparr>mg_Port := (if mg_Port m = 0 then mg_Port d else mg_Port m),
       mg_SessionTTL := (if mg_SessionTTL m = 0 then mg_SessionTTL d else mg_SessionTTL m)\<rparr>"

definition default_proxy :: "Proxy \<Rightarrow> Proxy \<Rightarrow> Proxy" where
  "default_proxy d p =
     p\<lparr>px_Port := (if px_Port p = 0 then px_Port d else px_Port p),
       px_DialTimeout := (if px_DialTimeout p = 0 then px_DialTimeout d else px_DialTimeout p),
       px_HandshakeTimeout :=
         (if px_HandshakeTimeout p = 0 then px_HandshakeTimeout d else px_HandshakeTimeout p)\<rparr>"

definition default_provider :: "Provider \<Rightarrow> Provider \<Rightarrow> Provider" where
  "default_provider d v =
     v\<lparr>pv_RequestTimeout := (if pv_RequestTimeout v = 0 then pv_RequestTimeout d else pv_RequestTimeout v),
       pv_RefreshInterval :=
         (if pv_RefreshInterval v = 0 then pv_RefreshInterval d else pv_RefreshInterval v)\<rparr>"

definition applyDefaults :: "Config \<Rightarrow> Config" where
  "applyDefaults c =
     (let defaults = DefaultConfig in
      c\<lparr>cf_ListenAddr := (if cf_ListenAddr c = [] then cf_ListenAddr defaults else cf_ListenAddr c),
        cf_Management := default_management (cf_Management defaults) (cf_Management c),
        cf_Proxy := default_proxy (cf_Proxy defaults) (cf_Proxy c),
        cf_Provider := default_provider (cf_Provider defaults) (cf_Provider c)\<rparr>)"

definition validateListen :: "string \<Rightarrow> string \<Rightarrow> go_error option" where
  "validateListen name address =
     (case ParseAddr address of
        None \<Rightarrow> Some (New (name @ '' must be a canonical numeric IP address''))
      | Some addr \<Rightarrow>
          if addr_String addr \<noteq> address
          then Some (New (name @ '' must be a canonical numeric IP address'')) else None)"

definition config_validateHostname :: "string \<Rightarrow> string \<Rightarrow> go_error option" where
  "config_validateHostname name hostname =
     (if hostname = [] then None
      else map_option (Wrap name) (ValidateHostname hostname))"

definition validateDurationRange :: "string \<Rightarrow> duration \<Rightarrow> duration \<Rightarrow> duration \<Rightarrow> go_error option" where
  "validateDurationRange name v minimum maximum =
     (if v < minimum \<or> v > maximum then Some (New (name @ '' must be between'')) else None)"

text \<open>The first check that fails decides.\<close>

fun first_error :: "go_error option list \<Rightarrow> go_error option" where
  "first_error [] = None"
| "first_error (None # es) = first_error es"
| "first_error (Some e # es) = Some e"

lemma first_error_None: "first_error es = None \<longleftrightarrow> (\<forall>e\<in>set es. e = None)"
  by (induction es rule: first_error.induct) auto

definition Config_Validate :: "Config \<Rightarrow> go_error option" where
  "Config_Validate c = first_error
     [validateListen ''listenAddr'' (cf_ListenAddr c),
      config_validateHostname ''hostname'' (cf_Hostname c),
      (if mg_Port (cf_Management c) = px_Port (cf_Proxy c)
       then Some (New ''management.port and proxy.port must be different'') else None),
      validateDurationRange ''management.sessionTTL'' (mg_SessionTTL (cf_Management c)) minSessionTTL maxSessionTTL,
      validateDurationRange ''proxy.dialTimeout'' (px_DialTimeout (cf_Proxy c)) minProxyTimeout maxDialTimeout,
      validateDurationRange ''proxy.handshakeTimeout'' (px_HandshakeTimeout (cf_Proxy c))
        minProxyTimeout maxHandshakeTimeout,
      validateDurationRange ''provider.requestTimeout'' (pv_RequestTimeout (cf_Provider c))
        minProviderRequestTimeout maxProviderRequestTimeout,
      validateDurationRange ''provider.refreshInterval'' (pv_RefreshInterval (cf_Provider c))
        minRefreshInterval maxRefreshInterval]"

text \<open>
  \<open>Load\<close> from the opened file: the outcomes of the two \<open>Decode\<close> calls of the YAML decoder (the
  second error, \<open>None\<close> for a nil error) and of \<open>Stat\<close>.
\<close>

definition Load ::
  "go_error + unit \<Rightarrow> go_error + Config \<Rightarrow> go_error option \<Rightarrow> go_error + nat \<Rightarrow> go_error + Config" where
  "Load opened decoded trailing stat =
     (case opened of
        Inl e \<Rightarrow> Inl (Wrap ''open configuration'' e)
      | Inr _ \<Rightarrow>
     (case decoded of
        Inl e \<Rightarrow> Inl (Wrap ''decode configuration'' e)
      | Inr cfg \<Rightarrow>
          if trailing \<noteq> Some EOF
          then (case trailing of
                  None \<Rightarrow> Inl (New ''configuration contains multiple YAML documents'')
                | Some e \<Rightarrow> Inl (Wrap ''decode trailing configuration'' e))
          else case stat of
            Inl e \<Rightarrow> Inl (Wrap ''stat configuration'' e)
          | Inr sz \<Rightarrow>
              if sz > maxConfigBytes then Inl (New ''configuration exceeds %d bytes'')
              else
                let cfg = applyDefaults cfg in
                (case Config_Validate cfg of Some e \<Rightarrow> Inl e | None \<Rightarrow> Inr cfg)))"

section \<open>What a loaded configuration satisfies\<close>

lemma Port_roundtrip:
  "parse_uint16 (Port_String p) = Some (unat p)"
  using unat_u16_lt [of p] unfolding Port_String_def by (intro parse_uint16_dec) linarith

lemma isCanonicalPort_iff:
  assumes "isCanonicalPort s"
  shows "\<exists>n. 0 < n \<and> n \<le> 65535 \<and> parse_uint16 s = Some n"
  using assms parse_uint16_bound [of s] by (auto simp: isCanonicalPort_def split: option.splits if_splits)

definition in_range :: "duration \<Rightarrow> duration \<Rightarrow> duration \<Rightarrow> bool" where
  "in_range lo hi v \<longleftrightarrow> lo \<le> v \<and> v \<le> hi"

lemma validateDurationRange_None: "validateDurationRange name v lo hi = None \<longleftrightarrow> in_range lo hi v"
  by (auto simp: validateDurationRange_def in_range_def)

lemma validateListen_None:
  "validateListen name s = None \<longleftrightarrow> (\<exists>a. ParseAddr s = Some a \<and> addr_String a = s)"
  by (auto simp: validateListen_def split: option.splits)

lemma Config_Validate_None:
  "Config_Validate c = None \<longleftrightarrow>
     (\<exists>a. ParseAddr (cf_ListenAddr c) = Some a \<and> addr_String a = cf_ListenAddr c)
     \<and> (cf_Hostname c = [] \<or> ValidateHostname (cf_Hostname c) = None)
     \<and> mg_Port (cf_Management c) \<noteq> px_Port (cf_Proxy c)
     \<and> in_range minute (24 * hour) (mg_SessionTTL (cf_Management c))
     \<and> in_range second (10 * second) (px_DialTimeout (cf_Proxy c))
     \<and> in_range second minute (px_HandshakeTimeout (cf_Proxy c))
     \<and> in_range second (15 * second) (pv_RequestTimeout (cf_Provider c))
     \<and> in_range (15 * minute) (24 * hour) (pv_RefreshInterval (cf_Provider c))"
  by (auto simp: Config_Validate_def first_error_None validateListen_None config_validateHostname_def
      validateDurationRange_None config_limits)

lemma applyDefaults_ports:
  "mg_Port (cf_Management (applyDefaults c)) \<noteq> 0" "px_Port (cf_Proxy (applyDefaults c)) \<noteq> 0"
  by (simp_all add: applyDefaults_def default_management_def default_proxy_def DefaultConfig_def Let_def)

lemma default_idem:
  "default_management d (default_management d m) = default_management d m"
  "default_proxy d1 (default_proxy d1 p) = default_proxy d1 p"
  "default_provider d2 (default_provider d2 v) = default_provider d2 v"
  by (simp_all add: default_management_def default_proxy_def default_provider_def)

lemma applyDefaults_idem: "applyDefaults (applyDefaults c) = applyDefaults c"
  by (simp add: applyDefaults_def Let_def default_idem)

text \<open>
  C31: a configuration that loads is within every limit. \<open>Load\<close> returns a configuration exactly when
  the document decodes alone and within the size limit and its completion with the defaults passes
  the checks; then both ports are set and differ, every duration lies in its range, the listener is
  a canonical address, the hostname is empty or bare, and loading the result again changes nothing.
\<close>

theorem loaded_config_valid:
  "Load (Inr ()) decoded trailing stat = Inr cfg \<longleftrightarrow>
     (\<exists>raw sz. decoded = Inr raw \<and> trailing = Some EOF \<and> stat = Inr sz \<and> sz \<le> maxConfigBytes
        \<and> cfg = applyDefaults raw)
     \<and> applyDefaults cfg = cfg
     \<and> mg_Port (cf_Management cfg) \<noteq> 0 \<and> px_Port (cf_Proxy cfg) \<noteq> 0
     \<and> mg_Port (cf_Management cfg) \<noteq> px_Port (cf_Proxy cfg)
     \<and> in_range minute (24 * hour) (mg_SessionTTL (cf_Management cfg))
     \<and> in_range second (10 * second) (px_DialTimeout (cf_Proxy cfg))
     \<and> in_range second minute (px_HandshakeTimeout (cf_Proxy cfg))
     \<and> in_range second (15 * second) (pv_RequestTimeout (cf_Provider cfg))
     \<and> in_range (15 * minute) (24 * hour) (pv_RefreshInterval (cf_Provider cfg))
     \<and> (\<exists>a. ParseAddr (cf_ListenAddr cfg) = Some a \<and> addr_String a = cf_ListenAddr cfg)
     \<and> (cf_Hostname cfg = [] \<or> ValidateHostname (cf_Hostname cfg) = None)"
proof -
  have "Load (Inr ()) decoded trailing stat = Inr cfg \<longleftrightarrow>
     (\<exists>raw sz. decoded = Inr raw \<and> trailing = Some EOF \<and> stat = Inr sz \<and> sz \<le> maxConfigBytes
        \<and> cfg = applyDefaults raw) \<and> Config_Validate cfg = None"
    by (auto simp: Load_def Let_def split: sum.splits option.splits)
  then show ?thesis
    using applyDefaults_idem applyDefaults_ports unfolding Config_Validate_None by metis
qed

end
