(* ===== verification/GoURL.thy ===== *)
theory GoURL
  imports Config
begin

text \<open>
  What \<open>internal/state\<close> and \<open>internal/subscription\<close> use of \<open>net/url\<close>: \<open>url.Parse\<close> with every
  check that makes it fail, and \<open>URL.String\<close> for a URL without opaque part and path.
\<close>

section \<open>Escaping\<close>

datatype encoding = encodeHost | encodeZone | encodeUserPassword | encodeFragment | encodePath

definition is_alnum :: "char \<Rightarrow> bool" where
  "is_alnum c \<longleftrightarrow> (let n = chr_code c in 97 \<le> n \<and> n \<le> 122 \<or> 65 \<le> n \<and> n \<le> 90 \<or> 48 \<le> n \<and> n \<le> 57)"

text \<open>
  The path mode is only used to unescape, which does not ask \<open>shouldEscape\<close> in that mode.
\<close>

definition shouldEscape :: "char \<Rightarrow> encoding \<Rightarrow> bool" where
  "shouldEscape c mode =
     (if is_alnum c then False
      else if (mode = encodeHost \<or> mode = encodeZone) \<and> c \<in> set ''!$&'()*+,;=:[]<>\"'' then False
      else if c \<in> set ''-_.~'' then False
      else if c \<in> set ''$&+,/:;=?@'' then
        (case mode of
           encodeUserPassword \<Rightarrow> c \<in> set ''@/?:''
         | encodeFragment \<Rightarrow> False
         | _ \<Rightarrow> True)
      else if mode = encodeFragment \<and> c \<in> set ''!()*'' then False
      else True)"

definition upper_hex :: "nat \<Rightarrow> char" where
  "upper_hex n = ''0123456789ABCDEF'' ! n"

definition escape_char :: "encoding \<Rightarrow> char \<Rightarrow> string" where
  "escape_char mode c =
     (if shouldEscape c mode
      then [CHR ''%'', upper_hex (chr_code c div 16), upper_hex (chr_code c mod 16)] else [c])"

definition escape :: "encoding \<Rightarrow> string \<Rightarrow> string" where
  "escape mode s = concat (map (escape_char mode) s)"

fun unescape :: "encoding \<Rightarrow> string \<Rightarrow> string option" where
  "unescape mode [] = Some []"
| "unescape mode (c # s) =
     (if c = CHR ''%'' then
        (case s of
           a # b # r \<Rightarrow>
             (case (hex_digit_val a, hex_digit_val b) of
                (Some h, Some l) \<Rightarrow>
                  let v = char_of (16 * h + l) in
                  if mode = encodeHost \<and> h < 8 \<and> [a, b] \<noteq> ''25'' then None
                  else if mode = encodeZone \<and> [a, b] \<noteq> ''25'' \<and> v \<noteq> CHR '' '' \<and> shouldEscape v encodeHost
                  then None
                  else map_option (\<lambda>t. v # t) (unescape mode r)
              | _ \<Rightarrow> None)
         | _ \<Rightarrow> None)
      else if (mode = encodeHost \<or> mode = encodeZone) \<and> chr_code c < 128 \<and> shouldEscape c mode then None
      else map_option (\<lambda>t. c # t) (unescape mode s))"

section \<open>Parsing\<close>

definition cut :: "char \<Rightarrow> string \<Rightarrow> string \<times> string" where
  "cut c s = (takeWhile (\<lambda>x. x \<noteq> c) s, drop 1 (dropWhile (\<lambda>x. x \<noteq> c) s))"

definition newline :: char where "newline = CHR 0x0A"

record url =
  url_Scheme :: string
  url_Opaque :: string
  url_User :: "(string \<times> string option) option"
  url_Host :: string
  url_Path :: string
  url_ForceQuery :: bool
  url_RawQuery :: string
  url_Fragment :: string
  url_RawFragment :: string

definition zero_url :: url where
  "zero_url = \<lparr>url_Scheme = [], url_Opaque = [], url_User = None, url_Host = [], url_Path = [],
     url_ForceQuery = False, url_RawQuery = [], url_Fragment = [], url_RawFragment = []\<rparr>"

definition has_ctl :: "string \<Rightarrow> bool" where
  "has_ctl s \<longleftrightarrow> list_ex (\<lambda>c. chr_code c < 32 \<or> chr_code c = 127) s"

text \<open>\<open>getScheme\<close>: \<open>None\<close> is the missing protocol scheme.\<close>

fun scheme_loop :: "string \<Rightarrow> string \<Rightarrow> string \<Rightarrow> (string \<times> string) option" where
  "scheme_loop raw seen [] = Some ([], raw)"
| "scheme_loop raw seen (c # s) =
     (let n = chr_code c in
      if 97 \<le> n \<and> n \<le> 122 \<or> 65 \<le> n \<and> n \<le> 90 then scheme_loop raw (seen @ [c]) s
      else if 48 \<le> n \<and> n \<le> 57 \<or> c \<in> set ''+-.'' then
        (if seen = [] then Some ([], raw) else scheme_loop raw (seen @ [c]) s)
      else if c = CHR '':'' then (if seen = [] then None else Some (seen, s))
      else Some ([], raw))"

definition validOptionalPort :: "string \<Rightarrow> bool" where
  "validOptionalPort port \<longleftrightarrow> port = [] \<or> hd port = CHR '':'' \<and> list_all is_digit (tl port)"

text \<open>The part of \<open>s\<close> before the last \<open>c\<close> and the part after it.\<close>

definition cut_last :: "char \<Rightarrow> string \<Rightarrow> (string \<times> string) option" where
  "cut_last c s =
     (if c \<notin> set s then None
      else let after = rev (takeWhile (\<lambda>x. x \<noteq> c) (rev s)) in
        Some (take (length s - length after - 1) s, after))"

fun index_of :: "string \<Rightarrow> string \<Rightarrow> nat option" where
  "index_of p [] = (if p = [] then Some 0 else None)"
| "index_of p (c # s) = (if has_prefix p (c # s) then Some 0 else map_option Suc (index_of p s))"

definition parseHost :: "string \<Rightarrow> string option" where
  "parseHost host =
     (case cut_last (CHR ''['') host of
        Some (seen, _) \<Rightarrow>
          if seen \<noteq> [] then None
          else
            (case cut_last (CHR '']'') host of
               None \<Rightarrow> None
             | Some (literal, colonPort) \<Rightarrow>
                 if \<not> validOptionalPort colonPort then None
                 else
                   let hostname = drop 1 literal;
                       unescaped = (case index_of ''%25'' hostname of
                           Some z \<Rightarrow>
                             (case (unescape encodeHost (take z hostname), unescape encodeZone (drop z hostname)) of
                                (Some h, Some zone) \<Rightarrow> Some (h @ zone) | _ \<Rightarrow> None)
                         | None \<Rightarrow> unescape encodeHost hostname)
                   in (case unescaped of
                         None \<Rightarrow> None
                       | Some h \<Rightarrow>
                           (case ParseAddr h of
                              None \<Rightarrow> None
                            | Some a \<Rightarrow> if addr_Is4 a then None else Some (''['' @ h @ '']'' @ colonPort))))
      | None \<Rightarrow>
          if CHR '':'' \<in> set host
             \<and> (count_list host (CHR '':'') \<noteq> 1 \<or> \<not> validOptionalPort (dropWhile (\<lambda>c. c \<noteq> CHR '':'') host))
          then None
          else unescape encodeHost host)"

definition userinfo_char :: "char \<Rightarrow> bool" where
  "userinfo_char c \<longleftrightarrow> is_alnum c \<or> c \<in> set ''-._:~!$&'()*+,;=%@''"

definition validUserinfo :: "string \<Rightarrow> bool" where
  "validUserinfo s \<longleftrightarrow> list_all userinfo_char s"

text \<open>The user name and password, when there is user information, and the host.\<close>

definition parseAuthority :: "string \<Rightarrow> ((string \<times> string option) option \<times> string) option" where
  "parseAuthority authority =
     (case cut_last (CHR ''@'') authority of
        None \<Rightarrow> map_option (\<lambda>h. (None, h)) (parseHost authority)
      | Some (userinfo, host) \<Rightarrow>
          (case parseHost host of
             None \<Rightarrow> None
           | Some h \<Rightarrow>
               if \<not> validUserinfo userinfo then None
               else if CHR '':'' \<notin> set userinfo then
                 map_option (\<lambda>name. (Some (name, None), h)) (unescape encodeUserPassword userinfo)
               else
                 (case cut (CHR '':'') userinfo of
                    (name, password) \<Rightarrow>
                      (case (unescape encodeUserPassword name, unescape encodeUserPassword password) of
                         (Some n, Some p) \<Rightarrow> Some (Some (n, Some p), h) | _ \<Rightarrow> None))))"

text \<open>The query: a lone question mark at the end only sets \<open>ForceQuery\<close>.\<close>

definition cut_query :: "string \<Rightarrow> string \<times> bool \<times> string" where
  "cut_query rest =
     (if has_suffix ''?'' rest \<and> count_list rest (CHR ''?'') = 1 then (butlast rest, True, [])
      else let (r, q) = cut (CHR ''?'') rest in (r, False, q))"

definition parse_unfragmented :: "string \<Rightarrow> url option" where
  "parse_unfragmented raw =
     (if has_ctl raw then None
      else if raw = ''*'' then Some (zero_url\<lparr>url_Path := ''*''\<rparr>)
      else case scheme_loop raw [] raw of
        None \<Rightarrow> None
      | Some (scheme, rest) \<Rightarrow>
          let scheme = map ascii_lower scheme;
              (rest, force, query) = cut_query rest;
              u = zero_url\<lparr>url_Scheme := scheme, url_ForceQuery := force, url_RawQuery := query\<rparr>
          in if \<not> has_prefix ''/'' rest \<and> scheme \<noteq> [] then Some (u\<lparr>url_Opaque := rest\<rparr>)
             else if \<not> has_prefix ''/'' rest \<and> CHR '':'' \<in> set (fst (cut (CHR ''/'') rest)) then None
             else if (scheme \<noteq> [] \<or> \<not> has_prefix ''///'' rest) \<and> has_prefix ''//'' rest then
               (let after = drop 2 rest;
                    authority = takeWhile (\<lambda>c. c \<noteq> CHR ''/'') after;
                    path = dropWhile (\<lambda>c. c \<noteq> CHR ''/'') after
                in (case parseAuthority authority of
                      None \<Rightarrow> None
                    | Some (user, host) \<Rightarrow>
                        map_option (\<lambda>p. u\<lparr>url_User := user, url_Host := host, url_Path := p\<rparr>)
                          (unescape encodePath path)))
             else map_option (\<lambda>p. u\<lparr>url_Path := p\<rparr>) (unescape encodePath rest))"

definition setFragment :: "string \<Rightarrow> url \<Rightarrow> url option" where
  "setFragment f u =
     map_option (\<lambda>frag. u\<lparr>url_Fragment := frag,
         url_RawFragment := (if f = escape encodeFragment frag then [] else f)\<rparr>)
       (unescape encodeFragment f)"

definition url_Parse :: "string \<Rightarrow> url option" where
  "url_Parse raw =
     (case cut (CHR ''#'') raw of
        (u, frag) \<Rightarrow>
          (case parse_unfragmented u of
             None \<Rightarrow> None
           | Some r \<Rightarrow> if frag = [] then Some r else setFragment frag r))"

section \<open>Printing\<close>

definition validEncoded :: "string \<Rightarrow> bool" where
  "validEncoded s \<longleftrightarrow>
     list_all (\<lambda>c. c \<in> set ''!$&'()*+,;=:@[]%'' \<or> \<not> shouldEscape c encodeFragment) s"

definition EscapedFragment :: "url \<Rightarrow> string" where
  "EscapedFragment u =
     (if url_RawFragment u \<noteq> [] \<and> validEncoded (url_RawFragment u)
         \<and> unescape encodeFragment (url_RawFragment u) = Some (url_Fragment u)
      then url_RawFragment u else escape encodeFragment (url_Fragment u))"

definition Userinfo_String :: "string \<times> string option \<Rightarrow> string" where
  "Userinfo_String user =
     (case user of (name, password) \<Rightarrow>
        if name = [] \<and> password = None then []
        else escape encodeUserPassword name
          @ (case password of None \<Rightarrow> [] | Some p \<Rightarrow> '':'' @ escape encodeUserPassword p))"

text \<open>\<open>String\<close> of a URL with a scheme and a host, without opaque part and path.\<close>

definition url_String :: "url \<Rightarrow> string" where
  "url_String u =
     url_Scheme u @ ''://''
       @ (case url_User u of None \<Rightarrow> [] | Some user \<Rightarrow> Userinfo_String user @ ''@'')
       @ escape encodeHost (url_Host u)
       @ (if url_ForceQuery u \<or> url_RawQuery u \<noteq> [] then ''?'' @ url_RawQuery u else [])
       @ (if url_Fragment u = [] then [] else ''#'' @ EscapedFragment u)"

text \<open>The literal the source prints.\<close>

definition socks_url :: "string \<Rightarrow> string \<Rightarrow> string \<Rightarrow> string \<Rightarrow> url" where
  "socks_url name password host fragment =
     zero_url\<lparr>url_Scheme := ''socks5'', url_User := Some (name, Some password), url_Host := host,
       url_Fragment := fragment\<rparr>"

section \<open>Lemmas\<close>

lemma hex_digit_upper: "n < 16 \<Longrightarrow> hex_digit_val (upper_hex n) = Some n"
proof -
  have "\<forall>n\<in>{..<16}. hex_digit_val (upper_hex n) = Some n" by code_simp
  then show "n < 16 \<Longrightarrow> hex_digit_val (upper_hex n) = Some n" by simp
qed

lemma unescape_escape:
  assumes "mode = encodeUserPassword \<or> mode = encodeFragment"
  shows "unescape mode (escape mode s) = Some s"
proof (induction s)
  case (Cons c s)
  have lt: "chr_code c < 256" by simp
  have h: "hex_digit_val (upper_hex (chr_code c div 16)) = Some (chr_code c div 16)"
    "hex_digit_val (upper_hex (chr_code c mod 16)) = Some (chr_code c mod 16)"
    using lt by (intro hex_digit_upper; linarith)+
  have "char_of (16 * (chr_code c div 16) + chr_code c mod 16) = c"
    by (simp add: chr_code_def)
  moreover have "c = CHR ''%'' \<Longrightarrow> shouldEscape c mode"
    using assms by (auto simp: shouldEscape_def is_alnum_def chr_code_def)
  ultimately show ?case
    using Cons assms h by (auto simp: escape_def escape_char_def Let_def)
qed (simp add: escape_def)

lemma cut_no_sep: "c \<notin> set s \<Longrightarrow> cut c s = (s, [])"
  by (induction s) (auto simp: cut_def)

lemma cut_append: "c \<notin> set s \<Longrightarrow> cut c (s @ c # t) = (s, t)"
  by (auto simp: cut_def takeWhile_append dropWhile_append)

lemma cut_last_append: "c \<notin> set t \<Longrightarrow> cut_last c (s @ c # t) = Some (s, t)"
proof -
  assume "c \<notin> set t"
  then have "takeWhile (\<lambda>x. x \<noteq> c) (rev t @ c # rev s) = rev t" by (subst takeWhile_append2) auto
  then show ?thesis by (simp add: cut_last_def Let_def)
qed

text \<open>The characters of escaped user information.\<close>

definition user_char :: "char \<Rightarrow> bool" where
  "user_char c \<longleftrightarrow> is_alnum c \<or> c \<in> set ''-._~$&+,;=%''"

lemma user_char_facts:
  assumes "user_char c"
  shows "c \<noteq> CHR ''#''" "c \<noteq> CHR ''?''" "c \<noteq> CHR ''/''" "c \<noteq> CHR '':''" "c \<noteq> CHR ''@''"
    "32 \<le> chr_code c" "chr_code c \<noteq> 127" "userinfo_char c"
  using assms by (auto simp: userinfo_char_def user_char_def is_alnum_def chr_code_def Let_def)

lemma upper_hex_user: "n < 16 \<Longrightarrow> user_char (upper_hex n)"
proof -
  have "\<forall>n\<in>{..<16}. user_char (upper_hex n)" by code_simp
  then show "n < 16 \<Longrightarrow> user_char (upper_hex n)" by simp
qed

lemma escape_user: "list_all user_char (escape encodeUserPassword s)"
proof (induction s)
  case (Cons c s)
  have "chr_code c < 256" by simp
  then have "user_char (upper_hex (chr_code c div 16))" "user_char (upper_hex (chr_code c mod 16))"
    by (intro upper_hex_user; linarith)+
  moreover have "\<not> shouldEscape c encodeUserPassword \<Longrightarrow> user_char c"
    by (auto simp: shouldEscape_def user_char_def split: if_splits)
  moreover have "user_char (CHR ''%'')" by (simp add: user_char_def)
  ultimately show ?case using Cons by (auto simp: escape_def escape_char_def)
qed (simp add: escape_def)

lemma escape_user_no:
  "CHR ''#'' \<notin> set (escape encodeUserPassword s)" "CHR ''?'' \<notin> set (escape encodeUserPassword s)"
  "CHR ''/'' \<notin> set (escape encodeUserPassword s)" "CHR '':'' \<notin> set (escape encodeUserPassword s)"
  "CHR ''@'' \<notin> set (escape encodeUserPassword s)"
  using escape_user [of s] unfolding list_all_iff by (blast dest: user_char_facts)+

text \<open>A host that printing leaves alone and parsing accepts.\<close>

definition plain_host :: "string \<Rightarrow> bool" where
  "plain_host h \<longleftrightarrow> h \<noteq> [] \<and> list_all (\<lambda>c. \<not> shouldEscape c encodeHost \<and> 32 \<le> chr_code c \<and> chr_code c \<noteq> 127) h
     \<and> parseHost h = Some h"

lemma plain_host_no:
  assumes "plain_host h"
  shows "CHR ''#'' \<notin> set h" "CHR ''?'' \<notin> set h" "CHR ''/'' \<notin> set h" "CHR ''@'' \<notin> set h"
proof -
  have "shouldEscape (CHR ''#'') encodeHost" "shouldEscape (CHR ''?'') encodeHost"
    "shouldEscape (CHR ''/'') encodeHost" "shouldEscape (CHR ''@'') encodeHost" by code_simp+
  then show "CHR ''#'' \<notin> set h" "CHR ''?'' \<notin> set h" "CHR ''/'' \<notin> set h" "CHR ''@'' \<notin> set h"
    using assms unfolding plain_host_def list_all_iff by blast+
qed

lemma escape_plain: "plain_host h \<Longrightarrow> escape encodeHost h = h"
proof -
  have "list_all (\<lambda>c. \<not> shouldEscape c encodeHost) h \<Longrightarrow> escape encodeHost h = h"
    by (induction h) (simp_all add: escape_def escape_char_def)
  then show "plain_host h \<Longrightarrow> escape encodeHost h = h" by (simp add: plain_host_def list_all_iff)
qed

lemma parseAuthority_user:
  assumes "plain_host h"
  shows "parseAuthority (escape encodeUserPassword u @ '':'' @ escape encodeUserPassword p @ ''@'' @ h)
    = Some (Some (u, Some p), h)"
proof -
  let ?u = "escape encodeUserPassword u" and ?p = "escape encodeUserPassword p"
  have c: "cut_last (CHR ''@'') (?u @ '':'' @ ?p @ ''@'' @ h) = Some (?u @ CHR '':'' # ?p, h)"
    using cut_last_append [OF plain_host_no(4) [OF assms], of "?u @ CHR '':'' # ?p"] by simp
  have "userinfo_char (CHR '':'')" by (simp add: userinfo_char_def)
  then have v: "validUserinfo (?u @ CHR '':'' # ?p)"
    using escape_user [of u] escape_user [of p] user_char_facts(8)
    by (auto simp: validUserinfo_def list_all_iff)
  show ?thesis
    using assms v cut_append [OF escape_user_no(4) [of u], of ?p] unescape_escape [of encodeUserPassword]
    by (simp only: parseAuthority_def c) (simp add: plain_host_def)
qed

lemma has_suffix_set: "has_suffix p s \<Longrightarrow> set p \<subseteq> set s"
  unfolding has_suffix_def by (metis set_drop_subset)

lemma socks_url_fields:
  "url_Scheme (socks_url u p h f) = ''socks5''" "url_Opaque (socks_url u p h f) = []"
  "url_User (socks_url u p h f) = Some (u, Some p)" "url_Host (socks_url u p h f) = h"
  "url_Path (socks_url u p h f) = []" "url_ForceQuery (socks_url u p h f) = False"
  "url_RawQuery (socks_url u p h f) = []" "url_Fragment (socks_url u p h f) = f"
  "url_RawFragment (socks_url u p h f) = []"
  by (simp_all add: socks_url_def zero_url_def)

lemma url_String_socks:
  "url_String (socks_url u p h f) =
     ''socks5://'' @ (escape encodeUserPassword u @ '':'' @ escape encodeUserPassword p @ ''@'' @ escape encodeHost h)
       @ (if f = [] then [] else CHR ''#'' # escape encodeFragment f)"
  unfolding url_String_def socks_url_fields EscapedFragment_def Userinfo_String_def by simp

lemma parse_authority_only:
  assumes "parseAuthority a = Some (user, h)" and "CHR ''?'' \<notin> set a" and "CHR ''/'' \<notin> set a"
    and "\<not> has_ctl a"
  shows "parse_unfragmented (''socks5://'' @ a)
    = Some (zero_url\<lparr>url_Scheme := ''socks5'', url_User := user, url_Host := h\<rparr>)"
proof -
  have ctl: "\<not> has_ctl (''socks5://'' @ a)" using assms(4) by (simp add: has_ctl_def chr_code_def)
  have sch: "scheme_loop raw [] (''socks5://'' @ a) = Some (''socks5'', ''//'' @ a)" for raw
    by (simp add: chr_code_def Let_def)
  have "CHR ''?'' \<notin> set (''//'' @ a)" using assms(2) by simp
  moreover from this have "\<not> has_suffix ''?'' (''//'' @ a)"
    using has_suffix_set [of "''?''" "''//'' @ a"] by auto
  ultimately have q: "cut_query (''//'' @ a) = (''//'' @ a, False, [])"
    unfolding cut_query_def using cut_no_sep by auto
  have p: "takeWhile (\<lambda>c. c \<noteq> CHR ''/'') a = a" "dropWhile (\<lambda>c. c \<noteq> CHR ''/'') a = []"
    using assms(3) by (auto simp: takeWhile_eq_all_conv dropWhile_eq_Nil_conv)
  have l: "map ascii_lower ''socks5'' = ''socks5''" by code_simp
  have pre: "has_prefix ''/'' (''//'' @ a)" "has_prefix ''//'' (''//'' @ a)" "drop 2 (''//'' @ a) = a"
    "''socks5://'' @ a \<noteq> ''*''" by (simp_all add: has_prefix_def)
  show ?thesis
    unfolding parse_unfragmented_def sch option.case prod.case Let_def l q pre(3) p assms(1)
    using ctl pre by (simp add: zero_url_def)
qed

text \<open>What \<open>String\<close> prints, \<open>Parse\<close> reads back.\<close>

lemma url_Parse_String:
  assumes h: "plain_host h"
  shows "url_Parse (url_String (socks_url u p h frag)) = Some (socks_url u p h frag)"
proof -
  define a where "a = escape encodeUserPassword u @ '':'' @ escape encodeUserPassword p @ ''@'' @ h"
  have no: "CHR ''#'' \<notin> set a" "CHR ''?'' \<notin> set a" "CHR ''/'' \<notin> set a"
    using escape_user_no [of u] escape_user_no [of p] plain_host_no [OF h] by (auto simp: a_def)
  have "\<not> has_ctl a"
    using escape_user [of u] escape_user [of p] user_char_facts(6,7) h
    by (fastforce simp: a_def has_ctl_def list_ex_iff list_all_iff plain_host_def chr_code_def)
  then have base: "parse_unfragmented (''socks5://'' @ a)
      = Some (zero_url\<lparr>url_Scheme := ''socks5'', url_User := Some (u, Some p), url_Host := h\<rparr>)"
    using no parseAuthority_user [OF h, of u p] by (intro parse_authority_only) (simp_all add: a_def)
  have nohash: "CHR ''#'' \<notin> set (''socks5://'' @ a)" using no(1) by simp
  have str: "url_String (socks_url u p h frag)
      = (''socks5://'' @ a) @ (if frag = [] then [] else CHR ''#'' # escape encodeFragment frag)"
    unfolding url_String_socks escape_plain [OF h] a_def by (simp only: append_assoc)
  show ?thesis
  proof (cases "frag = []")
    case True
    then show ?thesis
      unfolding url_Parse_def str using cut_no_sep [OF nohash] base
      by (simp add: socks_url_def zero_url_def)
  next
    case False
    then have "escape encodeFragment frag \<noteq> []"
      using unescape_escape [of encodeFragment frag] by auto
    then show ?thesis
      using False cut_append [OF nohash] base unescape_escape [of encodeFragment frag]
      by (simp only: url_Parse_def str if_False prod.case option.case)
        (simp add: setFragment_def socks_url_def zero_url_def)
  qed
qed

end
