(* ===== verification/Subscription_Render.thy ===== *)
theory Subscription_Render
  imports GoURL GoEncoding Selector
begin

text \<open>
  \<open>internal/subscription/subscription.go\<close> and the readers of a rendered body in \<open>service.go\<close>: the
  deterministic Base64 list of SOCKS links, the address it is rendered for, and reading that
  address back.
\<close>

section \<open>Addresses\<close>

abbreviation ErrNoEligibleLinks :: go_error where
  "ErrNoEligibleLinks \<equiv> Sent ''subscription has no eligible links''"
abbreviation ErrRenderedTooLarge :: go_error where
  "ErrRenderedTooLarge \<equiv> Sent ''subscription exceeds response size limit''"
abbreviation ErrSubscriptionUnavailable :: go_error where
  "ErrSubscriptionUnavailable \<equiv> Sent ''subscription is not activated''"
abbreviation ErrInvalidAddress :: go_error where
  "ErrInvalidAddress \<equiv> Sent ''subscription SOCKS address must contain a canonical numeric IP address and port''"

definition parseAddress :: "string \<Rightarrow> go_error + string \<times> string" where
  "parseAddress address =
     (case SplitHostPort address of
        None \<Rightarrow> Inl ErrInvalidAddress
      | Some (host, port) \<Rightarrow>
          (case parse_uint16 port of
             None \<Rightarrow> Inl ErrInvalidAddress
           | Some portNumber \<Rightarrow>
               if portNumber = 0 \<or> dec portNumber \<noteq> port then Inl ErrInvalidAddress
               else
                 (case ParseAddr host of
                    Some ip \<Rightarrow>
                      if addr_Zone ip = [] \<and> addr_String ip = host then Inr (addr_String ip, port)
                      else if ValidateHostname host \<noteq> None then Inl ErrInvalidAddress
                      else Inr (host, port)
                  | None \<Rightarrow>
                      if ValidateHostname host \<noteq> None then Inl ErrInvalidAddress
                      else Inr (host, port))))"

definition validateAddress :: "string \<Rightarrow> go_error option" where
  "validateAddress address = (case parseAddress address of Inl e \<Rightarrow> Some e | Inr _ \<Rightarrow> None)"

section \<open>Rendering\<close>

record Link =
  lk_Selector :: string
  lk_Password :: string
  lk_Name :: string
  lk_Group :: string
  lk_Eligible :: bool

definition MaxRenderedBytes :: nat where "MaxRenderedBytes = 10 * 2 ^ 20"

fun eligible_links :: "Link list \<Rightarrow> go_error + Link list" where
  "eligible_links [] = Inr []"
| "eligible_links (link # links) =
     (if \<not> lk_Eligible link then eligible_links links
      else if lk_Selector link = [] \<or> lk_Password link = [] \<or> nul \<in> set (lk_Selector link)
              \<or> nul \<in> set (lk_Password link)
      then Inl (New ''invalid local SOCKS credential'')
      else try_bind (eligible_links links) (\<lambda>eligible. Inr (link # eligible)))"

text \<open>
  \<open>sort.Slice\<close> by group, name and selector. It is not stable; two links that agree in all three
  have the same selector, hence the same derived password, and are printed alike.
\<close>

definition sort_links :: "Link list \<Rightarrow> Link list" where
  "sort_links links = sort_key (\<lambda>l. (lk_Group l, lk_Name l, lk_Selector l)) links"

definition link_url :: "string \<Rightarrow> string \<Rightarrow> Link \<Rightarrow> string" where
  "link_url host port link =
     url_String (socks_url (lk_Selector link) (lk_Password link) (JoinHostPort host port) (lk_Name link))"

definition Render :: "Link list \<Rightarrow> string \<Rightarrow> go_error + string \<times> nat" where
  "Render links socksAddress =
     try_bind (parseAddress socksAddress) (\<lambda>(host, port).
     try_bind (eligible_links links) (\<lambda>eligible.
       if eligible = [] then Inl ErrNoEligibleLinks
       else
         let text = concat (map (\<lambda>link. link_url host port link @ [newline]) (sort_links eligible));
             encoded = std_encode (bytes_of_string text)
         in if length encoded > MaxRenderedBytes then Inl ErrRenderedTooLarge
            else Inr (encoded, length eligible)))"

text \<open>\<open>strings.TrimRight(baseURL, "/")\<close>.\<close>

definition subscriptionURL :: "string \<Rightarrow> string \<Rightarrow> string" where
  "subscriptionURL baseURL binding =
     rev (dropWhile (\<lambda>c. c = CHR ''/'') (rev baseURL)) @ ''/sub/'' @ binding"

section \<open>Reading a body\<close>

text \<open>The lines agree on one address that is valid; \<open>address\<close> is what the lines before gave.\<close>

fun lines_address :: "string \<Rightarrow> string list \<Rightarrow> string option" where
  "lines_address address [] = Some address"
| "lines_address address (line # lines) =
     (case url_Parse line of
        None \<Rightarrow> None
      | Some link \<Rightarrow>
          if url_Scheme link \<noteq> ''socks5'' \<or> url_Host link = [] \<or> url_User link = None \<or> url_RawQuery link \<noteq> []
          then None
          else if address = [] then
            (if validateAddress (url_Host link) \<noteq> None then None
             else lines_address (url_Host link) lines)
          else if url_Host link \<noteq> address then None
          else lines_address address lines)"

definition renderedAddress :: "string \<Rightarrow> string option" where
  "renderedAddress body =
     (case std_decode body of
        None \<Rightarrow> None
      | Some decoded \<Rightarrow>
          if decoded = [] then None
          else
            let lines = split_on newline (trim_suffix [newline] (string_of_bytes decoded)) in
            if hd lines = [] then None else lines_address [] lines)"

definition errRenderedSubscriptionMismatch :: go_error where
  "errRenderedSubscriptionMismatch = New ''rendered subscription does not match durable node authority''"

definition renderedSubscriptionAddress :: "string \<Rightarrow> go_error + string" where
  "renderedSubscriptionAddress rendered =
     (case std_decode rendered of
        None \<Rightarrow> Inl errRenderedSubscriptionMismatch
      | Some decoded \<Rightarrow>
          if std_encode decoded \<noteq> rendered then Inl errRenderedSubscriptionMismatch
          else
            let text = string_of_bytes decoded in
            if text = [] \<or> \<not> has_suffix [newline] text then Inl errRenderedSubscriptionMismatch
            else
              (case url_Parse (hd (split_on newline (trim_suffix [newline] text))) of
                 None \<Rightarrow> Inl errRenderedSubscriptionMismatch
               | Some parsed \<Rightarrow>
                   if url_Scheme parsed \<noteq> ''socks5'' \<or> url_User parsed = None \<or> url_Host parsed = []
                      \<or> url_RawQuery parsed \<noteq> [] then Inl errRenderedSubscriptionMismatch
                   else if validateAddress (url_Host parsed) \<noteq> None
                   then Inl errRenderedSubscriptionMismatch
                   else Inr (url_Host parsed)))"

definition concreteRenderedAddress :: "string \<Rightarrow> string \<Rightarrow> string option" where
  "concreteRenderedAddress listenAddress body =
     (case parseAddress listenAddress of
        Inl _ \<Rightarrow> None
      | Inr (listenHost, listenPort) \<Rightarrow>
          let listenIP = ParseAddr listenHost in
          if \<not> (case listenIP of None \<Rightarrow> False | Some ip \<Rightarrow> addr_IsUnspecified ip) then None
          else
            (case renderedAddress body of
               None \<Rightarrow> None
             | Some address \<Rightarrow>
                 (case parseAddress address of
                    Inl _ \<Rightarrow> None
                  | Inr (host, port) \<Rightarrow>
                      if port \<noteq> listenPort then None
                      else
                        (case ParseAddr host of
                           None \<Rightarrow> Some address
                         | Some ip \<Rightarrow>
                             if \<not> addr_IsUnspecified ip
                                \<and> addr_Is4 ip = (case listenIP of None \<Rightarrow> False | Some l \<Rightarrow> addr_Is4 l)
                             then Some address else None))))"

section \<open>Lemmas on addresses\<close>

lemma chr_code_eqs:
  "chr_code c = 46 \<longleftrightarrow> c = CHR ''.''" "chr_code c = 58 \<longleftrightarrow> c = CHR '':''"
proof -
  have "chr_code (CHR ''.'') = 46" "chr_code (CHR '':'') = 58" by (simp_all add: chr_code_def)
  then show "chr_code c = 46 \<longleftrightarrow> c = CHR ''.''" "chr_code c = 58 \<longleftrightarrow> c = CHR '':''"
    by (metis chr_code_inject)+
qed

definition host_char :: "char \<Rightarrow> bool" where
  "host_char c \<longleftrightarrow> \<not> shouldEscape c encodeHost \<and> 32 \<le> chr_code c \<and> chr_code c \<noteq> 127"

lemma host_char_sep:
  "host_char (CHR ''.'')" "host_char (CHR '':'')" "host_char (CHR ''['')" "host_char (CHR '']'')"
  by (simp_all add: host_char_def shouldEscape_def chr_code_def)

lemma alnum_host: "is_alnum c \<Longrightarrow> host_char c"
  by (auto simp: host_char_def shouldEscape_def) (auto simp: is_alnum_def Let_def)

lemma addr_char_host: "addr_char c \<Longrightarrow> host_char c"
proof -
  assume "addr_char c"
  then have "is_alnum c \<or> c = CHR ''.'' \<or> c = CHR '':''"
    unfolding addr_char_def is_alnum_def Let_def chr_code_eqs [symmetric] by linarith
  then show "host_char c" using alnum_host host_char_sep by auto
qed

lemma label_char_host:
  assumes "label_char c"
  shows "host_char c"
proof -
  have "chr_code (CHR ''a'') = 97" "chr_code (CHR ''z'') = 122" "chr_code (CHR ''A'') = 65"
    "chr_code (CHR ''Z'') = 90" "chr_code (CHR ''0'') = 48" "chr_code (CHR ''9'') = 57"
    by (simp_all add: chr_code_def)
  then have "is_alnum c \<or> c = CHR ''-''"
    using assms by (auto simp: label_char_def is_alnum_def Let_def)
  moreover have "host_char (CHR ''-'')" by (simp add: host_char_def shouldEscape_def chr_code_def)
  ultimately show ?thesis using alnum_host by auto
qed

lemma digit_host: "is_digit c \<Longrightarrow> host_char c"
  by (rule alnum_host) (simp add: is_alnum_def is_digit_def Let_def)

lemma unescape_host: "list_all host_char s \<Longrightarrow> unescape encodeHost s = Some s"
proof (induction s)
  case (Cons c s)
  have "\<not> host_char (CHR ''%'')" by (simp add: host_char_def shouldEscape_def is_alnum_def chr_code_def)
  then have "c \<noteq> CHR ''%''" "\<not> shouldEscape c encodeHost" using Cons.prems by (auto simp: host_char_def)
  then show ?case using Cons by simp
qed simp

text \<open>What \<open>parseAddress\<close> accepts: a zone-free canonical address or a hostname, and a port.\<close>

definition good_host :: "string \<Rightarrow> bool" where
  "good_host h \<longleftrightarrow> (\<exists>ip. ParseAddr h = Some ip \<and> addr_Zone ip = [] \<and> addr_String ip = h)
     \<or> ValidateHostname h = None"

definition good_port :: "string \<Rightarrow> bool" where
  "good_port p \<longleftrightarrow> (\<exists>n. 0 < n \<and> n \<le> 65535 \<and> p = dec n)"

lemma good_port_parse: "good_port p \<longleftrightarrow> (\<exists>n. parse_uint16 p = Some n \<and> n \<noteq> 0 \<and> dec n = p)"
  using parse_uint16_bound parse_uint16_dec by (fastforce simp: good_port_def)

lemma parseAddress_Inr:
  "parseAddress address = Inr (host, port) \<longleftrightarrow>
     SplitHostPort address = Some (host, port) \<and> good_port port \<and> good_host host"
  by (auto simp: parseAddress_def good_port_parse good_host_def split: option.splits if_splits)

lemma good_host_chars:
  assumes "good_host h"
  shows "list_all host_char h" "CHR ''['' \<notin> set h" "CHR '']'' \<notin> set h" "h \<noteq> []"
proof -
  have "list_all host_char h \<and> CHR ''['' \<notin> set h \<and> CHR '']'' \<notin> set h \<and> h \<noteq> []"
  proof (cases "ValidateHostname h = None")
    case True
    then show ?thesis
      using ValidateHostname_chars [OF True] ValidateHostname_no [OF True] label_char_host host_char_sep
      by (auto simp: list_all_iff)
  next
    case False
    then obtain ip where ip: "ParseAddr h = Some ip" "addr_Zone ip = []" "addr_String ip = h"
      using assms by (auto simp: good_host_def)
    obtain p where "list_all addr_char p" "addr_String ip = p"
      by (rule addr_String_chars [of ip]) (use ip(2) in simp)
    then have all: "list_all addr_char h" using ip(3) by simp
    have "\<not> addr_char (CHR ''['')" "\<not> addr_char (CHR '']'')" by (simp_all add: addr_char_def chr_code_def)
    moreover have "ParseAddr [] = None" by (simp add: ParseAddr_def)
    ultimately show ?thesis using all ip(1) addr_char_host by (auto simp: list_all_iff)
  qed
  then show "list_all host_char h" "CHR ''['' \<notin> set h" "CHR '']'' \<notin> set h" "h \<noteq> []" by auto
qed

lemma good_port_chars:
  assumes "good_port p"
  shows "list_all is_digit p" "p \<noteq> []" "CHR '':'' \<notin> set p" "CHR ''['' \<notin> set p" "CHR '']'' \<notin> set p"
proof -
  have "\<not> is_digit (CHR '':'')" "\<not> is_digit (CHR ''['')" "\<not> is_digit (CHR '']'')"
    by (simp_all add: is_digit_def chr_code_def)
  then show "list_all is_digit p" "p \<noteq> []" "CHR '':'' \<notin> set p" "CHR ''['' \<notin> set p" "CHR '']'' \<notin> set p"
    using assms dec_digits dec_no_char by (auto simp: good_port_def)
qed

lemma SplitHostPort_good:
  "good_host host \<Longrightarrow> good_port port \<Longrightarrow> SplitHostPort (JoinHostPort host port) = Some (host, port)"
  using good_host_chars [of host] good_port_chars [of port] by (intro SplitHostPort_JoinHostPort) auto

lemma parseAddress_Join:
  "good_host host \<Longrightarrow> good_port port \<Longrightarrow> parseAddress (JoinHostPort host port) = Inr (host, port)"
  by (simp add: parseAddress_Inr SplitHostPort_good)

lemma index_of_absent: "c \<notin> set s \<Longrightarrow> index_of (c # p) s = None"
  by (induction s) (auto simp: has_prefix_def)

lemma colon_host_IP6:
  assumes "good_host h" and "CHR '':'' \<in> set h"
  shows "\<exists>ip. ParseAddr h = Some ip \<and> \<not> addr_Is4 ip"
proof -
  have "ValidateHostname h \<noteq> None" using assms(2) ValidateHostname_no(1) by blast
  then obtain ip where ip: "ParseAddr h = Some ip" "addr_String ip = h" using assms(1) by (auto simp: good_host_def)
  have "CHR '':'' \<notin> set (string4 os)" for os
  proof -
    have "set (join_on (CHR ''.'') (map dec os)) \<subseteq> insert (CHR ''.'') (\<Union> (set ` set (map dec os)))"
      by (rule set_join_on)
    then show ?thesis using dec_no_dot(2) by (auto simp: string4_def)
  qed
  then have "\<not> addr_Is4 ip" using ip(2) assms(2) by (cases ip) auto
  with ip(1) show ?thesis by blast
qed

lemma plain_host_Join:
  assumes h: "good_host host" and p: "good_port port"
  shows "plain_host (JoinHostPort host port)"
proof -
  note hc = good_host_chars [OF h] and pc = good_port_chars [OF p]
  have port: "list_all host_char port" "validOptionalPort (CHR '':'' # port)"
    using pc(1) digit_host by (auto simp: list_all_iff validOptionalPort_def)
  show ?thesis
  proof (cases "CHR '':'' \<in> set host")
    case False
    have all: "list_all host_char (host @ CHR '':'' # port)" using hc(1) port(1) host_char_sep by simp
    have "cut_last (CHR ''['') (host @ CHR '':'' # port) = None"
      using hc(2) pc(4) by (simp add: cut_last_def)
    moreover have "count_list (host @ CHR '':'' # port) (CHR '':'') = 1"
      using False pc(3) by simp
    moreover have "dropWhile (\<lambda>c. c \<noteq> CHR '':'') (host @ CHR '':'' # port) = CHR '':'' # port"
      using False by (subst dropWhile_append2) auto
    ultimately have "parseHost (host @ CHR '':'' # port) = Some (host @ CHR '':'' # port)"
      using unescape_host [OF all] port(2) by (simp add: parseHost_def)
    then show ?thesis
      using False all by (simp add: plain_host_def JoinHostPort_def host_char_def [abs_def])
  next
    case True
    obtain ip where ip: "ParseAddr host = Some ip" "\<not> addr_Is4 ip" using colon_host_IP6 [OF h True] by blast
    let ?s = "CHR ''['' # host @ CHR '']'' # CHR '':'' # port"
    have all: "list_all host_char ?s" using hc(1) port(1) host_char_sep by simp
    have "cut_last (CHR ''['') ?s = Some ([], host @ CHR '']'' # CHR '':'' # port)"
      using cut_last_append [of "CHR ''[''" "host @ CHR '']'' # CHR '':'' # port" "[]"] hc(2) pc(4) by simp
    moreover have "cut_last (CHR '']'') ?s = Some (CHR ''['' # host, CHR '':'' # port)"
      using cut_last_append [of "CHR '']''" "CHR '':'' # port" "CHR ''['' # host"] pc(5) by simp
    moreover have "index_of ''%25'' host = None"
    proof (rule index_of_absent)
      have "\<not> host_char (CHR ''%'')" by (simp add: host_char_def shouldEscape_def is_alnum_def chr_code_def)
      then show "CHR ''%'' \<notin> set host" using hc(1) by (auto simp: list_all_iff)
    qed
    ultimately have "parseHost ?s = Some ?s"
      using port(2) unescape_host [OF hc(1)] ip by (simp add: parseHost_def Let_def)
    then show ?thesis
      using True all by (simp add: plain_host_def JoinHostPort_def host_char_def [abs_def])
  qed
qed

section \<open>Rendering and reading back\<close>

lemma escape_no_newline: "newline \<notin> set (escape mode s)"
proof (induction s)
  case (Cons c s)
  have hex: "upper_hex n \<noteq> newline" if "n < 16" for n
  proof -
    have "\<forall>n\<in>{..<16}. upper_hex n \<noteq> newline" by code_simp
    with that show ?thesis by simp
  qed
  have "chr_code c < 256" by simp
  then have "upper_hex (chr_code c div 16) \<noteq> newline" "upper_hex (chr_code c mod 16) \<noteq> newline"
    by (intro hex; linarith)+
  moreover have "shouldEscape newline mode" by (simp add: shouldEscape_def newline_def is_alnum_def chr_code_def)
  ultimately show ?case using Cons by (auto simp: escape_def escape_char_def newline_def)
qed (simp add: escape_def)

lemma link_url_line: "newline \<notin> set (link_url host port l)" "link_url host port l \<noteq> []"
  using escape_no_newline by (auto simp: link_url_def url_String_socks newline_def)

lemma split_on_join_on:
  "ws \<noteq> [] \<Longrightarrow> \<forall>w\<in>set ws. c \<notin> set w \<Longrightarrow> split_on c (join_on c ws) = ws"
  by (induction c ws rule: join_on.induct) (simp_all add: split_on_no_sep split_on_append)

lemma lines_join: "ws \<noteq> [] \<Longrightarrow> concat (map (\<lambda>w. w @ [c]) ws) = join_on c ws @ [c]"
  by (induction c ws rule: join_on.induct) simp_all

lemma body_lines:
  assumes "ls \<noteq> []"
  shows "split_on newline (trim_suffix [newline] (concat (map (\<lambda>l. link_url host port l @ [newline]) ls)))
    = map (link_url host port) ls"
proof -
  have "concat (map (\<lambda>l. link_url host port l @ [newline]) ls)
      = join_on newline (map (link_url host port) ls) @ [newline]"
    using lines_join [of "map (link_url host port) ls" newline] assms by (simp add: comp_def)
  then show ?thesis
    using split_on_join_on [of "map (link_url host port) ls" newline] link_url_line assms
    by (simp add: trim_suffix_snoc)
qed

lemma url_Parse_link:
  assumes "good_host host" and "good_port port"
  shows "url_Parse (link_url host port l)
    = Some (socks_url (lk_Selector l) (lk_Password l) (JoinHostPort host port) (lk_Name l))"
  unfolding link_url_def by (rule url_Parse_String) (rule plain_host_Join [OF assms])

lemma Join_not_Nil: "good_host host \<Longrightarrow> JoinHostPort host port \<noteq> []"
  using good_host_chars(4) [of host] by (simp add: JoinHostPort_def)

lemma lines_address_links:
  assumes "good_host host" and "good_port port" and "address = [] \<and> ls \<noteq> [] \<or> address = JoinHostPort host port"
  shows "lines_address address (map (link_url host port) ls) = Some (JoinHostPort host port)"
  using assms(3)
proof (induction ls arbitrary: address)
  case (Cons l ls)
  note Join_not_Nil [OF assms(1), of port]
  moreover have "validateAddress (JoinHostPort host port) = None"
    by (simp add: validateAddress_def parseAddress_Join [OF assms(1,2)])
  ultimately show ?case using Cons url_Parse_link [OF assms(1,2), of l] by (auto simp: socks_url_fields)
qed simp

lemma eligible_links_set: "eligible_links ls = Inr es \<Longrightarrow> es = filter lk_Eligible ls"
  by (induction ls arbitrary: es) (auto split: if_splits)

lemma render_reads_back:
  assumes "Render links address = Inr (body, n)"
  shows "\<exists>host port. parseAddress address = Inr (host, port)
    \<and> renderedAddress body = Some (JoinHostPort host port)
    \<and> renderedSubscriptionAddress body = Inr (JoinHostPort host port)
    \<and> parseAddress (JoinHostPort host port) = Inr (host, port)
    \<and> Render links (JoinHostPort host port) = Inr (body, n)
    \<and> n = length (filter lk_Eligible links) \<and> 0 < n \<and> length body \<le> MaxRenderedBytes"
proof -
  obtain host port es where a: "parseAddress address = Inr (host, port)" and e: "eligible_links links = Inr es"
      "es \<noteq> []" and n: "n = length es"
    and body: "body = std_encode (bytes_of_string
        (concat (map (\<lambda>l. link_url host port l @ [newline]) (sort_links es))))"
    and len: "length body \<le> MaxRenderedBytes"
    using assms by (auto simp: Render_def Let_def split: if_splits)
  have g: "good_host host" "good_port port" using a by (auto simp: parseAddress_Inr)
  let ?ls = "sort_links es"
  let ?text = "concat (map (\<lambda>l. link_url host port l @ [newline]) ?ls)"
  have ne: "?ls \<noteq> []" using e(2) by (metis sort_links_def length_0_conv length_sort)
  then have tne: "?text \<noteq> []" by (cases ?ls) simp_all
  have "has_suffix [newline] ?text"
    using lines_join [of "map (link_url host port) ?ls" newline] ne
    by (simp add: comp_def has_suffix_def)
  moreover have hd: "hd (map (link_url host port) ?ls) = link_url host port (hd ?ls)"
    using ne by (simp add: hd_map)
  moreover have "validateAddress (JoinHostPort host port) = None"
    by (simp add: validateAddress_def parseAddress_Join [OF g])
  ultimately have "renderedSubscriptionAddress body = Inr (JoinHostPort host port)"
    using tne Join_not_Nil [OF g(1)] url_Parse_link [OF g]
    by (simp add: renderedSubscriptionAddress_def body body_lines [OF ne] Let_def socks_url_fields)
  moreover have "renderedAddress body = Some (JoinHostPort host port)"
    using tne hd link_url_line(2) lines_address_links [OF g, of "[]" ?ls] ne
    by (simp add: renderedAddress_def body body_lines [OF ne] Let_def)
  moreover have "Render links (JoinHostPort host port) = Inr (body, n)"
    using assms by (simp add: Render_def a parseAddress_Join [OF g])
  ultimately show ?thesis
    using a n e len eligible_links_set [OF e(1)] parseAddress_Join [OF g] by auto
qed

text \<open>
  C32: a rendered body carries the address it was rendered for. Whatever bytes the selectors,
  passwords and node names contain, reading a body back gives the one address all its links name,
  in the normal form that parses to the same host and port; the body is within the size limit and
  counts exactly the eligible links. So a restart recovers the address it served, and a body is
  recognised as stale exactly by comparing addresses.
\<close>

theorem render_address_roundtrip:
  assumes "Render links address = Inr (body, n)"
  shows "\<exists>host port. parseAddress address = Inr (host, port)
    \<and> renderedAddress body = Some (JoinHostPort host port)
    \<and> renderedSubscriptionAddress body = Inr (JoinHostPort host port)
    \<and> parseAddress (JoinHostPort host port) = Inr (host, port)
    \<and> Render links (JoinHostPort host port) = Inr (body, n)
    \<and> n = length (filter lk_Eligible links) \<and> 0 < n \<and> length body \<le> MaxRenderedBytes"
  by (rule render_reads_back [OF assms])

text \<open>
  rendering is deterministic. It does not depend on the order in which the links are given, as
  long as no two eligible ones agree in group, name and selector.
\<close>

theorem render_deterministic:
  assumes "mset links = mset links'"
    and "inj_on (\<lambda>l. (lk_Group l, lk_Name l, lk_Selector l)) (set (filter lk_Eligible links))"
  shows "is_ok (Render links address) \<longrightarrow> Render links' address = Render links address"
proof -
  have ok: "eligible_links ls = Inr (filter lk_Eligible ls) \<longleftrightarrow>
      (\<forall>l\<in>set ls. lk_Eligible l \<longrightarrow> lk_Selector l \<noteq> [] \<and> lk_Password l \<noteq> []
         \<and> nul \<notin> set (lk_Selector l) \<and> nul \<notin> set (lk_Password l))" for ls
    by (induction ls) (auto simp: try_bind_def split: sum.splits dest: eligible_links_set)
  show ?thesis
  proof
    assume "is_ok (Render links address)"
    then obtain es where e: "eligible_links links = Inr es" by (auto simp: Render_def is_ok_iff)
    then have "eligible_links links = Inr (filter lk_Eligible links)" using eligible_links_set by blast
    then have "eligible_links links' = Inr (filter lk_Eligible links')"
      unfolding ok using mset_eq_setD [OF assms(1)] by simp
    moreover have m: "mset (filter lk_Eligible links') = mset (filter lk_Eligible links)"
      using assms(1) by (simp add: mset_filter)
    have "sort_links (filter lk_Eligible links) = sort_links (filter lk_Eligible links')"
      unfolding sort_links_def by (rule sort_key_perm_eq [OF m [symmetric] assms(2)])
    moreover have "length (filter lk_Eligible links') = length (filter lk_Eligible links)"
      by (rule mset_eq_length [OF m])
    ultimately show "Render links' address = Render links address"
      using e eligible_links_set [OF e] by (simp add: Render_def) (metis length_0_conv)
  qed
qed

section \<open>The configured address\<close>

text \<open>An address with a zone is never taken, whatever characters the zone has.\<close>

lemma SplitHostPort_bracket:
  assumes "CHR ''['' \<in> set h \<or> CHR '']'' \<in> set h" and "CHR '':'' \<notin> set port"
  shows "SplitHostPort (CHR ''['' # h @ CHR '']'' # CHR '':'' # port) = None"
proof -
  let ?s = "CHR ''['' # h @ CHR '']'' # CHR '':'' # port"
  have p: "rev (takeWhile (\<lambda>c. c \<noteq> CHR '':'') (rev ?s)) = port"
    using rev_takeWhile_port [OF assms(2), of "CHR ''['' # h @ '']''"] by simp
  show ?thesis
  proof (cases "CHR '']'' \<in> set h")
    case True
    have "length (takeWhile (\<lambda>c. c \<noteq> CHR '']'') h) \<noteq> length h"
      using True by (metis (mono_tags, lifting) length_takeWhile_le set_takeWhileD take_all_iff
          takeWhile_eq_take order_refl)
    moreover have "takeWhile (\<lambda>c. c \<noteq> CHR '']'') (h @ r) = takeWhile (\<lambda>c. c \<noteq> CHR '']'') h" for r
      using True by (intro takeWhile_append1) auto
    ultimately show ?thesis unfolding SplitHostPort_def p Let_def by simp
  next
    case False
    then show ?thesis using assms(1) unfolding SplitHostPort_def p Let_def by simp
  qed
qed

lemma zoned_address:
  assumes "ParseAddr h = Some ip" and "addr_Zone ip \<noteq> []" and "addr_String ip = h"
  shows "CHR '':'' \<in> set h" "CHR ''%'' \<in> set h"
proof -
  obtain c r where d: "dropWhile (\<lambda>c. c \<notin> {CHR ''.'', CHR '':'', CHR ''%''}) h = c # r" and c: "c = CHR '':''"
    using assms(1,2) by (auto simp: ParseAddr_def split: list.splits if_splits)
  then show "CHR '':'' \<in> set h" by (metis list.set_intros(1) set_dropWhileD)
  show "CHR ''%'' \<in> set h"
    by (rule addr_String_chars [of ip]) (use assms(2,3) in auto)
qed

lemma parseAddress_zoned:
  assumes "ParseAddr h = Some ip" and "addr_Zone ip \<noteq> []" and "addr_String ip = h" and "good_port port"
  shows "parseAddress (JoinHostPort h port) = Inl ErrInvalidAddress"
proof (cases "CHR ''['' \<in> set h \<or> CHR '']'' \<in> set h")
  case True
  then show ?thesis
    using zoned_address [OF assms(1-3)] good_port_chars [OF assms(4)] SplitHostPort_bracket [OF True, of port]
    by (simp add: parseAddress_def JoinHostPort_def)
next
  case False
  have "h \<noteq> []" using zoned_address [OF assms(1-3)] by auto
  then have split: "SplitHostPort (JoinHostPort h port) = Some (h, port)"
    using False good_port_chars [OF assms(4)] by (intro SplitHostPort_JoinHostPort) auto
  obtain n where "parse_uint16 port = Some n" "n \<noteq> 0" "dec n = port"
    using assms(4) by (auto simp: good_port_parse)
  moreover have "ValidateHostname h \<noteq> None"
    using zoned_address(1) [OF assms(1-3)] ValidateHostname_no(1) by blast
  ultimately show ?thesis using split assms(1-3) by (simp add: parseAddress_def)
qed

text \<open>
  a valid configuration and the subscription service agree on the proxy address except for
  one class. The address of the SOCKS listener of every configuration that loads is accepted by the
  subscription renderer, and split into the configured listener and port, exactly when the listener
  address has no IPv6 zone; with a zone the service can not be built.
\<close>

theorem config_proxy_address:
  assumes "Load (Inr ()) decoded trailing stat = Inr cfg"
    and "ParseAddr (cf_ListenAddr cfg) = Some ip"
  shows "parseAddress (ProxyAddress cfg)
    = (if addr_Zone ip = [] then Inr (cf_ListenAddr cfg, Port_String (px_Port (cf_Proxy cfg)))
       else Inl ErrInvalidAddress)"
proof -
  have v: "Config_Validate cfg = None" and port: "px_Port (cf_Proxy cfg) \<noteq> 0"
    using assms(1) applyDefaults_ports(2)
    by (auto simp: Load_def Let_def split: sum.splits option.splits if_splits)
  then have canon: "addr_String ip = cf_ListenAddr cfg"
    using assms(2) by (auto simp: Config_Validate_None)
  have "unat (px_Port (cf_Proxy cfg)) \<le> 65535" using unat_u16_lt [of "px_Port (cf_Proxy cfg)"] by linarith
  then have p: "good_port (Port_String (px_Port (cf_Proxy cfg)))"
    using port unfolding good_port_def Port_String_def
    by (intro exI [of _ "unat (px_Port (cf_Proxy cfg))"]) (simp add: unat_gt_0)
  show ?thesis
  proof (cases "addr_Zone ip = []")
    case True
    then have "good_host (cf_ListenAddr cfg)" using assms(2) canon by (auto simp: good_host_def)
    then show ?thesis using True parseAddress_Join p by (simp add: ProxyAddress_def)
  next
    case False
    then show ?thesis using parseAddress_zoned [OF assms(2) _ canon p] by (simp add: ProxyAddress_def)
  qed
qed

section \<open>Concrete addresses and links\<close>

definition demo_link :: "string \<Rightarrow> Link" where
  "demo_link name = \<lparr>lk_Selector = ''n_a'', lk_Password = ''p_/:@'', lk_Name = name, lk_Group = [], lk_Eligible = True\<rparr>"

lemma render_address_roundtrip_witness:
  "\<exists>body. Render [demo_link ''HK #1''] ''[::1]:1080'' = Inr (body, 1)
     \<and> renderedAddress body = Some (JoinHostPort ''::1'' ''1080'')"
proof -
  have "map_sum id snd (Render [demo_link ''HK #1''] ''[::1]:1080'') = Inr 1"
    and a: "parseAddress ''[::1]:1080'' = Inr (''::1'', ''1080'')" by code_simp+
  then obtain body where r: "Render [demo_link ''HK #1''] ''[::1]:1080'' = Inr (body, 1)"
    by (cases "Render [demo_link ''HK #1''] ''[::1]:1080''") auto
  from render_address_roundtrip [OF r] r a show ?thesis by auto
qed

lemma render_deterministic_witness:
  "Render [demo_link ''b'', demo_link ''a''] ''127.0.0.1:1080''
   = Render [demo_link ''a'', demo_link ''b''] ''127.0.0.1:1080''"
proof -
  have "is_ok (Render [demo_link ''a'', demo_link ''b''] ''127.0.0.1:1080'')" by code_simp
  then show ?thesis
    using render_deterministic [of "[demo_link ''a'', demo_link ''b'']" "[demo_link ''b'', demo_link ''a'']"
        "''127.0.0.1:1080''"] by (simp add: demo_link_def inj_on_def)
qed

lemma config_proxy_address_witness:
  "parseAddress (ProxyAddress (applyDefaults DefaultConfig)) = Inr (''127.0.0.1'', ''10808'')"
proof -
  let ?c = "applyDefaults DefaultConfig"
  have l: "Load (Inr ()) (Inr DefaultConfig) (Some EOF) (Inr 300) = Inr ?c"
    and p: "ParseAddr (cf_ListenAddr ?c) = Some (IP4 [127, 0, 0, 1])"
    and d: "cf_ListenAddr ?c = ''127.0.0.1''" "Port_String (px_Port (cf_Proxy ?c)) = ''10808''" by code_simp+
  show ?thesis using config_proxy_address [OF l p] d by simp
qed

end
