(* ===== verification/State_Validate.thy ===== *)
theory State_Validate
  imports State_Persist GoURL GoEncoding
begin

text \<open>
  \<open>internal/state/types.go\<close>, third part: the validation of a durable aggregate, with the rendered
  subscription it keeps. \<open>parse_duration\<close> is \<open>time.ParseDuration\<close>.
\<close>

section \<open>Preferences and rendered subscriptions\<close>

definition maxRenderedSubscriptionBytes :: nat where "maxRenderedSubscriptionBytes = 10 * 2 ^ 20"

definition validatePreferences ::
  "(string \<Rightarrow> go_error + duration) \<Rightarrow> Preferences \<Rightarrow> go_error option" where
  "validatePreferences parse_duration p =
     (if \<not> list_all (\<lambda>(nodeID, excluded). nodeID \<noteq> [] \<and> excluded) (pref_ExcludedNodeIDs p)
      then Some (New ''invalid excluded node preference'')
      else if pref_RefreshPolicy p \<noteq> [] then
        (case parse_duration (pref_RefreshPolicy p) of
           Inl _ \<Rightarrow> Some (New ''invalid refresh policy'')
         | Inr interval \<Rightarrow>
             if interval < 15 * minute \<or> interval > 24 * hour then Some (New ''invalid refresh policy'')
             else None)
      else None)"

text \<open>
  One line of the body. \<open>String\<close> is only compared with the line; for the URLs of which opaque
  part and path are empty it is \<open>url_String\<close>, and the others are refused by the same branch.
\<close>

definition rendered_line_ok :: "string \<Rightarrow> bool" where
  "rendered_line_ok line =
     (if line = [] \<or> CHR 0x0D \<in> set line then False
      else case url_Parse line of
        None \<Rightarrow> False
      | Some link \<Rightarrow>
          if url_Scheme link \<noteq> ''socks5'' \<or> url_Opaque link \<noteq> [] \<or> url_Host link = [] \<or> url_Path link \<noteq> []
             \<or> url_RawQuery link \<noteq> [] \<or> url_String link \<noteq> line
          then False
          else case url_User link of
            None \<Rightarrow> False
          | Some (name, password) \<Rightarrow>
              name \<noteq> [] \<and> (case password of None \<Rightarrow> False | Some p \<Rightarrow> p \<noteq> []))"

definition wifiin_nodes :: "PersistedNode list \<Rightarrow> PersistedNode list" where
  "wifiin_nodes nodes = filter (\<lambda>n. pnode_Eligible n \<and> equal_fold (pnode_Provider n) ''WIFIIN'') nodes"

definition validateRenderedSubscription :: "string \<Rightarrow> PersistedNode list \<Rightarrow> go_error option" where
  "validateRenderedSubscription body nodes =
     (if length body = 0 \<or> length body > maxRenderedSubscriptionBytes
      then Some (New ''invalid rendered subscription size'')
      else case std_decode body of
        None \<Rightarrow> Some (New ''invalid rendered subscription'')
      | Some decoded \<Rightarrow>
          let text = string_of_bytes decoded in
          if std_encode decoded \<noteq> body \<or> \<not> utf8_valid text \<or> text = [] \<or> last text \<noteq> newline
          then Some (New ''invalid rendered subscription'')
          else
            let eligible = length (wifiin_nodes nodes);
                unexcludedEligible = length (filter (\<lambda>n. \<not> pnode_Excluded n) (wifiin_nodes nodes));
                lines = split_on newline (butlast text)
            in if eligible = 0 then Some (New ''rendered subscription has no eligible nodes'')
               else if length lines \<noteq> eligible \<and> length lines \<noteq> unexcludedEligible
               then Some (New ''rendered subscription node count mismatch'')
               else if \<not> list_all rendered_line_ok lines
               then Some (New ''invalid rendered subscription link'')
               else None)"

section \<open>The aggregate\<close>

definition validateLastGoodState :: "LastGoodState \<Rightarrow> u64 \<Rightarrow> go_error option" where
  "validateLastGoodState lg activeGeneration =
     (if lastGoodStateEmpty lg then None
      else if lg_Generation lg \<noteq> activeGeneration \<or> lg_CreatedAt lg = time_zero \<or> length (lg_Nodes lg) = 0
              \<or> lg_RenderedSubscription lg = []
      then Some (New ''incomplete last-good state'')
      else if length (lg_FetchedBodyHash lg) \<noteq> 0 \<and> length (lg_FetchedBodyHash lg) \<noteq> sha256_Size
      then Some (New ''invalid last-good fetch hash'')
      else
        let hasFetch = (lg_FetchedAt lg \<noteq> time_zero) in
        if hasFetch \<noteq> (length (lg_FetchedBodyHash lg) = sha256_Size)
           \<or> hasFetch \<noteq> (lg_FetchedGeneration lg \<noteq> 0)
           \<or> hasFetch \<and> (lg_FetchedGeneration lg > lg_Generation lg \<or> lg_FetchedAt lg < lg_CreatedAt lg)
        then Some (New ''incomplete last-good fetch metadata'')
        else case validatePersistedNodes (lg_Nodes lg) of
          Some err \<Rightarrow> Some err
        | None \<Rightarrow> validateRenderedSubscription (lg_RenderedSubscription lg) (lg_Nodes lg))"

definition validateActiveSession :: "hmac \<Rightarrow> PersistentState \<Rightarrow> RuntimeSnapshot \<Rightarrow> gotime \<Rightarrow> go_error option" where
  "validateActiveSession hmac p active now =
     (case ValidateRuntimeSnapshot (Some active) now of
        Some err \<Rightarrow> Some (Wrap ''invalid active session'' err)
      | None \<Rightarrow>
          if \<not> validPersistedSession ClientProfileIOS (cs_IOS (snap_Sessions active))
             \<or> \<not> MatchesAccount hmac p (ClientSessions_UserID (snap_Sessions active))
          then Some (New ''active session does not match durable account binding'')
          else if cs_Windows (snap_Sessions active) \<noteq> zero_SessionSecrets
                  \<and> \<not> validPersistedSession ClientProfileWindows (cs_Windows (snap_Sessions active))
          then Some (New ''active Windows session is invalid'')
          else if \<not> list_all (\<lambda>(name, ref). ref_Generation ref = sub_Generation (pst_Subscription p))
                       (snap_Selectors active)
          then Some (New ''active session selector has stale subscription generation'')
          else None)"

definition ValidatePersistentState ::
  "hmac \<Rightarrow> (string \<Rightarrow> go_error + duration) \<Rightarrow> gotime \<Rightarrow> PersistentState \<Rightarrow> go_error option" where
  "ValidatePersistentState hmac parse_duration now p =
     (if \<not> validInstallationID (pst_InstallationID p) then Some (New ''invalid persistent state'')
      else if pst_AccessTokenVerifier p \<noteq> None
              \<and> validateAccessTokenVerifier (pst_AccessTokenVerifier p) \<noteq> None
      then Some (New ''invalid access token verifier'')
      else case validateSubscriptionGeneration (pst_Subscription p) of
        Some err \<Rightarrow> Some err
      | None \<Rightarrow>
          if length (sub_AccountBinding (pst_Subscription p)) \<noteq> 0 \<and> pst_AccessTokenVerifier p = None
          then Some (New ''bound subscription has no access token verifier'')
          else if length (sub_AccountBinding (pst_Subscription p)) = 0
                  \<and> \<not> lastGoodStateEmpty (pst_LastGood p)
          then Some (New ''unbound subscription retains last-good state'')
          else if length (sub_AccountBinding (pst_Subscription p)) = 0 \<and> pst_ActiveSession p \<noteq> None
          then Some (New ''unbound subscription retains active session'')
          else case (if length (sub_AccountBinding (pst_Subscription p)) = 0 then None
                     else validateLastGoodState (pst_LastGood p) (sub_Generation (pst_Subscription p))) of
            Some err \<Rightarrow> Some err
          | None \<Rightarrow>
              (case (case pst_ActiveSession p of
                       None \<Rightarrow> None | Some active \<Rightarrow> validateActiveSession hmac p active now) of
                 Some err \<Rightarrow> Some err
               | None \<Rightarrow> validatePreferences parse_duration (pst_Preferences p)))"

section \<open>What a valid aggregate satisfies\<close>

lemma ValidatePersistentState_None:
  assumes "ValidatePersistentState hmac parse_duration now p = None"
  shows "validInstallationID (pst_InstallationID p)"
    and "validateSubscriptionGeneration (pst_Subscription p) = None"
    and "sub_AccountBinding (pst_Subscription p) = [] \<Longrightarrow>
      lastGoodStateEmpty (pst_LastGood p) \<and> pst_ActiveSession p = None"
    and "sub_AccountBinding (pst_Subscription p) \<noteq> [] \<Longrightarrow> AccessTokenInitialized p
      \<and> validateLastGoodState (pst_LastGood p) (sub_Generation (pst_Subscription p)) = None"
    and "\<And>active. pst_ActiveSession p = Some active \<Longrightarrow> validateActiveSession hmac p active now = None"
    and "validatePreferences parse_duration (pst_Preferences p) = None"
  using assms by (auto simp: ValidatePersistentState_def AccessTokenInitialized_def
      split: if_splits option.splits)

lemma validateActiveSession_None:
  "validateActiveSession hmac p active now = None \<longleftrightarrow>
     snapshot_ok active now
     \<and> validPersistedSession ClientProfileIOS (cs_IOS (snap_Sessions active))
     \<and> MatchesAccount hmac p (ClientSessions_UserID (snap_Sessions active))
     \<and> (cs_Windows (snap_Sessions active) = zero_SessionSecrets
        \<or> validPersistedSession ClientProfileWindows (cs_Windows (snap_Sessions active)))
     \<and> (\<forall>(name, ref)\<in>set (snap_Selectors active). ref_Generation ref = sub_Generation (pst_Subscription p))"
  unfolding validateActiveSession_def ValidateRuntimeSnapshot_None [symmetric]
  by (auto simp: list_all_iff split: option.splits)

end
