(* ===== verification/State_Rows.thy ===== *)
theory State_Rows
  imports State_Validate
begin

text \<open>
  \<open>internal/state/store.go\<close>, first part: the relational form of the durable aggregate. A table is
  the list of its rows in the order of insertion, a table with \<open>CHECK (id = 1)\<close> an option; the
  SQL statements are the list operations they stand for. An \<open>INTEGER\<close> column is a 64-bit signed
  word, a nullable column an option. \<open>uint64\<close> arguments with the high bit set are refused by
  \<open>database/sql\<close>, and a negative value does not scan into one. A select without \<open>ORDER BY\<close>
  only fills maps; the model reads its rows in the order of the table.
\<close>

section \<open>Columns\<close>

type_synonym i64 = "64 word"

abbreviation ErrCorruptState :: go_error where "ErrCorruptState \<equiv> Sent ''persistent state is corrupt''"
abbreviation ErrStateNotFound :: go_error where "ErrStateNotFound \<equiv> Sent ''persistent state not found''"
abbreviation ErrInsecureStatePath :: go_error where
  "ErrInsecureStatePath \<equiv> Sent ''state path has insecure ownership or mode''"

text \<open>\<open>fmt.Errorf("%w: %v", ErrCorruptState, err)\<close> keeps only the text of \<open>err\<close>.\<close>

definition corruptDatabase :: "go_error \<Rightarrow> go_error" where
  "corruptDatabase err = (if errors_is err ErrCorruptState then err else Wrap [] ErrCorruptState)"

definition boolInt :: "bool \<Rightarrow> i64" where "boolInt value = (if value then 1 else 0)"

definition intBool :: "i64 \<Rightarrow> go_error + bool" where
  "intBool value =
     (if value = 0 then Inr False else if value = 1 then Inr True
      else Inl (New ''invalid boolean value''))"

text \<open>The instant of the Unix epoch; \<open>UnixNano\<close> wraps outside the years 1678 to 2262.\<close>

definition unix_epoch :: gotime where "unix_epoch = 62135596800 * second"

definition nanos :: "gotime \<Rightarrow> i64" where "nanos value = word_of_int (value - unix_epoch)"

definition time_Unix :: "i64 \<Rightarrow> gotime" where "time_Unix n = unix_epoch + sint n"

definition nullableNanos :: "gotime \<Rightarrow> i64 option" where
  "nullableNanos value = (if value = time_zero then None else Some (nanos value))"

definition timeFromNullable :: "i64 option \<Rightarrow> gotime" where
  "timeFromNullable value = (case value of None \<Rightarrow> time_zero | Some n \<Rightarrow> time_Unix n)"

definition nullBytes :: "bytes \<Rightarrow> bytes option" where
  "nullBytes value = (if length value = 0 then None else Some value)"

definition scan_bytes :: "bytes option \<Rightarrow> bytes" where
  "scan_bytes value = (case value of None \<Rightarrow> [] | Some b \<Rightarrow> b)"

definition bind_uint64 :: "u64 \<Rightarrow> go_error + i64" where
  "bind_uint64 value =
     (if unat value \<ge> 2 ^ 63 then Inl (New ''uint64 values with high bit set are not supported'')
      else Inr value)"

definition scan_uint64 :: "i64 \<Rightarrow> go_error + u64" where
  "scan_uint64 value = (if sint value < 0 then Inl (New ''value out of range'') else Inr value)"

section \<open>Rows and tables\<close>

record VerifierRow =
  vr_memory_kib :: i64
  vr_iterations :: i64
  vr_parallelism :: i64
  vr_salt :: bytes
  vr_hash :: bytes

record SubscriptionRow =
  sr_generation :: i64
  sr_selector_key :: bytes
  sr_proxy_auth_key :: bytes
  sr_account_binding :: "bytes option"
  sr_activated_at_ns :: i64

record LastGoodRow =
  lr_generation :: i64
  lr_created_at_ns :: "i64 option"
  lr_rendered_subscription :: string
  lr_fetched_generation :: i64
  lr_fetched_at_ns :: "i64 option"
  lr_fetched_body_hash :: "bytes option"

record NodeRow =
  nr_node_id :: string
  nr_selector :: string
  nr_provider :: string
  nr_host :: string
  nr_port :: i64
  nr_name :: string
  nr_group_name :: string
  nr_eligible :: i64
  nr_excluded :: i64

record ActiveRow =
  ar_generation :: i64
  ar_created_at_ns :: i64
  ar_expires_at_ns :: i64
  ar_account_display :: string
  ar_account_is_vip :: i64
  ar_account_vip_ends_at_ns :: "i64 option"
  ar_session :: SessionSecrets

record ActiveNodeRow = NodeRow +
  nr_model :: string
  nr_weight :: i64
  nr_auto :: i64
  nr_health :: string
  nr_udp_health :: string
  nr_tcp_rtt_ns :: i64
  nr_probed_at_ns :: "i64 option"

record SelectorRow =
  xr_node_id :: string
  xr_generation :: i64
  xr_tombstoned :: i64
  xr_tombstone_until_ns :: "i64 option"

record BrowserSession =
  bs_token :: string
  bs_csrf :: string
  bs_expires_at_ns :: i64

record Tables =
  tb_state_metadata :: "string option"
  tb_access_token_verifier :: "VerifierRow option"
  tb_subscription_generation :: "SubscriptionRow option"
  tb_preferences :: "(i64 \<times> string) option"
  tb_excluded_node_ids :: "string list"
  tb_last_good :: "LastGoodRow option"
  tb_last_good_nodes :: "(nat \<times> NodeRow) list"
  tb_active_session :: "ActiveRow option"
  tb_active_session_windows :: "SessionSecrets option"
  tb_active_session_nodes :: "(nat \<times> ActiveNodeRow) list"
  tb_active_session_node_profiles :: "(nat \<times> string) list"
  tb_active_session_selectors :: "(string \<times> SelectorRow) list"
  tb_browser_sessions :: "BrowserSession list"

definition empty_tables :: Tables where
  "empty_tables = \<lparr>tb_state_metadata = None, tb_access_token_verifier = None,
     tb_subscription_generation = None, tb_preferences = None, tb_excluded_node_ids = [],
     tb_last_good = None, tb_last_good_nodes = [], tb_active_session = None,
     tb_active_session_windows = None, tb_active_session_nodes = [],
     tb_active_session_node_profiles = [], tb_active_session_selectors = [], tb_browser_sessions = []\<rparr>"

text \<open>\<open>DELETE FROM state_metadata\<close> cascades to every table but that of the browser sessions.\<close>

definition delete_metadata :: "Tables \<Rightarrow> Tables" where
  "delete_metadata t = empty_tables\<lparr>tb_browser_sessions := tb_browser_sessions t\<rparr>"

section \<open>Writing the aggregate\<close>

definition insert_verifier :: "AccessTokenVerifier option \<Rightarrow> VerifierRow option" where
  "insert_verifier v = map_option (\<lambda>verifier.
     \<lparr>vr_memory_kib = ucast (arg_MemoryKiB (ver_Parameters verifier)),
      vr_iterations = ucast (arg_Iterations (ver_Parameters verifier)),
      vr_parallelism = ucast (arg_Parallelism (ver_Parameters verifier)),
      vr_salt = ver_Salt verifier, vr_hash = ver_Hash verifier\<rparr>) v"

definition insert_subscription :: "SubscriptionGeneration \<Rightarrow> go_error + SubscriptionRow" where
  "insert_subscription g =
     try_bind (bind_uint64 (sub_Generation g)) (\<lambda>generation.
       Inr \<lparr>sr_generation = generation, sr_selector_key = sub_SelectorKey g,
            sr_proxy_auth_key = sub_ProxyAuthKey g,
            sr_account_binding = nullBytes (sub_AccountBinding g),
            sr_activated_at_ns = nanos (sub_ActivatedAt g)\<rparr>)"

definition insert_last_good :: "LastGoodState \<Rightarrow> go_error + LastGoodRow" where
  "insert_last_good lg =
     try_bind (bind_uint64 (lg_Generation lg)) (\<lambda>generation.
     try_bind (bind_uint64 (lg_FetchedGeneration lg)) (\<lambda>fetched.
       Inr \<lparr>lr_generation = generation, lr_created_at_ns = nullableNanos (lg_CreatedAt lg),
            lr_rendered_subscription = lg_RenderedSubscription lg, lr_fetched_generation = fetched,
            lr_fetched_at_ns = nullableNanos (lg_FetchedAt lg),
            lr_fetched_body_hash = nullBytes (lg_FetchedBodyHash lg)\<rparr>))"

definition insert_node :: "PersistedNode \<Rightarrow> NodeRow" where
  "insert_node n =
     \<lparr>nr_node_id = pnode_ID n, nr_selector = pnode_Selector n, nr_provider = pnode_Provider n,
      nr_host = pnode_Host n, nr_port = ucast (pnode_Port n), nr_name = pnode_Name n,
      nr_group_name = pnode_Group n, nr_eligible = boolInt (pnode_Eligible n),
      nr_excluded = boolInt (pnode_Excluded n)\<rparr>"

definition insert_active_node :: "Node \<Rightarrow> ActiveNodeRow" where
  "insert_active_node n =
     \<lparr>nr_node_id = node_ID n, nr_selector = node_Selector n, nr_provider = node_Provider n,
      nr_host = node_Host n, nr_port = ucast (node_Port n), nr_name = node_Name n,
      nr_group_name = node_Group n, nr_eligible = boolInt (node_Eligible n),
      nr_excluded = boolInt (node_Excluded n), nr_model = node_Model n,
      nr_weight = word_of_int (node_Weight n), nr_auto = boolInt (node_Auto n),
      nr_health = node_Health n, nr_udp_health = node_UDPHealth n,
      nr_tcp_rtt_ns = word_of_int (node_TCPRTT n), nr_probed_at_ns = nullableNanos (node_ProbedAt n)\<rparr>"

definition insert_selector :: "NodeRef \<Rightarrow> go_error + SelectorRow" where
  "insert_selector ref =
     try_bind (bind_uint64 (ref_Generation ref)) (\<lambda>generation.
       Inr \<lparr>xr_node_id = ref_NodeID ref, xr_generation = generation,
            xr_tombstoned = boolInt (ref_Tombstoned ref),
            xr_tombstone_until_ns = nullableNanos (ref_TombstoneUntil ref)\<rparr>)"

fun insert_selectors :: "(string \<times> NodeRef) list \<Rightarrow> go_error + (string \<times> SelectorRow) list" where
  "insert_selectors [] = Inr []"
| "insert_selectors ((selector, ref) # r) =
     try_bind (insert_selector ref) (\<lambda>row.
     try_bind (insert_selectors r) (\<lambda>rows. Inr ((selector, row) # rows)))"

text \<open>\<open>sort.Strings\<close> of the keys, which are distinct.\<close>

definition sorted_entries :: "(string, 'v) gomap \<Rightarrow> (string \<times> 'v) list" where
  "sorted_entries m = sort_key fst m"

definition insertActiveSessionTx :: "RuntimeSnapshot \<Rightarrow> Tables \<Rightarrow> go_error + Tables" where
  "insertActiveSessionTx s t =
     try_bind (bind_uint64 (snap_Generation s)) (\<lambda>generation.
     try_bind (insert_selectors (sorted_entries (snap_Selectors s))) (\<lambda>selectors.
       Inr (t\<lparr>tb_active_session := Some
                \<lparr>ar_generation = generation, ar_created_at_ns = nanos (snap_CreatedAt s),
                 ar_expires_at_ns = nanos (snap_ExpiresAt s),
                 ar_account_display = acct_Display (snap_Account s),
                 ar_account_is_vip = boolInt (acct_IsVIP (snap_Account s)),
                 ar_account_vip_ends_at_ns = nullableNanos (acct_VIPEndsAt (snap_Account s)),
                 ar_session = cs_IOS (snap_Sessions s)\<rparr>,
              tb_active_session_windows :=
                (if cs_Windows (snap_Sessions s) \<noteq> zero_SessionSecrets
                 then Some (cs_Windows (snap_Sessions s)) else None),
              tb_active_session_nodes := enumerate 0 (map insert_active_node (snap_Nodes s)),
              tb_active_session_node_profiles := enumerate 0 (map EffectiveClientProfile (snap_Nodes s)),
              tb_active_session_selectors := selectors\<rparr>)))"

definition replacePersistentStateTx ::
  "hmac \<Rightarrow> (string \<Rightarrow> go_error + duration) \<Rightarrow> gotime \<Rightarrow> PersistentState \<Rightarrow> Tables \<Rightarrow> go_error + Tables"
where
  "replacePersistentStateTx hmac parse_duration now p t =
     (case ValidatePersistentState hmac parse_duration now p of
        Some err \<Rightarrow> Inl (Wrap ''refusing invalid persistent state'' err)
      | None \<Rightarrow>
          map_sum corruptDatabase id
            (try_bind (insert_subscription (pst_Subscription p)) (\<lambda>subscription.
             try_bind (insert_last_good (pst_LastGood p)) (\<lambda>last_good.
               let t' = (delete_metadata t)
                     \<lparr>tb_state_metadata := Some (pst_InstallationID p),
                      tb_access_token_verifier := insert_verifier (pst_AccessTokenVerifier p),
                      tb_subscription_generation := Some subscription,
                      tb_preferences := Some (boolInt (pref_RevealEndpoints (pst_Preferences p)),
                                              pref_RefreshPolicy (pst_Preferences p)),
                      tb_excluded_node_ids := sort (map fst (pref_ExcludedNodeIDs (pst_Preferences p))),
                      tb_last_good := Some last_good,
                      tb_last_good_nodes := enumerate 0 (map insert_node (lg_Nodes (pst_LastGood p)))\<rparr>
               in case pst_ActiveSession p of
                    None \<Rightarrow> Inr t'
                  | Some s \<Rightarrow> insertActiveSessionTx s t'))))"

section \<open>Reading it back\<close>

definition load_verifier :: "VerifierRow option \<Rightarrow> go_error + AccessTokenVerifier option" where
  "load_verifier row =
     (case row of
        None \<Rightarrow> Inr None
      | Some r \<Rightarrow>
          let memory = sint (vr_memory_kib r); iterations = sint (vr_iterations r);
              parallelism = sint (vr_parallelism r)
          in if memory < 0 \<or> memory > 2 ^ 32 - 1 \<or> iterations < 0 \<or> iterations > 2 ^ 32 - 1
                \<or> parallelism < 0 \<or> parallelism > 2 ^ 8 - 1
             then Inl (New ''invalid verifier parameters'')
             else Inr (Some \<lparr>ver_Parameters = \<lparr>arg_MemoryKiB = word_of_int memory,
                               arg_Iterations = word_of_int iterations,
                               arg_Parallelism = word_of_int parallelism\<rparr>,
                             ver_Salt = vr_salt r, ver_Hash = vr_hash r\<rparr>))"

definition load_subscription :: "SubscriptionRow option \<Rightarrow> go_error + SubscriptionGeneration" where
  "load_subscription row =
     (case row of
        None \<Rightarrow> Inl (New ''sql: no rows in result set'')
      | Some r \<Rightarrow>
          if sint (sr_generation r) < 0 then Inl (New ''negative subscription generation'')
          else Inr \<lparr>sub_Generation = sr_generation r, sub_SelectorKey = sr_selector_key r,
                    sub_ProxyAuthKey = sr_proxy_auth_key r,
                    sub_AccountBinding = scan_bytes (sr_account_binding r),
                    sub_ActivatedAt = time_Unix (sr_activated_at_ns r)\<rparr>)"

fun load_excluded :: "(string, bool) gomap \<Rightarrow> string list \<Rightarrow> go_error + (string, bool) gomap" where
  "load_excluded m [] = Inr m"
| "load_excluded m (nodeID # r) =
     (if nodeID \<in> fst ` set m then Inl (New ''duplicate excluded node id'')
      else load_excluded (m @ [(nodeID, True)]) r)"

definition load_preferences :: "Tables \<Rightarrow> go_error + Preferences" where
  "load_preferences t =
     (case tb_preferences t of
        None \<Rightarrow> Inl (New ''sql: no rows in result set'')
      | Some (reveal, policy) \<Rightarrow>
          try_bind (intBool reveal) (\<lambda>value.
          try_bind (load_excluded [] (tb_excluded_node_ids t)) (\<lambda>excluded.
            Inr \<lparr>pref_ExcludedNodeIDs = excluded, pref_RevealEndpoints = value,
                 pref_RefreshPolicy = policy\<rparr>)))"

definition load_node :: "NodeRow \<Rightarrow> go_error + PersistedNode" where
  "load_node r =
     (if sint (nr_port r) < 0 \<or> sint (nr_port r) > 65535 then Inl (New ''invalid persisted node port'')
      else try_bind (intBool (nr_eligible r)) (\<lambda>eligible.
           try_bind (intBool (nr_excluded r)) (\<lambda>excluded.
             Inr \<lparr>pnode_ID = nr_node_id r, pnode_Selector = nr_selector r,
                  pnode_Provider = nr_provider r, pnode_Host = nr_host r,
                  pnode_Port = ucast (nr_port r), pnode_Name = nr_name r,
                  pnode_Group = nr_group_name r, pnode_Eligible = eligible,
                  pnode_Excluded = excluded\<rparr>)))"

fun load_rows :: "('r \<Rightarrow> go_error + 'a) \<Rightarrow> 'r list \<Rightarrow> go_error + 'a list" where
  "load_rows scan [] = Inr []"
| "load_rows scan (r # rows) =
     try_bind (scan r) (\<lambda>x. try_bind (load_rows scan rows) (\<lambda>xs. Inr (x # xs)))"

text \<open>\<open>ORDER BY position\<close>.\<close>

definition by_position :: "(nat \<times> 'r) list \<Rightarrow> 'r list" where
  "by_position rows = map snd (sort_key fst rows)"

definition loadLastGoodTx :: "Tables \<Rightarrow> go_error + LastGoodState" where
  "loadLastGoodTx t =
     (case tb_last_good t of
        None \<Rightarrow> Inl (New ''sql: no rows in result set'')
      | Some r \<Rightarrow>
          try_bind (scan_uint64 (lr_generation r)) (\<lambda>generation.
            if sint (lr_fetched_generation r) < 0 then Inl (New ''negative fetched generation'')
            else try_bind (load_rows load_node (by_position (tb_last_good_nodes t))) (\<lambda>nodes.
              Inr \<lparr>lg_Generation = generation, lg_CreatedAt = timeFromNullable (lr_created_at_ns r),
                   lg_Nodes = nodes, lg_RenderedSubscription = lr_rendered_subscription r,
                   lg_FetchedGeneration = lr_fetched_generation r,
                   lg_FetchedAt = timeFromNullable (lr_fetched_at_ns r),
                   lg_FetchedBodyHash = scan_bytes (lr_fetched_body_hash r)\<rparr>)))"

definition load_active_node :: "ActiveNodeRow \<times> string \<Rightarrow> go_error + Node" where
  "load_active_node = (\<lambda>(r, client_profile).
     if sint (nr_port r) < 0 \<or> sint (nr_port r) > 65535 then Inl (New ''invalid active node port'')
     else try_bind (intBool (nr_auto r)) (\<lambda>auto.
          try_bind (intBool (nr_eligible r)) (\<lambda>eligible.
          try_bind (intBool (nr_excluded r)) (\<lambda>excluded.
            Inr \<lparr>node_ID = nr_node_id r, node_Selector = nr_selector r, node_Provider = nr_provider r,
                 node_ClientProfile = client_profile, node_Host = nr_host r,
                 node_Port = ucast (nr_port r), node_Name = nr_name r, node_Group = nr_group_name r,
                 node_Model = nr_model r, node_Weight = sint (nr_weight r), node_Auto = auto,
                 node_Eligible = eligible, node_Excluded = excluded, node_Health = nr_health r,
                 node_UDPHealth = nr_udp_health r, node_TCPRTT = sint (nr_tcp_rtt_ns r),
                 node_ProbedAt = timeFromNullable (nr_probed_at_ns r)\<rparr>))))"

text \<open>The inner join with the profiles: a node without a profile row is not returned.\<close>

definition join_profiles :: "Tables \<Rightarrow> (nat \<times> ActiveNodeRow \<times> string) list" where
  "join_profiles t =
     List.map_filter (\<lambda>(position, r).
       map_option (\<lambda>profile. (position, r, profile))
         (map_of (tb_active_session_node_profiles t) position)) (tb_active_session_nodes t)"

fun load_selectors ::
  "(string, NodeRef) gomap \<Rightarrow> (string \<times> SelectorRow) list \<Rightarrow> go_error + (string, NodeRef) gomap"
where
  "load_selectors m [] = Inr m"
| "load_selectors m ((selector, r) # rows) =
     (if sint (xr_generation r) < 0 then Inl (New ''negative selector generation'')
      else try_bind (intBool (xr_tombstoned r)) (\<lambda>tombstoned.
        if selector \<in> fst ` set m then Inl (New ''duplicate active selector'')
        else load_selectors (m @ [(selector,
               \<lparr>ref_NodeID = xr_node_id r, ref_Generation = xr_generation r,
                ref_Tombstoned = tombstoned,
                ref_TombstoneUntil = timeFromNullable (xr_tombstone_until_ns r)\<rparr>)]) rows))"

definition loadActiveSessionTx :: "Tables \<Rightarrow> go_error + RuntimeSnapshot option" where
  "loadActiveSessionTx t =
     (case tb_active_session t of
        None \<Rightarrow> Inr None
      | Some r \<Rightarrow>
          try_bind (scan_uint64 (ar_generation r)) (\<lambda>generation.
          try_bind (intBool (ar_account_is_vip r)) (\<lambda>vip.
          try_bind (load_rows load_active_node (by_position (join_profiles t))) (\<lambda>nodes.
          try_bind (load_selectors [] (tb_active_session_selectors t)) (\<lambda>selectors.
            Inr (Some
              \<lparr>snap_Generation = generation, snap_CreatedAt = time_Unix (ar_created_at_ns r),
               snap_ExpiresAt = time_Unix (ar_expires_at_ns r),
               snap_Account = \<lparr>acct_Display = ar_account_display r, acct_IsVIP = vip,
                 acct_VIPEndsAt = timeFromNullable (ar_account_vip_ends_at_ns r)\<rparr>,
               snap_Sessions = \<lparr>cs_IOS = ar_session r,
                 cs_Windows = (case tb_active_session_windows t of
                                 None \<Rightarrow> zero_SessionSecrets | Some w \<Rightarrow> w)\<rparr>,
               snap_Nodes = nodes, snap_Selectors = selectors\<rparr>))))))"

definition loadPersistentStateTx ::
  "hmac \<Rightarrow> (string \<Rightarrow> go_error + duration) \<Rightarrow> gotime \<Rightarrow> Tables \<Rightarrow> go_error + PersistentState"
where
  "loadPersistentStateTx hmac parse_duration now t =
     map_sum corruptDatabase id
       (case tb_state_metadata t of
          None \<Rightarrow> Inl (New ''sql: no rows in result set'')
        | Some installation \<Rightarrow>
            try_bind (load_verifier (tb_access_token_verifier t)) (\<lambda>verifier.
            try_bind (load_subscription (tb_subscription_generation t)) (\<lambda>subscription.
            try_bind (load_preferences t) (\<lambda>preferences.
            try_bind (loadLastGoodTx t) (\<lambda>lastGood.
            try_bind (loadActiveSessionTx t) (\<lambda>active.
              let state = \<lparr>pst_InstallationID = installation, pst_AccessTokenVerifier = verifier,
                    pst_Subscription = subscription, pst_Preferences = preferences,
                    pst_LastGood = lastGood, pst_ActiveSession = active\<rparr>
              in case ValidatePersistentState hmac parse_duration now state of
                   Some err \<Rightarrow> Inl err
                 | None \<Rightarrow> Inr state))))))"

section \<open>Columns round trip\<close>

lemma sint_eq_uint:
  assumes "unat (w :: i64) < 2 ^ 63"
  shows "sint w = uint w"
proof -
  have "uint w = int (unat w)" by simp
  also have "\<dots> < int (2 ^ 63)" using assms by (rule of_nat_less_iff [THEN iffD2])
  finally have lt: "uint w < 2 ^ 63" by simp
  have "sint w = signed_take_bit (LENGTH(64) - Suc 0) (uint w)" by (rule sint_uint)
  also have "\<dots> = uint w"
  proof (rule signed_take_bit_int_eq_self)
    have "- (2 ^ (LENGTH(64) - Suc 0)) \<le> (0 :: int)" by simp
    also have "0 \<le> uint w" by simp
    finally show "- (2 ^ (LENGTH(64) - Suc 0)) \<le> uint w" .
    show "uint w < 2 ^ (LENGTH(64) - Suc 0)" using lt by simp
  qed
  finally show ?thesis .
qed

lemma sint_of_int: "- (2 ^ 63) \<le> x \<Longrightarrow> x < 2 ^ 63 \<Longrightarrow> sint (word_of_int x :: i64) = x"
  by (simp add: signed_take_bit_int_eq_self sint_sbintrunc')

lemma uint_ucast: "LENGTH('a) \<le> LENGTH('b) \<Longrightarrow> uint (ucast (w :: 'a::len word) :: 'b::len word) = uint w"
  by (simp add: uint_up_ucast is_up)

lemma uint_small: "uint (w :: 'a::len word) < 2 ^ LENGTH('a)" by simp

lemma sint_ucast_small:
  assumes "LENGTH('a) < 64"
  shows "sint (ucast (w :: 'a::len word) :: i64) = uint w"
proof -
  have u: "uint (ucast w :: i64) = uint w" using assms by (simp add: uint_ucast)
  have "uint w < 2 ^ LENGTH('a)" by simp
  also have "(2 :: int) ^ LENGTH('a) \<le> 2 ^ 63" using assms by (intro power_increasing) auto
  finally have "int (unat (ucast w :: i64)) < int (2 ^ 63)" using u by simp
  then have "unat (ucast w :: i64) < 2 ^ 63" by (rule of_nat_less_iff [THEN iffD1])
  from sint_eq_uint [OF this] u show ?thesis by simp
qed

definition nanos_ok :: "gotime \<Rightarrow> bool" where
  "nanos_ok t \<longleftrightarrow> - (2 ^ 63) \<le> t - unix_epoch \<and> t - unix_epoch < 2 ^ 63"

lemma time_Unix_nanos: "nanos_ok t \<Longrightarrow> time_Unix (nanos t) = t"
  unfolding nanos_ok_def time_Unix_def nanos_def by (subst sint_of_int) auto

lemma time_nullable [simp]: "t = time_zero \<or> nanos_ok t \<Longrightarrow> timeFromNullable (nullableNanos t) = t"
  by (auto simp: timeFromNullable_def nullableNanos_def time_Unix_nanos)

lemma scan_nullBytes [simp]: "scan_bytes (nullBytes b) = b"
  by (simp add: scan_bytes_def nullBytes_def)

lemma intBool_boolInt [simp]: "intBool (boolInt b) = Inr b"
  by (simp add: intBool_def boolInt_def)

lemma bind_uint64_Inr [simp]: "bind_uint64 w = Inr r \<longleftrightarrow> r = w \<and> unat w < 2 ^ 63"
  by (auto simp: bind_uint64_def)

lemma scan_uint64_Inr [simp]: "unat w < 2 ^ 63 \<Longrightarrow> scan_uint64 w = Inr w"
  by (simp add: scan_uint64_def sint_eq_uint)

lemma map_sum_Inr: "map_sum f id r = Inr x \<longleftrightarrow> r = Inr x"
  by (cases r) auto

lemma load_insert_verifier: "load_verifier (insert_verifier v) = Inr v"
proof (cases v)
  case (Some x)
  have "sint (ucast (arg_MemoryKiB (ver_Parameters x)) :: i64) = uint (arg_MemoryKiB (ver_Parameters x))"
    "sint (ucast (arg_Iterations (ver_Parameters x)) :: i64) = uint (arg_Iterations (ver_Parameters x))"
    "sint (ucast (arg_Parallelism (ver_Parameters x)) :: i64) = uint (arg_Parallelism (ver_Parameters x))"
    by (rule sint_ucast_small; simp)+
  moreover have "uint (arg_MemoryKiB (ver_Parameters x)) < 2 ^ 32" "uint (arg_Iterations (ver_Parameters x)) < 2 ^ 32"
    "uint (arg_Parallelism (ver_Parameters x)) < 2 ^ 8"
    using uint_small [of "arg_MemoryKiB (ver_Parameters x)"] uint_small [of "arg_Iterations (ver_Parameters x)"]
      uint_small [of "arg_Parallelism (ver_Parameters x)"] by simp_all
  ultimately show ?thesis by (simp add: Some load_verifier_def insert_verifier_def)
qed (simp add: load_verifier_def insert_verifier_def)

lemma port_row: "sint (ucast (p :: u16) :: i64) = uint p \<and> 0 \<le> uint p \<and> uint p \<le> 65535
    \<and> (ucast (ucast p :: i64) :: u16) = p"
  using uint_small [of p] sint_ucast_small [where w = p] by (simp add: unsigned_ucast_eq take_bit_word_eq_self)

lemma load_insert_node: "load_node (insert_node n) = Inr n"
  using port_row [of "pnode_Port n"] by (simp add: load_node_def insert_node_def not_less)

lemma load_rows_map: "(\<And>x. x \<in> set xs \<Longrightarrow> scan (f x) = Inr (g x)) \<Longrightarrow> load_rows scan (map f xs) = Inr (map g xs)"
  by (induction xs) auto

lemma by_position_enumerate [simp]: "by_position (enumerate n xs) = xs"
proof -
  have "sorted (map fst (enumerate n xs))" by simp
  then have "sort_key fst (enumerate n xs) = enumerate n xs" by (rule sort_key_id_if_sorted)
  then show ?thesis by (simp add: by_position_def)
qed


definition stored_node :: "Node \<Rightarrow> Node" where
  "stored_node n = n\<lparr>node_ClientProfile := EffectiveClientProfile n\<rparr>"

definition node_storable :: "Node \<Rightarrow> bool" where
  "node_storable n \<longleftrightarrow> - (2 ^ 63) \<le> node_Weight n \<and> node_Weight n < 2 ^ 63
     \<and> - (2 ^ 63) \<le> node_TCPRTT n \<and> node_TCPRTT n < 2 ^ 63
     \<and> (node_ProbedAt n = time_zero \<or> nanos_ok (node_ProbedAt n))"

lemma load_insert_active_node:
  "node_storable n \<Longrightarrow> load_active_node (insert_active_node n, EffectiveClientProfile n) = Inr (stored_node n)"
  using port_row [of "node_Port n"]
  by (simp add: load_active_node_def insert_active_node_def not_less node_storable_def sint_of_int
      stored_node_def)

lemma map_of_enumerate: "i < length xs \<Longrightarrow> map_of (enumerate n xs) (n + i) = Some (xs ! i)"
  by (rule map_of_is_SomeI) (auto simp: in_set_enumerate_eq)

lemma join_rows:
  "(\<And>i. i < length ns \<Longrightarrow> map_of P (k + i) = Some (g (ns ! i))) \<Longrightarrow>
   List.map_filter (\<lambda>(position, r). map_option (\<lambda>profile. (position, r, profile)) (map_of P position))
     (enumerate k (map f ns)) = enumerate k (map (\<lambda>n. (f n, g n)) ns)"
proof (induction ns arbitrary: k)
  case (Cons n ns)
  have "map_of P k = Some (g n)" using Cons.prems [of 0] by simp
  moreover have "map_of P (Suc k + i) = Some (g (ns ! i))" if "i < length ns" for i
    using Cons.prems [of "Suc i"] that by simp
  ultimately show ?case using Cons.IH [of "Suc k"] by (simp add: List.map_filter_simps)
qed (simp add: List.map_filter_simps)

lemma join_enumerate:
  assumes "tb_active_session_nodes t = enumerate 0 (map f ns)"
    and "tb_active_session_node_profiles t = enumerate 0 (map g ns)"
  shows "join_profiles t = enumerate 0 (map (\<lambda>n. (f n, g n)) ns)"
  unfolding join_profiles_def assms(1)
  by (rule join_rows) (use map_of_enumerate [where n = 0 and xs = "map g ns"] assms(2) in simp)

definition ref_storable :: "NodeRef \<Rightarrow> bool" where
  "ref_storable r \<longleftrightarrow> unat (ref_Generation r) < 2 ^ 63
     \<and> (ref_TombstoneUntil r = time_zero \<or> nanos_ok (ref_TombstoneUntil r))"

lemma insert_selectors_Inr:
  "\<forall>e \<in> set m. ref_storable (snd e) \<Longrightarrow> \<exists>rows. insert_selectors m = Inr rows
     \<and> map fst rows = map fst m
     \<and> (distinct (map fst (pre @ m)) \<longrightarrow> load_selectors pre rows = Inr (pre @ m))"
proof (induction m arbitrary: pre)
  case (Cons e m)
  obtain k r where e: "e = (k, r)" by (cases e)
  have r: "ref_storable r" using Cons.prems e by simp
  then have i: "insert_selector r = Inr \<lparr>xr_node_id = ref_NodeID r, xr_generation = ref_Generation r,
      xr_tombstoned = boolInt (ref_Tombstoned r), xr_tombstone_until_ns = nullableNanos (ref_TombstoneUntil r)\<rparr>"
    by (simp add: insert_selector_def ref_storable_def bind_uint64_def)
  have "\<forall>e \<in> set m. ref_storable (snd e)" using Cons.prems by simp
  from Cons.IH [OF this, of "pre @ [e]"] obtain rows where
    "insert_selectors m = Inr rows" "map fst rows = map fst m"
    "distinct (map fst ((pre @ [e]) @ m)) \<longrightarrow> load_selectors (pre @ [e]) rows = Inr ((pre @ [e]) @ m)"
    by blast
  moreover have "\<lparr>ref_NodeID = ref_NodeID r, ref_Generation = ref_Generation r,
      ref_Tombstoned = ref_Tombstoned r,
      ref_TombstoneUntil = timeFromNullable (nullableNanos (ref_TombstoneUntil r))\<rparr> = r"
    using r by (simp add: ref_storable_def)
  ultimately show ?case
    using r by (auto simp: e i ref_storable_def sint_eq_uint simp del: time_nullable)
qed simp

lemma load_excluded_distinct:
  "distinct (map fst m @ ks) \<Longrightarrow> load_excluded m ks = Inr (m @ map (\<lambda>k. (k, True)) ks)"
  by (induction ks arbitrary: m) auto

lemma sorted_entries_props [simp]:
  "mset (sorted_entries m) = mset m" "set (sorted_entries m) = set m" "length (sorted_entries m) = length m"
  "gomap_ok (sorted_entries m) = gomap_ok m"
proof -
  show m: "mset (sorted_entries m) = mset m" by (simp add: sorted_entries_def)
  show "set (sorted_entries m) = set m" "length (sorted_entries m) = length m"
    by (simp_all add: sorted_entries_def)
  have "mset (map fst (sorted_entries m)) = mset (map fst m)" by (simp add: m)
  then show "gomap_ok (sorted_entries m) = gomap_ok m"
    unfolding gomap_ok_def by (rule mset_eq_imp_distinct_iff)
qed

section \<open>Round trip\<close>

definition stored_snapshot :: "RuntimeSnapshot \<Rightarrow> RuntimeSnapshot" where
  "stored_snapshot s = s\<lparr>snap_Nodes := map stored_node (snap_Nodes s),
     snap_Selectors := sorted_entries (snap_Selectors s)\<rparr>"

definition stored :: "PersistentState \<Rightarrow> PersistentState" where
  "stored p = p\<lparr>pst_Preferences := (pst_Preferences p)\<lparr>pref_ExcludedNodeIDs :=
       map (\<lambda>k. (k, True)) (sort (map fst (pref_ExcludedNodeIDs (pst_Preferences p))))\<rparr>,
     pst_ActiveSession := map_option stored_snapshot (pst_ActiveSession p)\<rparr>"

definition snapshot_storable :: "RuntimeSnapshot \<Rightarrow> bool" where
  "snapshot_storable s \<longleftrightarrow> unat (snap_Generation s) < 2 ^ 63 \<and> nanos_ok (snap_CreatedAt s)
     \<and> nanos_ok (snap_ExpiresAt s)
     \<and> (acct_VIPEndsAt (snap_Account s) = time_zero \<or> nanos_ok (acct_VIPEndsAt (snap_Account s)))
     \<and> list_all node_storable (snap_Nodes s) \<and> list_all (\<lambda>e. ref_storable (snd e)) (snap_Selectors s)
     \<and> gomap_ok (snap_Selectors s)"

definition storable :: "PersistentState \<Rightarrow> bool" where
  "storable p \<longleftrightarrow> unat (sub_Generation (pst_Subscription p)) < 2 ^ 63
     \<and> nanos_ok (sub_ActivatedAt (pst_Subscription p))
     \<and> unat (lg_Generation (pst_LastGood p)) < 2 ^ 63 \<and> unat (lg_FetchedGeneration (pst_LastGood p)) < 2 ^ 63
     \<and> (lg_CreatedAt (pst_LastGood p) = time_zero \<or> nanos_ok (lg_CreatedAt (pst_LastGood p)))
     \<and> (lg_FetchedAt (pst_LastGood p) = time_zero \<or> nanos_ok (lg_FetchedAt (pst_LastGood p)))
     \<and> gomap_ok (pref_ExcludedNodeIDs (pst_Preferences p))
     \<and> (case pst_ActiveSession p of None \<Rightarrow> True | Some s \<Rightarrow> snapshot_storable s)"

lemma stored_node_simps [simp]:
  "node_ID (stored_node n) = node_ID n" "ValidateNode (stored_node n) = ValidateNode n"
  "EffectiveClientProfile (stored_node n) = EffectiveClientProfile n"
  by (simp_all add: stored_node_def ValidateNode_def EffectiveClientProfile_def ClientProfileIOS_def)

lemma snapshot_ok_stored:
  assumes "snapshot_ok s now" and "now \<le> now'"
  shows "snapshot_ok (stored_snapshot s) now'"
  using assms by (auto simp: snapshot_ok_def stored_snapshot_def comp_def image_image)

lemma validateActiveSession_stored:
  assumes "validateActiveSession hmac p s now = None" and "now \<le> now'"
    and "pst_AccessTokenVerifier q = pst_AccessTokenVerifier p" "pst_Subscription q = pst_Subscription p"
  shows "validateActiveSession hmac q (stored_snapshot s) now' = None"
proof -
  have "MatchesAccount hmac q u = MatchesAccount hmac p u" for u
    using assms(3,4) by (simp add: MatchesAccount_def AccessTokenInitialized_def split: option.split)
  then show ?thesis
    using assms snapshot_ok_stored [of s now now']
    by (simp add: validateActiveSession_None stored_snapshot_def)
qed

lemma validatePreferences_stored:
  "validatePreferences pd p = None \<Longrightarrow>
   validatePreferences pd (p\<lparr>pref_ExcludedNodeIDs := map (\<lambda>k. (k, True)) (sort (map fst (pref_ExcludedNodeIDs p)))\<rparr>) = None"
  by (auto simp: validatePreferences_def list_all_iff split: if_splits sum.splits)

lemma valid_stored:
  assumes "ValidatePersistentState hmac pd now p = None" and "now \<le> now'"
  shows "ValidatePersistentState hmac pd now' (stored p) = None"
proof -
  have act: "validateActiveSession hmac (stored p) (stored_snapshot s) now' = None"
    if "pst_ActiveSession p = Some s" for s
    by (rule validateActiveSession_stored [OF ValidatePersistentState_None(5) [OF assms(1) that] assms(2)])
      (simp_all add: stored_def)
  have pref: "validatePreferences pd (pst_Preferences (stored p)) = None"
    using validatePreferences_stored [OF ValidatePersistentState_None(6) [OF assms(1)]]
    by (simp add: stored_def)
  have eqs: "pst_InstallationID (stored p) = pst_InstallationID p" "pst_AccessTokenVerifier (stored p) = pst_AccessTokenVerifier p"
    "pst_Subscription (stored p) = pst_Subscription p" "pst_LastGood (stored p) = pst_LastGood p"
    "pst_ActiveSession (stored p) = map_option stored_snapshot (pst_ActiveSession p)"
    by (simp_all add: stored_def)
  show ?thesis
    using assms(1) act pref
    by (auto simp: ValidatePersistentState_def eqs split: if_splits option.splits)
qed


lemma load_insert_subscription:
  assumes "unat (sub_Generation g) < 2 ^ 63" and "nanos_ok (sub_ActivatedAt g)"
  shows "\<exists>row. insert_subscription g = Inr row \<and> load_subscription (Some row) = Inr g"
  using assms by (simp add: insert_subscription_def bind_uint64_def load_subscription_def sint_eq_uint time_Unix_nanos)

lemma load_insert_last_good:
  assumes "unat (lg_Generation lg) < 2 ^ 63" "unat (lg_FetchedGeneration lg) < 2 ^ 63"
    and "lg_CreatedAt lg = time_zero \<or> nanos_ok (lg_CreatedAt lg)"
    and "lg_FetchedAt lg = time_zero \<or> nanos_ok (lg_FetchedAt lg)"
  shows "\<exists>row. insert_last_good lg = Inr row
    \<and> (\<forall>t. tb_last_good t = Some row \<longrightarrow> tb_last_good_nodes t = enumerate 0 (map insert_node (lg_Nodes lg))
         \<longrightarrow> loadLastGoodTx t = Inr lg)"
  using assms
  by (simp add: insert_last_good_def bind_uint64_def loadLastGoodTx_def sint_eq_uint
      load_rows_map [where g = id] load_insert_node)

definition session_tables :: "Tables \<Rightarrow> Tables \<Rightarrow> bool" where
  "session_tables t u \<longleftrightarrow> tb_state_metadata u = tb_state_metadata t
     \<and> tb_access_token_verifier u = tb_access_token_verifier t
     \<and> tb_subscription_generation u = tb_subscription_generation t \<and> tb_preferences u = tb_preferences t
     \<and> tb_excluded_node_ids u = tb_excluded_node_ids t \<and> tb_last_good u = tb_last_good t
     \<and> tb_last_good_nodes u = tb_last_good_nodes t \<and> tb_browser_sessions u = tb_browser_sessions t"

lemma load_insert_active:
  assumes "snapshot_storable s"
  shows "\<exists>u. insertActiveSessionTx s t = Inr u \<and> session_tables t u
    \<and> loadActiveSessionTx u = Inr (Some (stored_snapshot s))"
proof -
  have "\<forall>e \<in> set (sorted_entries (snap_Selectors s)). ref_storable (snd e)"
    using assms by (simp add: snapshot_storable_def list_all_iff)
  from insert_selectors_Inr [OF this, of "[]"] obtain rows where
    rows: "insert_selectors (sorted_entries (snap_Selectors s)) = Inr rows"
    and load: "gomap_ok (snap_Selectors s) \<longrightarrow> load_selectors [] rows = Inr (sorted_entries (snap_Selectors s))"
    by (auto simp: gomap_ok_def [symmetric])
  define u where "u = projr (insertActiveSessionTx s t)"
  have u: "insertActiveSessionTx s t = Inr u"
    using assms rows by (simp add: u_def insertActiveSessionTx_def bind_uint64_def snapshot_storable_def)
  have nodes: "load_rows load_active_node (map (\<lambda>n. (insert_active_node n, EffectiveClientProfile n)) (snap_Nodes s))
      = Inr (map stored_node (snap_Nodes s))"
    by (rule load_rows_map) (use assms in \<open>auto simp: load_insert_active_node snapshot_storable_def list_all_iff\<close>)
  have "join_profiles u = enumerate 0 (map (\<lambda>n. (insert_active_node n, EffectiveClientProfile n)) (snap_Nodes s))"
    by (rule join_enumerate) (use u rows in \<open>auto simp: insertActiveSessionTx_def\<close>)
  then have "loadActiveSessionTx u = Inr (Some (stored_snapshot s))"
    using u rows load nodes assms
    by (auto simp: loadActiveSessionTx_def insertActiveSessionTx_def snapshot_storable_def
        time_Unix_nanos stored_snapshot_def)
  moreover have "session_tables t u"
    using u rows by (auto simp: insertActiveSessionTx_def session_tables_def)
  ultimately show ?thesis using u by blast
qed

lemma aggregate_written:
  assumes valid: "ValidatePersistentState hmac pd now p = None" and "storable p"
  shows "\<exists>t'. replacePersistentStateTx hmac pd now p t = Inr t'
    \<and> (\<forall>later\<ge>now. loadPersistentStateTx hmac pd later t' = Inr (stored p))
    \<and> tb_browser_sessions t' = tb_browser_sessions t"
proof -
  note ok = assms(2) [unfolded storable_def]
  obtain sub where sub: "insert_subscription (pst_Subscription p) = Inr sub"
      "load_subscription (Some sub) = Inr (pst_Subscription p)"
    using load_insert_subscription ok by blast
  obtain lg where lg: "insert_last_good (pst_LastGood p) = Inr lg"
      "\<And>t. tb_last_good t = Some lg \<Longrightarrow> tb_last_good_nodes t = enumerate 0 (map insert_node (lg_Nodes (pst_LastGood p)))
         \<Longrightarrow> loadLastGoodTx t = Inr (pst_LastGood p)"
    using load_insert_last_good [of "pst_LastGood p"] ok by blast
  define u where "u = (delete_metadata t)
      \<lparr>tb_state_metadata := Some (pst_InstallationID p),
       tb_access_token_verifier := insert_verifier (pst_AccessTokenVerifier p),
       tb_subscription_generation := Some sub,
       tb_preferences := Some (boolInt (pref_RevealEndpoints (pst_Preferences p)), pref_RefreshPolicy (pst_Preferences p)),
       tb_excluded_node_ids := sort (map fst (pref_ExcludedNodeIDs (pst_Preferences p))),
       tb_last_good := Some lg,
       tb_last_good_nodes := enumerate 0 (map insert_node (lg_Nodes (pst_LastGood p)))\<rparr>"
  obtain t' where t': "(case pst_ActiveSession p of None \<Rightarrow> Inr u | Some s \<Rightarrow> insertActiveSessionTx s u) = Inr t'"
      "session_tables u t'" "loadActiveSessionTx t' = Inr (map_option stored_snapshot (pst_ActiveSession p))"
  proof (cases "pst_ActiveSession p")
    case None
    have "session_tables u u" by (simp add: session_tables_def)
    then show thesis using that None by (simp add: loadActiveSessionTx_def u_def delete_metadata_def empty_tables_def)
  next
    case (Some s)
    then show thesis using load_insert_active [of s u] ok that by auto
  qed
  have rep: "replacePersistentStateTx hmac pd now p t = Inr t'"
    using t'(1) by (simp add: replacePersistentStateTx_def valid sub lg u_def [symmetric])
  have "loadLastGoodTx t' = Inr (pst_LastGood p)"
    by (rule lg(2)) (use t'(2) in \<open>auto simp: session_tables_def u_def\<close>)
  moreover have "load_preferences t' = Inr (pst_Preferences (stored p))"
    using t'(2) ok load_excluded_distinct [of "[]" "sort (map fst (pref_ExcludedNodeIDs (pst_Preferences p)))"]
    by (auto simp: session_tables_def u_def load_preferences_def stored_def gomap_ok_def)
  moreover have "tb_state_metadata t' = Some (pst_InstallationID p)"
    "load_verifier (tb_access_token_verifier t') = Inr (pst_AccessTokenVerifier p)"
    "load_subscription (tb_subscription_generation t') = Inr (pst_Subscription p)"
    "tb_browser_sessions t' = tb_browser_sessions t"
    using t'(2) sub(2) load_insert_verifier by (auto simp: session_tables_def u_def delete_metadata_def)
  moreover have "\<lparr>pst_InstallationID = pst_InstallationID p, pst_AccessTokenVerifier = pst_AccessTokenVerifier p,
      pst_Subscription = pst_Subscription p, pst_Preferences = pst_Preferences (stored p),
      pst_LastGood = pst_LastGood p, pst_ActiveSession = map_option stored_snapshot (pst_ActiveSession p)\<rparr> = stored p"
    by (cases p) (simp add: stored_def)
  ultimately have "loadPersistentStateTx hmac pd later t' = Inr (stored p)" if "now \<le> later" for later
    using t'(3) valid_stored [OF valid that] by (simp add: loadPersistentStateTx_def Let_def)
  then show ?thesis using rep \<open>tb_browser_sessions t' = tb_browser_sessions t\<close> by blast
qed

lemma aggregate_reload:
  assumes "ValidatePersistentState hmac pd now p = None" and "storable p" and "now \<le> later"
    and "replacePersistentStateTx hmac pd now p t = Inr t'"
  shows "loadPersistentStateTx hmac pd later t' = Inr (stored p)"
  using aggregate_written [OF assms(1,2), of t] assms(3,4) by auto

lemma replace_sessions:
  "replacePersistentStateTx hmac pd now p t = Inr t' \<Longrightarrow> tb_browser_sessions t' = tb_browser_sessions t"
  by (auto simp: replacePersistentStateTx_def insertActiveSessionTx_def delete_metadata_def Let_def
      map_sum_Inr split: option.splits)

text \<open>
  C33: the durable aggregate survives the database. Every valid aggregate whose numbers fit the
  columns is written, whatever the tables held, and every later transaction reads back that very
  aggregate, up to what it does not keep: the order of the two maps, and a node's implicit client
  profile, which becomes explicit. The browser sessions, which share the database, are untouched.
\<close>

theorem aggregate_roundtrip:
  assumes valid: "ValidatePersistentState hmac parse_duration now p = None" and "storable p" and "now \<le> later"
  shows "\<exists>t'. replacePersistentStateTx hmac parse_duration now p t = Inr t'
    \<and> loadPersistentStateTx hmac parse_duration later t' = Inr (stored p)
    \<and> tb_browser_sessions t' = tb_browser_sessions t"
  using aggregate_written [OF assms(1,2), of t] assms(3) by blast


definition demo_aggregate :: PersistentState where
  "demo_aggregate = (demo_persistent [])
     \<lparr>pst_InstallationID := replicate 32 (CHR ''a''),
      pst_Subscription := (pst_Subscription (demo_persistent []))\<lparr>sub_ActivatedAt := unix_epoch + 9\<rparr>,
      pst_Preferences := \<lparr>pref_ExcludedNodeIDs = [(''n2'', True), (''n1'', True)],
        pref_RevealEndpoints = True, pref_RefreshPolicy = []\<rparr>\<rparr>"

lemma aggregate_roundtrip_witness:
  "\<exists>t'. replacePersistentStateTx demo_hmac (\<lambda>_. Inr hour) 5 demo_aggregate empty_tables = Inr t'
     \<and> loadPersistentStateTx demo_hmac (\<lambda>_. Inr hour) 6 t' = Inr (stored demo_aggregate)"
proof -
  have "ValidatePersistentState demo_hmac (\<lambda>_. Inr hour) 5 demo_aggregate = None" by code_simp
  moreover have "storable demo_aggregate"
    by (simp add: storable_def demo_aggregate_def demo_persistent_def nanos_ok_def zero_LastGoodState_def)
  ultimately show ?thesis using aggregate_roundtrip [of demo_hmac "\<lambda>_. Inr hour" 5 demo_aggregate 6 empty_tables]
    by auto
qed

end
