(* ===== verification/State_Represents.thy ===== *)
theory State_Represents
  imports State_Rows
begin

text \<open>
  What the rows of the database stand for, as a relation between tables and aggregates that does not
  mention the loader: one clause per table and column. The lemmas show that the loaders of
  \<open>State_Rows\<close> compute exactly this relation, and refuse everything else.
\<close>

section \<open>Columns and rows\<close>

definition stands_time :: "i64 option \<Rightarrow> gotime \<Rightarrow> bool" where
  "stands_time c t \<longleftrightarrow> (case c of None \<Rightarrow> t = time_zero | Some n \<Rightarrow> t = unix_epoch + sint n)"

definition stands_flag :: "i64 \<Rightarrow> bool \<Rightarrow> bool" where
  "stands_flag c b \<longleftrightarrow> sint c = of_bool b"

text \<open>A column that is read as an unsigned number of any width.\<close>

definition stands_uint :: "i64 \<Rightarrow> 'a::len word \<Rightarrow> bool" where
  "stands_uint c n \<longleftrightarrow> sint c = uint n"

definition stands_verifier :: "VerifierRow \<Rightarrow> AccessTokenVerifier \<Rightarrow> bool" where
  "stands_verifier r v \<longleftrightarrow>
     stands_uint (vr_memory_kib r) (arg_MemoryKiB (ver_Parameters v))
     \<and> stands_uint (vr_iterations r) (arg_Iterations (ver_Parameters v))
     \<and> stands_uint (vr_parallelism r) (arg_Parallelism (ver_Parameters v))
     \<and> vr_salt r = ver_Salt v \<and> vr_hash r = ver_Hash v"

definition stands_subscription :: "SubscriptionRow \<Rightarrow> SubscriptionGeneration \<Rightarrow> bool" where
  "stands_subscription r g \<longleftrightarrow>
     stands_uint (sr_generation r) (sub_Generation g) \<and> sr_selector_key r = sub_SelectorKey g
     \<and> sr_proxy_auth_key r = sub_ProxyAuthKey g \<and> scan_bytes (sr_account_binding r) = sub_AccountBinding g
     \<and> stands_time (Some (sr_activated_at_ns r)) (sub_ActivatedAt g)"

definition stands_preferences :: "i64 \<times> string \<Rightarrow> string list \<Rightarrow> Preferences \<Rightarrow> bool" where
  "stands_preferences r ids p \<longleftrightarrow>
     stands_flag (fst r) (pref_RevealEndpoints p) \<and> snd r = pref_RefreshPolicy p
     \<and> distinct ids \<and> pref_ExcludedNodeIDs p = map (\<lambda>nodeID. (nodeID, True)) ids"

definition stands_node :: "NodeRow \<Rightarrow> PersistedNode \<Rightarrow> bool" where
  "stands_node r n \<longleftrightarrow>
     nr_node_id r = pnode_ID n \<and> nr_selector r = pnode_Selector n \<and> nr_provider r = pnode_Provider n
     \<and> nr_host r = pnode_Host n \<and> stands_uint (nr_port r) (pnode_Port n) \<and> nr_name r = pnode_Name n
     \<and> nr_group_name r = pnode_Group n \<and> stands_flag (nr_eligible r) (pnode_Eligible n)
     \<and> stands_flag (nr_excluded r) (pnode_Excluded n)"

definition stands_last_good :: "LastGoodRow \<Rightarrow> (nat \<times> NodeRow) list \<Rightarrow> LastGoodState \<Rightarrow> bool" where
  "stands_last_good r nodes lg \<longleftrightarrow>
     stands_uint (lr_generation r) (lg_Generation lg) \<and> stands_time (lr_created_at_ns r) (lg_CreatedAt lg)
     \<and> lr_rendered_subscription r = lg_RenderedSubscription lg
     \<and> stands_uint (lr_fetched_generation r) (lg_FetchedGeneration lg)
     \<and> stands_time (lr_fetched_at_ns r) (lg_FetchedAt lg)
     \<and> scan_bytes (lr_fetched_body_hash r) = lg_FetchedBodyHash lg
     \<and> list_all2 (\<lambda>(position, row) n. stands_node row n) (sort_key fst nodes) (lg_Nodes lg)"

definition stands_active_node :: "ActiveNodeRow \<Rightarrow> Node \<Rightarrow> bool" where
  "stands_active_node r n \<longleftrightarrow>
     nr_node_id r = node_ID n \<and> nr_selector r = node_Selector n \<and> nr_provider r = node_Provider n
     \<and> nr_host r = node_Host n \<and> stands_uint (nr_port r) (node_Port n) \<and> nr_name r = node_Name n
     \<and> nr_group_name r = node_Group n \<and> nr_model r = node_Model n \<and> sint (nr_weight r) = node_Weight n
     \<and> stands_flag (nr_auto r) (node_Auto n) \<and> stands_flag (nr_eligible r) (node_Eligible n)
     \<and> stands_flag (nr_excluded r) (node_Excluded n) \<and> nr_health r = node_Health n
     \<and> nr_udp_health r = node_UDPHealth n \<and> sint (nr_tcp_rtt_ns r) = node_TCPRTT n
     \<and> stands_time (nr_probed_at_ns r) (node_ProbedAt n)"

definition stands_selector :: "string \<times> SelectorRow \<Rightarrow> string \<times> NodeRef \<Rightarrow> bool" where
  "stands_selector e x \<longleftrightarrow>
     fst e = fst x \<and> xr_node_id (snd e) = ref_NodeID (snd x)
     \<and> stands_uint (xr_generation (snd e)) (ref_Generation (snd x))
     \<and> stands_flag (xr_tombstoned (snd e)) (ref_Tombstoned (snd x))
     \<and> stands_time (xr_tombstone_until_ns (snd e)) (ref_TombstoneUntil (snd x))"

text \<open>
  The active session with its nodes in the order of their positions; a node row counts when its
  position has a client profile, and has that profile.
\<close>

definition stands_session :: "Tables \<Rightarrow> ActiveRow \<Rightarrow> RuntimeSnapshot \<Rightarrow> bool" where
  "stands_session t r s \<longleftrightarrow>
     stands_uint (ar_generation r) (snap_Generation s)
     \<and> stands_time (Some (ar_created_at_ns r)) (snap_CreatedAt s)
     \<and> stands_time (Some (ar_expires_at_ns r)) (snap_ExpiresAt s)
     \<and> ar_account_display r = acct_Display (snap_Account s)
     \<and> stands_flag (ar_account_is_vip r) (acct_IsVIP (snap_Account s))
     \<and> stands_time (ar_account_vip_ends_at_ns r) (acct_VIPEndsAt (snap_Account s))
     \<and> ar_session r = cs_IOS (snap_Sessions s)
     \<and> cs_Windows (snap_Sessions s) = (case tb_active_session_windows t of None \<Rightarrow> zero_SessionSecrets | Some w \<Rightarrow> w)
     \<and> list_all2 (\<lambda>(position, row) n. stands_active_node row n
           \<and> map_of (tb_active_session_node_profiles t) position = Some (node_ClientProfile n))
         (sort_key fst (filter (\<lambda>(position, row). position \<in> fst ` set (tb_active_session_node_profiles t))
            (tb_active_session_nodes t))) (snap_Nodes s)
     \<and> distinct (map fst (tb_active_session_selectors t))
     \<and> list_all2 stands_selector (tb_active_session_selectors t) (snap_Selectors s)"

section \<open>The aggregate\<close>

definition stands_for :: "Tables \<Rightarrow> PersistentState \<Rightarrow> bool" where
  "stands_for t p \<longleftrightarrow>
     tb_state_metadata t = Some (pst_InstallationID p)
     \<and> rel_option stands_verifier (tb_access_token_verifier t) (pst_AccessTokenVerifier p)
     \<and> rel_option stands_subscription (tb_subscription_generation t) (Some (pst_Subscription p))
     \<and> (\<exists>r. tb_preferences t = Some r \<and> stands_preferences r (tb_excluded_node_ids t) (pst_Preferences p))
     \<and> (\<exists>r. tb_last_good t = Some r \<and> stands_last_good r (tb_last_good_nodes t) (pst_LastGood p))
     \<and> rel_option (stands_session t) (tb_active_session t) (pst_ActiveSession p)"

section \<open>The loaders compute it\<close>

lemma stands_time_iff: "stands_time c t \<longleftrightarrow> timeFromNullable c = t"
  by (auto simp: stands_time_def timeFromNullable_def time_Unix_def split: option.splits)

lemma uint_of_small: "0 \<le> k \<Longrightarrow> k < 2 ^ LENGTH('a) \<Longrightarrow> uint (word_of_int k :: 'a::len word) = k"
  by (simp add: uint_word_of_int)

lemma word_of_sint: "sint (c :: i64) = k \<Longrightarrow> c = word_of_int k"
  by auto

lemma sint_nonneg:
  assumes "0 \<le> sint (c :: i64)"
  shows "uint c = sint c"
proof -
  have "sint c < 2 ^ LENGTH(64)" using sint_lt [of c] by simp
  then show ?thesis using uint_of_small [OF assms, where 'a = 64] word_of_sint [OF refl, of c] by metis
qed

lemma stands_uint_iff:
  "stands_uint c (n :: 'a::len word) \<longleftrightarrow> 0 \<le> sint c \<and> sint c < 2 ^ LENGTH('a) \<and> n = word_of_int (sint c)"
  (is "?l \<longleftrightarrow> ?r")
proof
  assume l: ?l
  have "n = word_of_int (uint n)" by simp
  with l show ?r unfolding stands_uint_def by (metis uint_ge_0 uint_lt2p)
next
  assume ?r
  then show ?l unfolding stands_uint_def using uint_of_small by metis
qed

lemma stands_uint64_iff: "stands_uint c (n :: u64) \<longleftrightarrow> 0 \<le> sint c \<and> n = c"
  unfolding stands_uint_iff using sint_lt [of c] word_of_sint [OF refl, of c] by auto

lemma stands_port_iff: "stands_uint c (n :: u16) \<longleftrightarrow> 0 \<le> sint c \<and> sint c \<le> 65535 \<and> n = ucast c"
proof -
  have "0 \<le> sint c \<Longrightarrow> word_of_int (sint c) = (ucast c :: u16)" using sint_nonneg [of c] by (metis ucast_eq)
  then show ?thesis unfolding stands_uint_iff by auto
qed

lemma stands_flag_iff: "stands_flag c b \<longleftrightarrow> intBool c = Inr b"
proof -
  have "sint c = 1 \<longleftrightarrow> c = 1" "sint c = 0 \<longleftrightarrow> c = 0" using word_of_sint [of c] by fastforce+
  then show ?thesis by (cases b) (auto simp: stands_flag_def intBool_def)
qed

lemma load_rows_iff: "load_rows scan rows = Inr xs \<longleftrightarrow> list_all2 (\<lambda>r x. scan r = Inr x) rows xs"
  by (induction rows arbitrary: xs) (auto simp: try_bind_eq_Inr list_all2_Cons1)

lemma load_verifier_iff: "load_verifier r = Inr v \<longleftrightarrow> rel_option stands_verifier r v"
  by (cases r; cases v)
    (auto simp: load_verifier_def stands_verifier_def stands_uint_iff Let_def)

lemma load_subscription_iff: "load_subscription r = Inr g \<longleftrightarrow> rel_option stands_subscription r (Some g)"
  by (cases r; cases g)
    (auto simp: load_subscription_def stands_subscription_def stands_uint64_iff stands_time_def time_Unix_def)

lemma load_excluded_iff:
  "load_excluded m ids = Inr m' \<longleftrightarrow>
     distinct ids \<and> fst ` set m \<inter> set ids = {} \<and> m' = m @ map (\<lambda>nodeID. (nodeID, True)) ids"
  by (induction ids arbitrary: m) auto

lemma load_preferences_iff:
  "load_preferences t = Inr p \<longleftrightarrow> (\<exists>r. tb_preferences t = Some r \<and> stands_preferences r (tb_excluded_node_ids t) p)"
  by (cases p) (auto simp: load_preferences_def stands_preferences_def try_bind_eq_Inr load_excluded_iff stands_flag_iff
      split: option.splits)

lemma load_node_iff: "load_node r = Inr n \<longleftrightarrow> stands_node r n"
  by (cases n) (auto simp: load_node_def stands_node_def try_bind_eq_Inr stands_flag_iff stands_port_iff)

lemma load_last_good_iff:
  "loadLastGoodTx t = Inr lg \<longleftrightarrow> (\<exists>r. tb_last_good t = Some r \<and> stands_last_good r (tb_last_good_nodes t) lg)"
  by (cases lg) (auto simp: loadLastGoodTx_def stands_last_good_def try_bind_eq_Inr scan_uint64_def load_rows_iff
      load_node_iff by_position_def stands_uint64_iff stands_time_iff list.rel_map case_prod_unfold split: option.splits)

lemma sort_key_map: "sort_key f (map g xs) = map g (sort_key (f \<circ> g) xs)"
proof -
  have "insort_key f (g x) (map g ys) = map g (insort_key (f \<circ> g) x ys)" for x ys by (induction ys) auto
  then show ?thesis by (induction xs) simp_all
qed

lemma join_profiles_eq:
  "by_position (join_profiles t) =
     map (\<lambda>(position, r). (r, the (map_of (tb_active_session_node_profiles t) position)))
       (sort_key fst (filter (\<lambda>(position, r). position \<in> fst ` set (tb_active_session_node_profiles t))
          (tb_active_session_nodes t)))"
proof -
  let ?profiles = "map_of (tb_active_session_node_profiles t)"
  have "List.map_filter (\<lambda>(position, r). map_option (\<lambda>profile. (position, r, profile)) (?profiles position)) xs
      = map (\<lambda>(position, r). (position, r, the (?profiles position)))
          (filter (\<lambda>(position, r). position \<in> fst ` set (tb_active_session_node_profiles t)) xs)"
    for xs :: "(nat \<times> ActiveNodeRow) list"
  proof (induction xs)
    case (Cons x xs)
    then show ?case
      by (cases x; cases "?profiles (fst x)")
        (auto simp: List.map_filter_def map_of_eq_None_iff dest: map_of_SomeD intro: rev_image_eqI)
  qed (simp add: List.map_filter_def)
  then show ?thesis
    by (simp add: by_position_def join_profiles_def sort_key_map comp_def case_prod_unfold)
qed

lemma load_active_node_iff:
  "load_active_node (r, client_profile) = Inr n \<longleftrightarrow> stands_active_node r n \<and> node_ClientProfile n = client_profile"
  by (cases n) (auto simp: load_active_node_def stands_active_node_def try_bind_eq_Inr stands_flag_iff stands_port_iff
      stands_time_iff)

lemma load_active_nodes_iff:
  "load_rows load_active_node (by_position (join_profiles t)) = Inr nodes \<longleftrightarrow>
     list_all2 (\<lambda>(position, row) n. stands_active_node row n
         \<and> map_of (tb_active_session_node_profiles t) position = Some (node_ClientProfile n))
       (sort_key fst (filter (\<lambda>(position, row). position \<in> fst ` set (tb_active_session_node_profiles t))
          (tb_active_session_nodes t))) nodes"
  unfolding load_rows_iff join_profiles_eq list.rel_map
proof (rule list.rel_cong [OF refl refl])
  fix e n
  assume e: "e \<in> set (sort_key fst (filter (\<lambda>(position, row). position \<in> fst ` set (tb_active_session_node_profiles t))
          (tb_active_session_nodes t)))"
  obtain position row where p: "e = (position, row)" by (cases e)
  with e obtain x where "map_of (tb_active_session_node_profiles t) position = Some x"
    by (cases "map_of (tb_active_session_node_profiles t) position") (auto simp: map_of_eq_None_iff)
  then show "(load_active_node (case e of (position, r) \<Rightarrow> (r, the (map_of (tb_active_session_node_profiles t) position)))
        = Inr n)
      = (case e of (position, row) \<Rightarrow> (\<lambda>n. stands_active_node row n
         \<and> map_of (tb_active_session_node_profiles t) position = Some (node_ClientProfile n))) n"
    by (auto simp: p load_active_node_iff)
qed

lemma load_selectors_iff:
  "load_selectors m rows = Inr m' \<longleftrightarrow>
     distinct (map fst rows) \<and> fst ` set m \<inter> fst ` set rows = {}
     \<and> (\<exists>refs. list_all2 stands_selector rows refs \<and> m' = m @ refs)"
proof (induction m rows arbitrary: m' rule: load_selectors.induct)
  case (2 m selector r rows)
  let ?ref = "\<lambda>b. \<lparr>ref_NodeID = xr_node_id r, ref_Generation = xr_generation r, ref_Tombstoned = b,
      ref_TombstoneUntil = timeFromNullable (xr_tombstone_until_ns r)\<rparr>"
  have row: "stands_selector (selector, r) x \<longleftrightarrow>
      0 \<le> sint (xr_generation r) \<and> (\<exists>b. intBool (xr_tombstoned r) = Inr b \<and> x = (selector, ?ref b))" for x
    by (cases x; cases "snd x")
      (auto simp: stands_selector_def stands_uint64_iff stands_flag_iff stands_time_iff)
  show ?case
  proof (cases "0 \<le> sint (xr_generation r) \<and> selector \<notin> fst ` set m")
    case True
    then have "load_selectors m ((selector, r) # rows) = Inr m' \<longleftrightarrow>
        (\<exists>b. intBool (xr_tombstoned r) = Inr b \<and> load_selectors (m @ [(selector, ?ref b)]) rows = Inr m')"
      by (auto simp: try_bind_eq_Inr)
    also have "\<dots> \<longleftrightarrow> (\<exists>b. intBool (xr_tombstoned r) = Inr b \<and> distinct (map fst rows)
        \<and> insert selector (fst ` set m) \<inter> fst ` set rows = {}
        \<and> (\<exists>refs. list_all2 stands_selector rows refs \<and> m' = m @ (selector, ?ref b) # refs))"
      using 2 True by (auto simp: not_less)
    finally show ?thesis using True by (auto simp: row list_all2_Cons1)
  next
    case False
    then show ?thesis by (auto simp: row list_all2_Cons1 try_bind_eq_Inr)
  qed
qed auto

lemma load_session_iff: "loadActiveSessionTx t = Inr s \<longleftrightarrow> rel_option (stands_session t) (tb_active_session t) s"
proof (cases "tb_active_session t")
  case None
  then show ?thesis by (cases s) (auto simp: loadActiveSessionTx_def)
next
  case (Some r)
  show ?thesis
  proof (cases s)
    case None
    then show ?thesis using Some by (auto simp: loadActiveSessionTx_def try_bind_eq_Inr)
  next
    case s: (Some x)
    obtain generation created expires account sessions nodes selectors where
      x: "x = \<lparr>snap_Generation = generation, snap_CreatedAt = created, snap_ExpiresAt = expires, snap_Account = account,
        snap_Sessions = sessions, snap_Nodes = nodes, snap_Selectors = selectors\<rparr>" by (cases x)
    obtain display vip ends where account: "account = \<lparr>acct_Display = display, acct_IsVIP = vip, acct_VIPEndsAt = ends\<rparr>"
      by (cases account)
    obtain ios windows where sessions: "sessions = \<lparr>cs_IOS = ios, cs_Windows = windows\<rparr>" by (cases sessions)
    show ?thesis
      unfolding loadActiveSessionTx_def stands_session_def Some s x account sessions load_active_nodes_iff [symmetric]
      by (auto simp: try_bind_eq_Inr scan_uint64_def load_selectors_iff stands_uint64_iff stands_flag_iff stands_time_iff
          timeFromNullable_def)
  qed
qed

lemma load_stands_for:
  "loadPersistentStateTx hmac parse_duration now t = Inr p \<longleftrightarrow>
     stands_for t p \<and> ValidatePersistentState hmac parse_duration now p = None"
proof
  assume "loadPersistentStateTx hmac parse_duration now t = Inr p"
  then show "stands_for t p \<and> ValidatePersistentState hmac parse_duration now p = None"
    by (auto simp: loadPersistentStateTx_def stands_for_def map_sum_Inr try_bind_eq_Inr load_verifier_iff
      load_subscription_iff load_preferences_iff load_last_good_iff load_session_iff Let_def split: option.splits)
next
  assume p: "stands_for t p \<and> ValidatePersistentState hmac parse_duration now p = None"
  then have "load_verifier (tb_access_token_verifier t) = Inr (pst_AccessTokenVerifier p)"
    "load_subscription (tb_subscription_generation t) = Inr (pst_Subscription p)"
    "load_preferences t = Inr (pst_Preferences p)" "loadLastGoodTx t = Inr (pst_LastGood p)"
    "loadActiveSessionTx t = Inr (pst_ActiveSession p)" "tb_state_metadata t = Some (pst_InstallationID p)"
    by (simp_all add: stands_for_def load_verifier_iff load_subscription_iff load_preferences_iff load_last_good_iff
        load_session_iff)
  then show "loadPersistentStateTx hmac parse_duration now t = Inr p"
    using p by (cases p) (simp add: loadPersistentStateTx_def Let_def)
qed

end
