(* ===== verification/State_Store.thy ===== *)
theory State_Store
  imports State_Represents
begin

text \<open>
  \<open>internal/state/store.go\<close>, second part: the database around the tables. Every exported operation
  is one transaction under the mutex of the store, so it is one function from the store to a result
  and the store afterwards. What the file system and the SQLite driver answer is the input
  \<open>SqlIO\<close>: each stage may fail with any error, and the clock is read from it. A transaction that
  does not commit leaves the file as it was.
\<close>

section \<open>The schema\<close>

definition sqliteSchemaVersion :: int where "sqliteSchemaVersion = 5"
definition maxBrowserSessions :: nat where "maxBrowserSessions = 4096"

definition sqliteSchemaStatements :: "string list" where
  "sqliteSchemaStatements = [
    ''CREATE TABLE schema_version (id INTEGER PRIMARY KEY CHECK (id = 1), version INTEGER NOT NULL)'',
    ''CREATE TABLE state_metadata (id INTEGER PRIMARY KEY CHECK (id = 1), installation_id TEXT NOT NULL)'',
    ''CREATE TABLE access_token_verifier (id INTEGER PRIMARY KEY CHECK (id = 1) REFERENCES state_metadata(id) ON DELETE CASCADE, memory_kib INTEGER NOT NULL, iterations INTEGER NOT NULL, parallelism INTEGER NOT NULL, salt BLOB NOT NULL, hash BLOB NOT NULL)'',
    ''CREATE TABLE subscription_generation (id INTEGER PRIMARY KEY CHECK (id = 1) REFERENCES state_metadata(id) ON DELETE CASCADE, generation INTEGER NOT NULL, selector_key BLOB NOT NULL, proxy_auth_key BLOB NOT NULL, account_binding BLOB, activated_at_ns INTEGER NOT NULL)'',
    ''CREATE TABLE preferences (id INTEGER PRIMARY KEY CHECK (id = 1) REFERENCES state_metadata(id) ON DELETE CASCADE, reveal_endpoints INTEGER NOT NULL, refresh_policy TEXT NOT NULL)'',
    ''CREATE TABLE excluded_node_ids (node_id TEXT PRIMARY KEY, preference_id INTEGER NOT NULL REFERENCES preferences(id) ON DELETE CASCADE)'',
    ''CREATE TABLE last_good (id INTEGER PRIMARY KEY CHECK (id = 1) REFERENCES state_metadata(id) ON DELETE CASCADE, generation INTEGER NOT NULL, created_at_ns INTEGER, rendered_subscription TEXT NOT NULL, fetched_generation INTEGER NOT NULL, fetched_at_ns INTEGER, fetched_body_hash BLOB)'',
    ''CREATE TABLE last_good_nodes (position INTEGER PRIMARY KEY, last_good_id INTEGER NOT NULL REFERENCES last_good(id) ON DELETE CASCADE, node_id TEXT NOT NULL, selector TEXT NOT NULL, provider TEXT NOT NULL, host TEXT NOT NULL, port INTEGER NOT NULL, name TEXT NOT NULL, group_name TEXT NOT NULL, eligible INTEGER NOT NULL, excluded INTEGER NOT NULL)'',
    ''CREATE TABLE active_session (id INTEGER PRIMARY KEY CHECK (id = 1) REFERENCES state_metadata(id) ON DELETE CASCADE, generation INTEGER NOT NULL, created_at_ns INTEGER NOT NULL, expires_at_ns INTEGER NOT NULL, account_display TEXT NOT NULL, account_is_vip INTEGER NOT NULL, account_vip_ends_at_ns INTEGER, session_user_id TEXT NOT NULL, session_login_token TEXT NOT NULL, session_provider_token TEXT NOT NULL, session_tunnel_password TEXT NOT NULL, session_tunnel_method TEXT NOT NULL, session_provider_extension TEXT NOT NULL)'',
    ''CREATE TABLE active_session_nodes (position INTEGER PRIMARY KEY, session_id INTEGER NOT NULL REFERENCES active_session(id) ON DELETE CASCADE, node_id TEXT NOT NULL, selector TEXT NOT NULL, provider TEXT NOT NULL, host TEXT NOT NULL, port INTEGER NOT NULL, name TEXT NOT NULL, group_name TEXT NOT NULL, model TEXT NOT NULL, weight INTEGER NOT NULL, auto INTEGER NOT NULL, eligible INTEGER NOT NULL, excluded INTEGER NOT NULL, health TEXT NOT NULL, udp_health TEXT NOT NULL, tcp_rtt_ns INTEGER NOT NULL, probed_at_ns INTEGER)'',
    ''CREATE TABLE active_session_selectors (selector TEXT PRIMARY KEY, session_id INTEGER NOT NULL REFERENCES active_session(id) ON DELETE CASCADE, node_id TEXT NOT NULL, generation INTEGER NOT NULL, tombstoned INTEGER NOT NULL, tombstone_until_ns INTEGER)'',
    ''CREATE TABLE browser_sessions (token TEXT PRIMARY KEY, csrf TEXT NOT NULL, expires_at_ns INTEGER NOT NULL)'',
    ''CREATE TABLE active_session_windows (id INTEGER PRIMARY KEY CHECK (id = 1) REFERENCES active_session(id) ON DELETE CASCADE, session_user_id TEXT NOT NULL, session_login_token TEXT NOT NULL, session_provider_token TEXT NOT NULL, session_tunnel_password TEXT NOT NULL, session_tunnel_method TEXT NOT NULL, session_provider_extension TEXT NOT NULL)'',
    ''CREATE TABLE active_session_node_profiles (position INTEGER PRIMARY KEY REFERENCES active_session_nodes(position) ON DELETE CASCADE, client_profile TEXT NOT NULL)'']"

definition sqliteSchemaTables :: "(string, nat) gomap" where
  "sqliteSchemaTables = [
    (''schema_version'', 0), (''state_metadata'', 1), (''access_token_verifier'', 2),
    (''subscription_generation'', 3), (''preferences'', 4), (''excluded_node_ids'', 5),
    (''last_good'', 6), (''last_good_nodes'', 7), (''active_session'', 8),
    (''active_session_nodes'', 9), (''active_session_selectors'', 10), (''browser_sessions'', 11),
    (''active_session_windows'', 12), (''active_session_node_profiles'', 13)]"

definition sqliteSchemaV4Tables :: "(string, nat) gomap" where
  "sqliteSchemaV4Tables = [
    (''schema_version'', 0), (''state_metadata'', 1), (''access_token_verifier'', 2),
    (''subscription_generation'', 3), (''preferences'', 4), (''excluded_node_ids'', 5),
    (''last_good'', 6), (''last_good_nodes'', 7), (''active_session'', 8),
    (''active_session_nodes'', 9), (''active_session_selectors'', 10), (''browser_sessions'', 11)]"

record SchemaObject =
  so_type :: string
  so_name :: string
  so_tbl_name :: string
  so_sql :: "string option"

record Database =
  db_journal_mode :: string
  db_integrity :: string
  db_master :: "SchemaObject list"
  db_versions :: "(int \<times> int) list"
  db_foreign_violation :: bool
  db_tables :: Tables

text \<open>What the driver and the system answer in one operation; \<open>None\<close> is success.\<close>

record SqlIO =
  io_now :: gotime
  io_file :: "go_error option"
  io_schema :: "go_error option"
  io_begin :: "go_error option"
  io_read :: "go_error option"
  io_prune :: "go_error option"
  io_write :: "go_error option"
  io_commit :: "go_error option"

definition sql_ok :: "go_error option \<Rightarrow> go_error + unit" where
  "sql_ok answer = (case answer of None \<Rightarrow> Inr () | Some e \<Rightarrow> Inl (corruptDatabase e))"

text \<open>\<open>name NOT LIKE 'sqlite_%'\<close>: \<open>LIKE\<close> ignores case, and \<open>_\<close> matches any character.\<close>

definition like_sqlite :: "string \<Rightarrow> bool" where
  "like_sqlite name \<longleftrightarrow> length name \<ge> 7 \<and> map ascii_lower (take 6 name) = ''sqlite''"

fun check_objects ::
  "(string, nat) gomap \<Rightarrow> string list \<Rightarrow> string list \<Rightarrow> SchemaObject list \<Rightarrow> go_error + string list"
where
  "check_objects expected statements tables [] = Inr tables"
| "check_objects expected statements tables (ob # obs) =
     (case map_of expected (so_name ob) of
        None \<Rightarrow> Inl (New ''unexpected SQLite schema object'')
      | Some i \<Rightarrow>
          if so_type ob \<noteq> ''table'' \<or> so_tbl_name ob \<noteq> so_name ob \<or> so_sql ob = None
             \<or> i \<ge> length statements \<or> so_sql ob \<noteq> Some (statements ! i)
          then Inl (New ''unexpected SQLite schema object'')
          else if so_name ob \<in> set tables then Inl (New ''duplicate SQLite table'')
          else check_objects expected statements (so_name ob # tables) obs)"

fun check_versions :: "int \<Rightarrow> nat \<Rightarrow> (int \<times> int) list \<Rightarrow> go_error + nat" where
  "check_versions expected n [] = Inr n"
| "check_versions expected n ((rid, version) # rows) =
     (if rid \<noteq> 1 \<or> version \<noteq> expected then Inl (New ''unsupported SQLite schema version'')
      else check_versions expected (n + 1) rows)"

definition validateSQLiteJournalMode :: "Database \<Rightarrow> go_error option" where
  "validateSQLiteJournalMode db =
     (if \<not> equal_fold (db_journal_mode db) ''delete''
      then Some (corruptDatabase (New ''unexpected SQLite journal mode'')) else None)"

definition validateSQLiteSchemaDefinition ::
  "Database \<Rightarrow> int \<Rightarrow> (string, nat) gomap \<Rightarrow> string list \<Rightarrow> go_error option"
where
  "validateSQLiteSchemaDefinition db expectedVersion expectedTables expectedStatements =
     (case validateSQLiteJournalMode db of
        Some e \<Rightarrow> Some e
      | None \<Rightarrow>
          if db_integrity db \<noteq> ''ok'' then Some (corruptDatabase (New ''integrity check''))
          else
            (case check_objects expectedTables expectedStatements []
                    (filter (\<lambda>ob. \<not> like_sqlite (so_name ob)) (db_master db)) of
               Inl e \<Rightarrow> Some (corruptDatabase e)
             | Inr tables \<Rightarrow>
                 if length tables \<noteq> length expectedTables
                 then Some (corruptDatabase (New ''missing SQLite schema tables''))
                 else
                   (case check_versions expectedVersion 0 (db_versions db) of
                      Inl e \<Rightarrow> Some (corruptDatabase e)
                    | Inr n \<Rightarrow>
                        if n \<noteq> 1 then Some (corruptDatabase (New ''missing SQLite schema version''))
                        else if db_foreign_violation db
                        then Some (corruptDatabase (New ''foreign key violation''))
                        else None)))"

definition validateSQLiteSchema :: "SqlIO \<Rightarrow> Database \<Rightarrow> go_error option" where
  "validateSQLiteSchema io db =
     (case io_schema io of
        Some e \<Rightarrow> Some (corruptDatabase e)
      | None \<Rightarrow> validateSQLiteSchemaDefinition db sqliteSchemaVersion sqliteSchemaTables sqliteSchemaStatements)"

text \<open>\<open>CREATE TABLE name ...\<close>, and the row of \<open>sqlite_master\<close> it makes.\<close>

definition create_table :: "string \<Rightarrow> SchemaObject" where
  "create_table statement =
     (let name = takeWhile (\<lambda>c. c \<noteq> CHR '' '') (drop (length ''CREATE TABLE '') statement) in
      \<lparr>so_type = ''table'', so_name = name, so_tbl_name = name, so_sql = Some statement\<rparr>)"

definition configureSQLiteDurability :: "Database \<Rightarrow> Database" where
  "configureSQLiteDurability db = db\<lparr>db_journal_mode := ''delete''\<rparr>"

definition migrateSQLiteSchema :: "SqlIO \<Rightarrow> Database \<Rightarrow> go_error + Database" where
  "migrateSQLiteSchema io db =
     (case map_of (db_versions db) 1 of
        None \<Rightarrow> Inl (corruptDatabase (New ''sql: no rows in result set''))
      | Some version \<Rightarrow>
          if version = sqliteSchemaVersion then Inr db
          else if version \<noteq> 4 then Inl (corruptDatabase (New ''unsupported SQLite schema version''))
          else
            (case validateSQLiteSchemaDefinition db 4 sqliteSchemaV4Tables
                    (take (length sqliteSchemaV4Tables) sqliteSchemaStatements) of
               Some e \<Rightarrow> Inl e
             | None \<Rightarrow>
                 try_bind (sql_ok (io_begin io)) (\<lambda>_.
                 try_bind (sql_ok (io_write io)) (\<lambda>_.
                 try_bind (sql_ok (io_commit io)) (\<lambda>_.
                   let db = configureSQLiteDurability db; t = db_tables db in
                   Inr (db\<lparr>db_master := db_master db
                             @ map create_table (drop (length sqliteSchemaV4Tables) sqliteSchemaStatements),
                           db_versions := map (\<lambda>(i, v). (i, if i = 1 then sqliteSchemaVersion else v)) (db_versions db),
                           db_tables := t\<lparr>tb_active_session_windows := None,
                             tb_active_session_node_profiles :=
                               map (\<lambda>(position, _). (position, ClientProfileIOS)) (tb_active_session_nodes t)\<rparr>\<rparr>))))))"

section \<open>Browser sessions\<close>

definition validBrowserSessionLimit :: "int \<Rightarrow> bool" where
  "validBrowserSessionLimit m \<longleftrightarrow> m > 0 \<and> m \<le> int maxBrowserSessions"

definition validOpaqueBrowserToken :: "string \<Rightarrow> bool" where
  "validOpaqueBrowserToken v =
     (if length v \<noteq> 43 then False
      else case raw_url_decode v of
             None \<Rightarrow> False
           | Some decoded \<Rightarrow> length decoded = 32 \<and> raw_url_encode decoded = v)"

definition validBrowserSession :: "string \<Rightarrow> string \<Rightarrow> gotime \<Rightarrow> gotime \<Rightarrow> bool" where
  "validBrowserSession token csrf expiresAt now \<longleftrightarrow>
     validOpaqueBrowserToken token \<and> validOpaqueBrowserToken csrf \<and> expiresAt \<noteq> time_zero
     \<and> now < expiresAt \<and> \<not> expiresAt > now + maxSessionLifetime"

definition session_order :: "BrowserSession \<Rightarrow> int \<times> string" where
  "session_order r = (sint (bs_expires_at_ns r), bs_token r)"

definition pruneBrowserSessionsTx ::
  "gotime \<Rightarrow> int \<Rightarrow> BrowserSession list \<Rightarrow> go_error + BrowserSession list"
where
  "pruneBrowserSessionsTx now m rows =
     (if \<not> validBrowserSessionLimit m then Inl ErrCorruptState
      else
        let live = filter (\<lambda>r. \<not> sint (bs_expires_at_ns r) \<le> sint (nanos now)) rows;
            excess = map bs_token (drop (nat m) (sort_key session_order live))
        in Inr (filter (\<lambda>r. bs_token r \<notin> set excess) live))"

fun check_sessions :: "gotime \<Rightarrow> bool \<Rightarrow> nat \<Rightarrow> BrowserSession list \<Rightarrow> go_error + nat" where
  "check_sessions now prune n [] = Inr n"
| "check_sessions now prune n (r # rows) =
     (let expiresAt = time_Unix (bs_expires_at_ns r) in
      if \<not> expiresAt > now then
        (if prune then Inl (New ''expired browser session remained after prune'')
         else check_sessions now prune n rows)
      else if \<not> validBrowserSession (bs_token r) (bs_csrf r) expiresAt now
      then Inl (New ''malformed browser session'')
      else check_sessions now prune (n + 1) rows)"

definition validateBrowserSessionsTx ::
  "SqlIO \<Rightarrow> gotime \<Rightarrow> int \<Rightarrow> bool \<Rightarrow> Tables \<Rightarrow> go_error + Tables"
where
  "validateBrowserSessionsTx io now m prune t =
     try_bind (sql_ok (io_prune io)) (\<lambda>_.
     try_bind (if prune then pruneBrowserSessionsTx now m (tb_browser_sessions t)
               else Inr (tb_browser_sessions t)) (\<lambda>rows.
     try_bind (map_sum corruptDatabase id (check_sessions now prune 0 rows)) (\<lambda>n.
       if int n > m then Inl (corruptDatabase (New ''browser session limit exceeded''))
       else Inr (t\<lparr>tb_browser_sessions := rows\<rparr>))))"

section \<open>The store\<close>

text \<open>The file, when it exists, and whether the handle is open.\<close>

record SQLiteStore =
  ss_file :: "Database option"
  ss_open :: bool

definition openExistingLocked :: "SqlIO \<Rightarrow> Database \<Rightarrow> go_error + Database" where
  "openExistingLocked io db =
     (case validateSQLiteJournalMode db of
        Some e \<Rightarrow> Inl e
      | None \<Rightarrow>
          try_bind (migrateSQLiteSchema io db) (\<lambda>db.
            case validateSQLiteSchema io db of
              Some e \<Rightarrow> Inl e
            | None \<Rightarrow> Inr (configureSQLiteDurability db)))"

text \<open>The file after an open that may fail: a migration has committed before the schema is checked.\<close>

definition opened_file :: "SqlIO \<Rightarrow> Database \<Rightarrow> Database" where
  "opened_file io db =
     (case validateSQLiteJournalMode db of
        Some e \<Rightarrow> db
      | None \<Rightarrow> (case migrateSQLiteSchema io db of Inl e \<Rightarrow> db | Inr migrated \<Rightarrow> migrated))"

definition initializeSQLiteSchemaAndState ::
  "hmac \<Rightarrow> (string \<Rightarrow> go_error + duration) \<Rightarrow> SqlIO \<Rightarrow> PersistentState \<Rightarrow> go_error + Database"
where
  "initializeSQLiteSchemaAndState hmac parse_duration io initial =
     (case ValidatePersistentState hmac parse_duration (io_now io) initial of
        Some err \<Rightarrow> Inl (Wrap ''refusing invalid initial persistent state'' err)
      | None \<Rightarrow>
          try_bind (sql_ok (io_begin io)) (\<lambda>_.
          try_bind (sql_ok (io_write io)) (\<lambda>_.
          try_bind (replacePersistentStateTx hmac parse_duration (io_now io) initial empty_tables) (\<lambda>t.
          try_bind (sql_ok (io_commit io)) (\<lambda>_.
            Inr \<lparr>db_journal_mode = ''delete'', db_integrity = ''ok'',
                 db_master = map create_table sqliteSchemaStatements,
                 db_versions = [(1, sqliteSchemaVersion)], db_foreign_violation = False,
                 db_tables = t\<rparr>)))))"

text \<open>
  \<open>createInitialStateLocked\<close> removes the file again when any step after its creation fails; the
  model takes that removal to succeed. \<open>validateEmptyStateDir\<close> and the other checks of paths are
  part of \<open>io_file\<close>.
\<close>

definition createInitialStateLocked ::
  "hmac \<Rightarrow> (string \<Rightarrow> go_error + duration) \<Rightarrow> SqlIO \<Rightarrow> PersistentState \<Rightarrow> SQLiteStore \<Rightarrow>
   (go_error + bool) \<times> SQLiteStore"
where
  "createInitialStateLocked hmac parse_duration io initial st =
     (case try_bind (initializeSQLiteSchemaAndState hmac parse_duration io initial) (\<lambda>db.
           case validateSQLiteSchema io db of
             Some e \<Rightarrow> Inl e
           | None \<Rightarrow> openExistingLocked io db) of
        Inl e \<Rightarrow> (Inl e, st)
      | Inr db \<Rightarrow> (Inr True, \<lparr>ss_file = Some db, ss_open = True\<rparr>))"

definition ensureOpenLocked ::
  "hmac \<Rightarrow> (string \<Rightarrow> go_error + duration) \<Rightarrow> SqlIO \<Rightarrow> PersistentState option \<Rightarrow> SQLiteStore \<Rightarrow>
   (go_error + bool) \<times> SQLiteStore"
where
  "ensureOpenLocked hmac parse_duration io initial st =
     (case io_file io of
        Some e \<Rightarrow> (Inl e, st)
      | None \<Rightarrow>
          if ss_open st then (Inr False, st)
          else
            (case ss_file st of
               None \<Rightarrow>
                 (case initial of
                    None \<Rightarrow> (Inl ErrStateNotFound, st)
                  | Some p \<Rightarrow> createInitialStateLocked hmac parse_duration io p st)
             | Some db \<Rightarrow>
                 (case openExistingLocked io db of
                    Inl e \<Rightarrow> (Inl e, st\<lparr>ss_file := Some (opened_file io db)\<rparr>)
                  | Inr db \<Rightarrow> (Inr False, \<lparr>ss_file = Some db, ss_open = True\<rparr>))))"

text \<open>
  The frame of every transaction: the schema check, \<open>BEGIN\<close>, the body on the tables, \<open>COMMIT\<close>. A
  body that fails, and a commit that fails, roll back. \<open>wrap\<close> is what is done to a commit error.
\<close>

definition run_tx ::
  "SqlIO \<Rightarrow> (go_error \<Rightarrow> go_error) \<Rightarrow> (Tables \<Rightarrow> go_error + 'r \<times> Tables) \<Rightarrow> SQLiteStore \<Rightarrow>
   (go_error + 'r) \<times> SQLiteStore"
where
  "run_tx io wrap body st =
     (case ss_file st of
        None \<Rightarrow> (Inl ErrStateNotFound, st)
      | Some db \<Rightarrow>
          (case try_bind (case validateSQLiteSchema io db of Some e \<Rightarrow> Inl e | None \<Rightarrow> Inr ()) (\<lambda>_.
                try_bind (sql_ok (io_begin io)) (\<lambda>_.
                try_bind (body (db_tables db)) (\<lambda>(r, t).
                  case io_commit io of Some e \<Rightarrow> Inl (wrap e) | None \<Rightarrow> Inr (r, t)))) of
             Inl e \<Rightarrow> (Inl e, st)
           | Inr (r, t) \<Rightarrow> (Inr r, st\<lparr>ss_file := Some (db\<lparr>db_tables := t\<rparr>)\<rparr>)))"

definition loadLocked ::
  "hmac \<Rightarrow> (string \<Rightarrow> go_error + duration) \<Rightarrow> SqlIO \<Rightarrow> SQLiteStore \<Rightarrow>
   (go_error + PersistentState) \<times> SQLiteStore"
where
  "loadLocked hmac parse_duration io =
     run_tx io corruptDatabase (\<lambda>t.
       try_bind (sql_ok (io_read io)) (\<lambda>_.
       try_bind (loadPersistentStateTx hmac parse_duration (io_now io) t) (\<lambda>p.
       try_bind (validateBrowserSessionsTx io (io_now io) (int maxBrowserSessions) True t) (\<lambda>t.
         Inr (p, t)))))"

definition saveLocked ::
  "hmac \<Rightarrow> (string \<Rightarrow> go_error + duration) \<Rightarrow> SqlIO \<Rightarrow> PersistentState \<Rightarrow> SQLiteStore \<Rightarrow>
   (go_error + unit) \<times> SQLiteStore"
where
  "saveLocked hmac parse_duration io p =
     run_tx io corruptDatabase (\<lambda>t.
       try_bind (validateBrowserSessionsTx io (io_now io) (int maxBrowserSessions) True t) (\<lambda>t.
       try_bind (sql_ok (io_write io)) (\<lambda>_.
       try_bind (replacePersistentStateTx hmac parse_duration (io_now io) p t) (\<lambda>t. Inr ((), t)))))"

definition Store_Load ::
  "hmac \<Rightarrow> (string \<Rightarrow> go_error + duration) \<Rightarrow> SqlIO \<Rightarrow> SQLiteStore \<Rightarrow>
   (go_error + PersistentState) \<times> SQLiteStore"
where
  "Store_Load hmac parse_duration io st =
     (case ensureOpenLocked hmac parse_duration io None st of
        (Inl e, st) \<Rightarrow> (Inl e, st)
      | (Inr _, st) \<Rightarrow> loadLocked hmac parse_duration io st)"

text \<open>\<open>semantic\<close> is the list of validators; \<open>rnd\<close> is the random source of a fresh installation.\<close>

fun validatePersistentStateSemantics ::
  "PersistentState \<Rightarrow> (PersistentState \<Rightarrow> go_error option) list \<Rightarrow> go_error option"
where
  "validatePersistentStateSemantics p [] = None"
| "validatePersistentStateSemantics p (validator # validators) =
     (case validator p of Some e \<Rightarrow> Some e | None \<Rightarrow> validatePersistentStateSemantics p validators)"

definition checked :: "(PersistentState \<Rightarrow> go_error option) list \<Rightarrow>
  (go_error + PersistentState) \<times> SQLiteStore \<Rightarrow> (go_error + PersistentState) \<times> SQLiteStore"
where
  "checked semantic r =
     (case r of
        (Inl e, st) \<Rightarrow> (Inl e, st)
      | (Inr p, st) \<Rightarrow>
          (case validatePersistentStateSemantics p semantic of
             Some e \<Rightarrow> (Inl e, st) | None \<Rightarrow> (Inr p, st)))"

definition LoadOrCreate ::
  "hmac \<Rightarrow> (string \<Rightarrow> go_error + duration) \<Rightarrow> (PersistentState \<Rightarrow> go_error option) list \<Rightarrow> SqlIO \<Rightarrow>
   stream \<Rightarrow> SQLiteStore \<Rightarrow> (go_error + PersistentState) \<times> SQLiteStore"
where
  "LoadOrCreate hmac parse_duration semantic io rnd st =
     (case io_file io of
        Some e \<Rightarrow> (Inl e, st)
      | None \<Rightarrow>
          if ss_file st \<noteq> None then checked semantic (Store_Load hmac parse_duration io st)
          else
            (case fst (NewPersistentState (io_now io) rnd) of
               Inl e \<Rightarrow> (Inl e, st)
             | Inr initial \<Rightarrow>
                 (case validatePersistentStateSemantics initial semantic of
                    Some e \<Rightarrow> (Inl e, st)
                  | None \<Rightarrow>
                      (case ensureOpenLocked hmac parse_duration io (Some initial) st of
                         (Inl e, st) \<Rightarrow> (Inl e, st)
                       | (Inr created, st) \<Rightarrow>
                           if created then (Inr initial, st)
                           else checked semantic (loadLocked hmac parse_duration io st)))))"

definition Store_Save ::
  "hmac \<Rightarrow> (string \<Rightarrow> go_error + duration) \<Rightarrow> SqlIO \<Rightarrow> PersistentState \<Rightarrow> SQLiteStore \<Rightarrow>
   (go_error + unit) \<times> SQLiteStore"
where
  "Store_Save hmac parse_duration io p st =
     (case ValidatePersistentState hmac parse_duration (io_now io) p of
        Some err \<Rightarrow> (Inl (Wrap ''refusing invalid persistent state'' err), st)
      | None \<Rightarrow>
          (case ensureOpenLocked hmac parse_duration io (Some p) st of
             (Inl e, st) \<Rightarrow> (Inl e, st)
           | (Inr created, st) \<Rightarrow>
               if created then (Inr (), st) else saveLocked hmac parse_duration io p st))"

text \<open>
  The callback of \<open>Update\<close> may leave something behind for its caller; that is the first part of
  its result.
\<close>

definition update_body ::
  "hmac \<Rightarrow> (string \<Rightarrow> go_error + duration) \<Rightarrow> SqlIO \<Rightarrow> (PersistentState \<Rightarrow> 'a \<times> (go_error + PersistentState)) \<Rightarrow>
   Tables \<Rightarrow> go_error + ('a \<times> PersistentState) \<times> Tables"
where
  "update_body hmac parse_duration io change t =
     try_bind (sql_ok (io_read io)) (\<lambda>_.
     try_bind (loadPersistentStateTx hmac parse_duration (io_now io) t) (\<lambda>current.
     try_bind (validateBrowserSessionsTx io (io_now io) (int maxBrowserSessions) True t) (\<lambda>t.
       case change current of
         (a, Inl e) \<Rightarrow> Inl e
       | (a, Inr candidate) \<Rightarrow>
           (case ValidatePersistentState hmac parse_duration (io_now io) candidate of
              Some err \<Rightarrow> Inl (Wrap ''refusing invalid persistent state'' err)
            | None \<Rightarrow>
                try_bind (sql_ok (io_write io)) (\<lambda>_.
                try_bind (replacePersistentStateTx hmac parse_duration (io_now io) candidate t) (\<lambda>t.
                  Inr ((a, candidate), t)))))))"

definition Store_Update ::
  "hmac \<Rightarrow> (string \<Rightarrow> go_error + duration) \<Rightarrow> SqlIO \<Rightarrow> (PersistentState \<Rightarrow> 'a \<times> (go_error + PersistentState)) \<Rightarrow>
   SQLiteStore \<Rightarrow> (go_error + 'a \<times> PersistentState) \<times> SQLiteStore"
where
  "Store_Update hmac parse_duration io change st =
     (case ensureOpenLocked hmac parse_duration io None st of
        (Inl e, st) \<Rightarrow> (Inl e, st)
      | (Inr _, st) \<Rightarrow> run_tx io corruptDatabase (update_body hmac parse_duration io change) st)"

definition upsert_session :: "BrowserSession \<Rightarrow> BrowserSession list \<Rightarrow> BrowserSession list" where
  "upsert_session r rows =
     (if bs_token r \<in> bs_token ` set rows
      then map (\<lambda>q. if bs_token q = bs_token r then r else q) rows else rows @ [r])"

definition SaveBrowserSession ::
  "hmac \<Rightarrow> (string \<Rightarrow> go_error + duration) \<Rightarrow> SqlIO \<Rightarrow> string \<Rightarrow> string \<Rightarrow> gotime \<Rightarrow> int \<Rightarrow> SQLiteStore \<Rightarrow>
   (go_error + unit) \<times> SQLiteStore"
where
  "SaveBrowserSession hmac parse_duration io token csrf expiresAt m st =
     (if \<not> validBrowserSessionLimit m then (Inl ErrInsecureStatePath, st)
      else if \<not> validBrowserSession token csrf expiresAt (io_now io) then (Inl ErrCorruptState, st)
      else case ensureOpenLocked hmac parse_duration io None st of
        (Inl e, st) \<Rightarrow> (Inl e, st)
      | (Inr _, st) \<Rightarrow>
          run_tx io id (\<lambda>t.
            try_bind (sql_ok (io_prune io)) (\<lambda>_.
            try_bind (pruneBrowserSessionsTx (io_now io) m (tb_browser_sessions t)) (\<lambda>rows.
            try_bind (sql_ok (io_read io)) (\<lambda>_.
              if token \<notin> bs_token ` set rows \<and> int (length rows) \<ge> m
              then Inl (New ''browser session limit reached'')
              else
                try_bind (sql_ok (io_write io)) (\<lambda>_.
                  Inr ((), t\<lparr>tb_browser_sessions := upsert_session
                         \<lparr>bs_token = token, bs_csrf = csrf, bs_expires_at_ns = nanos expiresAt\<rparr> rows\<rparr>)))))) st)"

definition DeleteBrowserSession ::
  "hmac \<Rightarrow> (string \<Rightarrow> go_error + duration) \<Rightarrow> SqlIO \<Rightarrow> string \<Rightarrow> SQLiteStore \<Rightarrow>
   (go_error + unit) \<times> SQLiteStore"
where
  "DeleteBrowserSession hmac parse_duration io token st =
     (if \<not> validOpaqueBrowserToken token then (Inl ErrCorruptState, st)
      else case ensureOpenLocked hmac parse_duration io None st of
        (Inl e, st) \<Rightarrow> (Inl e, st)
      | (Inr _, st) \<Rightarrow>
          run_tx io id (\<lambda>t.
            try_bind (sql_ok (io_write io)) (\<lambda>_.
              Inr ((), t\<lparr>tb_browser_sessions :=
                     filter (\<lambda>r. bs_token r \<noteq> token) (tb_browser_sessions t)\<rparr>))) st)"

text \<open>
  The callback \<open>add\<close> of \<open>RestoreBrowserSessions\<close> works on a state of its caller, which keeps what
  it did even when the transaction fails afterwards.
\<close>

fun restore_rows ::
  "('s \<Rightarrow> string \<Rightarrow> string \<Rightarrow> gotime \<Rightarrow> go_error option \<times> 's) \<Rightarrow> gotime \<Rightarrow> 's \<Rightarrow> BrowserSession list \<Rightarrow>
   go_error option \<times> 's"
where
  "restore_rows add now s [] = (None, s)"
| "restore_rows add now s (r # rows) =
     (let expiresAt = time_Unix (bs_expires_at_ns r) in
      if \<not> validBrowserSession (bs_token r) (bs_csrf r) expiresAt now
      then (Some (corruptDatabase (New ''malformed browser session'')), s)
      else case add s (bs_token r) (bs_csrf r) expiresAt of
        (Some e, s) \<Rightarrow> (Some e, s)
      | (None, s) \<Rightarrow> restore_rows add now s rows)"

definition RestoreBrowserSessions ::
  "hmac \<Rightarrow> (string \<Rightarrow> go_error + duration) \<Rightarrow> SqlIO \<Rightarrow> gotime \<Rightarrow> int \<Rightarrow>
   ('s \<Rightarrow> string \<Rightarrow> string \<Rightarrow> gotime \<Rightarrow> go_error option \<times> 's) \<Rightarrow> 's \<Rightarrow> SQLiteStore \<Rightarrow>
   go_error option \<times> 's \<times> SQLiteStore"
where
  "RestoreBrowserSessions hmac parse_duration io now m add s st =
     (if \<not> validBrowserSessionLimit m then (Some ErrInsecureStatePath, s, st)
      else case ensureOpenLocked hmac parse_duration io None st of
        (Inl e, st) \<Rightarrow> (Some e, s, st)
      | (Inr _, st) \<Rightarrow>
          (case run_tx (io\<lparr>io_commit := None\<rparr>) id (\<lambda>t.
                  try_bind (sql_ok (io_prune io)) (\<lambda>_.
                  try_bind (pruneBrowserSessionsTx now m (tb_browser_sessions t)) (\<lambda>rows.
                  try_bind (sql_ok (io_read io)) (\<lambda>_.
                    Inr (sort_key session_order rows, t\<lparr>tb_browser_sessions := rows\<rparr>))))) st of
             (Inl e, _) \<Rightarrow> (Some e, s, st)
           | (Inr rows, st') \<Rightarrow>
               (case restore_rows add now s rows of
                  (Some e, s) \<Rightarrow> (Some e, s, st)
                | (None, s) \<Rightarrow>
                    (case io_commit io of
                       Some e \<Rightarrow> (Some e, s, st)
                     | None \<Rightarrow> (None, s, st')))))"

section \<open>Transactions\<close>

definition schema_ok :: "Database \<Rightarrow> bool" where
  "schema_ok db \<longleftrightarrow> validateSQLiteSchemaDefinition db sqliteSchemaVersion sqliteSchemaTables sqliteSchemaStatements = None"

text \<open>An open store: the file is there and has the schema.\<close>

definition opened :: "SQLiteStore \<Rightarrow> Database \<Rightarrow> bool" where
  "opened st db \<longleftrightarrow> ss_open st \<and> ss_file st = Some db \<and> schema_ok db"

abbreviation store_tables :: "SQLiteStore \<Rightarrow> Tables \<Rightarrow> SQLiteStore" where
  "store_tables st t \<equiv> st\<lparr>ss_file := map_option (\<lambda>db. db\<lparr>db_tables := t\<rparr>) (ss_file st)\<rparr>"

definition no_fault :: "SqlIO \<Rightarrow> bool" where
  "no_fault io \<longleftrightarrow> io_file io = None \<and> io_schema io = None \<and> io_begin io = None \<and> io_read io = None
     \<and> io_prune io = None \<and> io_write io = None \<and> io_commit io = None"

lemma sql_ok_Inr [simp]: "sql_ok answer = Inr u \<longleftrightarrow> answer = None"
  by (simp add: sql_ok_def split: option.splits)

declare map_sum_Inr [simp]

lemma sql_ok_None [simp]: "sql_ok None = Inr ()"
  by simp

lemma no_faultD [simp]:
  assumes "no_fault io"
  shows "io_file io = None" "io_schema io = None" "io_begin io = None" "io_read io = None"
    "io_prune io = None" "io_write io = None" "io_commit io = None"
  using assms by (simp_all add: no_fault_def)

lemma schema_definition_None:
  "validateSQLiteSchemaDefinition db v expected statements = None \<longleftrightarrow>
     validateSQLiteJournalMode db = None \<and> db_integrity db = ''ok''
     \<and> (\<exists>tables. check_objects expected statements []
            (filter (\<lambda>ob. \<not> like_sqlite (so_name ob)) (db_master db)) = Inr tables
          \<and> length tables = length expected)
     \<and> check_versions v 0 (db_versions db) = Inr 1 \<and> \<not> db_foreign_violation db"
  by (auto simp: validateSQLiteSchemaDefinition_def split: option.splits sum.splits)

lemma journal_tables [simp]:
  "validateSQLiteJournalMode (db\<lparr>db_tables := t\<rparr>) = validateSQLiteJournalMode db"
  unfolding validateSQLiteJournalMode_def by simp

lemma schema_tables [simp]: "schema_ok (db\<lparr>db_tables := t\<rparr>) = schema_ok db"
  by (simp add: schema_ok_def schema_definition_None)

lemma ensureOpen_opened:
  "opened st db \<Longrightarrow> ensureOpenLocked hmac pd io p st
     = (case io_file io of Some e \<Rightarrow> (Inl e, st) | None \<Rightarrow> (Inr False, st))"
  by (simp add: ensureOpenLocked_def opened_def)

lemma run_tx_Inl: "run_tx io wrap body st = (Inl e, st') \<Longrightarrow> st' = st"
  by (auto simp: run_tx_def split: option.splits sum.splits)

lemma run_tx_Inr:
  assumes "run_tx io wrap body st = (Inr r, st')" and "opened st db"
  shows "\<exists>t. body (db_tables db) = Inr (r, t) \<and> st' = store_tables st t \<and> opened st' (db\<lparr>db_tables := t\<rparr>)"
  using assms
  by (auto simp: run_tx_def opened_def split: option.splits sum.splits)

lemma run_tx_no_fault:
  assumes "no_fault io" and "opened st db"
  shows "run_tx io wrap body st = (case body (db_tables db) of
      Inl e \<Rightarrow> (Inl e, st) | Inr (r, t) \<Rightarrow> (Inr r, store_tables st t))"
  using assms
  by (auto simp: run_tx_def opened_def schema_ok_def validateSQLiteSchema_def split: sum.splits)

section \<open>Sessions\<close>

definition session_ok :: "gotime \<Rightarrow> BrowserSession \<Rightarrow> bool" where
  "session_ok now r \<longleftrightarrow> validBrowserSession (bs_token r) (bs_csrf r) (time_Unix (bs_expires_at_ns r)) now"

definition live :: "gotime \<Rightarrow> BrowserSession \<Rightarrow> bool" where
  "live now r \<longleftrightarrow> now < time_Unix (bs_expires_at_ns r)"

lemma expired_iff: "nanos_ok now \<Longrightarrow> sint (bs_expires_at_ns r) \<le> sint (nanos now) \<longleftrightarrow> \<not> live now r"
  using time_Unix_nanos [of now] by (auto simp: live_def time_Unix_def)

lemma prune_eq:
  assumes "nanos_ok now" and "validBrowserSessionLimit m" and "length (filter (live now) rows) \<le> nat m"
  shows "pruneBrowserSessionsTx now m rows = Inr (filter (live now) rows)"
  using assms by (simp add: pruneBrowserSessionsTx_def expired_iff Let_def)

lemma prune_subset:
  assumes "nanos_ok now" and "pruneBrowserSessionsTx now m rows = Inr rows'"
  shows "set rows' \<subseteq> set (filter (live now) rows)"
  using assms by (auto simp: pruneBrowserSessionsTx_def expired_iff Let_def split: if_splits)

lemma check_sessions_Inr:
  "check_sessions now True n rows = Inr k \<longleftrightarrow> k = n + length rows \<and> list_all (session_ok now) rows"
  by (induction now True n rows rule: check_sessions.induct)
    (auto simp: Let_def session_ok_def validBrowserSession_def)

lemma limit [simp]: "validBrowserSessionLimit (int maxBrowserSessions)"
  by (simp add: validBrowserSessionLimit_def maxBrowserSessions_def)

lemma validate_sessions_Inr:
  assumes "nanos_ok now" and "validateBrowserSessionsTx io now m True t = Inr u"
  shows "\<exists>rows. u = t\<lparr>tb_browser_sessions := rows\<rparr> \<and> set rows \<subseteq> set (filter (live now) (tb_browser_sessions t))
    \<and> list_all (session_ok now) rows \<and> int (length rows) \<le> m"
proof -
  obtain rows where rows: "pruneBrowserSessionsTx now m (tb_browser_sessions t) = Inr rows"
      "list_all (session_ok now) rows" "\<not> m < int (length rows)" "u = t\<lparr>tb_browser_sessions := rows\<rparr>"
    using assms(2) by (auto simp: validateBrowserSessionsTx_def check_sessions_Inr split: if_splits)
  with prune_subset [OF assms(1) rows(1)] show ?thesis by fastforce
qed

lemma session_ok_later: "session_ok now r \<Longrightarrow> now \<le> later \<Longrightarrow> live later r \<Longrightarrow> session_ok later r"
  by (auto simp: session_ok_def validBrowserSession_def live_def)

lemma validate_sessions_eq:
  assumes "nanos_ok now" and "io_prune io = None" and "length (tb_browser_sessions t) \<le> maxBrowserSessions"
  shows "validateBrowserSessionsTx io now (int maxBrowserSessions) True t =
    (if list_all (session_ok now) (filter (live now) (tb_browser_sessions t))
     then Inr (t\<lparr>tb_browser_sessions := filter (live now) (tb_browser_sessions t)\<rparr>)
     else Inl (corruptDatabase (New ''malformed browser session'')))"
proof -
  have len: "length (filter (live now) (tb_browser_sessions t)) \<le> maxBrowserSessions"
    using assms(3) length_filter_le [of "live now" "tb_browser_sessions t"] by linarith
  have bad: "check_sessions now True n rows = Inl (New ''malformed browser session'')"
    if "list_all (live now) rows" "\<not> list_all (session_ok now) rows" for n rows
    using that by (induction now True n rows rule: check_sessions.induct)
      (auto simp: Let_def session_ok_def live_def)
  have "list_all (live now) (filter (live now) (tb_browser_sessions t))" by (simp add: list_all_iff)
  note bad = bad [OF this]
  show ?thesis
  proof (cases "list_all (session_ok now) (filter (live now) (tb_browser_sessions t))")
    case True
    then have "check_sessions now True 0 (filter (live now) (tb_browser_sessions t))
        = Inr (length (filter (live now) (tb_browser_sessions t)))"
      by (simp add: check_sessions_Inr)
    with True assms(1,2) len show ?thesis by (simp add: validateBrowserSessionsTx_def prune_eq)
  next
    case False
    with assms(1,2) len bad show ?thesis by (simp add: validateBrowserSessionsTx_def prune_eq)
  qed
qed

section \<open>What the operations promise\<close>

text \<open>A store from which an aggregate can be read at any later time.\<close>

definition holds_aggregate ::
  "hmac \<Rightarrow> (string \<Rightarrow> go_error + duration) \<Rightarrow> gotime \<Rightarrow> PersistentState \<Rightarrow> SQLiteStore \<Rightarrow> bool"
where
  "holds_aggregate hmac parse_duration now p st \<longleftrightarrow>
     (\<forall>io. no_fault io \<longrightarrow> nanos_ok (io_now io) \<longrightarrow> now \<le> io_now io \<longrightarrow>
        fst (Store_Load hmac parse_duration io st) = Inr p)"

lemma load_eq:
  assumes "no_fault io" and "nanos_ok (io_now io)" and "opened st db"
    and "length (tb_browser_sessions (db_tables db)) \<le> maxBrowserSessions"
  shows "Store_Load hmac pd io st =
    (case loadPersistentStateTx hmac pd (io_now io) (db_tables db) of
       Inl e \<Rightarrow> (Inl e, st)
     | Inr p \<Rightarrow>
         if list_all (session_ok (io_now io)) (filter (live (io_now io)) (tb_browser_sessions (db_tables db)))
         then (Inr p, store_tables st ((db_tables db)\<lparr>tb_browser_sessions :=
                 filter (live (io_now io)) (tb_browser_sessions (db_tables db))\<rparr>))
         else (Inl (corruptDatabase (New ''malformed browser session'')), st))"
proof -
  have "Store_Load hmac pd io st = loadLocked hmac pd io st"
    using assms(1) by (simp add: Store_Load_def ensureOpen_opened [OF assms(3)])
  then show ?thesis
    using assms(1) validate_sessions_eq [OF assms(2) _ assms(4), of io]
    by (cases "loadPersistentStateTx hmac pd (io_now io) (db_tables db)")
      (simp_all add: loadLocked_def run_tx_no_fault [OF assms(1,3)])
qed

lemma holdsI:
  assumes op: "opened st db" and "length (tb_browser_sessions (db_tables db)) \<le> maxBrowserSessions"
    and ok: "list_all (session_ok now) (tb_browser_sessions (db_tables db))"
    and "\<And>later. now \<le> later \<Longrightarrow> loadPersistentStateTx hmac pd later (db_tables db) = Inr p"
  shows "holds_aggregate hmac pd now p st"
proof -
  have "list_all (session_ok later) (filter (live later) (tb_browser_sessions (db_tables db)))"
    if "now \<le> later" for later
    using ok session_ok_later [OF _ that] by (simp add: list_all_iff)
  then show ?thesis
    using assms(4) by (simp add: holds_aggregate_def load_eq [OF _ _ op assms(2)])
qed

lemma update_body_Inr:
  assumes "update_body hmac pd io change t = Inr ((a, p), t')"
  obtains current u where "loadPersistentStateTx hmac pd (io_now io) t = Inr current"
    and "change current = (a, Inr p)" and "ValidatePersistentState hmac pd (io_now io) p = None"
    and "validateBrowserSessionsTx io (io_now io) (int maxBrowserSessions) True t = Inr u"
    and "replacePersistentStateTx hmac pd (io_now io) p u = Inr t'"
proof -
  let ?then = "\<lambda>current u. case change current of (a, Inl e) \<Rightarrow> Inl e
      | (a, Inr candidate) \<Rightarrow>
          (case ValidatePersistentState hmac pd (io_now io) candidate of
             Some err \<Rightarrow> Inl (Wrap ''refusing invalid persistent state'' err)
           | None \<Rightarrow> try_bind (sql_ok (io_write io)) (\<lambda>_.
               try_bind (replacePersistentStateTx hmac pd (io_now io) candidate u) (\<lambda>t. Inr ((a, candidate), t))))"
  obtain current u where cu: "loadPersistentStateTx hmac pd (io_now io) t = Inr current"
      "validateBrowserSessionsTx io (io_now io) (int maxBrowserSessions) True t = Inr u"
      "?then current u = Inr ((a, p), t')"
    using assms unfolding update_body_def try_bind_eq_Inr by blast
  obtain b r where c: "change current = (b, r)" by (cases "change current")
  with cu(3) obtain q where q: "r = Inr q" "ValidatePersistentState hmac pd (io_now io) q = None"
    by (cases r) (auto split: option.splits)
  then show thesis using that cu c by auto
qed

text \<open>
  C34: an update is atomic. Whatever the callback does and wherever the driver fails, \<open>Update\<close>
  either returns an error and leaves the database as it was, or it returns exactly the aggregate the
  callback made from the one that was stored; that aggregate is valid, every later load reads it
  back, and of the browser sessions only expired ones are gone.
\<close>

theorem update_atomic:
  assumes op: "opened st db" and now: "nanos_ok (io_now io)"
    and few: "length (tb_browser_sessions (db_tables db)) \<le> maxBrowserSessions"
    and upd: "Store_Update hmac parse_duration io change st = (res, st')"
  shows "case res of
      Inl e \<Rightarrow> st' = st
    | Inr (a, p) \<Rightarrow>
        (\<exists>current. loadPersistentStateTx hmac parse_duration (io_now io) (db_tables db) = Inr current
           \<and> change current = (a, Inr p))
        \<and> ValidatePersistentState hmac parse_duration (io_now io) p = None
        \<and> (storable p \<longrightarrow> holds_aggregate hmac parse_duration (io_now io) (stored p) st')
        \<and> (\<exists>db'. opened st' db' \<and> tb_browser_sessions (db_tables db')
              = filter (live (io_now io)) (tb_browser_sessions (db_tables db)))"
proof (cases res)
  case (Inl e)
  then show ?thesis
    using upd run_tx_Inl by (fastforce simp: Store_Update_def ensureOpen_opened [OF op] split: option.splits)
next
  case (Inr r)
  obtain a p where r: "r = (a, p)" by (cases r)
  have "run_tx io corruptDatabase (update_body hmac parse_duration io change) st = (Inr (a, p), st')"
    using upd Inr r by (simp add: Store_Update_def ensureOpen_opened [OF op] split: option.splits)
  from run_tx_Inr [OF this op] obtain t where
    body: "update_body hmac parse_duration io change (db_tables db) = Inr ((a, p), t)"
    and op': "opened st' (db\<lparr>db_tables := t\<rparr>)" by blast
  from update_body_Inr [OF body] obtain current u where
      cur: "loadPersistentStateTx hmac parse_duration (io_now io) (db_tables db) = Inr current"
      "change current = (a, Inr p)" "ValidatePersistentState hmac parse_duration (io_now io) p = None"
      and u: "validateBrowserSessionsTx io (io_now io) (int maxBrowserSessions) True (db_tables db) = Inr u"
      and t: "replacePersistentStateTx hmac parse_duration (io_now io) p u = Inr t"
    by blast
  have "io_prune io = None" using u by (auto simp: validateBrowserSessionsTx_def)
  then have sess: "tb_browser_sessions u = filter (live (io_now io)) (tb_browser_sessions (db_tables db))"
    and ok: "list_all (session_ok (io_now io)) (tb_browser_sessions u)"
    using u by (auto simp: validate_sessions_eq [OF now _ few] split: if_splits)
  have kept: "tb_browser_sessions t = tb_browser_sessions u"
    using t replace_sessions by blast
  have "length (tb_browser_sessions u) \<le> maxBrowserSessions"
    unfolding sess using few length_filter_le le_trans by blast
  then have "holds_aggregate hmac parse_duration (io_now io) (stored p) st'" if "storable p"
    using holdsI [OF op', of "io_now io" hmac parse_duration "stored p"] ok kept
      aggregate_reload [OF cur(3) that _ t] by simp
  then show ?thesis using Inr r cur op' kept sess by auto
qed

lemma map_sum_Inl: "map_sum f id r = Inl e \<longleftrightarrow> (\<exists>d. r = Inl d \<and> e = f d)"
  by (cases r) auto

lemma corrupt_is: "errors_is (corruptDatabase e) ErrCorruptState"
  by (auto simp: corruptDatabase_def)

lemma load_corrupt: "loadPersistentStateTx hmac pd now t = Inl e \<Longrightarrow> errors_is e ErrCorruptState"
  by (auto simp: loadPersistentStateTx_def corrupt_is map_sum_Inl split: sum.splits)

lemma opaque_token_iff: "validOpaqueBrowserToken v \<longleftrightarrow> (\<exists>secret. length secret = 32 \<and> v = raw_url_encode secret)"
proof
  assume "validOpaqueBrowserToken v"
  then show "\<exists>secret. length secret = 32 \<and> v = raw_url_encode secret"
    by (auto simp: validOpaqueBrowserToken_def split: if_splits option.splits)
next
  assume "\<exists>secret. length secret = 32 \<and> v = raw_url_encode secret"
  then show "validOpaqueBrowserToken v" by (auto simp: validOpaqueBrowserToken_def)
qed

lemma session_ok_iff:
  "session_ok now r \<longleftrightarrow>
     now < unix_epoch + sint (bs_expires_at_ns r) \<and> unix_epoch + sint (bs_expires_at_ns r) \<le> now + 24 * hour
     \<and> (\<exists>secret. length secret = 32 \<and> bs_token r = raw_url_encode secret)
     \<and> (\<exists>secret. length secret = 32 \<and> bs_csrf r = raw_url_encode secret)"
proof -
  have "time_Unix (bs_expires_at_ns r) \<noteq> time_zero"
    using sint_ge [of "bs_expires_at_ns r"] by (simp add: time_Unix_def unix_epoch_def time_zero_def)
  then show ?thesis
    by (auto simp: session_ok_def validBrowserSession_def opaque_token_iff time_Unix_def maxSessionLifetime_def)
qed

text \<open>
  C35: what a load accepts, and what it gives. On an open store whose sessions are within the limit and a driver
  that does not fail, a load gives an aggregate exactly when the rows stand for it, column by column, in the
  order of their positions; the aggregate is valid now; and every browser session that has not expired
  ends within 24 hours from now and carries two tokens that are the unpadded URL-safe Base64 of 32 bytes. Every other
  content is refused as corrupt.
\<close>

theorem load_exact:
  assumes "no_fault io" and "nanos_ok (io_now io)" and "opened st db"
    and "length (tb_browser_sessions (db_tables db)) \<le> maxBrowserSessions"
  shows "(fst (Store_Load hmac parse_duration io st) = Inr p \<longleftrightarrow>
        stands_for (db_tables db) p \<and> ValidatePersistentState hmac parse_duration (io_now io) p = None
        \<and> (\<forall>r\<in>set (tb_browser_sessions (db_tables db)).
             let ends = unix_epoch + sint (bs_expires_at_ns r) in io_now io < ends \<longrightarrow>
               ends \<le> io_now io + 24 * hour
               \<and> (\<exists>secret. length secret = 32 \<and> bs_token r = raw_url_encode secret)
               \<and> (\<exists>secret. length secret = 32 \<and> bs_csrf r = raw_url_encode secret)))
    \<and> (\<forall>e. fst (Store_Load hmac parse_duration io st) = Inl e \<longrightarrow> errors_is e ErrCorruptState)"
proof -
  have sessions: "list_all (session_ok (io_now io)) (filter (live (io_now io)) (tb_browser_sessions (db_tables db)))
      \<longleftrightarrow> (\<forall>r\<in>set (tb_browser_sessions (db_tables db)).
             let ends = unix_epoch + sint (bs_expires_at_ns r) in io_now io < ends \<longrightarrow>
               ends \<le> io_now io + 24 * hour
               \<and> (\<exists>secret. length secret = 32 \<and> bs_token r = raw_url_encode secret)
               \<and> (\<exists>secret. length secret = 32 \<and> bs_csrf r = raw_url_encode secret))"
    by (auto simp: list_all_iff session_ok_iff live_def time_Unix_def Let_def)
  show ?thesis
    unfolding sessions [symmetric] load_eq [OF assms]
    using load_corrupt [of hmac parse_duration "io_now io" "db_tables db"] load_stands_for [of hmac parse_duration "io_now io" "db_tables db" p]
    by (auto simp: corrupt_is split: sum.splits)
qed

lemma clock_step_back:
  assumes "no_fault io" and "nanos_ok (io_now io)" and "opened st db"
    and "length (tb_browser_sessions (db_tables db)) \<le> maxBrowserSessions"
    and "r \<in> set (tb_browser_sessions (db_tables db))"
    and "io_now io < time_Unix (bs_expires_at_ns r) - maxSessionLifetime"
  shows "\<exists>e. fst (Store_Load hmac parse_duration io st) = Inl e \<and> errors_is e ErrCorruptState"
proof -
  have "live (io_now io) r \<and> \<not> session_ok (io_now io) r"
    using assms(6) by (auto simp: live_def session_ok_def validBrowserSession_def maxSessionLifetime_def)
  then show ?thesis
    using load_corrupt [of hmac parse_duration "io_now io" "db_tables db"] assms(5)
    by (auto simp: load_eq [OF assms(1-4)] list_all_iff corrupt_is split: sum.splits)
qed

section \<open>Browser sessions over a restart\<close>

definition session_view :: "BrowserSession \<Rightarrow> string \<times> string \<times> gotime" where
  "session_view r = (bs_token r, bs_csrf r, time_Unix (bs_expires_at_ns r))"

definition collect_sessions ::
  "(string \<times> string \<times> gotime) list \<Rightarrow> string \<Rightarrow> string \<Rightarrow> gotime \<Rightarrow> go_error option \<times> (string \<times> string \<times> gotime) list"
where
  "collect_sessions acc token csrf expiresAt = (None, acc @ [(token, csrf, expiresAt)])"

lemma restore_rows_collect:
  "list_all (session_ok now) rows \<Longrightarrow>
   restore_rows collect_sessions now acc rows = (None, acc @ map session_view rows)"
  by (induction collect_sessions now acc rows rule: restore_rows.induct)
    (auto simp: Let_def session_ok_def collect_sessions_def session_view_def)

definition sessions_ok :: "gotime \<Rightarrow> int \<Rightarrow> BrowserSession list \<Rightarrow> bool" where
  "sessions_ok now m rows \<longleftrightarrow> distinct (map bs_token rows) \<and> int (length rows) \<le> m
     \<and> list_all (\<lambda>r. live now r \<longrightarrow> session_ok now r) rows"

lemma sessions_ok_later: "sessions_ok now m rows \<Longrightarrow> now \<le> later \<Longrightarrow> sessions_ok later m rows"
  using session_ok_later by (fastforce simp: sessions_ok_def list_all_iff live_def)

lemma upsert_distinct:
  assumes "distinct (map bs_token rows)"
  shows "distinct (map bs_token (upsert_session r rows))"
proof -
  have "map bs_token (map (\<lambda>q. if bs_token q = bs_token r then r else q) rows) = map bs_token rows"
    by simp
  then show ?thesis using assms unfolding upsert_session_def by (simp only: split: if_split) auto
qed

lemma upsert_set: "set (upsert_session r rows) = insert r {q \<in> set rows. bs_token q \<noteq> bs_token r}"
proof (cases "bs_token r \<in> bs_token ` set rows")
  case False
  then have "bs_token q \<noteq> bs_token r" if "q \<in> set rows" for q using that by (metis image_eqI)
  then show ?thesis using False by (auto simp: upsert_session_def)
qed (auto simp: upsert_session_def)

lemma length_upsert:
  "length (upsert_session r rows) = length rows + (if bs_token r \<in> bs_token ` set rows then 0 else 1)"
  by (simp add: upsert_session_def)

lemma live_length:
  "sessions_ok t m rows \<Longrightarrow> length (filter P rows) \<le> nat m \<and> int (length (filter P rows)) \<le> m"
proof -
  assume "sessions_ok t m rows"
  moreover have "int (length (filter P rows)) \<le> int (length rows)" by simp
  ultimately show ?thesis unfolding sessions_ok_def by linarith
qed

lemma SaveBrowserSession_Inr:
  assumes op: "opened st db" and now: "nanos_ok (io_now io)"
    and ok: "sessions_ok (io_now io) m (tb_browser_sessions (db_tables db))"
    and save: "SaveBrowserSession hmac pd io token csrf expiresAt m st = (Inr (), st')"
  defines "kept \<equiv> filter (live (io_now io)) (tb_browser_sessions (db_tables db))"
  shows "validBrowserSession token csrf expiresAt (io_now io)
    \<and> (token \<in> bs_token ` set kept \<or> int (length kept) < m)
    \<and> (\<exists>db'. opened st' db' \<and> tb_browser_sessions (db_tables db') = upsert_session
           \<lparr>bs_token = token, bs_csrf = csrf, bs_expires_at_ns = nanos expiresAt\<rparr> kept)"
proof -
  have m: "validBrowserSessionLimit m" and v: "validBrowserSession token csrf expiresAt (io_now io)"
    using save by (auto simp: SaveBrowserSession_def split: if_splits)
  have prune: "pruneBrowserSessionsTx (io_now io) m (tb_browser_sessions (db_tables db)) = Inr kept"
    using live_length [OF ok] by (simp add: prune_eq now m kept_def)
  let ?body = "\<lambda>t. try_bind (sql_ok (io_prune io)) (\<lambda>_.
      try_bind (pruneBrowserSessionsTx (io_now io) m (tb_browser_sessions t)) (\<lambda>rows.
      try_bind (sql_ok (io_read io)) (\<lambda>_.
        if token \<notin> bs_token ` set rows \<and> int (length rows) \<ge> m
        then Inl (New ''browser session limit reached'')
        else try_bind (sql_ok (io_write io)) (\<lambda>_.
          Inr ((), t\<lparr>tb_browser_sessions := upsert_session
             \<lparr>bs_token = token, bs_csrf = csrf, bs_expires_at_ns = nanos expiresAt\<rparr> rows\<rparr>)))))"
  have "run_tx io id ?body st = (Inr (), st')"
    using save m v by (simp add: SaveBrowserSession_def ensureOpen_opened [OF op] split: option.splits)
  from run_tx_Inr [OF this op] obtain t where t: "?body (db_tables db) = Inr ((), t)"
      "opened st' (db\<lparr>db_tables := t\<rparr>)" by blast
  have "token \<in> bs_token ` set kept \<or> int (length kept) < m"
    "tb_browser_sessions t = upsert_session
       \<lparr>bs_token = token, bs_csrf = csrf, bs_expires_at_ns = nanos expiresAt\<rparr> kept"
    using t(1) unfolding try_bind_eq_Inr prune by (auto split: if_splits)
  then show ?thesis using v t(2) by (intro conjI exI [of _ "db\<lparr>db_tables := t\<rparr>"]) simp_all
qed

lemma DeleteBrowserSession_Inr:
  assumes op: "opened st db"
    and del: "DeleteBrowserSession hmac pd io token st = (Inr (), st')"
  shows "\<exists>db'. opened st' db' \<and> tb_browser_sessions (db_tables db')
    = filter (\<lambda>r. bs_token r \<noteq> token) (tb_browser_sessions (db_tables db))"
proof -
  have "run_tx io id (\<lambda>t. try_bind (sql_ok (io_write io)) (\<lambda>_.
      Inr ((), t\<lparr>tb_browser_sessions := filter (\<lambda>r. bs_token r \<noteq> token) (tb_browser_sessions t)\<rparr>))) st
    = (Inr (), st')"
    using del by (simp add: DeleteBrowserSession_def ensureOpen_opened [OF op] split: option.splits if_splits)
  from run_tx_Inr [OF this op] show ?thesis by auto
qed

lemma upsert_ok:
  assumes ok: "sessions_ok now m rows" and r: "session_ok now r"
    and full: "bs_token r \<in> bs_token ` set (filter (live now) rows) \<or> int (length (filter (live now) rows)) < m"
  shows "sessions_ok now m (upsert_session r (filter (live now) rows))"
  unfolding sessions_ok_def
proof (intro conjI)
  have "distinct (map bs_token (filter (live now) rows))"
    using ok by (simp add: sessions_ok_def distinct_map_filter)
  then show "distinct (map bs_token (upsert_session r (filter (live now) rows)))" by (rule upsert_distinct)
  show "int (length (upsert_session r (filter (live now) rows))) \<le> m"
    using full live_length [OF ok, of "live now"] by (auto simp: length_upsert)
  show "list_all (\<lambda>r. live now r \<longrightarrow> session_ok now r) (upsert_session r (filter (live now) rows))"
    using ok r by (auto simp: sessions_ok_def list_all_iff upsert_set)
qed

lemma restore_eq:
  assumes "no_fault io" and "nanos_ok now" and "validBrowserSessionLimit m" and op: "opened st db"
    and ok: "sessions_ok now m (tb_browser_sessions (db_tables db))"
  shows "RestoreBrowserSessions hmac pd io now m collect_sessions [] st =
    (None, map session_view (sort_key session_order (filter (live now) (tb_browser_sessions (db_tables db)))),
     store_tables st ((db_tables db)\<lparr>tb_browser_sessions := filter (live now) (tb_browser_sessions (db_tables db))\<rparr>))"
proof -
  let ?rows = "filter (live now) (tb_browser_sessions (db_tables db))"
  have prune: "pruneBrowserSessionsTx now m (tb_browser_sessions (db_tables db)) = Inr ?rows"
    using assms(2,3) live_length [OF ok] by (simp add: prune_eq)
  have "list_all (session_ok now) (sort_key session_order ?rows)"
    using ok by (auto simp: sessions_ok_def list_all_iff)
  note restore = restore_rows_collect [OF this, of "[]"]
  have nf: "no_fault (io\<lparr>io_commit := None\<rparr>)" using assms(1) unfolding no_fault_def by simp
  let ?body = "\<lambda>t. try_bind (sql_ok (io_prune io)) (\<lambda>_.
      try_bind (pruneBrowserSessionsTx now m (tb_browser_sessions t)) (\<lambda>rows.
      try_bind (sql_ok (io_read io)) (\<lambda>_.
        Inr (sort_key session_order rows, t\<lparr>tb_browser_sessions := rows\<rparr>))))"
  have "run_tx (io\<lparr>io_commit := None\<rparr>) id ?body st
      = (Inr (sort_key session_order ?rows), store_tables st ((db_tables db)\<lparr>tb_browser_sessions := ?rows\<rparr>))"
    using assms(1) by (simp only: run_tx_no_fault [OF nf op] prune no_faultD sql_ok_None try_bind_simps
        sum.case prod.case)
  then show ?thesis
    using assms(1,3)
    by (simp only: RestoreBrowserSessions_def ensureOpen_opened [OF op] no_faultD option.case sum.case
        prod.case restore if_False not_True_eq_False append_Nil)
qed

text \<open>
  C36: a browser session outlives the process exactly until it expires or is deleted. After a
  session was saved, a restart restores that session with its CSRF token and expiry, unless it has
  expired by then, together with exactly the other sessions that have not; after a deletion it
  restores exactly the others.
\<close>

theorem browser_sessions_durable:
  assumes op: "opened st db" and ok: "sessions_ok (io_now io) m (tb_browser_sessions (db_tables db))"
    and times: "nanos_ok (io_now io)" "nanos_ok later" "nanos_ok expiresAt" "io_now io \<le> later"
    and m: "validBrowserSessionLimit m" and io': "no_fault io'"
    and others: "others = {s \<in> session_view ` set (tb_browser_sessions (db_tables db)).
        fst s \<noteq> token \<and> later < snd (snd s)}"
  shows "(SaveBrowserSession hmac parse_duration io token csrf expiresAt m st = (Inr (), saved) \<longrightarrow>
      (\<exists>restored st'. RestoreBrowserSessions hmac parse_duration io' later m collect_sessions [] saved
           = (None, restored, st')
         \<and> set restored = (if later < expiresAt then insert (token, csrf, expiresAt) others else others)))
    \<and> (DeleteBrowserSession hmac parse_duration io token st = (Inr (), deleted) \<longrightarrow>
      (\<exists>restored st'. RestoreBrowserSessions hmac parse_duration io' later m collect_sessions [] deleted
           = (None, restored, st') \<and> set restored = others))"
proof (intro conjI impI)
  let ?rows = "tb_browser_sessions (db_tables db)"
  have lv: "live (io_now io) r" if "live later r" for r using that times(4) by (simp add: live_def)
  assume save: "SaveBrowserSession hmac parse_duration io token csrf expiresAt m st = (Inr (), saved)"
  let ?r = "\<lparr>bs_token = token, bs_csrf = csrf, bs_expires_at_ns = nanos expiresAt\<rparr>"
  let ?kept = "filter (live (io_now io)) ?rows"
  from SaveBrowserSession_Inr [OF op times(1) ok save] obtain db' where
    v: "validBrowserSession token csrf expiresAt (io_now io)"
    and full: "token \<in> bs_token ` set ?kept \<or> int (length ?kept) < m"
    and op': "opened saved db'" and rows': "tb_browser_sessions (db_tables db') = upsert_session ?r ?kept"
    by blast
  have "session_ok (io_now io) ?r" using v times(3) by (simp add: session_ok_def time_Unix_nanos)
  then have "sessions_ok (io_now io) m (upsert_session ?r ?kept)"
    using upsert_ok [OF ok] full by simp
  then have "sessions_ok later m (tb_browser_sessions (db_tables db'))"
    using sessions_ok_later times(4) rows' by simp
  note restore = restore_eq [OF io' times(2) m op' this, of hmac parse_duration]
  have new: "session_view ?r = (token, csrf, expiresAt)" "live later ?r \<longleftrightarrow> later < expiresAt"
    using times(3) by (simp_all add: session_view_def live_def time_Unix_nanos)
  have "session_view ` {r \<in> set ?rows. bs_token r \<noteq> token \<and> live later r} = others"
    by (auto simp: others session_view_def live_def)
  moreover have "{r \<in> set (upsert_session ?r ?kept). live later r}
      = (if later < expiresAt then {?r} else {}) \<union> {r \<in> set ?rows. bs_token r \<noteq> token \<and> live later r}"
    using lv new(2) by (auto simp: upsert_set)
  ultimately have "session_view ` {r \<in> set (upsert_session ?r ?kept). live later r}
      = (if later < expiresAt then insert (token, csrf, expiresAt) others else others)"
    by (simp add: image_Un new(1))
  then show "\<exists>restored st'. RestoreBrowserSessions hmac parse_duration io' later m collect_sessions [] saved
        = (None, restored, st')
      \<and> set restored = (if later < expiresAt then insert (token, csrf, expiresAt) others else others)"
    unfolding restore by (simp add: rows')
next
  let ?rows = "tb_browser_sessions (db_tables db)"
  assume del: "DeleteBrowserSession hmac parse_duration io token st = (Inr (), deleted)"
  from DeleteBrowserSession_Inr [OF op del] obtain db' where op': "opened deleted db'"
    and rows': "tb_browser_sessions (db_tables db') = filter (\<lambda>r. bs_token r \<noteq> token) ?rows" by blast
  have "int (length (filter (\<lambda>r. bs_token r \<noteq> token) ?rows)) \<le> m"
    using live_length [OF ok] by blast
  then have "sessions_ok (io_now io) m (tb_browser_sessions (db_tables db'))"
    using ok by (auto simp: rows' sessions_ok_def list_all_iff distinct_map_filter)
  then have "sessions_ok later m (tb_browser_sessions (db_tables db'))"
    using sessions_ok_later times(4) by blast
  note restore = restore_eq [OF io' times(2) m op' this, of hmac parse_duration]
  have "session_view ` {r \<in> set ?rows. live later r \<and> bs_token r \<noteq> token} = others"
    "session_view ` {r \<in> set ?rows. bs_token r \<noteq> token \<and> live later r} = others"
    by (auto simp: others session_view_def live_def)
  then show "\<exists>restored st'. RestoreBrowserSessions hmac parse_duration io' later m collect_sessions [] deleted
      = (None, restored, st') \<and> set restored = others"
    unfolding restore by (simp add: rows')
qed

section \<open>Migration\<close>

lemma check_objects_append:
  "check_objects expected statements tables (as @ bs) =
   try_bind (check_objects expected statements tables as) (\<lambda>tables. check_objects expected statements tables bs)"
  by (induction expected statements tables as rule: check_objects.induct) (auto split: option.splits)

lemma map_of_keyD: "map_of m k = Some v \<Longrightarrow> k \<in> fst ` set m"
  by (force dest: map_of_SomeD)

lemma check_objects_names:
  "check_objects e s tables obs = Inr ts \<Longrightarrow> set ts \<subseteq> set tables \<union> fst ` set e"
proof (induction e s tables obs rule: check_objects.induct)
  case (2 e s tables ob obs)
  then show ?case
    using map_of_keyD [of e "so_name ob"] by (auto split: option.splits if_splits)
qed simp

lemma check_objects_mono:
  assumes "\<And>k i. map_of e k = Some i \<Longrightarrow> map_of e' k = Some i" and "length s \<le> length s'"
    and "\<And>i. i < length s \<Longrightarrow> s' ! i = s ! i"
  shows "check_objects e s tables obs = Inr ts \<Longrightarrow> check_objects e' s' tables obs = Inr ts"
proof (induction obs arbitrary: tables)
  case (Cons ob obs)
  then obtain i where i: "map_of e (so_name ob) = Some i" "i < length s" "so_sql ob = Some (s ! i)"
      "so_type ob = ''table''" "so_tbl_name ob = so_name ob" "so_name ob \<notin> set tables"
      "check_objects e s (so_name ob # tables) obs = Inr ts"
    by (auto split: option.splits if_splits)
  then show ?case using assms(1) [OF i(1)] assms(2) assms(3) [OF i(2)] Cons.IH by simp
qed simp

lemma check_objects_more:
  "check_objects e s tables obs = Inr r \<Longrightarrow> set (map so_name obs) \<inter> set ts = {} \<Longrightarrow>
   check_objects e s (tables @ ts) obs = Inr (r @ ts)"
proof (induction obs arbitrary: tables)
  case (Cons ob obs)
  then have "check_objects e s (so_name ob # tables) obs = Inr r" "so_name ob \<notin> set ts"
    by (auto split: option.splits if_splits)
  then have "check_objects e s (so_name ob # tables @ ts) obs = Inr (r @ ts)"
    using Cons.IH [of "so_name ob # tables"] Cons.prems by simp
  then show ?case using Cons.prems by (auto split: option.splits if_splits)
qed simp

lemma v4_prefix:
  "map_of sqliteSchemaV4Tables k = Some i \<Longrightarrow> map_of sqliteSchemaTables k = Some i"
proof -
  assume "map_of sqliteSchemaV4Tables k = Some i"
  then have "(k, i) \<in> set sqliteSchemaV4Tables" by (rule map_of_SomeD)
  moreover have "list_all (\<lambda>(k, i). map_of sqliteSchemaTables k = Some i) sqliteSchemaV4Tables" by code_simp
  ultimately show ?thesis by (auto simp: list_all_iff)
qed

definition new_tables :: "SchemaObject list" where
  "new_tables = map create_table (drop (length sqliteSchemaV4Tables) sqliteSchemaStatements)"

lemma new_names: "map so_name new_tables = [''active_session_windows'', ''active_session_node_profiles'']"
  by code_simp

lemma new_tables_ok:
  "check_objects sqliteSchemaTables sqliteSchemaStatements [] new_tables
     = Inr [''active_session_node_profiles'', ''active_session_windows'']"
  by code_simp

lemma all_tables_ok:
  "check_objects sqliteSchemaTables sqliteSchemaStatements [] (map create_table sqliteSchemaStatements)
     = Inr (rev (map (so_name \<circ> create_table) sqliteSchemaStatements))"
  by code_simp

lemma no_like: "list_all (\<lambda>ob. \<not> like_sqlite (so_name ob)) (map create_table sqliteSchemaStatements)"
  by code_simp


lemma check_versions_one: "check_versions v 0 rows = Inr 1 \<longleftrightarrow> rows = [(1, v)]"
proof -
  have n: "check_versions v n rows = Inr k \<Longrightarrow> k = n + length rows \<and> (\<forall>r\<in>set rows. r = (1, v))" for n k rows
    by (induction v n rows rule: check_versions.induct) (auto split: if_splits)
  show ?thesis
  proof
    assume "check_versions v 0 rows = Inr 1"
    from n [OF this] have "length rows = 1" "\<forall>r\<in>set rows. r = (1, v)" by auto
    then show "rows = [(1, v)]" by (cases rows) auto
  qed simp
qed

definition is_v4 :: "Database \<Rightarrow> bool" where
  "is_v4 db \<longleftrightarrow> validateSQLiteSchemaDefinition db 4 sqliteSchemaV4Tables
     (take (length sqliteSchemaV4Tables) sqliteSchemaStatements) = None"

definition migrated :: "Database \<Rightarrow> Database" where
  "migrated db = db\<lparr>db_journal_mode := ''delete'', db_master := db_master db @ new_tables,
     db_versions := [(1, sqliteSchemaVersion)],
     db_tables := (db_tables db)\<lparr>tb_active_session_windows := None,
       tb_active_session_node_profiles :=
         map (\<lambda>(position, _). (position, ClientProfileIOS)) (tb_active_session_nodes (db_tables db))\<rparr>\<rparr>"

lemma migrate_eq:
  assumes "no_fault io" and "is_v4 db"
  shows "migrateSQLiteSchema io db = Inr (migrated db)"
proof -
  have "db_versions db = [(1, 4)]"
    using assms(2) by (simp add: is_v4_def schema_definition_None flip: check_versions_one)
  then show ?thesis
    using assms by (simp add: migrateSQLiteSchema_def is_v4_def sqliteSchemaVersion_def Let_def
        configureSQLiteDurability_def migrated_def new_tables_def)
qed

lemma migrated_schema:
  assumes "is_v4 db"
  shows "schema_ok (migrated db)"
proof -
  let ?objects = "filter (\<lambda>ob. \<not> like_sqlite (so_name ob))"
  let ?check = "check_objects sqliteSchemaTables sqliteSchemaStatements"
  obtain ts where ts: "check_objects sqliteSchemaV4Tables (take (length sqliteSchemaV4Tables) sqliteSchemaStatements) []
        (?objects (db_master db)) = Inr ts" "length ts = length sqliteSchemaV4Tables"
    using assms by (auto simp: is_v4_def schema_definition_None)
  have old: "?check [] (?objects (db_master db)) = Inr ts"
    by (rule check_objects_mono [OF _ _ _ ts(1)]) (auto simp: v4_prefix)
  have "set ts \<subseteq> fst ` set sqliteSchemaV4Tables" using check_objects_names [OF ts(1)] by simp
  then have absent: "''active_session_windows'' \<notin> set ts" "''active_session_node_profiles'' \<notin> set ts"
    by (auto simp: sqliteSchemaV4Tables_def)
  have fresh: "?objects new_tables = new_tables" by code_simp
  have "?check ts new_tables = Inr (''active_session_node_profiles'' # ''active_session_windows'' # ts)"
    using check_objects_more [OF new_tables_ok, of ts] absent new_names by simp
  then have "?check [] (?objects (db_master db @ new_tables))
      = Inr (''active_session_node_profiles'' # ''active_session_windows'' # ts)"
    unfolding filter_append fresh check_objects_append old by simp
  moreover have "length sqliteSchemaTables = length sqliteSchemaV4Tables + 2" by code_simp
  moreover have "validateSQLiteJournalMode (migrated db) = None"
    by (simp add: validateSQLiteJournalMode_def migrated_def)
  ultimately show ?thesis
    using assms ts(2) by (simp add: schema_ok_def is_v4_def schema_definition_None migrated_def)
qed


lemma load_rows_Inr: "load_rows scan rows = Inr xs \<longleftrightarrow> list_all2 (\<lambda>r x. scan r = Inr x) rows xs"
  by (induction rows arbitrary: xs) (auto simp: list_all2_Cons1)

lemma join_migrated:
  "join_profiles (db_tables (migrated db))
    = map (\<lambda>(position, r). (position, r, ClientProfileIOS)) (tb_active_session_nodes (db_tables db))"
proof -
  let ?nodes = "tb_active_session_nodes (db_tables db)"
  let ?profiles = "map (\<lambda>(position, _). (position, ClientProfileIOS)) ?nodes"
  have "map_of (map (\<lambda>(position, _). (position, ClientProfileIOS)) rows) p = Some ClientProfileIOS"
    if "(p, r) \<in> set rows" for p r and rows :: "(nat \<times> ActiveNodeRow) list"
    using that by (induction rows) auto
  then have m: "map_of ?profiles p = Some ClientProfileIOS" if "(p, r) \<in> set ?nodes" for p r
    using that by blast
  have "List.map_filter (\<lambda>(position, r). map_option (\<lambda>profile. (position, r, profile))
        (map_of ?profiles position)) rows = map (\<lambda>(position, r). (position, r, ClientProfileIOS)) rows"
    if "set rows \<subseteq> set ?nodes" for rows
    using that
  proof (induction rows)
    case (Cons row rows)
    obtain p r where row: "row = (p, r)" by (cases row)
    then have "map_of ?profiles p = Some ClientProfileIOS" using m Cons.prems by auto
    then show ?case using Cons by (simp add: row List.map_filter_simps)
  qed (simp add: List.map_filter_simps)
  then show ?thesis by (simp add: join_profiles_def migrated_def)
qed

lemma by_position_pairs:
  "map snd (sort_key fst (map (\<lambda>(position, r). (position, r, c)) rows))
   = map (\<lambda>r. (r, c)) (map snd (sort_key fst rows))"
proof -
  have "insort_key fst (p, r, c) (map (\<lambda>(position, r). (position, r, c)) rs)
      = map (\<lambda>(position, r). (position, r, c)) (insort_key fst (p, r) rs)" for p r rs
    by (induction rs) auto
  note ins = this
  have "sort_key fst (map (\<lambda>(position, r). (position, r, c)) rows)
      = map (\<lambda>(position, r). (position, r, c)) (sort_key fst rows)"
    by (induction rows) (auto simp: ins)
  then show ?thesis by (simp add: comp_def case_prod_unfold)
qed

text \<open>
  C37: a database of the previous schema is migrated without loss. Opening it gives a database of the
  current schema, which migrating again leaves alone; the rows of every old table are kept, so are the
  browser sessions, and the active session it loads has every node it had, in the same order, each
  under the iOS profile, and no Windows session.
\<close>

theorem migration_lossless:
  assumes io: "no_fault io" and old: "is_v4 db"
  shows "\<exists>db'. migrateSQLiteSchema io db = Inr db' \<and> openExistingLocked io db' = Inr db'
    \<and> migrateSQLiteSchema io db' = Inr db'
    \<and> db_tables db' = (db_tables db)\<lparr>tb_active_session_windows := None,
        tb_active_session_node_profiles := tb_active_session_node_profiles (db_tables db')\<rparr>
    \<and> (\<forall>s. loadActiveSessionTx (db_tables db') = Inr (Some s) \<longrightarrow>
          map node_ID (snap_Nodes s) = map nr_node_id (by_position (tb_active_session_nodes (db_tables db)))
          \<and> (\<forall>n\<in>set (snap_Nodes s). node_ClientProfile n = ClientProfileIOS)
          \<and> cs_Windows (snap_Sessions s) = zero_SessionSecrets)"
proof (intro exI conjI allI impI)
  let ?db = "migrated db"
  show "migrateSQLiteSchema io db = Inr ?db" by (rule migrate_eq [OF io old])
  have again: "migrateSQLiteSchema io ?db = Inr ?db" by (simp add: migrateSQLiteSchema_def migrated_def)
  then show "migrateSQLiteSchema io ?db = Inr ?db" .
  have "validateSQLiteJournalMode ?db = None" by (simp add: validateSQLiteJournalMode_def migrated_def)
  then show "openExistingLocked io ?db = Inr ?db"
    using again migrated_schema [OF old] io
    by (simp add: openExistingLocked_def validateSQLiteSchema_def schema_ok_def)
      (simp add: configureSQLiteDurability_def migrated_def)
  show "db_tables ?db = (db_tables db)\<lparr>tb_active_session_windows := None,
      tb_active_session_node_profiles := tb_active_session_node_profiles (db_tables ?db)\<rparr>"
    by (simp add: migrated_def)
  fix s assume s: "loadActiveSessionTx (db_tables ?db) = Inr (Some s)"
  then show "cs_Windows (snap_Sessions s) = zero_SessionSecrets"
    by (auto simp: loadActiveSessionTx_def migrated_def split: option.splits)
  have "by_position (join_profiles (db_tables ?db))
      = map (\<lambda>r. (r, ClientProfileIOS)) (by_position (tb_active_session_nodes (db_tables db)))"
    unfolding join_migrated by_position_def by (rule by_position_pairs)
  then have "list_all2 (\<lambda>r n. load_active_node (r, ClientProfileIOS) = Inr n)
      (by_position (tb_active_session_nodes (db_tables db))) (snap_Nodes s)"
    using s by (auto simp: loadActiveSessionTx_def load_rows_Inr list_all2_map1 split: option.splits)
  then have "list_all2 (\<lambda>r n. node_ID n = nr_node_id r \<and> node_ClientProfile n = ClientProfileIOS)
      (by_position (tb_active_session_nodes (db_tables db))) (snap_Nodes s)"
    by (rule list_all2_mono) (auto simp: load_active_node_def split: if_splits)
  then have "map node_ID (snap_Nodes s) = map nr_node_id (by_position (tb_active_session_nodes (db_tables db)))
      \<and> (\<forall>n\<in>set (snap_Nodes s). node_ClientProfile n = ClientProfileIOS)"
    by (induction rule: list_all2_induct) auto
  then show "map node_ID (snap_Nodes s) = map nr_node_id (by_position (tb_active_session_nodes (db_tables db)))"
    "\<forall>n\<in>set (snap_Nodes s). node_ClientProfile n = ClientProfileIOS" by simp_all
qed

section \<open>Concrete databases\<close>

definition demo_database :: "Tables \<Rightarrow> Database" where
  "demo_database t = \<lparr>db_journal_mode = ''delete'', db_integrity = ''ok'',
     db_master = map create_table sqliteSchemaStatements, db_versions = [(1, sqliteSchemaVersion)],
     db_foreign_violation = False, db_tables = t\<rparr>"

definition demo_store :: "Tables \<Rightarrow> SQLiteStore" where
  "demo_store t = \<lparr>ss_file = Some (demo_database t), ss_open = True\<rparr>"

definition demo_io :: "gotime \<Rightarrow> SqlIO" where
  "demo_io now = \<lparr>io_now = now, io_file = None, io_schema = None, io_begin = None, io_read = None,
     io_prune = None, io_write = None, io_commit = None\<rparr>"

lemma demo_opened: "opened (demo_store t) (demo_database t)"
proof -
  have filter: "filter (\<lambda>ob. \<not> like_sqlite (so_name ob)) (map create_table sqliteSchemaStatements)
      = map create_table sqliteSchemaStatements"
    using no_like by (simp only: filter_id_conv list_all_iff)
  have len: "length (rev (map (so_name \<circ> create_table) sqliteSchemaStatements)) = length sqliteSchemaTables"
    by (simp add: sqliteSchemaStatements_def sqliteSchemaTables_def)
  have "equal_fold ''delete'' ''delete''" by code_simp
  then have "schema_ok (demo_database t)"
    unfolding schema_ok_def schema_definition_None demo_database_def validateSQLiteJournalMode_def
    using all_tables_ok len by (simp add: filter del: equal_fold.simps)
  then show ?thesis by (simp add: opened_def demo_store_def demo_database_def)
qed

lemma demo_no_fault: "no_fault (demo_io t)"
  unfolding no_fault_def demo_io_def by simp

definition demo_now :: gotime where "demo_now = unix_epoch + hour"

definition demo_token :: "string" where
  "demo_token = raw_url_encode (replicate 32 7)"

definition demo_session :: BrowserSession where
  "demo_session = \<lparr>bs_token = demo_token, bs_csrf = demo_token, bs_expires_at_ns = nanos (demo_now + 24 * hour)\<rparr>"

definition demo_tables :: Tables where
  "demo_tables = projr (replacePersistentStateTx demo_hmac (\<lambda>_. Inr hour) 0 demo_aggregate
     (empty_tables\<lparr>tb_browser_sessions := [demo_session]\<rparr>))"

lemma demo_tables_replace:
  "replacePersistentStateTx demo_hmac (\<lambda>_. Inr hour) 0 demo_aggregate
     (empty_tables\<lparr>tb_browser_sessions := [demo_session]\<rparr>) = Inr demo_tables"
proof -
  have "is_ok (replacePersistentStateTx demo_hmac (\<lambda>_. Inr hour) 0 demo_aggregate
     (empty_tables\<lparr>tb_browser_sessions := [demo_session]\<rparr>))" by code_simp
  then show ?thesis by (auto simp: demo_tables_def is_ok_iff)
qed

lemma demo_valid: "ValidatePersistentState demo_hmac (\<lambda>_. Inr hour) 0 demo_aggregate = None"
  by code_simp

lemma demo_storable: "storable demo_aggregate"
  by (simp add: storable_def demo_aggregate_def demo_persistent_def nanos_ok_def zero_LastGoodState_def)

lemma demo_sessions: "tb_browser_sessions demo_tables = [demo_session]"
  using replace_sessions [OF demo_tables_replace] by simp

lemma demo_load:
  "0 \<le> t \<Longrightarrow> loadPersistentStateTx demo_hmac (\<lambda>_. Inr hour) t demo_tables = Inr (stored demo_aggregate)"
  by (rule aggregate_reload [OF demo_valid demo_storable _ demo_tables_replace])

lemma demo_session_ok: "session_ok demo_now demo_session"
  by code_simp

lemma demo_times: "nanos_ok demo_now" "0 \<le> demo_now" "nanos_ok (demo_now - 1)" "0 \<le> demo_now - 1"
  by (simp_all add: demo_now_def nanos_ok_def unix_epoch_def)

lemma demo_few: "length (tb_browser_sessions (db_tables (demo_database demo_tables))) \<le> maxBrowserSessions"
  by (simp add: demo_database_def demo_sessions maxBrowserSessions_def)

lemma demo_io_now [simp]: "io_now (demo_io t) = t"
  by (simp add: demo_io_def)

text \<open>The same file loads now and is refused as corrupt if the clock is one nanosecond earlier.\<close>

lemma load_exact_witness:
  "fst (Store_Load demo_hmac (\<lambda>_. Inr hour) (demo_io demo_now) (demo_store demo_tables))
     = Inr (stored demo_aggregate)
   \<and> \<not> is_ok (fst (Store_Load demo_hmac (\<lambda>_. Inr hour) (demo_io (demo_now - 1)) (demo_store demo_tables)))"
proof
  have db: "db_tables (demo_database demo_tables) = demo_tables" by (simp add: demo_database_def)
  note exact = load_exact [OF demo_no_fault _ demo_opened demo_few, unfolded demo_io_now db,
      where hmac = demo_hmac and parse_duration = "\<lambda>_. Inr hour"]
  have "stands_for demo_tables (stored demo_aggregate)
      \<and> ValidatePersistentState demo_hmac (\<lambda>_. Inr hour) demo_now (stored demo_aggregate) = None"
    using demo_load [OF demo_times(2)] by (simp add: load_stands_for)
  then show "fst (Store_Load demo_hmac (\<lambda>_. Inr hour) (demo_io demo_now) (demo_store demo_tables)) = Inr (stored demo_aggregate)"
    using exact [OF demo_times(1)] demo_session_ok by (auto simp: demo_sessions session_ok_iff Let_def)
  have "demo_now - 1 < unix_epoch + sint (bs_expires_at_ns demo_session)"
    "\<not> unix_epoch + sint (bs_expires_at_ns demo_session) \<le> demo_now - 1 + 24 * hour" by code_simp+
  then have "fst (Store_Load demo_hmac (\<lambda>_. Inr hour) (demo_io (demo_now - 1)) (demo_store demo_tables)) \<noteq> Inr p" for p
    using exact [OF demo_times(3), of p] by (auto simp: demo_sessions Let_def)
  then show "\<not> is_ok (fst (Store_Load demo_hmac (\<lambda>_. Inr hour) (demo_io (demo_now - 1)) (demo_store demo_tables)))"
    by (auto simp: is_ok_iff)
qed

definition demo_change :: "PersistentState \<Rightarrow> unit \<times> (go_error + PersistentState)" where
  "demo_change p = ((), Inr (p\<lparr>pst_Preferences := (pst_Preferences p)\<lparr>pref_RevealEndpoints := False\<rparr>\<rparr>))"

lemma update_atomic_witness:
  "\<exists>p st'. Store_Update demo_hmac (\<lambda>_. Inr hour) (demo_io demo_now) demo_change (demo_store demo_tables)
       = (Inr ((), p), st')
     \<and> \<not> pref_RevealEndpoints (pst_Preferences p)
     \<and> holds_aggregate demo_hmac (\<lambda>_. Inr hour) demo_now (stored p) st'"
proof -
  let ?st = "demo_store demo_tables"
  obtain res st' where u: "Store_Update demo_hmac (\<lambda>_. Inr hour) (demo_io demo_now) demo_change ?st = (res, st')"
    by (metis surj_pair)
  have "is_ok (update_body demo_hmac (\<lambda>_. Inr hour) (demo_io demo_now) demo_change demo_tables)" by code_simp
  then obtain r t where "update_body demo_hmac (\<lambda>_. Inr hour) (demo_io demo_now) demo_change demo_tables = Inr (r, t)"
    by (auto simp: is_ok_iff)
  then have "res = Inr r"
    using u demo_no_fault [of demo_now]
    by (simp add: Store_Update_def ensureOpen_opened [OF demo_opened]
        run_tx_no_fault [OF demo_no_fault demo_opened]) (simp add: demo_database_def)
  moreover obtain p where "r = ((), p)" by (cases r) simp
  ultimately have res: "res = Inr ((), p)" by simp
  note atomic = update_atomic [OF demo_opened _ demo_few u, unfolded demo_io_now, OF demo_times(1)]
  then obtain current where "loadPersistentStateTx demo_hmac (\<lambda>_. Inr hour) demo_now demo_tables = Inr current"
      "demo_change current = ((), Inr p)"
    by (auto simp: res demo_database_def)
  then have p: "p = (stored demo_aggregate)\<lparr>pst_Preferences :=
      (pst_Preferences (stored demo_aggregate))\<lparr>pref_RevealEndpoints := False\<rparr>\<rparr>"
    using demo_load demo_times(2) by (simp add: demo_change_def)
  have "storable p"
    unfolding p by (simp add: storable_def stored_def demo_aggregate_def demo_persistent_def nanos_ok_def
        zero_LastGoodState_def gomap_ok_def)
  then show ?thesis using atomic u by (auto simp: res p)
qed

lemma browser_sessions_durable_witness:
  "\<exists>saved restored st'. SaveBrowserSession demo_hmac (\<lambda>_. Inr hour) (demo_io demo_now)
       (raw_url_encode (replicate 32 9)) demo_token (demo_now + minute) 8 (demo_store demo_tables) = (Inr (), saved)
     \<and> RestoreBrowserSessions demo_hmac (\<lambda>_. Inr hour) (demo_io demo_now) (demo_now + hour) 8
         collect_sessions [] saved = (None, restored, st')
     \<and> set restored = {session_view demo_session}"
proof -
  let ?t = "raw_url_encode (replicate 32 9)" and ?st = "demo_store demo_tables"
  let ?save = "SaveBrowserSession demo_hmac (\<lambda>_. Inr hour) (demo_io demo_now) ?t demo_token (demo_now + minute) 8 ?st"
  have v: "validBrowserSession ?t demo_token (demo_now + minute) demo_now" "validBrowserSessionLimit 8"
    and prune: "pruneBrowserSessionsTx demo_now 8 [demo_session] = Inr [demo_session]" by code_simp+
  have "fst ?save = Inr ()"
    using v demo_no_fault [of demo_now]
    by (simp add: SaveBrowserSession_def ensureOpen_opened [OF demo_opened]
        run_tx_no_fault [OF demo_no_fault demo_opened] demo_database_def demo_sessions prune)
  then obtain saved where save: "?save = (Inr (), saved)" by (cases ?save) simp
  have ok: "sessions_ok (io_now (demo_io demo_now)) 8 (tb_browser_sessions (db_tables (demo_database demo_tables)))"
    using demo_session_ok by (simp add: demo_database_def demo_sessions sessions_ok_def)
  have later: "nanos_ok (demo_now + hour)" "nanos_ok (demo_now + minute)"
    by (simp_all add: demo_now_def nanos_ok_def)
  have "{s \<in> session_view ` {demo_session}. fst s \<noteq> ?t \<and> demo_now + hour < snd (snd s)} = {session_view demo_session}"
  proof -
    have "fst (session_view demo_session) \<noteq> ?t \<and> demo_now + hour < snd (snd (session_view demo_session))" by code_simp
    then show ?thesis by auto
  qed
  then show ?thesis
    using browser_sessions_durable [OF demo_opened ok _ later(1) later(2) _ v(2) demo_no_fault [of demo_now] refl,
        where token = ?t and csrf = demo_token and hmac = demo_hmac and parse_duration = "\<lambda>_. Inr hour"] save demo_times(1)
    by (simp add: demo_database_def demo_sessions)
qed

definition demo_v4 :: Database where
  "demo_v4 = (demo_database (demo_tables\<lparr>tb_active_session_nodes := [(0, insert_active_node zero_Node)]\<rparr>))
     \<lparr>db_master := map create_table (take 12 sqliteSchemaStatements), db_versions := [(1, 4)]\<rparr>"

lemma migration_lossless_witness:
  "\<exists>db'. migrateSQLiteSchema (demo_io 0) demo_v4 = Inr db' \<and> openExistingLocked (demo_io 0) db' = Inr db'
     \<and> tb_browser_sessions (db_tables db') = [demo_session]"
proof -
  have "validateSQLiteJournalMode demo_v4 = None"
    "is_ok (check_objects sqliteSchemaV4Tables (take (length sqliteSchemaV4Tables) sqliteSchemaStatements) []
       (filter (\<lambda>ob. \<not> like_sqlite (so_name ob)) (map create_table (take 12 sqliteSchemaStatements))))"
    by code_simp+
  moreover have "map_sum id length (check_objects sqliteSchemaV4Tables
      (take (length sqliteSchemaV4Tables) sqliteSchemaStatements) []
      (filter (\<lambda>ob. \<not> like_sqlite (so_name ob)) (map create_table (take 12 sqliteSchemaStatements))))
      = Inr (length sqliteSchemaV4Tables)" by code_simp
  ultimately have "is_v4 demo_v4"
    unfolding is_v4_def schema_definition_None
    by (auto simp: is_ok_iff) (auto simp: demo_v4_def demo_database_def)
  from migration_lossless [OF demo_no_fault [of 0] this] obtain db' where
    m: "migrateSQLiteSchema (demo_io 0) demo_v4 = Inr db'" "openExistingLocked (demo_io 0) db' = Inr db'"
    and t: "db_tables db' = (db_tables demo_v4)\<lparr>tb_active_session_windows := None,
      tb_active_session_node_profiles := tb_active_session_node_profiles (db_tables db')\<rparr>" by blast
  have "tb_browser_sessions (db_tables db') = tb_browser_sessions (db_tables demo_v4)"
    by (subst t) simp
  then show ?thesis using m by (auto simp: demo_v4_def demo_database_def demo_sessions)
qed

end
