(* ===== verification/State_Contract.thy ===== *)
theory State_Contract
  imports State_Store
begin

text \<open>
  The contract of the durable store that its clients rely on, as a locale, and its proof for
  \<open>State_Store\<close>. \<open>contains t p st\<close> says that from the time \<open>t\<close> on the store holds the aggregate \<open>p\<close>.
\<close>

section \<open>The contract\<close>

locale durable_store =
  fixes contains :: "gotime \<Rightarrow> PersistentState \<Rightarrow> 's \<Rightarrow> bool"
    and time_of :: "'io \<Rightarrow> gotime"
    and ready :: "'io \<Rightarrow> bool"
    and valid :: "gotime \<Rightarrow> PersistentState \<Rightarrow> bool"
    and load :: "'io \<Rightarrow> 's \<Rightarrow> (go_error + PersistentState) \<times> 's"
    and update :: "'io \<Rightarrow> (PersistentState \<Rightarrow> 'a \<times> (go_error + PersistentState)) \<Rightarrow> 's \<Rightarrow>
          (go_error + 'a \<times> PersistentState) \<times> 's"
    and save :: "'io \<Rightarrow> PersistentState \<Rightarrow> 's \<Rightarrow> (go_error + unit) \<times> 's"
  assumes contains_later: "contains t p st \<Longrightarrow> t \<le> t' \<Longrightarrow> contains t' p st"
    and contains_valid: "contains t p st \<Longrightarrow> t \<le> t' \<Longrightarrow> valid t' p"
    and load_fails: "contains t p st \<Longrightarrow> load io st = (Inl e, st') \<Longrightarrow> st' = st"
    and load_reads: "contains t p st \<Longrightarrow> t \<le> time_of io \<Longrightarrow> nanos_ok (time_of io) \<Longrightarrow>
          load io st = (Inr q, st') \<Longrightarrow> q = p \<and> contains (time_of io) p st'"
    and load_completes: "contains t p st \<Longrightarrow> ready io \<Longrightarrow> t \<le> time_of io \<Longrightarrow> nanos_ok (time_of io) \<Longrightarrow>
          fst (load io st) = Inr p"
    and update_fails: "contains t p st \<Longrightarrow> update io change st = (Inl e, st') \<Longrightarrow> st' = st"
    and update_applies: "contains t p st \<Longrightarrow> t \<le> time_of io \<Longrightarrow> nanos_ok (time_of io) \<Longrightarrow>
          update io change st = (Inr (a, q), st') \<Longrightarrow>
          change p = (a, Inr q) \<and> valid (time_of io) q \<and> (storable q \<longrightarrow> contains (time_of io) (stored q) st')"
    and update_completes: "contains t p st \<Longrightarrow> ready io \<Longrightarrow> t \<le> time_of io \<Longrightarrow> nanos_ok (time_of io) \<Longrightarrow>
          change p = (a, Inr q) \<Longrightarrow> valid (time_of io) q \<Longrightarrow> storable q \<Longrightarrow>
          fst (update io change st) = Inr (a, q)"
    and save_fails: "contains t p st \<Longrightarrow> save io q st = (Inl e, st') \<Longrightarrow> st' = st"
    and save_stores: "contains t p st \<Longrightarrow> t \<le> time_of io \<Longrightarrow> nanos_ok (time_of io) \<Longrightarrow>
          save io q st = (Inr u, st') \<Longrightarrow> storable q \<Longrightarrow> contains (time_of io) (stored q) st'"
begin

text \<open>A save of the old aggregate undoes an update.\<close>

lemma update_undone:
  assumes "contains t p st" and "update io change st = (Inr (a, q), st1)" and "storable q"
    and "save io' p st1 = (Inr u, st2)" and "storable p"
    and "t \<le> time_of io" "time_of io \<le> time_of io'" "nanos_ok (time_of io)" "nanos_ok (time_of io')"
  shows "contains (time_of io') (stored p) st2"
proof -
  have "contains (time_of io) (stored q) st1"
    using update_applies [OF assms(1,6,8,2)] assms(3) by simp
  from save_stores [OF this assms(7,9,4,5)] show ?thesis .
qed

lemma update_cases:
  assumes "contains t p st" and "t \<le> time_of io" and "nanos_ok (time_of io)"
    and "update io change st = (r, st')"
  obtains e where "r = Inl e" "st' = st"
  | a q where "r = Inr (a, q)" "change p = (a, Inr q)" "valid (time_of io) q"
      "storable q \<longrightarrow> contains (time_of io) (stored q) st'"
  using update_fails [OF assms(1)] update_applies [OF assms(1-3)] assms(4) by (cases r) auto

end

section \<open>The store keeps it\<close>

definition contains ::
  "hmac \<Rightarrow> (string \<Rightarrow> go_error + duration) \<Rightarrow> gotime \<Rightarrow> PersistentState \<Rightarrow> SQLiteStore \<Rightarrow> bool"
where
  "contains hmac pd t p st \<longleftrightarrow>
     (\<exists>db. opened st db \<and> length (tb_browser_sessions (db_tables db)) \<le> maxBrowserSessions
        \<and> (\<forall>r\<in>set (tb_browser_sessions (db_tables db)). live t r \<longrightarrow> session_ok t r)
        \<and> (\<forall>later\<ge>t. loadPersistentStateTx hmac pd later (db_tables db) = Inr p))"

lemma contains_now:
  "contains hmac pd t p st \<Longrightarrow> t \<le> t' \<Longrightarrow> contains hmac pd t' p st"
  unfolding contains_def using session_ok_later live_def by (meson dual_order.trans le_less_trans)

lemma load_valid:
  "loadPersistentStateTx hmac pd now t = Inr p \<Longrightarrow> ValidatePersistentState hmac pd now p = None"
  by (auto simp: loadPersistentStateTx_def Let_def map_sum_Inr split: option.splits)

lemma validate_sessions_contains:
  assumes "nanos_ok now" and "length (tb_browser_sessions t) \<le> maxBrowserSessions"
    and "validateBrowserSessionsTx io now (int maxBrowserSessions) True t = Inr u"
  shows "u = t\<lparr>tb_browser_sessions := filter (live now) (tb_browser_sessions t)\<rparr>"
    and "list_all (session_ok now) (filter (live now) (tb_browser_sessions t))"
proof -
  have "io_prune io = None" using assms(3) by (auto simp: validateBrowserSessionsTx_def)
  then show "u = t\<lparr>tb_browser_sessions := filter (live now) (tb_browser_sessions t)\<rparr>"
    "list_all (session_ok now) (filter (live now) (tb_browser_sessions t))"
    using assms by (auto simp: validate_sessions_eq split: if_splits)
qed

lemma sessions_irrelevant:
  fixes t :: Tables and rows :: "BrowserSession list"
  defines "u \<equiv> t\<lparr>tb_browser_sessions := rows\<rparr>"
  shows "load_preferences u = load_preferences t" "loadLastGoodTx u = loadLastGoodTx t"
    "loadActiveSessionTx u = loadActiveSessionTx t" "tb_state_metadata u = tb_state_metadata t"
    "tb_access_token_verifier u = tb_access_token_verifier t"
    "tb_subscription_generation u = tb_subscription_generation t"
proof -
  show "tb_state_metadata u = tb_state_metadata t" "tb_access_token_verifier u = tb_access_token_verifier t"
    "tb_subscription_generation u = tb_subscription_generation t" by (simp_all add: u_def)
  have eqs: "tb_preferences u = tb_preferences t" "tb_excluded_node_ids u = tb_excluded_node_ids t"
    "tb_last_good u = tb_last_good t" "tb_last_good_nodes u = tb_last_good_nodes t"
    "tb_active_session u = tb_active_session t" "tb_active_session_windows u = tb_active_session_windows t"
    "tb_active_session_nodes u = tb_active_session_nodes t"
    "tb_active_session_node_profiles u = tb_active_session_node_profiles t"
    "tb_active_session_selectors u = tb_active_session_selectors t"
    by (simp_all add: u_def)
  show "load_preferences u = load_preferences t" unfolding load_preferences_def eqs ..
  show "loadLastGoodTx u = loadLastGoodTx t" unfolding loadLastGoodTx_def eqs ..
  show "loadActiveSessionTx u = loadActiveSessionTx t"
    unfolding loadActiveSessionTx_def join_profiles_def eqs ..
qed

lemma load_sessions_irrelevant:
  "loadPersistentStateTx hmac pd now (t\<lparr>tb_browser_sessions := rows\<rparr>) = loadPersistentStateTx hmac pd now t"
  unfolding loadPersistentStateTx_def sessions_irrelevant ..

lemma replaced_contains:
  assumes valid: "ValidatePersistentState hmac pd now q = None" and q: "storable q"
    and t: "replacePersistentStateTx hmac pd now q u = Inr t"
    and u: "list_all (session_ok now) (tb_browser_sessions u)" "length (tb_browser_sessions u) \<le> maxBrowserSessions"
    and op: "opened st' (db\<lparr>db_tables := t\<rparr>)"
  shows "contains hmac pd now (stored q) st'"
  unfolding contains_def
  using replace_sessions [OF t] aggregate_reload [OF valid q _ t] u op
  by (intro exI [of _ "db\<lparr>db_tables := t\<rparr>"]) (auto simp: list_all_iff)

interpretation store: durable_store
  "contains hmac pd" io_now no_fault "\<lambda>t p. ValidatePersistentState hmac pd t p = None"
  "Store_Load hmac pd" "Store_Update hmac pd :: SqlIO \<Rightarrow> (PersistentState \<Rightarrow> 'a \<times> (go_error + PersistentState)) \<Rightarrow>
     SQLiteStore \<Rightarrow> (go_error + 'a \<times> PersistentState) \<times> SQLiteStore"
  "Store_Save hmac pd" for hmac pd
proof
  fix t t' :: gotime and p q :: PersistentState and st st' :: SQLiteStore and io :: SqlIO and e :: go_error
    and change :: "PersistentState \<Rightarrow> 'a \<times> (go_error + PersistentState)" and a :: 'a and u :: unit
  assume c: "contains hmac pd t p st"
  then obtain db where op: "opened st db"
    and few: "length (tb_browser_sessions (db_tables db)) \<le> maxBrowserSessions"
    and load: "\<And>later. t \<le> later \<Longrightarrow> loadPersistentStateTx hmac pd later (db_tables db) = Inr p"
    by (auto simp: contains_def)
  note open_eq = ensureOpen_opened [OF op]
  show "t \<le> t' \<Longrightarrow> contains hmac pd t' p st" using c by (rule contains_now)
  show "t \<le> t' \<Longrightarrow> ValidatePersistentState hmac pd t' p = None" using load load_valid by blast
  show "Store_Load hmac pd io st = (Inl e, st') \<Longrightarrow> st' = st"
    using run_tx_Inl by (fastforce simp: Store_Load_def open_eq loadLocked_def split: option.splits)
  show "Store_Update hmac pd io change st = (Inl e, st') \<Longrightarrow> st' = st"
    using run_tx_Inl by (fastforce simp: Store_Update_def open_eq split: option.splits)
  show "Store_Save hmac pd io q st = (Inl e, st') \<Longrightarrow> st' = st"
    using run_tx_Inl by (fastforce simp: Store_Save_def open_eq saveLocked_def split: option.splits)
  assume now: "t \<le> io_now io" "nanos_ok (io_now io)"
  { assume "Store_Load hmac pd io st = (Inr q, st')"
    then have "loadLocked hmac pd io st = (Inr q, st')"
      by (auto simp: Store_Load_def open_eq split: option.splits)
    from run_tx_Inr [OF this [unfolded loadLocked_def] op] obtain u where
      q: "loadPersistentStateTx hmac pd (io_now io) (db_tables db) = Inr q"
      and u: "validateBrowserSessionsTx io (io_now io) (int maxBrowserSessions) True (db_tables db) = Inr u"
      and op': "opened st' (db\<lparr>db_tables := u\<rparr>)"
      by (auto simp: try_bind_eq_Inr)
    note v = validate_sessions_contains [OF now(2) few u]
    have "contains hmac pd (io_now io) p st'"
      unfolding contains_def
      using op' v few load now(1) order_trans [OF length_filter_le few]
      by (intro exI [of _ "db\<lparr>db_tables := u\<rparr>"]) (auto simp: load_sessions_irrelevant list_all_iff)
    then show "q = p \<and> contains hmac pd (io_now io) p st'" using q load now(1) by simp }
  { assume "Store_Update hmac pd io change st = (Inr (a, q), st')"
    then have "run_tx io corruptDatabase (update_body hmac pd io change) st = (Inr (a, q), st')"
      by (auto simp: Store_Update_def open_eq split: option.splits)
    from run_tx_Inr [OF this op] obtain t' where
      body: "update_body hmac pd io change (db_tables db) = Inr ((a, q), t')"
      and op': "opened st' (db\<lparr>db_tables := t'\<rparr>)" by blast
    from update_body_Inr [OF body] obtain current u where
      cur: "loadPersistentStateTx hmac pd (io_now io) (db_tables db) = Inr current" "change current = (a, Inr q)"
        "ValidatePersistentState hmac pd (io_now io) q = None"
      and u: "validateBrowserSessionsTx io (io_now io) (int maxBrowserSessions) True (db_tables db) = Inr u"
      and t': "replacePersistentStateTx hmac pd (io_now io) q u = Inr t'" by blast
    note v = validate_sessions_contains [OF now(2) few u]
    have "contains hmac pd (io_now io) (stored q) st'" if "storable q"
      by (rule replaced_contains [OF cur(3) that t' _ _ op'])
        (use v order_trans [OF length_filter_le few] in auto)
    then show "change p = (a, Inr q) \<and> ValidatePersistentState hmac pd (io_now io) q = None
        \<and> (storable q \<longrightarrow> contains hmac pd (io_now io) (stored q) st')"
      using cur load now(1) by simp }
  have sessions: "validateBrowserSessionsTx io (io_now io) (int maxBrowserSessions) True (db_tables db)
      = Inr (db_tables db\<lparr>tb_browser_sessions := filter (live (io_now io)) (tb_browser_sessions (db_tables db))\<rparr>)"
    if "no_fault io"
  proof -
    have "list_all (session_ok (io_now io)) (filter (live (io_now io)) (tb_browser_sessions (db_tables db)))"
      using contains_now [OF c now(1)] op few by (auto simp: contains_def list_all_iff opened_def)
    then show ?thesis using validate_sessions_eq [OF now(2) _ few, of io] that by simp
  qed
  show "no_fault io \<Longrightarrow> fst (Store_Load hmac pd io st) = Inr p"
    using sessions load [OF now(1)]
    by (simp add: Store_Load_def open_eq loadLocked_def run_tx_no_fault [OF _ op])
  { assume "no_fault io" and change: "change p = (a, Inr q)"
      and valid: "ValidatePersistentState hmac pd (io_now io) q = None" and q: "storable q"
    obtain u where "replacePersistentStateTx hmac pd (io_now io) q
        (db_tables db\<lparr>tb_browser_sessions := filter (live (io_now io)) (tb_browser_sessions (db_tables db))\<rparr>) = Inr u"
      using aggregate_written [OF valid q] by blast
    then have "update_body hmac pd io change (db_tables db) = Inr ((a, q), u)"
      using \<open>no_fault io\<close> sessions load [OF now(1)] change valid by (simp add: update_body_def)
    then show "fst (Store_Update hmac pd io change st) = Inr (a, q)"
      using \<open>no_fault io\<close> by (simp add: Store_Update_def open_eq run_tx_no_fault [OF _ op]) }
  { assume "Store_Save hmac pd io q st = (Inr u, st')" and q: "storable q"
    then have valid: "ValidatePersistentState hmac pd (io_now io) q = None"
      and "saveLocked hmac pd io q st = (Inr u, st')"
      by (auto simp: Store_Save_def open_eq split: option.splits)
    from run_tx_Inr [OF this(2) [unfolded saveLocked_def] op] obtain w t' where
      w: "validateBrowserSessionsTx io (io_now io) (int maxBrowserSessions) True (db_tables db) = Inr w"
      and t': "replacePersistentStateTx hmac pd (io_now io) q w = Inr t'"
      and op': "opened st' (db\<lparr>db_tables := t'\<rparr>)"
      by (auto simp: try_bind_eq_Inr)
    note v = validate_sessions_contains [OF now(2) few w]
    show "contains hmac pd (io_now io) (stored q) st'"
      by (rule replaced_contains [OF valid q t' _ _ op'])
        (use v order_trans [OF length_filter_le few] in auto) }
qed

end
