(* ===== verification/Subscription_Service.thy ===== *)
theory Subscription_Service
  imports Subscription_Render State_Contract Wifiin_UDP
begin

text \<open>
  \<open>internal/subscription/service.go\<close>: the service that renders the current account's node list,
  stores it with the durable aggregate and serves it. Every method body runs under the mutex of the
  service and is one function. The primitives the code takes from other packages
  are bundled in \<open>Prims\<close>; each call of the store takes its own \<open>SqlIO\<close>.
\<close>

section \<open>State\<close>

record Prims =
  pr_hmac :: hmac
  pr_idna :: idna
  pr_sha256 :: "bytes \<Rightarrow> bytes"
  pr_parse_duration :: "string \<Rightarrow> go_error + duration"

record cachedSubscription =
  cs_binding :: bytes
  cs_body :: string
  cs_bodyHash :: bytes
  cs_generation :: u64
  cs_nodeCount :: nat
  cs_fetchedAt :: gotime
  cs_fetchedGeneration :: u64
  cs_fetchedBodyHash :: bytes
  cs_fetching :: bool

definition zero_hash :: bytes where "zero_hash = replicate sha256_Size 0"

definition zero_cache :: cachedSubscription where
  "zero_cache = \<lparr>cs_binding = zero_hash, cs_body = [], cs_bodyHash = zero_hash, cs_generation = 0,
     cs_nodeCount = 0, cs_fetchedAt = time_zero, cs_fetchedGeneration = 0,
     cs_fetchedBodyHash = zero_hash, cs_fetching = False\<rparr>"

record SubService =
  srv_store :: SQLiteStore
  srv_socksAddress :: string
  srv_cache :: cachedSubscription

record RuntimeCommitPlan =
  plan_Generation :: SubscriptionGeneration
  plan_userID :: string
  plan_previous :: SubscriptionGeneration

record Metadata =
  md_Active :: bool
  md_Generation :: u64
  md_NodeCount :: nat
  md_LastFetchedAt :: gotime
  md_LastFetchedGeneration :: u64
  md_ReloadRecommended :: bool

definition subscriptionResponseConcurrency :: nat where "subscriptionResponseConcurrency = 8"
definition subscriptionResponseChunkBytes :: nat where "subscriptionResponseChunkBytes = 32 * 2 ^ 10"

definition subscriptionBodyHash :: "Prims \<Rightarrow> string \<Rightarrow> bytes" where
  "subscriptionBodyHash pr body = pr_sha256 pr (bytes_of_string body)"

section \<open>Rendering nodes\<close>

definition node_credential ::
  "Prims \<Rightarrow> SubscriptionGeneration \<Rightarrow> string \<Rightarrow> string \<Rightarrow> string \<Rightarrow> u16 \<Rightarrow> go_error + Credentials"
where
  "node_credential pr generation nodeID provider host port =
     Derive (pr_hmac pr) (pr_idna pr)
       \<lparr>ident_NodeID = nodeID, ident_Provider = provider, ident_Host = host, ident_Port = uint port\<rparr>
       (sub_SelectorKey generation) (sub_ProxyAuthKey generation)"

definition persisted_eligible :: "PersistedNode \<Rightarrow> bool" where
  "persisted_eligible n \<longleftrightarrow> pnode_Eligible n \<and> equal_fold (pnode_Provider n) ''WIFIIN''
     \<and> pnode_Host n \<noteq> [] \<and> pnode_Port n \<noteq> 0"

fun node_links ::
  "Prims \<Rightarrow> SubscriptionGeneration \<Rightarrow> Node list \<Rightarrow> go_error + Link list \<times> PersistedNode list"
where
  "node_links pr generation [] = Inr ([], [])"
| "node_links pr generation (node # nodes) =
     try_bind (node_credential pr generation (node_ID node) (node_Provider node) (node_Host node) (node_Port node))
       (\<lambda>credential. try_bind (node_links pr generation nodes) (\<lambda>(links, persisted).
         Inr (\<lparr>lk_Selector = cred_Selector credential, lk_Password = cred_Password credential,
               lk_Name = node_Name node, lk_Group = node_Group node, lk_Eligible = TunnelEligible node\<rparr> # links,
              \<lparr>pnode_ID = node_ID node, pnode_Selector = cred_Selector credential,
               pnode_Provider = node_Provider node, pnode_Host = node_Host node, pnode_Port = node_Port node,
               pnode_Name = node_Name node, pnode_Group = node_Group node,
               pnode_Eligible = node_Eligible node, pnode_Excluded = node_Excluded node\<rparr> # persisted)))"

definition renderNodes ::
  "Prims \<Rightarrow> string \<Rightarrow> Node list \<Rightarrow> SubscriptionGeneration \<Rightarrow> go_error + string \<times> nat \<times> PersistedNode list"
where
  "renderNodes pr socksAddress nodes generation =
     try_bind (node_links pr generation nodes) (\<lambda>(links, persisted).
     try_bind (Render links socksAddress) (\<lambda>(body, count). Inr (body, count, persisted)))"

fun persisted_links ::
  "Prims \<Rightarrow> SubscriptionGeneration \<Rightarrow> bool \<Rightarrow> PersistedNode list \<Rightarrow> go_error + Link list"
where
  "persisted_links pr generation legacyExclusions [] = Inr []"
| "persisted_links pr generation legacyExclusions (node # nodes) =
     try_bind (node_credential pr generation (pnode_ID node) (pnode_Provider node) (pnode_Host node) (pnode_Port node))
       (\<lambda>credential. try_bind (persisted_links pr generation legacyExclusions nodes) (\<lambda>links.
         Inr (\<lparr>lk_Selector = cred_Selector credential, lk_Password = cred_Password credential,
               lk_Name = pnode_Name node, lk_Group = pnode_Group node,
               lk_Eligible = persisted_eligible node \<and> (legacyExclusions \<longrightarrow> \<not> pnode_Excluded node)\<rparr> # links)))"

definition renderPersistedNodesAtWithLegacyExclusions ::
  "Prims \<Rightarrow> PersistedNode list \<Rightarrow> SubscriptionGeneration \<Rightarrow> string \<Rightarrow> bool \<Rightarrow> go_error + string \<times> nat"
where
  "renderPersistedNodesAtWithLegacyExclusions pr nodes generation socksAddress legacyExclusions =
     try_bind (persisted_links pr generation legacyExclusions nodes) (\<lambda>links. Render links socksAddress)"

definition renderPersistedNodesAt ::
  "Prims \<Rightarrow> PersistedNode list \<Rightarrow> SubscriptionGeneration \<Rightarrow> string \<Rightarrow> go_error + string \<times> nat"
where
  "renderPersistedNodesAt pr nodes generation socksAddress =
     renderPersistedNodesAtWithLegacyExclusions pr nodes generation socksAddress False"

definition eligiblePersistedCount :: "PersistedNode list \<Rightarrow> nat" where
  "eligiblePersistedCount nodes = length (filter persisted_eligible nodes)"

definition emptyLastGood :: "LastGoodState \<Rightarrow> bool" where
  "emptyLastGood lg \<longleftrightarrow> lg_Generation lg = 0 \<and> lg_CreatedAt lg = time_zero \<and> length (lg_Nodes lg) = 0
     \<and> lg_RenderedSubscription lg = [] \<and> lg_FetchedGeneration lg = 0 \<and> lg_FetchedAt lg = time_zero
     \<and> length (lg_FetchedBodyHash lg) = 0"

section \<open>Validation of the rendered aggregate\<close>

text \<open>The links of the first loop of \<open>ValidatePersistentState\<close>, which also compares the selectors.\<close>

definition checked_links ::
  "Prims \<Rightarrow> SubscriptionGeneration \<Rightarrow> bool \<Rightarrow> PersistedNode list \<Rightarrow> (Link list) option"
where
  "checked_links pr generation legacyExclusions nodes =
     (case persisted_links pr generation legacyExclusions nodes of
        Inl _ \<Rightarrow> None
      | Inr links \<Rightarrow>
          if map lk_Selector links = map pnode_Selector nodes then Some links else None)"

definition rendered_from ::
  "Prims \<Rightarrow> SubscriptionGeneration \<Rightarrow> LastGoodState \<Rightarrow> bool"
where
  "rendered_from pr generation lastGood =
     (if length (sub_AccountBinding generation) \<noteq> sha256_Size
         \<or> lg_Generation lastGood \<noteq> sub_Generation generation then False
      else
        case renderedSubscriptionAddress (lg_RenderedSubscription lastGood) of
          Inl _ \<Rightarrow> False
        | Inr address \<Rightarrow>
            (case checked_links pr generation False (lg_Nodes lastGood) of
               None \<Rightarrow> False
             | Some links \<Rightarrow>
                 (case Render links address of
                    Inl _ \<Rightarrow> False
                  | Inr (rendered, _) \<Rightarrow> rendered = lg_RenderedSubscription lastGood)
                 \<or> (case renderPersistedNodesAtWithLegacyExclusions pr (lg_Nodes lastGood) generation address True of
                      Inl _ \<Rightarrow> False
                    | Inr (legacy, _) \<Rightarrow> legacy = lg_RenderedSubscription lastGood)))"

fun last_by_id :: "string \<Rightarrow> PersistedNode list \<Rightarrow> PersistedNode option" where
  "last_by_id i [] = None"
| "last_by_id i (n # ns) =
     (case last_by_id i ns of
        Some m \<Rightarrow> Some m
      | None \<Rightarrow> if pnode_ID n = i then Some n else None)"

definition active_node_ok ::
  "Prims \<Rightarrow> SubscriptionGeneration \<Rightarrow> PersistedNode list \<Rightarrow> (string, NodeRef) gomap \<Rightarrow> Node \<Rightarrow> bool"
where
  "active_node_ok pr generation persisted selectors node =
     (case last_by_id (node_ID node) persisted of
        None \<Rightarrow> False
      | Some p \<Rightarrow>
          node_Selector node = pnode_Selector p \<and> node_Provider node = pnode_Provider p
          \<and> node_Host node = pnode_Host p \<and> node_Port node = pnode_Port p
          \<and> node_Name node = pnode_Name p \<and> node_Group node = pnode_Group p
          \<and> node_Eligible node = pnode_Eligible p \<and> node_Excluded node = pnode_Excluded p
          \<and> (case node_credential pr generation (node_ID node) (node_Provider node) (node_Host node) (node_Port node) of
               Inl _ \<Rightarrow> False
             | Inr credential \<Rightarrow>
                 node_Selector node = cred_Selector credential
                 \<and> (case map_of selectors (cred_Selector credential) of
                      None \<Rightarrow> False
                    | Some ref \<Rightarrow> \<not> ref_Tombstoned ref \<and> ref_NodeID ref = node_ID node
                                 \<and> ref_Generation ref = sub_Generation generation)))"

definition active_matches ::
  "Prims \<Rightarrow> SubscriptionGeneration \<Rightarrow> LastGoodState \<Rightarrow> RuntimeSnapshot \<Rightarrow> bool"
where
  "active_matches pr generation lastGood active \<longleftrightarrow>
     lg_RenderedSubscription lastGood \<noteq> [] \<and> lg_Generation lastGood = sub_Generation generation
     \<and> length (snap_Nodes active) = length (lg_Nodes lastGood)
     \<and> list_all (active_node_ok pr generation (lg_Nodes lastGood) (snap_Selectors active)) (snap_Nodes active)
     \<and> list_all (\<lambda>(name, ref). ref_Tombstoned ref \<or> name \<in> node_Selector ` set (snap_Nodes active))
         (snap_Selectors active)"

definition subscription_ValidatePersistentState :: "Prims \<Rightarrow> gotime \<Rightarrow> PersistentState \<Rightarrow> go_error option" where
  "subscription_ValidatePersistentState pr now p =
     (case ValidatePersistentState (pr_hmac pr) (pr_parse_duration pr) now p of
        Some err \<Rightarrow> Some err
      | None \<Rightarrow>
          let lastGood = pst_LastGood p in
          if lg_RenderedSubscription lastGood = [] \<and> \<not> emptyLastGood lastGood
          then Some errRenderedSubscriptionMismatch
          else if lg_RenderedSubscription lastGood \<noteq> [] \<and> \<not> rendered_from pr (pst_Subscription p) lastGood
          then Some errRenderedSubscriptionMismatch
          else case pst_ActiveSession p of
            None \<Rightarrow> None
          | Some active \<Rightarrow>
              if active_matches pr (pst_Subscription p) lastGood active then None
              else Some errRenderedSubscriptionMismatch)"

definition validateRenderedState :: "Prims \<Rightarrow> string \<Rightarrow> gotime \<Rightarrow> PersistentState \<Rightarrow> go_error option" where
  "validateRenderedState pr socksAddress now p =
     (case subscription_ValidatePersistentState pr now p of
        Some err \<Rightarrow> Some err
      | None \<Rightarrow>
          if lg_RenderedSubscription (pst_LastGood p) = [] then None
          else
            (case renderPersistedNodesAt pr (lg_Nodes (pst_LastGood p)) (pst_Subscription p) socksAddress of
               Inl _ \<Rightarrow> Some errRenderedSubscriptionMismatch
             | Inr (rendered, _) \<Rightarrow>
                 if rendered \<noteq> lg_RenderedSubscription (pst_LastGood p)
                 then Some errRenderedSubscriptionMismatch else None))"

section \<open>Listener addresses\<close>

definition matchesRenderedAtAddress ::
  "Prims \<Rightarrow> string \<Rightarrow> PersistedNode list \<Rightarrow> SubscriptionGeneration \<Rightarrow> bool"
where
  "matchesRenderedAtAddress pr body nodes generation =
     (case renderedAddress body of
        None \<Rightarrow> False
      | Some address \<Rightarrow>
          (case renderPersistedNodesAt pr nodes generation address of
             Inl _ \<Rightarrow> False | Inr (rendered, _) \<Rightarrow> rendered = body)
          \<or> (case renderPersistedNodesAtWithLegacyExclusions pr nodes generation address True of
               Inl _ \<Rightarrow> False | Inr (legacy, _) \<Rightarrow> legacy = body))"

definition forget_fetch :: "LastGoodState \<Rightarrow> LastGoodState" where
  "forget_fetch lg = lg\<lparr>lg_FetchedAt := time_zero, lg_FetchedGeneration := 0, lg_FetchedBodyHash := []\<rparr>"

definition reconcileListenerAddress ::
  "Prims \<Rightarrow> string \<Rightarrow> PersistentState \<Rightarrow> go_error + PersistentState \<times> bool"
where
  "reconcileListenerAddress pr socksAddress p =
     (let lastGood = pst_LastGood p in
      if lg_RenderedSubscription lastGood = [] then
        (if \<not> emptyLastGood lastGood then Inl errRenderedSubscriptionMismatch else Inr (p, False))
      else if length (sub_AccountBinding (pst_Subscription p)) \<noteq> sha256_Size
              \<or> lg_Generation lastGood \<noteq> sub_Generation (pst_Subscription p)
      then Inl errRenderedSubscriptionMismatch
      else
        (case renderPersistedNodesAt pr (lg_Nodes lastGood) (pst_Subscription p) socksAddress of
           Inl _ \<Rightarrow> Inl errRenderedSubscriptionMismatch
         | Inr (rendered, _) \<Rightarrow>
             if rendered = lg_RenderedSubscription lastGood then Inr (p, False)
             else if \<not> matchesRenderedAtAddress pr (lg_RenderedSubscription lastGood) (lg_Nodes lastGood)
                          (pst_Subscription p)
             then Inl errRenderedSubscriptionMismatch
             else Inr (p\<lparr>pst_LastGood := forget_fetch (lastGood\<lparr>lg_RenderedSubscription := rendered\<rparr>)\<rparr>, True)))"

definition primed :: "Prims \<Rightarrow> PersistentState \<Rightarrow> cachedSubscription" where
  "primed pr p =
     (let lastGood = pst_LastGood p; generation = pst_Subscription p in
      if length (sub_AccountBinding generation) = sha256_Size \<and> lg_RenderedSubscription lastGood \<noteq> [] then
        let cache = zero_cache\<lparr>cs_binding := sub_AccountBinding generation,
              cs_body := lg_RenderedSubscription lastGood,
              cs_bodyHash := subscriptionBodyHash pr (lg_RenderedSubscription lastGood),
              cs_generation := sub_Generation generation,
              cs_nodeCount := eligiblePersistedCount (lg_Nodes lastGood)\<rparr>
        in if lg_FetchedAt lastGood \<noteq> time_zero \<and> length (lg_FetchedBodyHash lastGood) = sha256_Size
           then cache\<lparr>cs_fetchedAt := lg_FetchedAt lastGood,
                  cs_fetchedGeneration := lg_FetchedGeneration lastGood,
                  cs_fetchedBodyHash := lg_FetchedBodyHash lastGood\<rparr>
           else cache
      else zero_cache)"

definition primeCacheLocked :: "Prims \<Rightarrow> PersistentState \<Rightarrow> SubService \<Rightarrow> SubService" where
  "primeCacheLocked pr p s =
     (let cache = primed pr p; previous = srv_cache s in
      s\<lparr>srv_cache := (if cs_fetching previous \<and> cs_binding previous = cs_binding cache
                          \<and> cs_generation previous = cs_generation cache \<and> cs_bodyHash previous = cs_bodyHash cache
                       then cache\<lparr>cs_fetching := True\<rparr> else cache)\<rparr>)"

section \<open>Operations\<close>

text \<open>A call of \<open>Update\<close>; its callback leaves the aggregate it was given.\<close>

definition service_update ::
  "Prims \<Rightarrow> SqlIO \<Rightarrow> (PersistentState \<Rightarrow> go_error + PersistentState) \<Rightarrow> SubService \<Rightarrow>
   (go_error + PersistentState \<times> PersistentState) \<times> SubService"
where
  "service_update pr io change s =
     (case Store_Update (pr_hmac pr) (pr_parse_duration pr) io (\<lambda>p. (p, change p)) (srv_store s) of
        (r, st) \<Rightarrow> (r, s\<lparr>srv_store := st\<rparr>))"

definition loadPersisted :: "Prims \<Rightarrow> SqlIO \<Rightarrow> SubService \<Rightarrow> (go_error + PersistentState) \<times> SubService" where
  "loadPersisted pr io s =
     (case Store_Load (pr_hmac pr) (pr_parse_duration pr) io (srv_store s) of
        (r, st) \<Rightarrow> (r, s\<lparr>srv_store := st\<rparr>))"

definition service_save :: "Prims \<Rightarrow> SqlIO \<Rightarrow> PersistentState \<Rightarrow> SubService \<Rightarrow> (go_error + unit) \<times> SubService" where
  "service_save pr io p s =
     (case Store_Save (pr_hmac pr) (pr_parse_duration pr) io p (srv_store s) of
        (r, st) \<Rightarrow> (r, s\<lparr>srv_store := st\<rparr>))"

definition repair :: "Prims \<Rightarrow> string \<Rightarrow> PersistentState \<Rightarrow> go_error + PersistentState" where
  "repair pr socksAddress candidate =
     try_bind (reconcileListenerAddress pr socksAddress candidate) (\<lambda>(repaired, changed).
       Inr (if changed then repaired else candidate))"

text \<open>
  The common part of \<open>reconcileAndPrime\<close> and \<open>SetSocksAddress\<close>: repair the body if it was rendered
  for another address, validate it, and serve it. \<open>Some e\<close> with \<open>True\<close> is an error before the repair was
  stored, on which \<open>SetSocksAddress\<close> takes its address back.
\<close>

definition adopt_address ::
  "Prims \<Rightarrow> SqlIO \<Rightarrow> PersistentState \<Rightarrow> SubService \<Rightarrow> (go_error \<times> bool) option \<times> SubService"
where
  "adopt_address pr io p s =
     (case reconcileListenerAddress pr (srv_socksAddress s) p of
        Inl e \<Rightarrow> (Some (e, True), s)
      | Inr (updated, changed) \<Rightarrow>
          (case (if changed then map_prod (map_sum id snd) id (service_update pr io (repair pr (srv_socksAddress s)) s)
                 else (Inr updated, s)) of
             (Inl e, s) \<Rightarrow> (Some (e, True), s)
           | (Inr updated, s) \<Rightarrow>
               (case validateRenderedState pr (srv_socksAddress s) (io_now io) updated of
                  Some e \<Rightarrow> (Some (e, False), s)
                | None \<Rightarrow> (None, primeCacheLocked pr updated s))))"

definition reconcileAndPrime :: "Prims \<Rightarrow> SqlIO \<Rightarrow> SqlIO \<Rightarrow> SubService \<Rightarrow> go_error option \<times> SubService" where
  "reconcileAndPrime pr io io' s =
     (case loadPersisted pr io s of
        (Inl e, s) \<Rightarrow> (Some e, s)
      | (Inr p, s) \<Rightarrow>
          let s = (case concreteRenderedAddress (srv_socksAddress s) (lg_RenderedSubscription (pst_LastGood p)) of
                     None \<Rightarrow> s | Some address \<Rightarrow> s\<lparr>srv_socksAddress := address\<rparr>)
          in (case adopt_address pr io' p s of
                (Some (e, _), s) \<Rightarrow> (Some e, s) | (None, s) \<Rightarrow> (None, s)))"

definition NewService ::
  "Prims \<Rightarrow> SqlIO \<Rightarrow> SqlIO \<Rightarrow> SQLiteStore option \<Rightarrow> string \<Rightarrow> go_error + SubService"
where
  "NewService pr io io' store socksAddress =
     (case store of
        None \<Rightarrow> Inl (New ''subscription state store is required'')
      | Some st \<Rightarrow>
          (case validateAddress socksAddress of
             Some e \<Rightarrow> Inl e
           | None \<Rightarrow>
               (case reconcileAndPrime pr io io'
                       \<lparr>srv_store = st, srv_socksAddress = socksAddress, srv_cache = zero_cache\<rparr> of
                  (Some e, _) \<Rightarrow> Inl e
                | (None, s) \<Rightarrow> Inr s)))"

definition SetSocksAddress :: "Prims \<Rightarrow> SqlIO \<Rightarrow> SqlIO \<Rightarrow> string \<Rightarrow> SubService \<Rightarrow> go_error option \<times> SubService" where
  "SetSocksAddress pr io io' address s =
     (case validateAddress address of
        Some e \<Rightarrow> (Some e, s)
      | None \<Rightarrow>
          if srv_socksAddress s = address then (None, s)
          else
            (case loadPersisted pr io s of
               (Inl e, s) \<Rightarrow> (Some e, s)
             | (Inr p, s) \<Rightarrow>
                 (case adopt_address pr io' p (s\<lparr>srv_socksAddress := address\<rparr>) of
                    (None, s') \<Rightarrow> (None, s')
                  | (Some (e, restore), s') \<Rightarrow>
                      (Some e, if restore then s'\<lparr>srv_socksAddress := srv_socksAddress s\<rparr> else s'))))"

definition updateLastGood ::
  "Prims \<Rightarrow> string \<Rightarrow> gotime \<Rightarrow> RuntimeSnapshot \<Rightarrow> PersistentState \<Rightarrow> go_error + PersistentState"
where
  "updateLastGood pr socksAddress now snapshot candidate =
     (if length (sub_AccountBinding (pst_Subscription candidate)) \<noteq> sha256_Size
      then Inl ErrSubscriptionUnavailable
      else
        try_bind (renderNodes pr socksAddress (snap_Nodes snapshot) (pst_Subscription candidate))
          (\<lambda>(body, _, nodes).
            let old = pst_LastGood candidate;
                bodyChanged = (lg_Generation old \<noteq> sub_Generation (pst_Subscription candidate)
                               \<or> lg_RenderedSubscription old \<noteq> body);
                lastGood = old\<lparr>lg_Generation := sub_Generation (pst_Subscription candidate),
                             lg_Nodes := nodes, lg_RenderedSubscription := body\<rparr>
            in Inr (candidate\<lparr>pst_LastGood :=
                 (if bodyChanged then forget_fetch (lastGood\<lparr>lg_CreatedAt := now\<rparr>) else lastGood)\<rparr>)))"

definition checked_state :: "Prims \<Rightarrow> string \<Rightarrow> gotime \<Rightarrow> PersistentState \<Rightarrow> go_error + PersistentState" where
  "checked_state pr socksAddress now p =
     (case validateRenderedState pr socksAddress now p of Some e \<Rightarrow> Inl e | None \<Rightarrow> Inr p)"

definition PublishAccount ::
  "Prims \<Rightarrow> go_error option \<Rightarrow> string \<Rightarrow> gotime \<Rightarrow> stream \<Rightarrow> SqlIO \<Rightarrow> SqlIO \<Rightarrow> SubService \<Rightarrow>
   (go_error + SubscriptionGeneration \<times> PersistentState) \<times> SubService"
where
  "PublishAccount pr ctx userID now rnd io io' s =
     (case ctx of
        Some e \<Rightarrow> (Inl e, s)
      | None \<Rightarrow>
          if trim_space userID = [] then (Inl ErrAccountChanged, s)
          else
            (case service_update pr io (\<lambda>p. case EnsureSubscriptionAccountBinding (pr_hmac pr) p userID now rnd of
                      (Inl e, _, _) \<Rightarrow> Inl e | (Inr _, q, _) \<Rightarrow> Inr q) s of
               (Inl e, s) \<Rightarrow> (Inl e, s)
             | (Inr (prior, after), s) \<Rightarrow>
                 (case validateRenderedState pr (srv_socksAddress s) (io_now io) after of
                    Some e \<Rightarrow>
                      (case service_save pr io' prior s of
                         (Inl _, s) \<Rightarrow>
                           (Inl (Wrap ''subscription binding validation failed and rollback failed'' e), s)
                       | (Inr _, s) \<Rightarrow> (Inl e, s))
                  | None \<Rightarrow> (Inr (pst_Subscription after, prior), primeCacheLocked pr after s))))"

definition PrepareRuntimeCommit ::
  "Prims \<Rightarrow> go_error option \<Rightarrow> string \<Rightarrow> gotime \<Rightarrow> stream \<Rightarrow> SqlIO \<Rightarrow> SubService \<Rightarrow>
   (go_error + RuntimeCommitPlan) \<times> SubService"
where
  "PrepareRuntimeCommit pr ctx userID now rnd io s =
     (case ctx of
        Some e \<Rightarrow> (Inl e, s)
      | None \<Rightarrow>
          if trim_space userID = [] then (Inl ErrAccountChanged, s)
          else
            (case loadPersisted pr io s of
               (Inl e, s) \<Rightarrow> (Inl e, s)
             | (Inr p, s) \<Rightarrow>
                 (case EnsureSubscriptionAccountBinding (pr_hmac pr) p userID now rnd of
                    (Inl e, _, _) \<Rightarrow> (Inl e, s)
                  | (Inr _, candidate, _) \<Rightarrow>
                      (Inr \<lparr>plan_Generation = pst_Subscription candidate, plan_userID = userID,
                            plan_previous = pst_Subscription p\<rparr>, s))))"

text \<open>The callback of \<open>CommitRuntimeSnapshot\<close>.\<close>

definition commit_change ::
  "Prims \<Rightarrow> string \<Rightarrow> gotime \<Rightarrow> gotime \<Rightarrow> RuntimeCommitPlan \<Rightarrow> RuntimeSnapshot \<Rightarrow> PersistentState \<Rightarrow>
   go_error + PersistentState"
where
  "commit_change pr socksAddress now clock plan snapshot candidate =
     (if \<not> sameSubscriptionGeneration (pst_Subscription candidate) (plan_previous plan)
      then Inl ErrAccountChanged
      else
        try_bind (DeriveAccountBinding (pr_hmac pr) candidate (plan_userID plan)) (\<lambda>expectedBinding.
          if sub_AccountBinding (plan_Generation plan) \<noteq> expectedBinding then Inl ErrAccountChanged
          else
            let changedAccount = \<not> sameSubscriptionGeneration (pst_Subscription candidate) (plan_Generation plan);
                candidate = candidate\<lparr>pst_Subscription := plan_Generation plan\<rparr>;
                candidate = (if changedAccount
                  then candidate\<lparr>pst_LastGood := zero_LastGoodState, pst_ActiveSession := None\<rparr> else candidate)
            in try_bind (updateLastGood pr socksAddress now snapshot candidate) (\<lambda>candidate.
                 checked_state pr socksAddress clock (candidate\<lparr>pst_ActiveSession := Some snapshot\<rparr>))))"

text \<open>The aggregate before is what the returned rollback closes over.\<close>

definition CommitRuntimeSnapshot ::
  "Prims \<Rightarrow> go_error option \<Rightarrow> gotime \<Rightarrow> RuntimeCommitPlan \<Rightarrow> RuntimeSnapshot option \<Rightarrow> SqlIO \<Rightarrow> SubService \<Rightarrow>
   (go_error + PersistentState) \<times> SubService"
where
  "CommitRuntimeSnapshot pr ctx now plan snapshot io s =
     (case ctx of
        Some e \<Rightarrow> (Inl e, s)
      | None \<Rightarrow>
          (case snapshot of
             None \<Rightarrow> (Inl ErrAccountChanged, s)
           | Some snap \<Rightarrow>
               if \<not> ClientSessions_Valid (snap_Sessions snap)
                  \<or> ClientSessions_UserID (snap_Sessions snap) \<noteq> plan_userID plan
               then (Inl ErrAccountChanged, s)
               else
                 (case service_update pr io
                         (commit_change pr (srv_socksAddress s) now (io_now io) plan snap) s of
                    (Inl e, s) \<Rightarrow> (Inl e, s)
                  | (Inr (prior, after), s) \<Rightarrow> (Inr prior, primeCacheLocked pr after s))))"

text \<open>What the closures of \<open>PublishAccount\<close> and \<open>CommitRuntimeSnapshot\<close> do when they first run.\<close>

definition rollback_aggregate ::
  "Prims \<Rightarrow> SqlIO \<Rightarrow> PersistentState \<Rightarrow> SubService \<Rightarrow> (go_error + unit) \<times> SubService"
where
  "rollback_aggregate pr io prior s =
     (case service_save pr io prior s of
        (Inl e, s) \<Rightarrow> (Inl e, s)
      | (Inr _, s) \<Rightarrow> (Inr (), primeCacheLocked pr prior s))"

definition PublishSnapshot ::
  "Prims \<Rightarrow> gotime \<Rightarrow> RuntimeSnapshot option \<Rightarrow> SqlIO \<Rightarrow> SubService \<Rightarrow> go_error option \<times> SubService"
where
  "PublishSnapshot pr now snapshot io s =
     (case snapshot of
        None \<Rightarrow> (Some ErrNoEligibleLinks, s)
      | Some snap \<Rightarrow>
          (case service_update pr io (\<lambda>candidate.
                  try_bind (updateLastGood pr (srv_socksAddress s) now snap candidate)
                    (checked_state pr (srv_socksAddress s) (io_now io))) s of
             (Inl e, s) \<Rightarrow> (Some e, s)
           | (Inr (_, after), s) \<Rightarrow> (None, primeCacheLocked pr after s)))"

definition Service_Metadata :: "SubService \<Rightarrow> Metadata" where
  "Service_Metadata s =
     (let current = srv_cache s;
          active = (cs_body current \<noteq> []);
          fetchedExactBody = (cs_fetchedAt current \<noteq> time_zero
            \<and> cs_fetchedGeneration current = cs_generation current
            \<and> cs_fetchedBodyHash current = cs_bodyHash current)
      in \<lparr>md_Active = active, md_Generation = cs_generation current, md_NodeCount = cs_nodeCount current,
          md_LastFetchedAt = cs_fetchedAt current, md_LastFetchedGeneration = cs_fetchedGeneration current,
          md_ReloadRecommended = (active \<and> \<not> fetchedExactBody)\<rparr>)"

definition SubscriptionURL :: "string \<Rightarrow> SubService \<Rightarrow> go_error + string \<times> u64" where
  "SubscriptionURL baseURL s =
     (let current = srv_cache s in
      if cs_body current = [] \<or> cs_generation current = 0 then Inl ErrSubscriptionUnavailable
      else Inr (subscriptionURL baseURL (raw_url_encode (cs_binding current)), cs_generation current))"

section \<open>What a stored aggregate keeps\<close>

lemma stored_simps [simp]:
  "pst_InstallationID (stored p) = pst_InstallationID p"
  "pst_AccessTokenVerifier (stored p) = pst_AccessTokenVerifier p"
  "pst_Subscription (stored p) = pst_Subscription p" "pst_LastGood (stored p) = pst_LastGood p"
  "pst_ActiveSession (stored p) = map_option stored_snapshot (pst_ActiveSession p)"
  by (simp_all add: stored_def)

lemma primed_stored [simp]: "primed pr (stored p) = primed pr p"
  by (simp add: primed_def)

lemma validateRenderedState_None:
  "validateRenderedState pr addr t p = None \<longleftrightarrow>
     ValidatePersistentState (pr_hmac pr) (pr_parse_duration pr) t p = None
     \<and> (lg_RenderedSubscription (pst_LastGood p) = [] \<longrightarrow> emptyLastGood (pst_LastGood p))
     \<and> (lg_RenderedSubscription (pst_LastGood p) \<noteq> [] \<longrightarrow>
          rendered_from pr (pst_Subscription p) (pst_LastGood p)
          \<and> (\<exists>n. renderPersistedNodesAt pr (lg_Nodes (pst_LastGood p)) (pst_Subscription p) addr
                = Inr (lg_RenderedSubscription (pst_LastGood p), n)))
     \<and> (\<forall>active. pst_ActiveSession p = Some active \<longrightarrow>
          active_matches pr (pst_Subscription p) (pst_LastGood p) active)"
  by (cases "renderPersistedNodesAt pr (lg_Nodes (pst_LastGood p)) (pst_Subscription p) addr")
    (auto simp: validateRenderedState_def subscription_ValidatePersistentState_def Let_def
      split: option.splits if_splits)

lemma stored_node_Selector [simp]: "node_Selector (stored_node n) = node_Selector n"
  by (simp add: stored_node_def)

lemma active_matches_stored:
  assumes "gomap_ok (snap_Selectors active)" and "active_matches pr g lg active"
  shows "active_matches pr g lg (stored_snapshot active)"
proof -
  have m: "map_of (sorted_entries (snap_Selectors active)) = map_of (snap_Selectors active)"
    using assms(1) gomap_perm_lookup [of "snap_Selectors active" "sorted_entries (snap_Selectors active)"] by auto
  have "active_node_ok pr g nodes (sorted_entries (snap_Selectors active)) (stored_node n)
      = active_node_ok pr g nodes (snap_Selectors active) n" for nodes n
    by (simp add: active_node_ok_def stored_node_def m cong: option.case_cong sum.case_cong)
  then show ?thesis
    using assms(2) by (auto simp: active_matches_def stored_snapshot_def list_all_iff image_image)
qed

lemma rendered_stored:
  assumes "validateRenderedState pr addr t p = None" and "t \<le> t'" and "storable p"
  shows "validateRenderedState pr addr t' (stored p) = None"
proof -
  have v: "ValidatePersistentState (pr_hmac pr) (pr_parse_duration pr) t p = None"
    using assms(1) by (simp add: validateRenderedState_None)
  have "gomap_ok (snap_Selectors s)" if "pst_ActiveSession p = Some s" for s
    using assms(3) that by (simp add: storable_def snapshot_storable_def)
  then show ?thesis
    using assms(1) valid_stored [OF v assms(2)] active_matches_stored
    by (auto simp: validateRenderedState_None)
qed

lemma storable_stored:
  assumes "storable p"
  shows "storable (stored p)"
proof -
  have "distinct (sort (map fst (pref_ExcludedNodeIDs (pst_Preferences p))))"
    using assms by (simp add: storable_def gomap_ok_def)
  moreover have "snapshot_storable (stored_snapshot s)" if "snapshot_storable s" for s
    using that by (auto simp: snapshot_storable_def stored_snapshot_def list_all_iff node_storable_def stored_node_def)
  ultimately show ?thesis
    using assms by (auto simp: storable_def stored_def gomap_ok_def comp_def split: option.splits)
qed

section \<open>The invariant of the service\<close>

definition cache_of :: "Prims \<Rightarrow> PersistentState \<Rightarrow> cachedSubscription \<Rightarrow> bool" where
  "cache_of pr p cache \<longleftrightarrow> (\<exists>fetching. cache = (primed pr p)\<lparr>cs_fetching := fetching\<rparr>)"

text \<open>
  From the time \<open>t\<close> on the store holds \<open>p\<close>; the cache serves what \<open>p\<close> holds; and that is rendered
  for the address of the service.
\<close>

definition service_ok :: "Prims \<Rightarrow> gotime \<Rightarrow> PersistentState \<Rightarrow> SubService \<Rightarrow> bool" where
  "service_ok pr t p s \<longleftrightarrow>
     contains (pr_hmac pr) (pr_parse_duration pr) t p (srv_store s) \<and> storable p
     \<and> validateRenderedState pr (srv_socksAddress s) t p = None \<and> cache_of pr p (srv_cache s)"

definition clock_ok :: "gotime \<Rightarrow> SqlIO \<Rightarrow> bool" where
  "clock_ok t io \<longleftrightarrow> t \<le> io_now io \<and> nanos_ok (io_now io)"

lemma validate_later:
  assumes "contains (pr_hmac pr) (pr_parse_duration pr) t p st" and "t \<le> t'"
    and "validateRenderedState pr addr t p = None"
  shows "validateRenderedState pr addr t' p = None"
  using assms(3) store.contains_valid [OF assms(1,2)] store.contains_valid [OF assms(1) order_refl]
  by (simp add: validateRenderedState_None)

lemma service_ok_later: "service_ok pr t p s \<Longrightarrow> t \<le> t' \<Longrightarrow> service_ok pr t' p s"
  using validate_later store.contains_later by (fastforce simp: service_ok_def)

lemma prime_cache [simp]:
  "srv_store (primeCacheLocked pr p s) = srv_store s"
  "srv_socksAddress (primeCacheLocked pr p s) = srv_socksAddress s"
  "cache_of pr p (srv_cache (primeCacheLocked pr p s))"
proof -
  have "\<exists>b. primed pr p = (primed pr p)\<lparr>cs_fetching := b\<rparr>"
    by (rule exI [of _ "cs_fetching (primed pr p)"]) simp
  then show "cache_of pr p (srv_cache (primeCacheLocked pr p s))"
    unfolding cache_of_def primeCacheLocked_def Let_def by auto
qed (simp_all add: primeCacheLocked_def Let_def)

lemma cache_of_stored [simp]: "cache_of pr (stored p) = cache_of pr p"
  by (simp add: cache_of_def fun_eq_iff)

lemma service_update_cases:
  assumes c: "contains (pr_hmac pr) (pr_parse_duration pr) t p (srv_store s)" and clock: "clock_ok t io"
    and u: "service_update pr io change s = (r, s')"
  obtains e where "r = Inl e" "s' = s"
  | q where "r = Inr (p, q)" "change p = Inr q"
      "ValidatePersistentState (pr_hmac pr) (pr_parse_duration pr) (io_now io) q = None"
      "srv_cache s' = srv_cache s" "srv_socksAddress s' = srv_socksAddress s"
      "storable q \<longrightarrow> contains (pr_hmac pr) (pr_parse_duration pr) (io_now io) (stored q) (srv_store s')"
proof -
  obtain st' where st: "Store_Update (pr_hmac pr) (pr_parse_duration pr) io (\<lambda>p. (p, change p)) (srv_store s) = (r, st')"
    and s': "s' = s\<lparr>srv_store := st'\<rparr>"
    using u by (auto simp: service_update_def split: prod.splits)
  have t: "t \<le> io_now io" "nanos_ok (io_now io)" using clock by (auto simp: clock_ok_def)
  show thesis
    by (rule store.update_cases [OF c t st]) (use that s' in auto)
qed

lemma service_load_cases:
  assumes c: "contains (pr_hmac pr) (pr_parse_duration pr) t p (srv_store s)" and clock: "clock_ok t io"
    and l: "loadPersisted pr io s = (r, s')"
  obtains e where "r = Inl e" "s' = s"
  | "r = Inr p" "contains (pr_hmac pr) (pr_parse_duration pr) (io_now io) p (srv_store s')"
      "srv_cache s' = srv_cache s" "srv_socksAddress s' = srv_socksAddress s"
proof -
  obtain st' where st: "Store_Load (pr_hmac pr) (pr_parse_duration pr) io (srv_store s) = (r, st')"
    and s': "s' = s\<lparr>srv_store := st'\<rparr>"
    using l by (auto simp: loadPersisted_def split: prod.splits)
  have t: "t \<le> io_now io" "nanos_ok (io_now io)" using clock by (auto simp: clock_ok_def)
  show thesis
  proof (cases r)
    case (Inl e)
    then show thesis using that(1) store.load_fails [OF c] st s' by auto
  next
    case (Inr q)
    then show thesis using that(2) store.load_reads [OF c t] st s' by auto
  qed
qed

section \<open>Every operation keeps the invariant\<close>

lemma primed_service_ok:
  assumes "contains (pr_hmac pr) (pr_parse_duration pr) t (stored q) (srv_store s)" and "storable q"
    and "validateRenderedState pr (srv_socksAddress s) t q = None"
  shows "service_ok pr t (stored q) (primeCacheLocked pr q s)"
  using assms rendered_stored [OF assms(3) order_refl assms(2)] storable_stored [OF assms(2)]
    prime_cache(3) [of pr q s]
  by (simp add: service_ok_def)

lemma checked_state_Inr:
  "checked_state pr addr t p = Inr q \<longleftrightarrow> q = p \<and> validateRenderedState pr addr t p = None"
  by (auto simp: checked_state_def split: option.splits)

lemma publish_ok:
  assumes ok: "service_ok pr t p s" and clock: "clock_ok t io"
    and "PublishSnapshot pr now snapshot io s = (r, s')"
    and "\<And>q snap. snapshot = Some snap \<Longrightarrow> updateLastGood pr (srv_socksAddress s) now snap p = Inr q \<Longrightarrow> storable q"
  shows "(r \<noteq> None \<longrightarrow> s' = s)
    \<and> (r = None \<longrightarrow> (\<exists>snap q. snapshot = Some snap \<and> updateLastGood pr (srv_socksAddress s) now snap p = Inr q
         \<and> service_ok pr (io_now io) (stored q) s'))"
proof (cases snapshot)
  case None
  then show ?thesis using assms(3) by (auto simp: PublishSnapshot_def)
next
  case (Some snap)
  let ?change = "\<lambda>candidate. try_bind (updateLastGood pr (srv_socksAddress s) now snap candidate)
      (checked_state pr (srv_socksAddress s) (io_now io))"
  obtain r1 s1 where u: "service_update pr io ?change s = (r1, s1)" by (metis surj_pair)
  show ?thesis
  proof (rule service_update_cases [OF _ clock u])
    show "contains (pr_hmac pr) (pr_parse_duration pr) t p (srv_store s)" using ok by (simp add: service_ok_def)
  next
    fix e assume "r1 = Inl e" "s1 = s"
    then show ?thesis using assms(3) u by (auto simp: PublishSnapshot_def Some)
  next
    fix q assume q: "r1 = Inr (p, q)" "?change p = Inr q" "srv_socksAddress s1 = srv_socksAddress s"
      "storable q \<longrightarrow> contains (pr_hmac pr) (pr_parse_duration pr) (io_now io) (stored q) (srv_store s1)"
    then have "updateLastGood pr (srv_socksAddress s) now snap p = Inr q"
      "validateRenderedState pr (srv_socksAddress s) (io_now io) q = None"
      by (auto simp: checked_state_Inr)
    moreover from this have "service_ok pr (io_now io) (stored q) (primeCacheLocked pr q s1)"
      using q assms(4) [OF Some] primed_service_ok by metis
    ultimately show ?thesis using assms(3) u q(1) by (auto simp: PublishSnapshot_def Some)
  qed
qed

lemma commit_ok:
  assumes ok: "service_ok pr t p s" and clock: "clock_ok t io"
    and "CommitRuntimeSnapshot pr ctx now plan snapshot io s = (r, s')"
    and "\<And>q snap. snapshot = Some snap \<Longrightarrow>
      commit_change pr (srv_socksAddress s) now (io_now io) plan snap p = Inr q \<Longrightarrow> storable q"
  shows "(\<forall>e. r = Inl e \<longrightarrow> s' = s)
    \<and> (\<forall>prior. r = Inr prior \<longrightarrow> prior = p \<and> (\<exists>snap q. snapshot = Some snap
         \<and> ClientSessions_Valid (snap_Sessions snap) \<and> ClientSessions_UserID (snap_Sessions snap) = plan_userID plan
         \<and> commit_change pr (srv_socksAddress s) now (io_now io) plan snap p = Inr q
         \<and> service_ok pr (io_now io) (stored q) s' \<and> srv_socksAddress s' = srv_socksAddress s))"
proof (cases "\<exists>snap. ctx = None \<and> snapshot = Some snap \<and> ClientSessions_Valid (snap_Sessions snap)
    \<and> ClientSessions_UserID (snap_Sessions snap) = plan_userID plan")
  case False
  then show ?thesis using assms(3) by (auto simp: CommitRuntimeSnapshot_def split: option.splits if_splits)
next
  case True
  then obtain snap where snap: "ctx = None" "snapshot = Some snap" "ClientSessions_Valid (snap_Sessions snap)"
    "ClientSessions_UserID (snap_Sessions snap) = plan_userID plan" by blast
  let ?change = "commit_change pr (srv_socksAddress s) now (io_now io) plan snap"
  obtain r1 s1 where u: "service_update pr io ?change s = (r1, s1)" by (metis surj_pair)
  show ?thesis
  proof (rule service_update_cases [OF _ clock u])
    show "contains (pr_hmac pr) (pr_parse_duration pr) t p (srv_store s)" using ok by (simp add: service_ok_def)
  next
    fix e assume "r1 = Inl e" "s1 = s"
    then show ?thesis using assms(3) u snap by (auto simp: CommitRuntimeSnapshot_def)
  next
    fix q assume q: "r1 = Inr (p, q)" "?change p = Inr q" "srv_socksAddress s1 = srv_socksAddress s"
      "storable q \<longrightarrow> contains (pr_hmac pr) (pr_parse_duration pr) (io_now io) (stored q) (srv_store s1)"
    then have "validateRenderedState pr (srv_socksAddress s) (io_now io) q = None"
      by (auto simp: commit_change_def Let_def checked_state_Inr split: if_splits)
    then have "service_ok pr (io_now io) (stored q) (primeCacheLocked pr q s1)"
      using q assms(4) [OF snap(2)] primed_service_ok by metis
    then show ?thesis using assms(3) u q snap by (auto simp: CommitRuntimeSnapshot_def)
  qed
qed

lemma rollback_ok:
  assumes ok: "service_ok pr t p s" and clock: "clock_ok t io"
    and "rollback_aggregate pr io prior s = (r, s')" and "storable prior"
    and "validateRenderedState pr (srv_socksAddress s) (io_now io) prior = None"
  shows "case r of Inl _ \<Rightarrow> s' = s | Inr _ \<Rightarrow> service_ok pr (io_now io) (stored prior) s'"
proof -
  obtain r1 st where sv: "Store_Save (pr_hmac pr) (pr_parse_duration pr) io prior (srv_store s) = (r1, st)"
    by (metis surj_pair)
  have c: "contains (pr_hmac pr) (pr_parse_duration pr) t p (srv_store s)" using ok by (simp add: service_ok_def)
  show ?thesis
  proof (cases r1)
    case (Inl e)
    then show ?thesis using assms(3) sv store.save_fails [OF c] by (auto simp: rollback_aggregate_def service_save_def)
  next
    case (Inr u)
    have "contains (pr_hmac pr) (pr_parse_duration pr) (io_now io) (stored prior) st"
      using store.save_stores [OF c] clock sv Inr assms(4) by (simp add: clock_ok_def)
    then have "service_ok pr (io_now io) (stored prior) (primeCacheLocked pr prior (s\<lparr>srv_store := st\<rparr>))"
      using assms(4,5) by (intro primed_service_ok) simp_all
    then show ?thesis using assms(3) sv Inr by (auto simp: rollback_aggregate_def service_save_def)
  qed
qed

section \<open>Adopting an address\<close>

lemma reconcile_cases:
  assumes "reconcileListenerAddress pr addr p = Inr (q, changed)"
  obtains "q = p" "\<not> changed" "lg_RenderedSubscription (pst_LastGood p) = []"
  | n where "q = p" "\<not> changed" "lg_RenderedSubscription (pst_LastGood p) \<noteq> []"
      "renderPersistedNodesAt pr (lg_Nodes (pst_LastGood p)) (pst_Subscription p) addr
         = Inr (lg_RenderedSubscription (pst_LastGood p), n)"
  | body n where "changed" "lg_RenderedSubscription (pst_LastGood p) \<noteq> []"
      "renderPersistedNodesAt pr (lg_Nodes (pst_LastGood p)) (pst_Subscription p) addr = Inr (body, n)"
      "matchesRenderedAtAddress pr (lg_RenderedSubscription (pst_LastGood p)) (lg_Nodes (pst_LastGood p))
         (pst_Subscription p)"
      "q = p\<lparr>pst_LastGood := forget_fetch ((pst_LastGood p)\<lparr>lg_RenderedSubscription := body\<rparr>)\<rparr>"
proof (cases "lg_RenderedSubscription (pst_LastGood p) = []")
  case True
  then show thesis using assms that(1) by (simp add: reconcileListenerAddress_def split: if_splits)
next
  case ne: False
  show thesis
  proof (cases "renderPersistedNodesAt pr (lg_Nodes (pst_LastGood p)) (pst_Subscription p) addr")
    case (Inl e)
    then show thesis using assms ne by (simp add: reconcileListenerAddress_def Let_def split: if_splits)
  next
    case (Inr bn)
    obtain body n where bn: "bn = (body, n)" by (cases bn)
    note eq = Inr [unfolded bn]
    show thesis
    proof (cases "body = lg_RenderedSubscription (pst_LastGood p)")
      case True
      have "q = p \<and> \<not> changed"
        using assms ne eq True by (simp add: reconcileListenerAddress_def Let_def split: if_splits)
      then show thesis using that(2) ne eq True by simp
    next
      case False
      then show thesis
        using assms ne eq by (intro that(3)) (auto simp: reconcileListenerAddress_def Let_def split: if_splits)
    qed
  qed
qed

lemma forget_fetch_simps [simp]:
  "lg_RenderedSubscription (forget_fetch lg) = lg_RenderedSubscription lg"
  "lg_Nodes (forget_fetch lg) = lg_Nodes lg" "lg_Generation (forget_fetch lg) = lg_Generation lg"
  "lg_CreatedAt (forget_fetch lg) = lg_CreatedAt lg" "lg_FetchedAt (forget_fetch lg) = time_zero"
  "lg_FetchedGeneration (forget_fetch lg) = 0" "lg_FetchedBodyHash (forget_fetch lg) = []"
  by (simp_all add: forget_fetch_def)

lemma rendered_nonempty:
  assumes "renderPersistedNodesAt pr nodes g addr = Inr (body, n)"
  shows "body \<noteq> []"
proof
  assume "body = []"
  moreover obtain links where "Render links addr = Inr (body, n)"
    using assms by (auto simp: renderPersistedNodesAt_def renderPersistedNodesAtWithLegacyExclusions_def)
  ultimately obtain a where "renderedSubscriptionAddress [] = Inr a" using render_reads_back by blast
  moreover have "\<not> is_ok (renderedSubscriptionAddress [])" by code_simp
  ultimately show False by simp
qed

lemma rendered_again:
  assumes "rendered_from pr g lg" and "renderPersistedNodesAt pr (lg_Nodes lg) g addr = Inr (body, n)"
    and "lg_Nodes lg' = lg_Nodes lg" "lg_Generation lg' = lg_Generation lg" "lg_RenderedSubscription lg' = body"
  shows "rendered_from pr g lg'"
proof -
  obtain links where links: "persisted_links pr g False (lg_Nodes lg) = Inr links" "Render links addr = Inr (body, n)"
    using assms(2) by (auto simp: renderPersistedNodesAt_def renderPersistedNodesAtWithLegacyExclusions_def)
  have sel: "map lk_Selector links = map pnode_Selector (lg_Nodes lg)"
    using assms(1) links(1) by (auto simp: rendered_from_def checked_links_def split: if_splits sum.splits)
  obtain host port where "renderedSubscriptionAddress body = Inr (JoinHostPort host port)"
      "Render links (JoinHostPort host port) = Inr (body, n)"
    using render_reads_back [OF links(2)] by auto
  then show ?thesis
    using assms links(1) sel by (auto simp: rendered_from_def checked_links_def split: if_splits)
qed

lemma reconciled_valid:
  assumes "validateRenderedState pr addr' t p = None" and "reconcileListenerAddress pr addr p = Inr (q, changed)"
    and "ValidatePersistentState (pr_hmac pr) (pr_parse_duration pr) t' q = None"
  shows "validateRenderedState pr addr t' q = None"
  using assms(2)
proof (cases rule: reconcile_cases)
  case (3 body n)
  have body: "body \<noteq> []" by (rule rendered_nonempty [OF 3(3)])
  have "rendered_from pr (pst_Subscription p) (pst_LastGood q)"
    by (rule rendered_again [OF _ 3(3)]) (use assms(1) 3 in \<open>auto simp: validateRenderedState_None\<close>)
  then show ?thesis
    using assms(1,3) 3 body by (auto simp: validateRenderedState_None active_matches_def)
qed (use assms(1,3) in \<open>auto simp: validateRenderedState_None\<close>)

lemma reconciled_storable:
  assumes "storable p" and "reconcileListenerAddress pr addr p = Inr (q, changed)"
  shows "storable q"
  using assms(2,1)
  by (cases rule: reconcile_cases) (auto simp: storable_def split: option.splits)

lemma adopt_cases:
  assumes c: "contains (pr_hmac pr) (pr_parse_duration pr) t p (srv_store s)" and "storable p"
    and clock: "clock_ok t io" and a: "adopt_address pr io p s = (r, s')"
  obtains e where "r = Some (e, True)" "s' = s"
  | q changed e where "r = Some (e, False)" "reconcileListenerAddress pr (srv_socksAddress s) p = Inr (q, changed)"
      "ValidatePersistentState (pr_hmac pr) (pr_parse_duration pr) (io_now io) q = None"
      "validateRenderedState pr (srv_socksAddress s) (io_now io) q \<noteq> None"
  | q changed where "r = None" "reconcileListenerAddress pr (srv_socksAddress s) p = Inr (q, changed)"
      "service_ok pr (io_now io) (if changed then stored q else p) s'" "srv_socksAddress s' = srv_socksAddress s"
proof (cases "reconcileListenerAddress pr (srv_socksAddress s) p")
  case (Inl e)
  then show thesis using that(1) a by (auto simp: adopt_address_def)
next
  case (Inr qc)
  obtain q changed where qc: "qc = (q, changed)" by (cases qc)
  note rec = Inr [unfolded qc]
  show thesis
  proof (cases changed)
    case False
    have qp: "q = p" using rec by (cases rule: reconcile_cases) (use False in auto)
    have later: "contains (pr_hmac pr) (pr_parse_duration pr) (io_now io) p (srv_store s)"
      using store.contains_later [OF c] clock by (simp add: clock_ok_def)
    have valid: "ValidatePersistentState (pr_hmac pr) (pr_parse_duration pr) (io_now io) p = None"
      using store.contains_valid [OF c] clock by (simp add: clock_ok_def)
    show thesis
    proof (cases "validateRenderedState pr (srv_socksAddress s) (io_now io) p")
      case None
      then have "service_ok pr (io_now io) p (primeCacheLocked pr p s)"
        using later assms(2) by (simp add: service_ok_def)
      then show thesis using that(3) [OF _ rec] a rec False None by (auto simp: adopt_address_def qp)
    next
      case (Some e)
      then show thesis using that(2) [OF _ rec] valid a rec False by (auto simp: adopt_address_def qp)
    qed
  next
    case True
    obtain r1 s1 where u: "service_update pr io (repair pr (srv_socksAddress s)) s = (r1, s1)" by (metis surj_pair)
    show thesis
    proof (rule service_update_cases [OF c clock u])
      fix e assume "r1 = Inl e" "s1 = s"
      then show thesis using that(1) a u rec True by (auto simp: adopt_address_def)
    next
      fix x assume x: "r1 = Inr (p, x)" "repair pr (srv_socksAddress s) p = Inr x"
        "ValidatePersistentState (pr_hmac pr) (pr_parse_duration pr) (io_now io) x = None"
        "srv_socksAddress s1 = srv_socksAddress s"
        "storable x \<longrightarrow> contains (pr_hmac pr) (pr_parse_duration pr) (io_now io) (stored x) (srv_store s1)"
      then have xq: "x = q" using rec True by (simp add: repair_def)
      have st: "storable q" by (rule reconciled_storable [OF assms(2) rec])
      show thesis
      proof (cases "validateRenderedState pr (srv_socksAddress s) (io_now io) q")
        case None
        then have "service_ok pr (io_now io) (stored q) (primeCacheLocked pr q s1)"
          using x st primed_service_ok by (metis xq)
        then show thesis using that(3) [OF _ rec] a u x rec True None by (auto simp: adopt_address_def xq)
      next
        case (Some e)
        then show thesis using that(2) [OF _ rec] a u x rec True by (auto simp: adopt_address_def xq)
      qed
    qed
  qed
qed

lemma set_address_ok:
  assumes ok: "service_ok pr t p s" and clock: "clock_ok t io" and clock': "clock_ok (io_now io) io'"
    and set: "SetSocksAddress pr io io' addr s = (r, s')"
  shows "\<exists>q. service_ok pr (io_now io') q s' \<and> pst_Subscription q = pst_Subscription p
    \<and> lg_Nodes (pst_LastGood q) = lg_Nodes (pst_LastGood p)
    \<and> (if r = None then srv_socksAddress s' = addr
       else srv_socksAddress s' = srv_socksAddress s \<and> srv_cache s' = srv_cache s \<and> q = p)"
proof -
  have le: "t \<le> io_now io" "io_now io \<le> io_now io'" using clock clock' by (auto simp: clock_ok_def)
  have later: "service_ok pr (io_now io') p s" using service_ok_later [OF ok] le by simp
  show ?thesis
  proof (cases "validateAddress addr = None \<and> srv_socksAddress s \<noteq> addr")
    case False
    then show ?thesis using set later by (auto simp: SetSocksAddress_def split: option.splits if_splits)
  next
    case True
    obtain r1 s1 where l: "loadPersisted pr io s = (r1, s1)" by (metis surj_pair)
    show ?thesis
    proof (rule service_load_cases [OF _ clock l])
      show "contains (pr_hmac pr) (pr_parse_duration pr) t p (srv_store s)" using ok by (simp add: service_ok_def)
    next
      fix e assume "r1 = Inl e" "s1 = s"
      then show ?thesis using set True l later by (auto simp: SetSocksAddress_def)
    next
      assume r1: "r1 = Inr p" and c: "contains (pr_hmac pr) (pr_parse_duration pr) (io_now io) p (srv_store s1)"
        and same: "srv_cache s1 = srv_cache s" "srv_socksAddress s1 = srv_socksAddress s"
      let ?s = "s1\<lparr>srv_socksAddress := addr\<rparr>"
      obtain r2 s2 where a: "adopt_address pr io' p ?s = (r2, s2)" by (metis surj_pair)
      have st: "storable p" using ok by (simp add: service_ok_def)
      have c': "contains (pr_hmac pr) (pr_parse_duration pr) (io_now io) p (srv_store ?s)" using c by simp
      show ?thesis
      proof (rule adopt_cases [OF c' st clock' a])
        fix e assume "r2 = Some (e, True)" "s2 = ?s"
        then have "r = Some e \<and> s' = s1"
          using set True l r1 a same by (auto simp: SetSocksAddress_def)
        moreover have "service_ok pr (io_now io') p s1"
          using service_ok_later [of pr "io_now io" p s1 "io_now io'"] c st same ok le
            validate_later [of pr t p "srv_store s" "io_now io"] by (auto simp: service_ok_def)
        ultimately show ?thesis using same by auto
      next
        fix q changed e
        assume "reconcileListenerAddress pr (srv_socksAddress ?s) p = Inr (q, changed)"
          "ValidatePersistentState (pr_hmac pr) (pr_parse_duration pr) (io_now io') q = None"
          "validateRenderedState pr (srv_socksAddress ?s) (io_now io') q \<noteq> None"
        then show ?thesis using reconciled_valid ok by (metis service_ok_def)
      next
        fix q changed
        assume q: "r2 = None" "reconcileListenerAddress pr (srv_socksAddress ?s) p = Inr (q, changed)"
          "service_ok pr (io_now io') (if changed then stored q else p) s2" "srv_socksAddress s2 = srv_socksAddress ?s"
        have "pst_Subscription q = pst_Subscription p" "lg_Nodes (pst_LastGood q) = lg_Nodes (pst_LastGood p)"
          using q(2) by (cases rule: reconcile_cases; simp)+
        moreover have "r = None \<and> s' = s2" using set True l r1 a q(1) by (auto simp: SetSocksAddress_def)
        ultimately show ?thesis using q by (intro exI [of _ "if changed then stored q else p"]) auto
      qed
    qed
  qed
qed

section \<open>What a commit stores\<close>

definition generation_storable :: "SubscriptionGeneration \<Rightarrow> bool" where
  "generation_storable g \<longleftrightarrow> unat (sub_Generation g) < 2 ^ 63 \<and> nanos_ok (sub_ActivatedAt g)"

lemma updateLastGood_Inr:
  assumes "updateLastGood pr addr now snap p = Inr q"
  obtains body n nodes where "renderNodes pr addr (snap_Nodes snap) (pst_Subscription p) = Inr (body, n, nodes)"
    "lg_RenderedSubscription (pst_LastGood q) = body" "lg_Nodes (pst_LastGood q) = nodes"
    "lg_Generation (pst_LastGood q) = sub_Generation (pst_Subscription p)"
    "q = p\<lparr>pst_LastGood := pst_LastGood q\<rparr>"
    "lg_CreatedAt (pst_LastGood q) \<in> {lg_CreatedAt (pst_LastGood p), now}"
    "lg_FetchedAt (pst_LastGood q) \<in> {lg_FetchedAt (pst_LastGood p), time_zero}"
    "lg_FetchedGeneration (pst_LastGood q) \<in> {lg_FetchedGeneration (pst_LastGood p), 0}"
proof -
  obtain body n nodes where r: "renderNodes pr addr (snap_Nodes snap) (pst_Subscription p) = Inr (body, n, nodes)"
    using assms by (auto simp: updateLastGood_def try_bind_eq_Inr split: if_splits)
  show thesis
    by (rule that [OF r]) (use assms r in \<open>auto simp: updateLastGood_def Let_def split: if_splits\<close>)
qed

lemma commit_change_Inr:
  assumes "commit_change pr addr now clock plan snap p = Inr q"
  obtains body n nodes where "sameSubscriptionGeneration (pst_Subscription p) (plan_previous plan)"
    "DeriveAccountBinding (pr_hmac pr) p (plan_userID plan) = Inr (sub_AccountBinding (plan_Generation plan))"
    "renderNodes pr addr (snap_Nodes snap) (plan_Generation plan) = Inr (body, n, nodes)"
    "lg_RenderedSubscription (pst_LastGood q) = body" "lg_Nodes (pst_LastGood q) = nodes"
    "lg_Generation (pst_LastGood q) = sub_Generation (plan_Generation plan)"
    "q = p\<lparr>pst_Subscription := plan_Generation plan, pst_LastGood := pst_LastGood q, pst_ActiveSession := Some snap\<rparr>"
    "lg_CreatedAt (pst_LastGood q) \<in> {lg_CreatedAt (pst_LastGood p), time_zero, now}"
    "lg_FetchedAt (pst_LastGood q) \<in> {lg_FetchedAt (pst_LastGood p), time_zero}"
    "lg_FetchedGeneration (pst_LastGood q) \<in> {lg_FetchedGeneration (pst_LastGood p), 0}"
    "validateRenderedState pr addr clock q = None"
proof -
  let ?lg = "if sameSubscriptionGeneration (pst_Subscription p) (plan_Generation plan) then pst_LastGood p
      else zero_LastGoodState"
  let ?as = "if sameSubscriptionGeneration (pst_Subscription p) (plan_Generation plan) then pst_ActiveSession p else None"
  let ?c = "p\<lparr>pst_Subscription := plan_Generation plan, pst_LastGood := ?lg, pst_ActiveSession := ?as\<rparr>"
  obtain c where c: "updateLastGood pr addr now snap ?c = Inr c" and q: "q = c\<lparr>pst_ActiveSession := Some snap\<rparr>"
    and v: "validateRenderedState pr addr clock q = None"
    and g: "sameSubscriptionGeneration (pst_Subscription p) (plan_previous plan)"
      "DeriveAccountBinding (pr_hmac pr) p (plan_userID plan) = Inr (sub_AccountBinding (plan_Generation plan))"
    using assms by (auto simp: commit_change_def Let_def try_bind_eq_Inr checked_state_Inr split: if_splits)
  have z: "lg_CreatedAt zero_LastGoodState = time_zero" "lg_FetchedAt zero_LastGoodState = time_zero"
    "lg_FetchedGeneration zero_LastGoodState = 0" by (simp_all add: zero_LastGoodState_def)
  show thesis
  proof (rule updateLastGood_Inr [OF c])
    fix body n nodes
    assume r: "renderNodes pr addr (snap_Nodes snap) (pst_Subscription ?c) = Inr (body, n, nodes)"
      and lg: "lg_RenderedSubscription (pst_LastGood c) = body" "lg_Nodes (pst_LastGood c) = nodes"
        "lg_Generation (pst_LastGood c) = sub_Generation (pst_Subscription ?c)"
        "lg_CreatedAt (pst_LastGood c) \<in> {lg_CreatedAt (pst_LastGood ?c), now}"
        "lg_FetchedAt (pst_LastGood c) \<in> {lg_FetchedAt (pst_LastGood ?c), time_zero}"
        "lg_FetchedGeneration (pst_LastGood c) \<in> {lg_FetchedGeneration (pst_LastGood ?c), 0}"
      and eq: "c = ?c\<lparr>pst_LastGood := pst_LastGood c\<rparr>"
    have "q = p\<lparr>pst_Subscription := plan_Generation plan, pst_LastGood := pst_LastGood q, pst_ActiveSession := Some snap\<rparr>"
      unfolding q by (subst eq) simp
    note q_eq = this
    have lg_eq: "pst_LastGood q = pst_LastGood c" by (simp add: q)
    show thesis
    proof (rule that [OF g _ _ _ _ q_eq])
      show "renderNodes pr addr (snap_Nodes snap) (plan_Generation plan) = Inr (body, n, nodes)" using r by simp
    qed (use lg v z in \<open>auto simp: lg_eq split: if_splits\<close>)
  qed
qed

lemma commit_change_storable:
  assumes "commit_change pr addr now clock plan snap p = Inr q" and "storable p" and "nanos_ok now"
    and "snapshot_storable snap" and "generation_storable (plan_Generation plan)"
  shows "storable q"
proof (rule commit_change_Inr [OF assms(1)])
  assume q: "q = p\<lparr>pst_Subscription := plan_Generation plan, pst_LastGood := pst_LastGood q, pst_ActiveSession := Some snap\<rparr>"
    and lg: "lg_Generation (pst_LastGood q) = sub_Generation (plan_Generation plan)"
      "lg_CreatedAt (pst_LastGood q) \<in> {lg_CreatedAt (pst_LastGood p), time_zero, now}"
      "lg_FetchedAt (pst_LastGood q) \<in> {lg_FetchedAt (pst_LastGood p), time_zero}"
      "lg_FetchedGeneration (pst_LastGood q) \<in> {lg_FetchedGeneration (pst_LastGood p), 0}"
  have "pst_Subscription q = plan_Generation plan" "pst_ActiveSession q = Some snap"
    "pst_Preferences q = pst_Preferences p"
    by (subst q, simp)+
  then show ?thesis using assms(2-) lg by (auto simp: storable_def generation_storable_def)
qed

lemma commit_completes:
  assumes "service_ok pr t p s" and "clock_ok t io" and "no_fault io"
    and "ClientSessions_Valid (snap_Sessions snap)" "ClientSessions_UserID (snap_Sessions snap) = plan_userID plan"
    and "commit_change pr (srv_socksAddress s) now (io_now io) plan snap p = Inr q" and "storable q"
  shows "is_ok (fst (CommitRuntimeSnapshot pr None now plan (Some snap) io s))"
proof -
  let ?change = "commit_change pr (srv_socksAddress s) now (io_now io) plan snap"
  have "ValidatePersistentState (pr_hmac pr) (pr_parse_duration pr) (io_now io) q = None"
    by (rule commit_change_Inr [OF assms(6)]) (simp add: validateRenderedState_None)
  then have "fst (service_update pr io ?change s) = Inr (p, q)"
    using store.update_completes [of "pr_hmac pr" "pr_parse_duration pr" t p "srv_store s" io "\<lambda>p. (p, ?change p)" p q] assms
    by (auto simp: service_update_def service_ok_def clock_ok_def split: prod.splits)
  then show ?thesis using assms(4,5)
    by (cases "service_update pr io ?change s") (simp add: CommitRuntimeSnapshot_def is_ok_def)
qed

lemma commit_stores:
  assumes ok: "service_ok pr t p s" and "clock_ok t io" and "nanos_ok now"
    and "CommitRuntimeSnapshot pr ctx now plan (Some snap) io s = (r, s')"
    and "snapshot_storable snap" and "generation_storable (plan_Generation plan)"
  shows "r = Inl e \<Longrightarrow> s' = s"
    and "r = Inr prior \<Longrightarrow> prior = p \<and> ctx = None \<and> srv_socksAddress s' = srv_socksAddress s
         \<and> ClientSessions_Valid (snap_Sessions snap) \<and> ClientSessions_UserID (snap_Sessions snap) = plan_userID plan
         \<and> (\<exists>q. commit_change pr (srv_socksAddress s) now (io_now io) plan snap p = Inr q \<and> storable q
              \<and> service_ok pr (io_now io) (stored q) s')"
proof -
  have st: "storable p" using ok by (simp add: service_ok_def)
  have stq: "storable q" if "commit_change pr (srv_socksAddress s) now (io_now io) plan snap p = Inr q" for q
    by (rule commit_change_storable [OF that st assms(3,5,6)])
  note commit = commit_ok [OF ok assms(2,4)]
  show "r = Inl e \<Longrightarrow> s' = s" using commit stq by blast
  assume r: "r = Inr prior"
  then have "ctx = None" using assms(4) by (auto simp: CommitRuntimeSnapshot_def split: option.splits)
  moreover have "\<forall>before. r = Inr before \<longrightarrow> before = p \<and> (\<exists>snapa q. Some snap = Some snapa
         \<and> ClientSessions_Valid (snap_Sessions snapa) \<and> ClientSessions_UserID (snap_Sessions snapa) = plan_userID plan
         \<and> commit_change pr (srv_socksAddress s) now (io_now io) plan snapa p = Inr q
         \<and> service_ok pr (io_now io) (stored q) s' \<and> srv_socksAddress s' = srv_socksAddress s)"
    using commit stq by blast
  ultimately show "prior = p \<and> ctx = None \<and> srv_socksAddress s' = srv_socksAddress s
         \<and> ClientSessions_Valid (snap_Sessions snap) \<and> ClientSessions_UserID (snap_Sessions snap) = plan_userID plan
         \<and> (\<exists>q. commit_change pr (srv_socksAddress s) now (io_now io) plan snap p = Inr q \<and> storable q
              \<and> service_ok pr (io_now io) (stored q) s')"
    using r stq by auto
qed


text \<open>
  The compensation of a commit restores what was there. When the rollback that a commit returned
  is run and does not fail, the store holds exactly the aggregate from before the commit again and the
  cache serves that; when it fails it changes nothing.
\<close>

theorem commit_undone:
  assumes "service_ok pr t p s" and "clock_ok t io" and "nanos_ok now"
    and "CommitRuntimeSnapshot pr ctx now plan (Some snap) io s = (Inr prior, s1)"
    and "snapshot_storable snap" and "generation_storable (plan_Generation plan)"
    and "clock_ok (io_now io) io'" and "rollback_aggregate pr io' prior s1 = (r, s2)"
  shows "case r of Inl _ \<Rightarrow> s2 = s1
    | Inr _ \<Rightarrow> service_ok pr (io_now io') (stored p) s2 \<and> srv_socksAddress s2 = srv_socksAddress s"
proof -
  have st: "storable p" and v: "validateRenderedState pr (srv_socksAddress s) t p = None"
    and c: "contains (pr_hmac pr) (pr_parse_duration pr) t p (srv_store s)"
    using assms(1) by (simp_all add: service_ok_def)
  from commit_stores(2) [OF assms(1-6) refl] obtain q
    where q: "prior = p" "service_ok pr (io_now io) (stored q) s1" "srv_socksAddress s1 = srv_socksAddress s"
    by blast
  have le: "t \<le> io_now io'" using assms(2,7) by (auto simp: clock_ok_def)
  have "case r of Inl _ \<Rightarrow> s2 = s1 | Inr _ \<Rightarrow> service_ok pr (io_now io') (stored prior) s2"
    by (rule rollback_ok [OF q(2) assms(7,8)]) (use q st validate_later [OF c le v] in simp_all)
  moreover have "srv_socksAddress s2 = srv_socksAddress s"
    using assms(8) q(3) by (auto simp: rollback_aggregate_def service_save_def split: prod.splits sum.splits)
  ultimately show ?thesis using q(1) by (auto split: sum.splits)
qed

section \<open>A concrete service\<close>

definition svc_prims :: Prims where
  "svc_prims = \<lparr>pr_hmac = demo_hmac, pr_idna = demo_idna, pr_sha256 = (\<lambda>b. take 32 (b @ replicate 32 0)),
     pr_parse_duration = (\<lambda>_. Inr hour)\<rparr>"

definition svc_session :: SessionSecrets where
  "svc_session = \<lparr>sess_UserID = ''alice'', sess_LoginToken = ''l'', sess_ProviderToken = ''t'',
     sess_TunnelPassword = ''p'', sess_TunnelMethod = ''aes-256-cfb'',
     sess_ProviderExtension = projr (ProviderExtensionForProfile ClientProfileIOS ''t'' ''o'' ''alice'')\<rparr>"

definition svc_bound :: PersistentState where
  "svc_bound = demo_aggregate
     \<lparr>pst_Subscription := (pst_Subscription demo_aggregate)
        \<lparr>sub_AccountBinding := bytes_of_string ''alice'' @ replicate 27 2\<rparr>,
      pst_Preferences := \<lparr>pref_ExcludedNodeIDs = [], pref_RevealEndpoints = True, pref_RefreshPolicy = []\<rparr>\<rparr>"

definition svc_selector :: string where
  "svc_selector = ''n_AwMDAwMDAwMDAwMD''"

definition svc_snapshot :: RuntimeSnapshot where
  "svc_snapshot = \<lparr>snap_Generation = 1, snap_CreatedAt = unix_epoch + hour, snap_ExpiresAt = unix_epoch + 2 * hour,
     snap_Account = zero_AccountSummary, snap_Sessions = \<lparr>cs_IOS = svc_session, cs_Windows = zero_SessionSecrets\<rparr>,
     snap_Nodes = [zero_Node\<lparr>node_ID := ''n1'', node_ClientProfile := ClientProfileIOS, node_Selector := svc_selector, node_Provider := ''WIFIIN'',
       node_Host := ''hk.test'', node_Port := 443, node_Name := ''HK'', node_Eligible := True\<rparr>],
     snap_Selectors = [(svc_selector, \<lparr>ref_NodeID = ''n1'', ref_Generation = 4, ref_Tombstoned = False,
                         ref_TombstoneUntil = time_zero\<rparr>)]\<rparr>"

definition svc_plan :: RuntimeCommitPlan where
  "svc_plan = \<lparr>plan_Generation = pst_Subscription svc_bound, plan_userID = ''alice'',
     plan_previous = pst_Subscription svc_bound\<rparr>"



definition svc_published :: PersistentState where
  "svc_published = svc_bound\<lparr>
     pst_LastGood := \<lparr>lg_Generation = 4, lg_CreatedAt = demo_now,
       lg_Nodes = [\<lparr>pnode_ID = ''n1'', pnode_Selector = svc_selector, pnode_Provider = ''WIFIIN'',
         pnode_Host = ''hk.test'', pnode_Port = 443, pnode_Name = ''HK'', pnode_Group = [],
         pnode_Eligible = True, pnode_Excluded = False\<rparr>],
       lg_RenderedSubscription = ''c29ja3M1Oi8vbl9Bd01EQXdNREF3TURBd01EOnBfVFVRRUJBUUVCQVFFQkFRRUJBUUVCQVFFQDEyNy4wLjAuMToxMDgwI0hLCg=='',
       lg_FetchedGeneration = 0, lg_FetchedAt = time_zero, lg_FetchedBodyHash = []\<rparr>,
     pst_ActiveSession := Some svc_snapshot\<rparr>"

lemma svc_updated:
  "updateLastGood svc_prims ''127.0.0.1:1080'' demo_now svc_snapshot svc_bound
     = Inr (svc_published\<lparr>pst_ActiveSession := None\<rparr>)" by code_simp

lemma svc_valid: "ValidatePersistentState (pr_hmac svc_prims) (pr_parse_duration svc_prims) 0 svc_bound = None"
  "ValidatePersistentState (pr_hmac svc_prims) (pr_parse_duration svc_prims) demo_now svc_published = None"
  by code_simp+

lemma svc_rendered:
  "map_sum id fst (renderPersistedNodesAt svc_prims (lg_Nodes (pst_LastGood svc_published)) (pst_Subscription svc_published)
     ''127.0.0.1:1080'') = Inr (lg_RenderedSubscription (pst_LastGood svc_published))" by code_simp

lemma svc_from: "rendered_from svc_prims (pst_Subscription svc_published) (pst_LastGood svc_published)"
  by code_simp

lemma svc_active: "active_matches svc_prims (pst_Subscription svc_published) (pst_LastGood svc_published) svc_snapshot"
  by code_simp

lemma svc_commit_change:
  "commit_change svc_prims ''127.0.0.1:1080'' demo_now demo_now svc_plan svc_snapshot svc_bound = Inr svc_published"
proof -
  obtain n where "renderPersistedNodesAt svc_prims (lg_Nodes (pst_LastGood svc_published)) (pst_Subscription svc_published)
     ''127.0.0.1:1080'' = Inr (lg_RenderedSubscription (pst_LastGood svc_published), n)"
    using svc_rendered by (cases "renderPersistedNodesAt svc_prims (lg_Nodes (pst_LastGood svc_published))
        (pst_Subscription svc_published) ''127.0.0.1:1080''") auto
  then have "validateRenderedState svc_prims ''127.0.0.1:1080'' demo_now svc_published = None"
    using svc_valid(2) svc_from svc_active by (simp add: validateRenderedState_None svc_published_def)
  moreover have "sameSubscriptionGeneration (pst_Subscription svc_bound) (pst_Subscription svc_bound)"
    "DeriveAccountBinding (pr_hmac svc_prims) svc_bound ''alice'' = Inr (sub_AccountBinding (pst_Subscription svc_bound))"
    by code_simp+
  moreover have "svc_bound\<lparr>pst_Subscription := pst_Subscription svc_bound\<rparr> = svc_bound"
    "svc_published\<lparr>pst_ActiveSession := Some svc_snapshot\<rparr> = svc_published"
    by (simp_all add: svc_published_def)
  ultimately show ?thesis
    by (simp add: commit_change_def svc_plan_def svc_updated checked_state_def)
qed

definition svc_store :: SQLiteStore where
  "svc_store = demo_store (projr (replacePersistentStateTx demo_hmac (\<lambda>_. Inr hour) 0 svc_bound empty_tables))"

definition svc_service :: SubService where
  "svc_service = \<lparr>srv_store = svc_store, srv_socksAddress = ''127.0.0.1:1080'', srv_cache = primed svc_prims svc_bound\<rparr>"

lemma svc_stored: "stored svc_bound = svc_bound" "stored svc_published = svc_published"
  by code_simp+

lemma svc_storable: "storable svc_bound" "snapshot_storable svc_snapshot" "generation_storable (plan_Generation svc_plan)"
  by (simp_all add: storable_def svc_bound_def demo_aggregate_def demo_persistent_def nanos_ok_def
      zero_LastGoodState_def gomap_ok_def snapshot_storable_def svc_snapshot_def svc_plan_def generation_storable_def
      zero_AccountSummary_def node_storable_def zero_Node_def ref_storable_def unix_epoch_def)

lemma demo_replaced: "opened (demo_store u) ((demo_database t)\<lparr>db_tables := u\<rparr>)"
  using demo_opened [of u] by (simp add: demo_database_def)

lemma svc_service_ok: "service_ok svc_prims 0 svc_bound svc_service"
proof -
  obtain u where u: "replacePersistentStateTx demo_hmac (\<lambda>_. Inr hour) 0 svc_bound empty_tables = Inr u"
    using aggregate_written [OF svc_valid(1) svc_storable(1)] by (auto simp: svc_prims_def)
  have "contains demo_hmac (\<lambda>_. Inr hour) 0 svc_bound svc_store"
    using replaced_contains [OF _ svc_storable(1) u _ _ demo_replaced] svc_valid(1) u
    by (simp add: svc_prims_def svc_stored svc_store_def empty_tables_def)
  moreover have "validateRenderedState svc_prims ''127.0.0.1:1080'' 0 svc_bound = None" by code_simp
  moreover have "cache_of svc_prims svc_bound (primed svc_prims svc_bound)"
    unfolding cache_of_def by (rule exI [of _ "cs_fetching (primed svc_prims svc_bound)"]) simp
  ultimately show ?thesis
    using svc_storable(1) by (simp add: service_ok_def svc_service_def svc_prims_def)
qed

lemma svc_clock: "clock_ok 0 (demo_io demo_now)" "clock_ok (io_now (demo_io demo_now)) (demo_io demo_now)"
  by (simp_all add: clock_ok_def demo_times)

lemma svc_commit:
  obtains s1 where "CommitRuntimeSnapshot svc_prims None demo_now svc_plan (Some svc_snapshot) (demo_io demo_now) svc_service
    = (Inr svc_bound, s1)"
proof -
  obtain r s1 where run: "CommitRuntimeSnapshot svc_prims None demo_now svc_plan (Some svc_snapshot) (demo_io demo_now)
      svc_service = (r, s1)" by (metis surj_pair)
  have "ClientSessions_Valid (snap_Sessions svc_snapshot)"
    "ClientSessions_UserID (snap_Sessions svc_snapshot) = plan_userID svc_plan" by code_simp+
  moreover have "commit_change svc_prims (srv_socksAddress svc_service) demo_now (io_now (demo_io demo_now)) svc_plan
      svc_snapshot svc_bound = Inr svc_published" using svc_commit_change by (simp add: svc_service_def)
  moreover have "storable svc_published"
    by (rule commit_change_storable [OF svc_commit_change svc_storable(1) demo_times(1) svc_storable(2,3)])
  ultimately have "is_ok r"
    using commit_completes [OF svc_service_ok svc_clock(1) demo_no_fault] run by fastforce
  then show thesis
    using that commit_stores(2) [OF svc_service_ok svc_clock(1) demo_times(1) run svc_storable(2,3)] run
    by (auto simp: is_ok_iff)
qed


lemma commit_undone_witness:
  "\<exists>s1 r s2. CommitRuntimeSnapshot svc_prims None demo_now svc_plan (Some svc_snapshot) (demo_io demo_now) svc_service
       = (Inr svc_bound, s1)
     \<and> rollback_aggregate svc_prims (demo_io demo_now) svc_bound s1 = (r, s2)
     \<and> (case r of Inl _ \<Rightarrow> s2 = s1 | Inr _ \<Rightarrow> service_ok svc_prims demo_now svc_bound s2)"
proof -
  obtain s1 where run: "CommitRuntimeSnapshot svc_prims None demo_now svc_plan (Some svc_snapshot) (demo_io demo_now)
      svc_service = (Inr svc_bound, s1)" by (rule svc_commit)
  obtain r s2 where undo: "rollback_aggregate svc_prims (demo_io demo_now) svc_bound s1 = (r, s2)" by (metis surj_pair)
  from commit_undone [OF svc_service_ok svc_clock(1) demo_times(1) run svc_storable(2,3) svc_clock(2) undo] run undo
  show ?thesis by (auto simp: svc_stored split: sum.splits)
qed

end
