(* ===== verification/Subscription_Serving.thy ===== *)
theory Subscription_Serving
  imports Subscription_Service
begin

text \<open>
  \<open>internal/subscription/service.go\<close>, the HTTP side: the request path, the binding token, the slots,
  the body written in chunks and the record of an exact fetch. \<open>others\<close> is what the other goroutines
  do to the service between two critical sections of a request.
\<close>

section \<open>Serving\<close>

record Response =
  resp_status :: nat
  resp_headers :: "(string \<times> string) list"
  resp_body :: bytes

definition text_headers :: "nat \<Rightarrow> (string \<times> string) list" where
  "text_headers len = [(''Content-Type'', ''text/plain; charset=utf-8''), (''Content-Length'', dec len),
     (''Cache-Control'', ''no-store'')]"

definition writeNotFound :: Response where
  "writeNotFound = \<lparr>resp_status = 404,
     resp_headers = text_headers 0 @ [(''X-Content-Type-Options'', ''nosniff'')], resp_body = []\<rparr>"

definition writeResponseUnavailable :: "bool \<Rightarrow> Response" where
  "writeResponseUnavailable retry = \<lparr>resp_status = 503,
     resp_headers = text_headers 0 @ (if retry then [(''Retry-After'', ''1'')] else []), resp_body = []\<rparr>"

definition writeResponseBusy :: Response where
  "writeResponseBusy = \<lparr>resp_status = 503, resp_headers = text_headers 0 @ [(''Retry-After'', ''1'')], resp_body = []\<rparr>"

text \<open>The slots in use; \<open>None\<close> is the busy answer.\<close>

definition acquireResponseSlot :: "nat \<Rightarrow> nat option" where
  "acquireResponseSlot used = (if used < subscriptionResponseConcurrency then Some (used + 1) else None)"

definition releaseResponseSlot :: "nat \<Rightarrow> nat" where
  "releaseResponseSlot used = used - 1"

definition validBinding :: "string \<Rightarrow> bool" where
  "validBinding binding =
     (if length binding \<noteq> (sha256_Size * 8 + 5) div 6 then False
      else case raw_url_decode binding of
             None \<Rightarrow> False
           | Some decoded \<Rightarrow> length decoded = sha256_Size \<and> raw_url_encode decoded = binding)"

definition subscriptionRequestPath :: "string \<Rightarrow> string option" where
  "subscriptionRequestPath path =
     (let parts = split_on (CHR ''/'') path in
      if length parts \<noteq> 3 \<or> parts ! 0 \<noteq> [] \<or> parts ! 1 \<noteq> ''sub'' \<or> parts ! 2 = [] then None
      else Some (parts ! 2))"

text \<open>\<open>io.WriteString\<close> of chunks of at most 32 KiB; the result is the number of bytes written.\<close>

function writeSubscriptionBody :: "bytes \<Rightarrow> writer \<Rightarrow> nat \<times> go_error option \<times> writer" where
  "writeSubscriptionBody body w =
     (if body = [] then (0, None, w)
      else
        let limit = min subscriptionResponseChunkBytes (length body) in
        (case wr_write (take limit body) w of
           (n, Some err, w) \<Rightarrow> (n, Some err, w)
         | (n, None, w) \<Rightarrow>
             if n \<noteq> limit then (n, Some ErrShortWrite, w)
             else (case writeSubscriptionBody (drop n body) w of (m, err, w) \<Rightarrow> (n + m, err, w))))"
  by auto
termination
  by (relation "measure (\<lambda>(body, _). length body)") (auto simp: subscriptionResponseChunkBytes_def)

declare writeSubscriptionBody.simps [simp del]

definition cache_match :: "bytes \<Rightarrow> SubService \<Rightarrow> cachedSubscription option" where
  "cache_match token s =
     (let current = srv_cache s in
      if cs_body current \<noteq> [] \<and> token = cs_binding current then Some current else None)"

definition fetch_begin :: "u64 \<Rightarrow> bytes \<Rightarrow> SubService \<Rightarrow> SubService option" where
  "fetch_begin generation bodyHash s =
     (let current = srv_cache s in
      if cs_body current = [] \<or> cs_generation current \<noteq> generation \<or> cs_bodyHash current \<noteq> bodyHash
         \<or> (cs_fetchedAt current \<noteq> time_zero \<and> cs_fetchedGeneration current = generation
            \<and> cs_fetchedBodyHash current = bodyHash)
         \<or> cs_fetching current
      then None else Some (s\<lparr>srv_cache := current\<lparr>cs_fetching := True\<rparr>\<rparr>))"

definition fetch_change ::
  "Prims \<Rightarrow> string \<Rightarrow> u64 \<Rightarrow> bytes \<Rightarrow> gotime \<Rightarrow> gotime \<Rightarrow> PersistentState \<Rightarrow> go_error + PersistentState"
where
  "fetch_change pr socksAddress generation bodyHash now clock candidate =
     (if sub_Generation (pst_Subscription candidate) \<noteq> generation
         \<or> lg_Generation (pst_LastGood candidate) \<noteq> generation
         \<or> subscriptionBodyHash pr (lg_RenderedSubscription (pst_LastGood candidate)) \<noteq> bodyHash
      then Inl (New ''active fetch no longer matches rendered subscription'')
      else checked_state pr socksAddress clock (candidate\<lparr>pst_LastGood := (pst_LastGood candidate)
             \<lparr>lg_FetchedGeneration := generation, lg_FetchedAt := now, lg_FetchedBodyHash := bodyHash\<rparr>\<rparr>))"

definition fetch_finish :: "Prims \<Rightarrow> u64 \<Rightarrow> bytes \<Rightarrow> gotime \<Rightarrow> SqlIO \<Rightarrow> SubService \<Rightarrow> SubService" where
  "fetch_finish pr generation bodyHash now io s =
     (let current = srv_cache s in
      if cs_body current = [] \<or> cs_generation current \<noteq> generation \<or> cs_bodyHash current \<noteq> bodyHash
         \<or> \<not> cs_fetching current then s
      else if cs_fetchedAt current \<noteq> time_zero \<and> cs_fetchedGeneration current = generation
              \<and> cs_fetchedBodyHash current = bodyHash
      then s\<lparr>srv_cache := current\<lparr>cs_fetching := False\<rparr>\<rparr>
      else
        (case service_update pr io (fetch_change pr (srv_socksAddress s) generation bodyHash now (io_now io)) s of
           (Inl _, s) \<Rightarrow> s\<lparr>srv_cache := (srv_cache s)\<lparr>cs_fetching := False\<rparr>\<rparr>
         | (Inr (_, after), s) \<Rightarrow> primeCacheLocked pr after s))"

text \<open>
  The other goroutines run between the critical sections: \<open>others k\<close> is what they make of the
  service before the section number \<open>k\<close>.
\<close>

definition recordActiveFetch ::
  "Prims \<Rightarrow> (nat \<Rightarrow> SubService \<Rightarrow> SubService) \<Rightarrow> u64 \<Rightarrow> bytes \<Rightarrow> gotime \<Rightarrow> SqlIO \<Rightarrow> SubService \<Rightarrow> SubService"
where
  "recordActiveFetch pr others generation bodyHash now io s =
     (case fetch_begin generation bodyHash (others 3 s) of
        None \<Rightarrow> others 3 s
      | Some s \<Rightarrow> fetch_finish pr generation bodyHash now io (others 4 s))"

definition serve_body ::
  "Prims \<Rightarrow> (nat \<Rightarrow> SubService \<Rightarrow> SubService) \<Rightarrow> gotime \<Rightarrow> SqlIO \<Rightarrow> writer \<Rightarrow> cachedSubscription \<Rightarrow> SubService \<Rightarrow>
   Response \<times> SubService"
where
  "serve_body pr others now io w current s =
     (case writeSubscriptionBody (bytes_of_string (cs_body current)) w of
        (written, err, w') \<Rightarrow>
          (\<lparr>resp_status = 200, resp_headers = text_headers (length (cs_body current))
              @ [(''X-Content-Type-Options'', ''nosniff'')], resp_body = wr_out w'\<rparr>,
           if err \<noteq> None \<or> written \<noteq> length (cs_body current) then s
           else recordActiveFetch pr others (cs_generation current) (cs_bodyHash current) now io s))"

definition serveSubscription ::
  "Prims \<Rightarrow> (nat \<Rightarrow> SubService \<Rightarrow> SubService) \<Rightarrow> gotime \<Rightarrow> SqlIO \<Rightarrow> SqlIO \<Rightarrow> SqlIO \<Rightarrow> string \<Rightarrow> string \<Rightarrow> string \<Rightarrow>
   writer \<Rightarrow> SubService \<Rightarrow> Response \<times> SubService"
where
  "serveSubscription pr others now io1 io2 io3 request_method binding socksAddress w s =
     (if request_method \<noteq> ''GET'' \<or> \<not> validBinding binding then (writeNotFound, s)
      else
        let token = (case raw_url_decode binding of None \<Rightarrow> zero_hash | Some decoded \<Rightarrow> decoded) in
        (case cache_match token s of
           None \<Rightarrow> (writeNotFound, s)
         | Some current \<Rightarrow>
             if socksAddress = [] then serve_body pr others now io3 w current s
             else
               (case SetSocksAddress pr io1 io2 socksAddress (others 1 s) of
                  (Some _, s) \<Rightarrow> (writeResponseUnavailable True, s)
                | (None, s) \<Rightarrow>
                    (case cache_match token (others 2 s) of
                       None \<Rightarrow> (writeNotFound, others 2 s)
                     | Some current \<Rightarrow> serve_body pr others now io3 w current (others 2 s)))))"

text \<open>\<open>ServeHTTP\<close> on a service with \<open>used\<close> slots taken.\<close>

definition ServeHTTP ::
  "Prims \<Rightarrow> (nat \<Rightarrow> SubService \<Rightarrow> SubService) \<Rightarrow> gotime \<Rightarrow> SqlIO \<Rightarrow> SqlIO \<Rightarrow> SqlIO \<Rightarrow> nat \<Rightarrow> string \<Rightarrow> string \<Rightarrow>
   writer \<Rightarrow> SubService \<Rightarrow> Response \<times> SubService"
where
  "ServeHTTP pr others now io1 io2 io3 used request_method path w s =
     (case acquireResponseSlot used of
        None \<Rightarrow> (writeResponseBusy, s)
      | Some _ \<Rightarrow>
          (case subscriptionRequestPath path of
             None \<Rightarrow> (writeNotFound, s)
           | Some binding \<Rightarrow> serveSubscription pr others now io1 io2 io3 request_method binding [] w s))"

definition ServeSubscriptionAt ::
  "Prims \<Rightarrow> (nat \<Rightarrow> SubService \<Rightarrow> SubService) \<Rightarrow> gotime \<Rightarrow> SqlIO \<Rightarrow> SqlIO \<Rightarrow> SqlIO \<Rightarrow> nat \<Rightarrow> string \<Rightarrow> string \<Rightarrow>
   string \<Rightarrow> writer \<Rightarrow> SubService \<Rightarrow> Response \<times> SubService"
where
  "ServeSubscriptionAt pr others now io1 io2 io3 used request_method binding socksAddress w s =
     (case acquireResponseSlot used of
        None \<Rightarrow> (writeResponseBusy, s)
      | Some _ \<Rightarrow> serveSubscription pr others now io1 io2 io3 request_method binding socksAddress w s)"

section \<open>What serving keeps\<close>

lemma fetch_ok:
  assumes ok: "service_ok pr t p s" and clock: "clock_ok t io" and "nanos_ok now"
    and "s' = fetch_finish pr generation bodyHash now io s"
  shows "\<exists>q. service_ok pr (io_now io) q s' \<and> pst_Subscription q = pst_Subscription p
    \<and> pst_ActiveSession q \<in> {pst_ActiveSession p, map_option stored_snapshot (pst_ActiveSession p)}
    \<and> (pst_LastGood q = pst_LastGood p
       \<or> sub_Generation (pst_Subscription p) = generation
         \<and> subscriptionBodyHash pr (lg_RenderedSubscription (pst_LastGood p)) = bodyHash
         \<and> pst_LastGood q = (pst_LastGood p)\<lparr>lg_FetchedGeneration := generation, lg_FetchedAt := now,
              lg_FetchedBodyHash := bodyHash\<rparr>)"
proof -
  let ?change = "fetch_change pr (srv_socksAddress s) generation bodyHash now (io_now io)"
  have later: "service_ok pr (io_now io) p s" using ok clock by (auto simp: clock_ok_def intro: service_ok_later)
  have cache: "service_ok pr (io_now io) p (s\<lparr>srv_cache := (srv_cache s)\<lparr>cs_fetching := b\<rparr>\<rparr>)" for b
    using later by (auto simp: service_ok_def cache_of_def)
  obtain r1 s1 where u: "service_update pr io ?change s = (r1, s1)" by (metis surj_pair)
  show ?thesis
  proof (rule service_update_cases [OF _ clock u])
    show "contains (pr_hmac pr) (pr_parse_duration pr) t p (srv_store s)" using ok by (simp add: service_ok_def)
  next
    fix e assume "r1 = Inl e" "s1 = s"
    then have "s' \<in> insert s (range (\<lambda>b. s\<lparr>srv_cache := (srv_cache s)\<lparr>cs_fetching := b\<rparr>\<rparr>))"
      using u assms(4) by (auto simp: fetch_finish_def Let_def)
    then show ?thesis using later cache by auto
  next
    fix q assume q: "r1 = Inr (p, q)" "?change p = Inr q" "srv_socksAddress s1 = srv_socksAddress s"
      "storable q \<longrightarrow> contains (pr_hmac pr) (pr_parse_duration pr) (io_now io) (stored q) (srv_store s1)"
    then have v: "validateRenderedState pr (srv_socksAddress s) (io_now io) q = None"
      and qp: "q = p\<lparr>pst_LastGood := (pst_LastGood p)\<lparr>lg_FetchedGeneration := generation, lg_FetchedAt := now,
          lg_FetchedBodyHash := bodyHash\<rparr>\<rparr>"
      and g: "sub_Generation (pst_Subscription p) = generation"
        "subscriptionBodyHash pr (lg_RenderedSubscription (pst_LastGood p)) = bodyHash"
      by (auto simp: fetch_change_def checked_state_Inr split: if_splits)
    have "storable q"
      using ok assms(3) g(1) by (auto simp: qp service_ok_def storable_def split: option.splits)
    then have "service_ok pr (io_now io) (stored q) (primeCacheLocked pr q s1)"
      using q v primed_service_ok by metis
    moreover have "s' \<in> {s, primeCacheLocked pr q s1} \<union> range (\<lambda>b. s\<lparr>srv_cache := (srv_cache s)\<lparr>cs_fetching := b\<rparr>\<rparr>)"
      using u assms(4) q(1) by (auto simp: fetch_finish_def Let_def)
    ultimately show ?thesis using later cache g by (auto simp: qp)
  qed
qed

section \<open>Serving the current account only\<close>

text \<open>What the cache serves is what the store holds.\<close>

lemma cache_served:
  assumes "service_ok pr t p s" and "cs_body (srv_cache s) \<noteq> []"
  shows "cs_binding (srv_cache s) = sub_AccountBinding (pst_Subscription p)"
    "cs_body (srv_cache s) = lg_RenderedSubscription (pst_LastGood p)"
    "cs_bodyHash (srv_cache s) = subscriptionBodyHash pr (lg_RenderedSubscription (pst_LastGood p))"
    "cs_generation (srv_cache s) = sub_Generation (pst_Subscription p)"
    "length (sub_AccountBinding (pst_Subscription p)) = sha256_Size"
    "lg_RenderedSubscription (pst_LastGood p) \<noteq> []"
proof -
  obtain fetching where c: "srv_cache s = (primed pr p)\<lparr>cs_fetching := fetching\<rparr>"
    using assms(1) by (auto simp: service_ok_def cache_of_def)
  then have "cs_body (primed pr p) \<noteq> []" using assms(2) by simp
  then have len: "length (sub_AccountBinding (pst_Subscription p)) = sha256_Size"
    "lg_RenderedSubscription (pst_LastGood p) \<noteq> []"
    by (auto simp: primed_def Let_def zero_cache_def split: if_splits)
  then show "length (sub_AccountBinding (pst_Subscription p)) = sha256_Size"
    "lg_RenderedSubscription (pst_LastGood p) \<noteq> []" by auto
  show "cs_binding (srv_cache s) = sub_AccountBinding (pst_Subscription p)"
    "cs_body (srv_cache s) = lg_RenderedSubscription (pst_LastGood p)"
    "cs_bodyHash (srv_cache s) = subscriptionBodyHash pr (lg_RenderedSubscription (pst_LastGood p))"
    "cs_generation (srv_cache s) = sub_Generation (pst_Subscription p)"
    using len by (simp_all add: c primed_def Let_def)
qed

lemma service_rendered:
  assumes "service_ok pr t p s" and "lg_RenderedSubscription (pst_LastGood p) \<noteq> []"
  shows "\<exists>n. renderPersistedNodesAt pr (lg_Nodes (pst_LastGood p)) (pst_Subscription p) (srv_socksAddress s)
    = Inr (lg_RenderedSubscription (pst_LastGood p), n)"
  using assms by (auto simp: service_ok_def validateRenderedState_None)

lemma cache_match_Some:
  assumes "cache_match token s = Some current"
  shows "current = srv_cache s" "cs_body (srv_cache s) \<noteq> []" "token = cs_binding (srv_cache s)"
  using assms by (auto simp: cache_match_def Let_def split: if_splits)

lemma write_body:
  assumes "writeSubscriptionBody body w = (n, err, w')"
  shows "\<exists>k\<le>length body. wr_out w' = wr_out w @ take k body \<and> (err = None \<and> n = length body \<longrightarrow> k = length body)"
  using assms
proof (induction body w arbitrary: n err w' rule: writeSubscriptionBody.induct)
  case (1 body w)
  show ?case
  proof (cases "body = []")
    case True
    then show ?thesis using 1(2) by (simp add: writeSubscriptionBody.simps)
  next
    case False
    let ?limit = "min subscriptionResponseChunkBytes (length body)"
    obtain m e w1 where wr: "wr_write (take ?limit body) w = (m, e, w1)" by (metis prod_cases3)
    have out: "wr_out w1 = wr_out w @ take m body" and m: "m \<le> length body"
      using wr by (auto simp: wr_write_def Let_def min_def split: list.splits if_splits)
    show ?thesis
    proof (cases "e = None \<and> m = ?limit")
      case True
      obtain n' err' w'' where rest: "writeSubscriptionBody (drop m body) w1 = (n', err', w'')" by (metis prod_cases3)
      then have eq: "n = m + n'" "err = err'" "w' = w''"
        using 1(2) False wr True by (auto simp: writeSubscriptionBody.simps [of body] Let_def)
      obtain k where "k \<le> length (drop m body)" "wr_out w'' = wr_out w1 @ take k (drop m body)"
          "err' = None \<and> n' = length (drop m body) \<longrightarrow> k = length (drop m body)"
        using 1(1) [OF False refl wr [symmetric] refl conjunct1 [OF True] _ rest] True by blast
      then show ?thesis
        using out m eq by (intro exI [of _ "m + k"]) (auto simp: take_add)
    next
      case bad: False
      then have "w' = w1" "err \<noteq> None"
        using 1(2) False wr by (auto simp: writeSubscriptionBody.simps [of body] Let_def split: option.splits if_splits)
      then show ?thesis using out m by auto
    qed
  qed
qed

text \<open>The service is consistent at the time \<open>t\<close>.\<close>

definition serves :: "Prims \<Rightarrow> gotime \<Rightarrow> SubService \<Rightarrow> bool" where
  "serves pr t s \<longleftrightarrow> (\<exists>p. service_ok pr t p s)"

lemma serves_later: "serves pr t s \<Longrightarrow> t \<le> t' \<Longrightarrow> serves pr t' s"
  unfolding serves_def by (blast intro: service_ok_later)

lemma service_ok_fetching:
  "service_ok pr t p s \<Longrightarrow> service_ok pr t p (s\<lparr>srv_cache := (srv_cache s)\<lparr>cs_fetching := b\<rparr>\<rparr>)"
  by (auto simp: service_ok_def cache_of_def)

text \<open>
  The interleaving of a request: between its critical sections the others run their operations, each
  of which keeps the service consistent, and the clock does not go back. \<open>T k\<close> and \<open>T' k\<close> are the times
  at which \<open>others k\<close> begins and ends.
\<close>

definition interleaved ::
  "Prims \<Rightarrow> (nat \<Rightarrow> gotime) \<Rightarrow> (nat \<Rightarrow> gotime) \<Rightarrow> (nat \<Rightarrow> SubService \<Rightarrow> SubService) \<Rightarrow> SqlIO \<Rightarrow> SqlIO \<Rightarrow> SqlIO \<Rightarrow> bool"
where
  "interleaved pr T T' others io1 io2 io3 \<longleftrightarrow>
     (\<forall>k s. serves pr (T k) s \<longrightarrow> serves pr (T' k) (others k s)) \<and> (\<forall>k. T k \<le> T' k)
     \<and> clock_ok (T' 1) io1 \<and> clock_ok (io_now io1) io2 \<and> io_now io2 \<le> T 2
     \<and> T' 2 \<le> T 3 \<and> T' 3 \<le> T 4 \<and> clock_ok (T' 4) io3"

lemma serve_body_keeps:
  assumes "serve_body pr others now io3 w current s = (resp, s')" and "serves pr (T 3) s"
    and i: "interleaved pr T T' others io1 io2 io3" and "nanos_ok now"
  shows "serves pr (io_now io3) s'"
    and "resp_status resp = 200" "\<exists>k. resp_body resp = wr_out w @ take k (bytes_of_string (cs_body current))"
proof -
  obtain n err w' where wr: "writeSubscriptionBody (bytes_of_string (cs_body current)) w = (n, err, w')"
    by (metis prod_cases3)
  have resp: "resp_status resp = 200" "resp_body resp = wr_out w'"
    using assms(1) wr by (auto simp: serve_body_def)
  then show "resp_status resp = 200" "\<exists>k. resp_body resp = wr_out w @ take k (bytes_of_string (cs_body current))"
    using write_body [OF wr] by auto
  have t: "T 3 \<le> T' 3" "T' 3 \<le> T 4" "T 4 \<le> T' 4" "T' 4 \<le> io_now io3"
    and clock: "clock_ok (T' 4) io3" and run: "\<And>k s. serves pr (T k) s \<Longrightarrow> serves pr (T' k) (others k s)"
    using i by (auto simp: interleaved_def clock_ok_def)
  consider "s' = s" | "s' = others 3 s"
    | s1 where "fetch_begin (cs_generation current) (cs_bodyHash current) (others 3 s) = Some s1"
        "s' = fetch_finish pr (cs_generation current) (cs_bodyHash current) now io3 (others 4 s1)"
    using assms(1) wr
    by (cases "fetch_begin (cs_generation current) (cs_bodyHash current) (others 3 s)")
      (auto simp: serve_body_def recordActiveFetch_def split: if_splits)
  then show "serves pr (io_now io3) s'"
  proof cases
    case 1
    then show ?thesis using serves_later [OF assms(2)] t by simp
  next
    case 2
    then show ?thesis using serves_later [OF run [OF assms(2)]] t by simp
  next
    case (3 s1)
    have "serves pr (T 4) (others 3 s)" using serves_later [OF run [OF assms(2)]] t by simp
    moreover have "s1 = (others 3 s)\<lparr>srv_cache := (srv_cache (others 3 s))\<lparr>cs_fetching := True\<rparr>\<rparr>"
      using 3(1) by (auto simp: fetch_begin_def Let_def split: if_splits)
    ultimately have "serves pr (T 4) s1" unfolding serves_def using service_ok_fetching by blast
    from run [OF this] obtain p where p: "service_ok pr (T' 4) p (others 4 s1)" by (auto simp: serves_def)
    show ?thesis using fetch_ok [OF p clock assms(4) 3(2)] by (auto simp: serves_def)
  qed
qed



lemma validBindingD:
  assumes "validBinding binding"
  shows "\<exists>token. raw_url_decode binding = Some token \<and> raw_url_encode token = binding"
  using assms by (auto simp: validBinding_def split: if_splits option.splits)

lemma interleaved_times:
  assumes "interleaved pr T T' others io1 io2 io3"
  shows "T 1 \<le> T 3" "T 3 \<le> io_now io3" "T 2 \<le> T 3" "clock_ok (T' 1) io1" "clock_ok (io_now io1) io2"
    "io_now io2 \<le> T 2" "T 1 \<le> T 2" "T' 2 \<le> T 3"
    "\<And>k s. serves pr (T k) s \<Longrightarrow> serves pr (T' k) (others k s)"
proof -
  have le: "T 1 \<le> T' 1" "T 2 \<le> T' 2" "T 3 \<le> T' 3" "T 4 \<le> T' 4" and c: "clock_ok (T' 1) io1" "clock_ok (io_now io1) io2"
    "clock_ok (T' 4) io3" and m: "io_now io2 \<le> T 2" "T' 2 \<le> T 3" "T' 3 \<le> T 4"
    and run: "\<And>k s. serves pr (T k) s \<Longrightarrow> serves pr (T' k) (others k s)"
    using assms by (simp_all add: interleaved_def)
  have "T' 1 \<le> io_now io1" "io_now io1 \<le> io_now io2" "T' 4 \<le> io_now io3" using c by (simp_all add: clock_ok_def)
  then show "T 1 \<le> T 3" "T 3 \<le> io_now io3" "T 2 \<le> T 3" "T 1 \<le> T 2" using le m by linarith+
  show "clock_ok (T' 1) io1" "clock_ok (io_now io1) io2" "io_now io2 \<le> T 2" "T' 2 \<le> T 3" by fact+
  show "\<And>k s. serves pr (T k) s \<Longrightarrow> serves pr (T' k) (others k s)" by (rule run)
qed

lemma serve_matched:
  assumes "serves pr (T 3) u" and i: "interleaved pr T T' others io1 io2 io3" and "nanos_ok now" and "wr_out w = []"
    and "cache_match token u = Some current" and "raw_url_encode token = binding"
    and run: "serve_body pr others now io3 w current u = (resp, s')"
  shows "serves pr (io_now io3) s' \<and> resp_status resp = 200 \<and> (\<exists>q k. service_ok pr (T 3) q u
        \<and> binding = raw_url_encode (sub_AccountBinding (pst_Subscription q))
        \<and> resp_body resp = take k (bytes_of_string (lg_RenderedSubscription (pst_LastGood q)))
        \<and> (\<exists>n. renderPersistedNodesAt pr (lg_Nodes (pst_LastGood q)) (pst_Subscription q) (srv_socksAddress u)
              = Inr (lg_RenderedSubscription (pst_LastGood q), n)))"
proof -
  obtain q where q: "service_ok pr (T 3) q u" using assms(1) by (auto simp: serves_def)
  note m = cache_match_Some [OF assms(5)]
  note c = cache_served [OF q m(2)]
  note keeps = serve_body_keeps [OF run assms(1) i assms(3)]
  from keeps(3) obtain k where "resp_body resp = take k (bytes_of_string (lg_RenderedSubscription (pst_LastGood q)))"
    using assms(4) m(1) c(2) by auto
  then show ?thesis
    using keeps(1,2) q service_rendered [OF q c(6)] assms(6) [symmetric] m(3) c(1) by auto
qed

text \<open>
  C10: Only the bound account's current body is served, whatever runs in between. On a consistent
  service, with other requests, commits and migrations running between the critical sections of the
  request, the service stays consistent; an answer with status 200 carries a beginning of the body
  that the store then holds for the account whose binding is in the path, which is the rendering of
  its nodes for the address the service then has; every other answer has no body. A request with
  another method or for anything else than the binding of a rendered account gets the same
  empty 404 and changes nothing.
\<close>

theorem served_body_authentic:
  assumes "service_ok pr (T 1) p s" and "interleaved pr T T' others io1 io2 io3" and "nanos_ok now"
    and "wr_out w = []"
    and "serveSubscription pr others now io1 io2 io3 request_method binding addr w s = (resp, s')"
    and "u = (if addr = [] then s else others 2 (snd (SetSocksAddress pr io1 io2 addr (others 1 s))))"
  shows "serves pr (io_now io3) s'
    \<and> (if resp_status resp = 200 then \<exists>q k. service_ok pr (T 3) q u
          \<and> binding = raw_url_encode (sub_AccountBinding (pst_Subscription q))
          \<and> resp_body resp = take k (bytes_of_string (lg_RenderedSubscription (pst_LastGood q)))
          \<and> (\<exists>n. renderPersistedNodesAt pr (lg_Nodes (pst_LastGood q)) (pst_Subscription q) (srv_socksAddress u)
                = Inr (lg_RenderedSubscription (pst_LastGood q), n))
        else resp_body resp = [])
    \<and> (request_method \<noteq> ''GET'' \<or> binding \<noteq> raw_url_encode (sub_AccountBinding (pst_Subscription p))
         \<or> lg_RenderedSubscription (pst_LastGood p) = [] \<longrightarrow> (resp, s') = (writeNotFound, s))"
proof -
  note t = interleaved_times [OF assms(2)]
  have s: "serves pr (T 1) s" using assms(1) by (auto simp: serves_def)
  have s3: "serves pr (io_now io3) s" using serves_later [OF s] t(1,2) by simp
  show ?thesis
  proof (cases "request_method \<noteq> ''GET'' \<or> \<not> validBinding binding")
    case True
    then have "(resp, s') = (writeNotFound, s)" using assms(5) by (auto simp: serveSubscription_def)
    then show ?thesis using s3 by (auto simp: writeNotFound_def)
  next
    case False
    then obtain token where token: "raw_url_decode binding = Some token" "raw_url_encode token = binding"
      using validBindingD by blast
    show ?thesis
    proof (cases "cache_match token s")
      case None
      then have "(resp, s') = (writeNotFound, s)"
        using assms(5) False token by (auto simp: serveSubscription_def)
      then show ?thesis using s3 by (auto simp: writeNotFound_def)
    next
      case (Some current)
      note m = cache_match_Some [OF Some]
      note c = cache_served [OF assms(1) m(2)]
      have is_bound: "binding = raw_url_encode (sub_AccountBinding (pst_Subscription p))"
        using token m(3) c(1) by simp
      show ?thesis
      proof (cases "addr = []")
        case True
        have "serve_body pr others now io3 w current s = (resp, s')"
          using assms(5) False token Some True by (auto simp: serveSubscription_def)
        from serve_matched [OF serves_later [OF s t(1)] assms(2-4) Some token(2) this]
        show ?thesis using assms(6) True False is_bound c(6) by auto
      next
        case addr: False
        obtain r s1 where set: "SetSocksAddress pr io1 io2 addr (others 1 s) = (r, s1)" by (metis surj_pair)
        obtain p1 where p1: "service_ok pr (T' 1) p1 (others 1 s)" using t(9) [OF s] by (auto simp: serves_def)
        from set_address_ok [OF p1 t(4,5) set] have "serves pr (io_now io2) s1"
          by (auto simp: serves_def)
        then have s1: "serves pr (T 2) s1" by (rule serves_later [OF _ t(6)])
        note u1 = t(9) [OF s1]
        have u: "u = others 2 s1" using assms(6) addr set by simp
        have u3: "serves pr (T 3) u" using serves_later [OF u1 t(8)] by (simp add: u)
        show ?thesis
        proof (cases r)
          case (Some e)
          then have "resp = writeResponseUnavailable True \<and> s' = s1"
            using assms(5) False token \<open>cache_match token s = Some current\<close> addr set by (auto simp: serveSubscription_def)
          then show ?thesis using serves_later [OF s1] t(2,3) is_bound c(6) False
            by (auto simp: writeResponseUnavailable_def)
        next
          case None
          note run = assms(5) [unfolded serveSubscription_def]
          show ?thesis
          proof (cases "cache_match token u")
            case None
            then have "resp = writeNotFound \<and> s' = u"
              using run False token \<open>cache_match token s = Some current\<close> addr set \<open>r = None\<close> by (auto simp: u)
            then show ?thesis using serves_later [OF u3 t(2)] is_bound c(6) False
              by (auto simp: writeNotFound_def)
          next
            case (Some current')
            then have "serve_body pr others now io3 w current' u = (resp, s')"
              using run False token \<open>cache_match token s = Some current\<close> addr set \<open>r = None\<close> by (auto simp: u)
            from serve_matched [OF u3 assms(2-4) Some token(2) this]
            show ?thesis using False is_bound c(6) by auto
          qed
        qed
      qed
    qed
  qed
qed

lemma raw_url_no_slash: "CHR ''/'' \<notin> set (raw_url_encode bs)"
proof -
  have "CHR ''/'' \<notin> set b64_url" by code_simp
  then show ?thesis using b64_raw_encode_alphabet [of b64_url bs] by (auto simp: raw_url_encode_def)
qed

lemma write_body_all:
  "wr_script w = [] \<Longrightarrow> writeSubscriptionBody body w = (length body, None, w\<lparr>wr_out := wr_out w @ body\<rparr>)"
proof (induction body w rule: writeSubscriptionBody.induct)
  case (1 body w)
  show ?case
  proof (cases "body = []")
    case True
    then show ?thesis by (simp add: writeSubscriptionBody.simps)
  next
    case False
    let ?limit = "min subscriptionResponseChunkBytes (length body)" and ?w = "w\<lparr>wr_out := wr_out w
        @ take (min subscriptionResponseChunkBytes (length body)) body\<rparr>"
    have wr: "wr_write (take ?limit body) w = (?limit, None, ?w)"
      using 1(2) by (simp add: wr_write_def)
    have "writeSubscriptionBody (drop ?limit body) ?w
        = (length (drop ?limit body), None, ?w\<lparr>wr_out := wr_out ?w @ drop ?limit body\<rparr>)"
      by (rule 1(1) [OF False refl wr [symmetric] refl refl]) (simp_all add: 1(2))
    then show ?thesis
      using False by (simp add: writeSubscriptionBody.simps [of body] Let_def wr)
  qed
qed

lemma trimmed_slashes:
  obtains n where "base = rev (dropWhile (\<lambda>c. c = CHR ''/'') (rev base)) @ replicate n (CHR ''/'')"
    "rev (dropWhile (\<lambda>c. c = CHR ''/'') (rev base)) = []
     \<or> last (rev (dropWhile (\<lambda>c. c = CHR ''/'') (rev base))) \<noteq> CHR ''/''"
proof -
  let ?p = "\<lambda>c. c = CHR ''/''"
  have "\<forall>c\<in>set (takeWhile ?p (rev base)). c = CHR ''/''" by (meson set_takeWhileD)
  then have "takeWhile ?p (rev base) = replicate (length (takeWhile ?p (rev base))) (CHR ''/'')"
    by (metis replicate_length_same)
  then have "base = rev (dropWhile ?p (rev base)) @ replicate (length (takeWhile ?p (rev base))) (CHR ''/'')"
    by (metis rev_append rev_replicate rev_rev_ident takeWhile_dropWhile_id)
  moreover have "rev (dropWhile ?p (rev base)) = [] \<or> last (rev (dropWhile ?p (rev base))) \<noteq> CHR ''/''"
    by (metis (mono_tags, lifting) hd_dropWhile last_rev rev_is_Nil_conv)
  ultimately show thesis by (rule that)
qed

text \<open>
  C40: The link the service hands out is the link it serves. The URL a consistent service gives for a
  base URL is that base without its trailing slashes, followed by the path that names the binding
  of the durable account, and comes with its generation. A GET of just that path, while a response
  slot is free, is answered with status 200 and a beginning of the body the store holds for the
  account, whatever the other requests do; a client that takes every byte gets the whole body.
\<close>

theorem subscription_url_roundtrip:
  assumes "service_ok pr t p s" and "SubscriptionURL baseURL s = Inr (url, generation)"
    and "used < subscriptionResponseConcurrency" and "wr_out w = []"
  shows "\<exists>base slashes path. baseURL = base @ replicate slashes (CHR ''/'') \<and> (base = [] \<or> last base \<noteq> CHR ''/'')
    \<and> url = base @ path \<and> path = ''/sub/'' @ raw_url_encode (sub_AccountBinding (pst_Subscription p))
    \<and> generation = sub_Generation (pst_Subscription p) \<and> generation \<noteq> 0
    \<and> (\<exists>resp s' k. ServeHTTP pr others now io1 io2 io3 used ''GET'' path w s = (resp, s') \<and> resp_status resp = 200
        \<and> resp_body resp = take k (bytes_of_string (lg_RenderedSubscription (pst_LastGood p)))
        \<and> (wr_script w = [] \<longrightarrow> resp_body resp = bytes_of_string (lg_RenderedSubscription (pst_LastGood p))))"
proof -
  have body: "cs_body (srv_cache s) \<noteq> []" and g: "generation = cs_generation (srv_cache s)" "generation \<noteq> 0"
    and url: "url = subscriptionURL baseURL (raw_url_encode (cs_binding (srv_cache s)))"
    using assms(2) by (auto simp: SubscriptionURL_def Let_def split: if_splits)
  note c = cache_served [OF assms(1) body]
  let ?b = "raw_url_encode (sub_AccountBinding (pst_Subscription p))"
  have len: "length ?b = (sha256_Size * 8 + 5) div 6" using c(5) by simp
  then have "length ?b = 43" by (simp only: sha256_Size_def)
  then have "?b \<noteq> []" by (metis list.size(3) zero_neq_numeral)
  moreover have "split_on (CHR ''/'') (''/sub/'' @ ?b) = [[], ''sub'', ?b]"
    using split_on_append [of "CHR ''/''" "[]" "''sub/'' @ ?b"] split_on_append [of "CHR ''/''" "''sub''" ?b]
    by (simp add: split_on_no_sep [OF raw_url_no_slash])
  ultimately have path: "subscriptionRequestPath (''/sub/'' @ ?b) = Some ?b"
    unfolding subscriptionRequestPath_def by simp
  have valid: "validBinding ?b" unfolding validBinding_def using len c(5) by simp
  have m: "cache_match (sub_AccountBinding (pst_Subscription p)) s = Some (srv_cache s)"
    using body c(1) by (simp add: cache_match_def Let_def)
  obtain n err w' where wr: "writeSubscriptionBody (bytes_of_string (cs_body (srv_cache s))) w = (n, err, w')"
    by (metis prod_cases3)
  obtain resp s' where run: "serve_body pr others now io3 w (srv_cache s) s = (resp, s')" by (metis surj_pair)
  then have resp: "resp_status resp = 200" "resp_body resp = wr_out w'"
    using wr by (auto simp: serve_body_def)
  have "ServeHTTP pr others now io1 io2 io3 used ''GET'' (''/sub/'' @ ?b) w s = (resp, s')"
    using assms(3) path valid m run
    by (simp add: ServeHTTP_def acquireResponseSlot_def serveSubscription_def del: append.simps)
  moreover obtain k where "resp_body resp = take k (bytes_of_string (lg_RenderedSubscription (pst_LastGood p)))"
    using write_body [OF wr] resp(2) assms(4) c(2) by auto
  moreover have "wr_script w = [] \<longrightarrow> resp_body resp = bytes_of_string (lg_RenderedSubscription (pst_LastGood p))"
    using write_body_all [of w "bytes_of_string (cs_body (srv_cache s))"] wr resp(2) assms(4) c(2) by auto
  ultimately have served: "\<exists>resp s' k. ServeHTTP pr others now io1 io2 io3 used ''GET'' (''/sub/'' @ ?b) w s = (resp, s')
      \<and> resp_status resp = 200 \<and> resp_body resp = take k (bytes_of_string (lg_RenderedSubscription (pst_LastGood p)))
      \<and> (wr_script w = [] \<longrightarrow> resp_body resp = bytes_of_string (lg_RenderedSubscription (pst_LastGood p)))"
    using resp(1) by blast
  obtain slashes where base:
    "baseURL = rev (dropWhile (\<lambda>c. c = CHR ''/'') (rev baseURL)) @ replicate slashes (CHR ''/'')"
    "rev (dropWhile (\<lambda>c. c = CHR ''/'') (rev baseURL)) = []
     \<or> last (rev (dropWhile (\<lambda>c. c = CHR ''/'') (rev baseURL))) \<noteq> CHR ''/''" by (rule trimmed_slashes)
  have "url = rev (dropWhile (\<lambda>c. c = CHR ''/'') (rev baseURL)) @ (''/sub/'' @ ?b)"
    "generation = sub_Generation (pst_Subscription p)" using g c(1,4) url by (simp_all add: subscriptionURL_def)
  with base g(2) served show ?thesis by blast
qed

section \<open>Recording a fetch\<close>

text \<open>The aggregate with the proof of a fetch of its current body.\<close>

definition recorded :: "Prims \<Rightarrow> gotime \<Rightarrow> PersistentState \<Rightarrow> PersistentState" where
  "recorded pr now p = p\<lparr>pst_LastGood := (pst_LastGood p)
     \<lparr>lg_FetchedGeneration := sub_Generation (pst_Subscription p), lg_FetchedAt := now,
      lg_FetchedBodyHash := subscriptionBodyHash pr (lg_RenderedSubscription (pst_LastGood p))\<rparr>\<rparr>"

lemma subscriptionBodyHash_length:
  "length (pr_sha256 pr (bytes_of_string body)) = sha256_Size \<Longrightarrow> length (subscriptionBodyHash pr body) = sha256_Size"
  by (simp add: subscriptionBodyHash_def)

lemma recorded_proof:
  assumes "service_ok pr t q s" and "pst_LastGood q = pst_LastGood (recorded pr now p)"
    and "pst_Subscription q = pst_Subscription p" and "now \<noteq> time_zero"
    and "length (subscriptionBodyHash pr (lg_RenderedSubscription (pst_LastGood p))) = sha256_Size"
  shows "\<not> md_ReloadRecommended (Service_Metadata s)"
proof -
  obtain fetching where "srv_cache s = (primed pr q)\<lparr>cs_fetching := fetching\<rparr>"
    using assms(1) by (auto simp: service_ok_def cache_of_def)
  then show ?thesis
    using assms(2-5) by (simp add: Service_Metadata_def Let_def primed_def recorded_def zero_cache_def)
qed

lemma recorded_simps:
  "pst_Subscription (recorded pr now p) = pst_Subscription p" "pst_ActiveSession (recorded pr now p) = pst_ActiveSession p"
  "lg_RenderedSubscription (pst_LastGood (recorded pr now p)) = lg_RenderedSubscription (pst_LastGood p)"
  "lg_Nodes (pst_LastGood (recorded pr now p)) = lg_Nodes (pst_LastGood p)"
  "lg_Generation (pst_LastGood (recorded pr now p)) = lg_Generation (pst_LastGood p)"
  by (simp_all add: recorded_def)

lemma recorded_rendered:
  "rendered_from pr g (pst_LastGood (recorded pr now p)) = rendered_from pr g (pst_LastGood p)"
  "active_matches pr g (pst_LastGood (recorded pr now p)) a = active_matches pr g (pst_LastGood p) a"
  unfolding rendered_from_def active_matches_def recorded_simps by (rule refl)+

lemma recorded_valid:
  assumes v: "validateRenderedState pr addr t p = None" and "lg_RenderedSubscription (pst_LastGood p) \<noteq> []"
    and len: "length (sub_AccountBinding (pst_Subscription p)) = sha256_Size"
    and "lg_CreatedAt (pst_LastGood p) \<le> now" and "now \<noteq> time_zero"
    and hash: "length (subscriptionBodyHash pr (lg_RenderedSubscription (pst_LastGood p))) = sha256_Size"
  shows "validateRenderedState pr addr t (recorded pr now p) = None"
proof -
  have valid: "ValidatePersistentState (pr_hmac pr) (pr_parse_duration pr) t p = None"
    using v by (simp add: validateRenderedState_None)
  have b: "sub_AccountBinding (pst_Subscription p) \<noteq> []" using len by (auto simp: sha256_Size_def)
  have "validateLastGoodState (pst_LastGood p) (sub_Generation (pst_Subscription p)) = None"
    "sub_Generation (pst_Subscription p) \<noteq> 0"
    using ValidatePersistentState_None(2,4) [OF valid] b by (simp_all add: generation_valid_iff)
  then have "validateLastGoodState (pst_LastGood (recorded pr now p)) (sub_Generation (pst_Subscription p)) = None"
    using assms(2,4,5) hash
    by (auto simp: validateLastGoodState_def recorded_def lastGoodStateEmpty_def Let_def sha256_Size_def
        split: if_splits option.splits)
  then have "ValidatePersistentState (pr_hmac pr) (pr_parse_duration pr) t (recorded pr now p) = None"
    using valid b
    by (auto simp: ValidatePersistentState_def recorded_def validateActiveSession_def MatchesAccount_def DeriveAccountBinding_def
        AccessTokenInitialized_def split: if_splits option.splits)
  then show ?thesis
    using v assms(2) by (simp add: validateRenderedState_None recorded_simps recorded_rendered)
qed

lemma fetch_completes:
  assumes ok: "service_ok pr t p s" and clock: "clock_ok t io" and "no_fault io" and "nanos_ok now"
    and body: "cs_body (srv_cache s) \<noteq> []" and "cs_fetching (srv_cache s)"
    and new: "cs_fetchedAt (srv_cache s) = time_zero"
    and now: "lg_CreatedAt (pst_LastGood p) \<le> now" "now \<noteq> time_zero"
    and hash: "length (subscriptionBodyHash pr (lg_RenderedSubscription (pst_LastGood p))) = sha256_Size"
  shows "service_ok pr (io_now io) (stored (recorded pr now p))
    (fetch_finish pr (cs_generation (srv_cache s)) (cs_bodyHash (srv_cache s)) now io s)"
proof -
  let ?g = "cs_generation (srv_cache s)" and ?h = "cs_bodyHash (srv_cache s)"
  let ?change = "fetch_change pr (srv_socksAddress s) ?g ?h now (io_now io)"
  note c = cache_served [OF ok body]
  have t: "t \<le> io_now io" "nanos_ok (io_now io)" using clock by (simp_all add: clock_ok_def)
  note ok' = ok [unfolded service_ok_def]
  have b: "sub_AccountBinding (pst_Subscription p) \<noteq> []" using c(5) by (auto simp: sha256_Size_def)
  have "ValidatePersistentState (pr_hmac pr) (pr_parse_duration pr) t p = None"
    using ok' by (simp add: validateRenderedState_None)
  from ValidatePersistentState_None(4) [OF this b]
  have "lg_Generation (pst_LastGood p) = sub_Generation (pst_Subscription p)"
    using c(6) by (auto simp: validateLastGoodState_def lastGoodStateEmpty_def split: if_splits)
  moreover have rendered: "validateRenderedState pr (srv_socksAddress s) (io_now io) (recorded pr now p) = None"
    by (rule recorded_valid [OF _ c(6,5) now hash]) (use validate_later [OF _ t(1)] ok' in blast)
  ultimately have change: "?change p = Inr (recorded pr now p)"
    using c(3,4) by (simp add: fetch_change_def checked_state_Inr) (simp add: recorded_def)
  have st: "storable (recorded pr now p)"
    using ok' assms(4) by (auto simp: recorded_def storable_def split: option.splits)
  obtain r1 s1 where u: "service_update pr io ?change s = (r1, s1)" by (metis surj_pair)
  have "is_ok r1"
    using store.update_completes [of "pr_hmac pr" "pr_parse_duration pr" t p "srv_store s" io "\<lambda>p. (p, ?change p)" p
        "recorded pr now p"] ok' t u change rendered st assms(3)
    by (auto simp: service_update_def validateRenderedState_None is_ok_iff split: prod.splits)
  then obtain prior after where r1: "r1 = Inr (prior, after)" by (auto simp: is_ok_iff)
  have run: "fetch_finish pr ?g ?h now io s = primeCacheLocked pr after s1"
    using body assms(6) new u r1 by (simp add: fetch_finish_def Let_def)
  show ?thesis
  proof (rule service_update_cases [OF _ clock u])
    show "contains (pr_hmac pr) (pr_parse_duration pr) t p (srv_store s)" using ok' by simp
  next
    fix e assume "r1 = Inl e"
    then show ?thesis using r1 by simp
  next
    fix q assume q: "r1 = Inr (p, q)" "?change p = Inr q" "srv_socksAddress s1 = srv_socksAddress s"
      "storable q \<longrightarrow> contains (pr_hmac pr) (pr_parse_duration pr) (io_now io) (stored q) (srv_store s1)"
    then have "after = recorded pr now p" "q = recorded pr now p" using r1 change by auto
    then show ?thesis
      using primed_service_ok [of pr "io_now io" "recorded pr now p" s1] q(3,4) st rendered run by simp
  qed
qed

text \<open>What a request that hands over a body does after it: nothing, or one attempt to record the fetch.\<close>

lemma record_cases:
  assumes "serve_body pr others now io3 w current u = (resp, s')" and "wr_out w = []"
  obtains "s' = u" | "s' = others 3 u"
  | "resp_status resp = 200" "resp_body resp = bytes_of_string (cs_body current)"
    "s' = fetch_finish pr (cs_generation current) (cs_bodyHash current) now io3
       (others 4 ((others 3 u)\<lparr>srv_cache := (srv_cache (others 3 u))\<lparr>cs_fetching := True\<rparr>\<rparr>))"
proof -
  obtain n err w' where wr: "writeSubscriptionBody (bytes_of_string (cs_body current)) w = (n, err, w')"
    by (metis prod_cases3)
  from write_body [OF wr] obtain k where k: "wr_out w' = take k (bytes_of_string (cs_body current))"
      "err = None \<and> n = length (cs_body current) \<longrightarrow> k = length (cs_body current)"
    using assms(2) by auto
  have resp: "resp_status resp = 200" "resp_body resp = wr_out w'"
    using assms(1) wr by (auto simp: serve_body_def)
  show thesis
  proof (cases "err = None \<and> n = length (cs_body current)")
    case False
    then show thesis using assms(1) wr that(1) by (auto simp: serve_body_def)
  next
    case True
    show thesis
    proof (cases "fetch_begin (cs_generation current) (cs_bodyHash current) (others 3 u)")
      case None
      then show thesis using assms(1) wr True that(2) by (auto simp: serve_body_def recordActiveFetch_def)
    next
      case (Some s1)
      then have "s1 = (others 3 u)\<lparr>srv_cache := (srv_cache (others 3 u))\<lparr>cs_fetching := True\<rparr>\<rparr>"
        by (auto simp: fetch_begin_def Let_def split: if_splits)
      then show thesis using assms(1) wr True Some that(3) resp k
        by (auto simp: serve_body_def recordActiveFetch_def)
    qed
  qed
qed

lemma record_exact:
  assumes qu: "service_ok pr (T 3) qu u" and i: "interleaved pr T T' others io1 io2 io3" and "nanos_ok now"
    and "wr_out w = []" and "now \<noteq> time_zero" and sha: "\<And>x. length (pr_sha256 pr x) = sha256_Size"
    and m: "cache_match token u = Some current" and "raw_url_encode token = binding"
    and run: "serve_body pr others now io3 w current u = (resp, s')"
    and v: "v = others 4 ((others 3 u)\<lparr>srv_cache := (srv_cache (others 3 u))\<lparr>cs_fetching := True\<rparr>\<rparr>)"
  shows "s' \<in> {u, others 3 u}
     \<or> (\<exists>qu qv q. service_ok pr (T 3) qu u \<and> service_ok pr (T' 4) qv v \<and> service_ok pr (io_now io3) q s'
          \<and> resp_status resp = 200 \<and> resp_body resp = bytes_of_string (lg_RenderedSubscription (pst_LastGood qu))
          \<and> binding = raw_url_encode (sub_AccountBinding (pst_Subscription qu))
          \<and> pst_Subscription q = pst_Subscription qv
          \<and> (pst_LastGood q = pst_LastGood qv
             \<or> pst_LastGood q = pst_LastGood (recorded pr now qv)
               \<and> sub_Generation (pst_Subscription qv) = sub_Generation (pst_Subscription qu)
               \<and> subscriptionBodyHash pr (lg_RenderedSubscription (pst_LastGood qv))
                   = subscriptionBodyHash pr (lg_RenderedSubscription (pst_LastGood qu))
               \<and> \<not> md_ReloadRecommended (Service_Metadata s')))"
proof -
  note cm = cache_match_Some [OF m]
  note c = cache_served [OF qu cm(2)]
  have t: "T' 3 \<le> T 4" "clock_ok (T' 4) io3" and others: "\<And>k s. serves pr (T k) s \<Longrightarrow> serves pr (T' k) (others k s)"
    using i by (auto simp: interleaved_def)
  have "serves pr (T 3) u" using qu by (auto simp: serves_def)
  from others [OF this] have "serves pr (T 4) (others 3 u)" by (rule serves_later) (rule t(1))
  then have "serves pr (T 4) ((others 3 u)\<lparr>srv_cache := (srv_cache (others 3 u))\<lparr>cs_fetching := True\<rparr>\<rparr>)"
    unfolding serves_def using service_ok_fetching by blast
  from others [OF this] obtain qv where qv: "service_ok pr (T' 4) qv v" by (auto simp: serves_def v)
  show ?thesis
  proof (rule record_cases [OF run assms(4)])
    assume r: "resp_status resp = 200" "resp_body resp = bytes_of_string (cs_body current)"
      "s' = fetch_finish pr (cs_generation current) (cs_bodyHash current) now io3
         (others 4 ((others 3 u)\<lparr>srv_cache := (srv_cache (others 3 u))\<lparr>cs_fetching := True\<rparr>\<rparr>))"
    then have "s' = fetch_finish pr (cs_generation current) (cs_bodyHash current) now io3 v" by (simp add: v)
    from fetch_ok [OF qv t(2) assms(3) this] obtain q where q: "service_ok pr (io_now io3) q s'"
      "pst_Subscription q = pst_Subscription qv"
      "pst_LastGood q = pst_LastGood qv \<or> sub_Generation (pst_Subscription qv) = cs_generation current
       \<and> subscriptionBodyHash pr (lg_RenderedSubscription (pst_LastGood qv)) = cs_bodyHash current
       \<and> pst_LastGood q = (pst_LastGood qv)\<lparr>lg_FetchedGeneration := cs_generation current, lg_FetchedAt := now,
            lg_FetchedBodyHash := cs_bodyHash current\<rparr>" by blast
    have body: "resp_body resp = bytes_of_string (lg_RenderedSubscription (pst_LastGood qu))"
      "binding = raw_url_encode (sub_AccountBinding (pst_Subscription qu))"
      using r(2) cm c(1,2) assms(8) by simp_all
    have "pst_LastGood q = pst_LastGood qv
       \<or> pst_LastGood q = pst_LastGood (recorded pr now qv)
         \<and> sub_Generation (pst_Subscription qv) = sub_Generation (pst_Subscription qu)
         \<and> subscriptionBodyHash pr (lg_RenderedSubscription (pst_LastGood qv))
             = subscriptionBodyHash pr (lg_RenderedSubscription (pst_LastGood qu))"
      using q(3) cm(1) c(3,4) by (auto simp: recorded_def)
    moreover have "pst_LastGood q = pst_LastGood (recorded pr now qv) \<Longrightarrow> \<not> md_ReloadRecommended (Service_Metadata s')"
      by (rule recorded_proof [OF q(1) _ q(2) assms(5)]) (simp_all add: subscriptionBodyHash_def sha)
    ultimately show ?thesis using qu qv q(1,2) r(1) body by blast
  qed auto
qed

lemma fetch_alone:
  assumes ok: "service_ok pr t p s" and clock: "clock_ok t io3" and "no_fault io3" and "nanos_ok now"
    and "wr_out w = []" and "wr_script w = []" and "now \<noteq> time_zero" and sha: "\<And>x. length (pr_sha256 pr x) = sha256_Size"
    and body: "cs_body (srv_cache s) \<noteq> []" and new: "cs_fetchedAt (srv_cache s) = time_zero" "\<not> cs_fetching (srv_cache s)"
    and "lg_CreatedAt (pst_LastGood p) \<le> now" and binding: "binding = raw_url_encode (sub_AccountBinding (pst_Subscription p))"
    and run: "serveSubscription pr (\<lambda>k s. s) now io1 io2 io3 ''GET'' binding [] w s = (resp, s')"
  shows "service_ok pr (io_now io3) (stored (recorded pr now p)) s'"
proof -
  note c = cache_served [OF ok body]
  let ?c = "srv_cache s" and ?s = "s\<lparr>srv_cache := (srv_cache s)\<lparr>cs_fetching := True\<rparr>\<rparr>"
  have "validBinding binding" using c(5) by (simp add: binding validBinding_def)
  moreover have "cache_match (sub_AccountBinding (pst_Subscription p)) s = Some ?c"
    using body c(1) by (simp add: cache_match_def Let_def)
  moreover have "fetch_begin (cs_generation ?c) (cs_bodyHash ?c) s = Some ?s"
    using body new by (simp add: fetch_begin_def Let_def)
  ultimately have "s' = fetch_finish pr (cs_generation ?c) (cs_bodyHash ?c) now io3 ?s"
    using run write_body_all [OF assms(6), of "bytes_of_string (cs_body ?c)"]
    by (auto simp: serveSubscription_def serve_body_def recordActiveFetch_def binding)
  then show ?thesis
    using fetch_completes [OF service_ok_fetching [OF ok, of True] clock assms(3,4)] body new(1) assms(7,12)
    by (simp add: subscriptionBodyHash_def sha)
qed


section \<open>Starting on a stored aggregate\<close>

lemma rendered_matches:
  assumes "renderPersistedNodesAt pr nodes g addr = Inr (body, n)"
  shows "matchesRenderedAtAddress pr body nodes g"
proof -
  obtain links where links: "persisted_links pr g False nodes = Inr links" "Render links addr = Inr (body, n)"
    using assms by (auto simp: renderPersistedNodesAt_def renderPersistedNodesAtWithLegacyExclusions_def)
  obtain host port where "renderedAddress body = Some (JoinHostPort host port)"
      "Render links (JoinHostPort host port) = Inr (body, n)"
    using render_reads_back [OF links(2)] by auto
  then show ?thesis
    using links(1) by (simp add: matchesRenderedAtAddress_def renderPersistedNodesAt_def
        renderPersistedNodesAtWithLegacyExclusions_def)
qed

text \<open>
  C38: A restart serves what was stored or refuses to start. When the service starts on a store that holds
  an aggregate, it is consistent, for the same account generation and the same nodes, at the
  configured address or the concrete one the stored body names; and the stored body was empty or the
  rendering of exactly those nodes with the keys of that generation at the address the body itself
  names (by the current or the previous rule for excluded nodes) - a body with any other line stops the start.
\<close>

theorem startup_sound:
  assumes "contains (pr_hmac pr) (pr_parse_duration pr) t p st" and "storable p"
    and "clock_ok t io" and "clock_ok (io_now io) io'"
    and "NewService pr io io' (Some st) addr = Inr s"
  shows "\<exists>q. service_ok pr (io_now io') q s \<and> pst_Subscription q = pst_Subscription p
    \<and> lg_Nodes (pst_LastGood q) = lg_Nodes (pst_LastGood p)
    \<and> (srv_socksAddress s = addr
       \<or> concreteRenderedAddress addr (lg_RenderedSubscription (pst_LastGood p)) = Some (srv_socksAddress s))
    \<and> (lg_RenderedSubscription (pst_LastGood p) = [] \<or> matchesRenderedAtAddress pr
         (lg_RenderedSubscription (pst_LastGood p)) (lg_Nodes (pst_LastGood p)) (pst_Subscription p))"
proof -
  let ?s0 = "\<lparr>srv_store = st, srv_socksAddress = addr, srv_cache = zero_cache\<rparr>"
  have run: "reconcileAndPrime pr io io' ?s0 = (None, s)"
    using assms(5) by (auto simp: NewService_def split: option.splits prod.splits)
  obtain r1 s1 where l: "loadPersisted pr io ?s0 = (r1, s1)" by (metis surj_pair)
  show ?thesis
  proof (rule service_load_cases [OF _ assms(3) l])
    show "contains (pr_hmac pr) (pr_parse_duration pr) t p (srv_store ?s0)" using assms(1) by simp
  next
    fix e assume "r1 = Inl e"
    then show ?thesis using run l by (simp add: reconcileAndPrime_def)
  next
    assume r1: "r1 = Inr p" and c: "contains (pr_hmac pr) (pr_parse_duration pr) (io_now io) p (srv_store s1)"
      and same: "srv_socksAddress s1 = srv_socksAddress ?s0"
    define s2 where "s2 = (case concreteRenderedAddress (srv_socksAddress s1) (lg_RenderedSubscription (pst_LastGood p)) of
      None \<Rightarrow> s1 | Some address \<Rightarrow> s1\<lparr>srv_socksAddress := address\<rparr>)"
    have c2: "contains (pr_hmac pr) (pr_parse_duration pr) (io_now io) p (srv_store s2)"
      using c by (simp add: s2_def split: option.splits)
    have at: "srv_socksAddress s2 = addr
        \<or> concreteRenderedAddress addr (lg_RenderedSubscription (pst_LastGood p)) = Some (srv_socksAddress s2)"
      using same by (simp add: s2_def split: option.splits)
    have a: "adopt_address pr io' p s2 = (None, s)"
      using run l r1 by (auto simp: reconcileAndPrime_def Let_def s2_def [symmetric] split: option.splits prod.splits)
    show ?thesis
    proof (rule adopt_cases [OF c2 assms(2,4) a])
      fix q changed
      assume q: "reconcileListenerAddress pr (srv_socksAddress s2) p = Inr (q, changed)"
        "service_ok pr (io_now io') (if changed then stored q else p) s" "srv_socksAddress s = srv_socksAddress s2"
      have "pst_Subscription q = pst_Subscription p \<and> lg_Nodes (pst_LastGood q) = lg_Nodes (pst_LastGood p)
        \<and> (lg_RenderedSubscription (pst_LastGood p) = [] \<or> matchesRenderedAtAddress pr
            (lg_RenderedSubscription (pst_LastGood p)) (lg_Nodes (pst_LastGood p)) (pst_Subscription p))"
        using q(1) by (cases rule: reconcile_cases) (simp_all add: rendered_matches)
      then show ?thesis using q(2,3) at by (intro exI [of _ "if changed then stored q else p"]) auto
    qed simp_all
  qed
qed

section \<open>Serving the concrete service\<close>

text \<open>The service once \<open>alice\<close>'s node list is committed.\<close>

definition svc_served :: SubService where
  "svc_served = \<lparr>srv_store = demo_store (projr (replacePersistentStateTx demo_hmac (\<lambda>_. Inr hour) demo_now svc_published
       empty_tables)), srv_socksAddress = ''127.0.0.1:1080'', srv_cache = primed svc_prims svc_published\<rparr>"

lemma svc_served_ok: "service_ok svc_prims demo_now svc_published svc_served"
proof -
  have st: "storable svc_published"
    by (rule commit_change_storable [OF svc_commit_change svc_storable(1) demo_times(1) svc_storable(2,3)])
  obtain u where u: "replacePersistentStateTx demo_hmac (\<lambda>_. Inr hour) demo_now svc_published empty_tables = Inr u"
    using aggregate_written [OF svc_valid(2) st] by (auto simp: svc_prims_def)
  have "contains demo_hmac (\<lambda>_. Inr hour) demo_now svc_published (demo_store u)"
    using replaced_contains [OF _ st u _ _ demo_replaced] svc_valid(2)
    by (simp add: svc_prims_def svc_stored empty_tables_def)
  moreover have "validateRenderedState svc_prims ''127.0.0.1:1080'' demo_now svc_published = None"
    using svc_commit_change by (rule commit_change_Inr)
  moreover have "cache_of svc_prims svc_published (primed svc_prims svc_published)"
    unfolding cache_of_def by (rule exI [of _ "cs_fetching (primed svc_prims svc_published)"]) simp
  ultimately show ?thesis
    using st u by (simp add: service_ok_def svc_served_def svc_prims_def)
qed

definition svc_binding :: string where
  "svc_binding = raw_url_encode (sub_AccountBinding (pst_Subscription svc_published))"

abbreviation "svc_io \<equiv> demo_io demo_now"

definition svc_writer :: writer where "svc_writer = \<lparr>wr_script = [], wr_out = []\<rparr>"

lemma svc_interleaved: "interleaved svc_prims (\<lambda>_. demo_now) (\<lambda>_. demo_now) (\<lambda>_ s. s) svc_io svc_io svc_io"
  by (simp add: interleaved_def clock_ok_def demo_times)

lemma svc_cache:
  "cs_body (srv_cache svc_served) = lg_RenderedSubscription (pst_LastGood svc_published)"
  "cs_binding (srv_cache svc_served) = sub_AccountBinding (pst_Subscription svc_published)"
  "cs_generation (srv_cache svc_served) = 4"
  "lg_RenderedSubscription (pst_LastGood svc_published) \<noteq> []"
  "length (sub_AccountBinding (pst_Subscription svc_published)) = 32"
proof -
  have c: "srv_cache svc_served = primed svc_prims svc_published" by (simp add: svc_served_def)
  show "cs_body (srv_cache svc_served) = lg_RenderedSubscription (pst_LastGood svc_published)"
    "cs_binding (srv_cache svc_served) = sub_AccountBinding (pst_Subscription svc_published)"
    "cs_generation (srv_cache svc_served) = 4" unfolding c by code_simp+
  show "lg_RenderedSubscription (pst_LastGood svc_published) \<noteq> []"
    "length (sub_AccountBinding (pst_Subscription svc_published)) = 32" by code_simp+
qed

lemma svc_generations:
  "lg_Generation (pst_LastGood svc_published) = sub_Generation (pst_Subscription svc_published)"
  by code_simp

lemma svc_request:
  obtains s' where "serveSubscription svc_prims (\<lambda>_ s. s) demo_now svc_io svc_io svc_io ''GET'' svc_binding [] svc_writer svc_served
    = (\<lparr>resp_status = 200, resp_headers = text_headers (length (lg_RenderedSubscription (pst_LastGood svc_published)))
         @ [(''X-Content-Type-Options'', ''nosniff'')],
        resp_body = bytes_of_string (lg_RenderedSubscription (pst_LastGood svc_published))\<rparr>, s')"
proof -
  note b = svc_cache
  have v: "validBinding svc_binding"
    using b by (simp add: validBinding_def svc_binding_def sha256_Size_def)
  have m: "cache_match (sub_AccountBinding (pst_Subscription svc_published)) svc_served = Some (srv_cache svc_served)"
    using b by (simp add: cache_match_def Let_def)
  have "writeSubscriptionBody (bytes_of_string (lg_RenderedSubscription (pst_LastGood svc_published))) svc_writer
      = (length (lg_RenderedSubscription (pst_LastGood svc_published)), None,
         svc_writer\<lparr>wr_out := bytes_of_string (lg_RenderedSubscription (pst_LastGood svc_published))\<rparr>)"
    by code_simp
  then show thesis
    using that v m b(1) by (auto simp: serveSubscription_def svc_binding_def serve_body_def)
qed

lemma served_body_authentic_witness:
  "\<exists>resp s' q k. serveSubscription svc_prims (\<lambda>_ s. s) demo_now svc_io svc_io svc_io ''GET'' svc_binding [] svc_writer svc_served
      = (resp, s') \<and> resp_status resp = 200 \<and> service_ok svc_prims demo_now q svc_served
     \<and> resp_body resp = take k (bytes_of_string (lg_RenderedSubscription (pst_LastGood q)))"
proof -
  obtain resp s' where run: "serveSubscription svc_prims (\<lambda>_ s. s) demo_now svc_io svc_io svc_io ''GET'' svc_binding []
      svc_writer svc_served = (resp, s')" and ok: "resp_status resp = 200" by (rule svc_request) auto
  have "wr_out svc_writer = []" by (simp add: svc_writer_def)
  from served_body_authentic [OF svc_served_ok svc_interleaved demo_times(1) this run refl] ok run
  show ?thesis by auto
qed

lemma subscription_url_roundtrip_witness:
  "\<exists>path resp s'. SubscriptionURL ''http://h/'' svc_served = Inr (''http://h'' @ path, 4)
     \<and> ServeHTTP svc_prims (\<lambda>_ s. s) demo_now svc_io svc_io svc_io 0 ''GET'' path svc_writer svc_served = (resp, s')
     \<and> resp_body resp = bytes_of_string (lg_RenderedSubscription (pst_LastGood svc_published))"
proof -
  obtain url where url: "SubscriptionURL ''http://h/'' svc_served = Inr (url, 4)"
    using svc_cache by (simp add: SubscriptionURL_def Let_def)
  have w: "(0 :: nat) < subscriptionResponseConcurrency" "wr_out svc_writer = []" "wr_script svc_writer = []"
    by (simp_all add: subscriptionResponseConcurrency_def svc_writer_def)
  have base: "base = ''http://h''"
    if "''http://h/'' = base @ replicate n (CHR ''/'')" "base = [] \<or> last base \<noteq> CHR ''/''" for base n
  proof -
    have "rev (dropWhile (\<lambda>c. c = CHR ''/'') (rev (base @ replicate n (CHR ''/'')))) = base"
      using that(2) dropWhile_append2 [of "replicate n (CHR ''/'')" "\<lambda>c. c = CHR ''/''" "rev base"]
      by (cases base rule: rev_cases) auto
    then show ?thesis unfolding that(1) [symmetric] by simp
  qed
  from subscription_url_roundtrip [OF svc_served_ok url w(1,2), of "\<lambda>_ s. s" demo_now svc_io svc_io svc_io]
  show ?thesis using base url w(3) by blast
qed


lemma startup_sound_witness:
  "\<exists>s q. NewService svc_prims svc_io svc_io (Some (srv_store svc_served)) ''127.0.0.1:1080'' = Inr s
     \<and> service_ok svc_prims demo_now q s \<and> lg_Nodes (pst_LastGood q) = lg_Nodes (pst_LastGood svc_published)"
proof -
  let ?st = "srv_store svc_served" and ?addr = "''127.0.0.1:1080''"
  let ?s0 = "\<lparr>srv_store = ?st, srv_socksAddress = ?addr, srv_cache = zero_cache\<rparr>"
  have c: "contains (pr_hmac svc_prims) (pr_parse_duration svc_prims) demo_now svc_published ?st"
    and st: "storable svc_published"
    and v: "validateRenderedState svc_prims ?addr demo_now svc_published = None"
    using svc_served_ok by (simp_all add: service_ok_def svc_served_def)
  have clock: "clock_ok demo_now svc_io" "clock_ok (io_now svc_io) svc_io" by (simp_all add: clock_ok_def demo_times)
  have addr: "validateAddress ?addr = None"
    "concreteRenderedAddress ?addr (lg_RenderedSubscription (pst_LastGood svc_published)) = None" by code_simp+
  have load: "fst (Store_Load (pr_hmac svc_prims) (pr_parse_duration svc_prims) svc_io ?st) = Inr svc_published"
    using store.load_completes [OF c demo_no_fault] demo_times by simp
  obtain n where "renderPersistedNodesAt svc_prims (lg_Nodes (pst_LastGood svc_published))
      (pst_Subscription svc_published) ?addr = Inr (lg_RenderedSubscription (pst_LastGood svc_published), n)"
    using service_rendered [OF svc_served_ok svc_cache(4)] by (auto simp: svc_served_def)
  then have "reconcileListenerAddress svc_prims ?addr svc_published = Inr (svc_published, False)"
    using svc_cache(4,5) by (simp add: reconcileListenerAddress_def Let_def sha256_Size_def svc_generations)
  then have "is_ok (NewService svc_prims svc_io svc_io (Some ?st) ?addr)"
    using addr load v
    by (cases "Store_Load (pr_hmac svc_prims) (pr_parse_duration svc_prims) svc_io ?st")
      (simp add: NewService_def reconcileAndPrime_def loadPersisted_def adopt_address_def)
  then obtain s where "NewService svc_prims svc_io svc_io (Some ?st) ?addr = Inr s" by (auto simp: is_ok_iff)
  from startup_sound [OF c st clock this] this show ?thesis by auto
qed

end
