(* ===== verification/App_Runtime.thy ===== *)
theory App_Runtime
  imports App_Coordinator Subscription_Serving
begin

text \<open>
  \<open>internal/app/runtime.go\<close>: the facade that ties the lifecycle manager, the durable store, the
  subscription service and the selector coordinator together. The store is the one the subscription
  service holds (\<open>main.go\<close> gives both the same pointer). Methods that take \<open>mutations\<close> are one function;
  \<open>Heartbeat\<close> and \<open>Probe\<close>, which release it, have the work of the other goroutines as an argument. The
  refresher is an interface of the package and an argument; what is published to the event hub is
  the list of the events in order.
\<close>

section \<open>State\<close>

datatype runtime_event =
    LifecycleEvent ServiceState u64
  | RefreshEvent ServiceState u64 bool
  | ProbeEvent string NodeHealth int gotime

record Runtime =
  rt_manager :: Manager
  rt_subscriptions :: SubService
  rt_selectors :: Coordinator
  rt_alive :: bool
  rt_refreshEvery :: duration
  rt_lastRefreshAt :: gotime
  rt_nextRefreshAt :: gotime
  rt_probes :: nat
  rt_probeSlots :: nat
  rt_events :: "runtime_event list"

definition minRefreshPolicy :: duration where "minRefreshPolicy = 15 * minute"
definition maxRefreshPolicy :: duration where "maxRefreshPolicy = 24 * hour"
definition refreshExpirySafetyMargin :: duration where "refreshExpirySafetyMargin = 30 * minute"
definition refreshRetryAttemptBudget :: duration where "refreshRetryAttemptBudget = 5 * minute"

definition NodeHealthHealthy :: NodeHealth where "NodeHealthHealthy = ''healthy''"
definition NodeHealthUnhealthy :: NodeHealth where "NodeHealthUnhealthy = ''unhealthy''"

abbreviation errRuntimeStopped :: go_error where "errRuntimeStopped \<equiv> New ''app: runtime stopped''"
abbreviation ErrProbeBusy :: go_error where "ErrProbeBusy \<equiv> Sent ''app.ErrProbeBusy''"
abbreviation ErrStaleProbe :: go_error where "ErrStaleProbe \<equiv> Sent ''app.ErrStaleProbe''"

text \<open>\<open>manager.Current\<close> and \<open>manager.State\<close>.\<close>

abbreviation rt_current :: "Runtime \<Rightarrow> RuntimeSnapshot option" where
  "rt_current rt \<equiv> mgr_runtime (rt_manager rt)"

abbreviation rt_state :: "Runtime \<Rightarrow> ServiceState" where
  "rt_state rt \<equiv> mgr_state (rt_manager rt)"

definition rt_publish :: "runtime_event \<Rightarrow> Runtime \<Rightarrow> Runtime" where
  "rt_publish e rt = rt\<lparr>rt_events := rt_events rt @ [e]\<rparr>"

definition publishState :: "Runtime \<Rightarrow> Runtime" where
  "publishState rt =
     (let status = Manager_Status (rt_manager rt)
      in rt_publish (LifecycleEvent (status_State status) (status_Generation status)) rt)"

section \<open>The refresh schedule\<close>

definition parseRefreshPolicy :: "Prims \<Rightarrow> string \<Rightarrow> go_error + duration" where
  "parseRefreshPolicy pr value =
     (case pr_parse_duration pr value of
        Inl _ \<Rightarrow> Inl (New ''app: refresh policy must be between 15m and 24h'')
      | Inr interval \<Rightarrow>
          if interval < minRefreshPolicy \<or> interval > maxRefreshPolicy
          then Inl (New ''app: refresh policy must be between 15m and 24h'') else Inr interval)"

definition boundedRefreshAt :: "gotime \<Rightarrow> gotime \<Rightarrow> duration \<Rightarrow> gotime" where
  "boundedRefreshAt base expiresAt every =
     (let next_at = base + every in
      if expiresAt = time_zero then next_at
      else let deadline = expiresAt - refreshExpirySafetyMargin in
           if next_at > deadline then deadline else next_at)"

definition current_expiry :: "Runtime \<Rightarrow> gotime" where
  "current_expiry rt = (case rt_current rt of None \<Rightarrow> time_zero | Some current \<Rightarrow> snap_ExpiresAt current)"

definition recordRefresh :: "gotime \<Rightarrow> Runtime \<Rightarrow> Runtime" where
  "recordRefresh now rt =
     rt\<lparr>rt_lastRefreshAt := now,
        rt_nextRefreshAt := boundedRefreshAt now (current_expiry rt) (rt_refreshEvery rt)\<rparr>"

definition scheduleRefreshRetry :: "gotime \<Rightarrow> Runtime \<Rightarrow> Runtime" where
  "scheduleRefreshRetry now rt =
     (let expiresAt = current_expiry rt;
          next_at = now + minRefreshPolicy;
          deadline = expiresAt - refreshRetryAttemptBudget in
      if expiresAt \<noteq> time_zero \<and> \<not> deadline > now then rt\<lparr>rt_nextRefreshAt := time_zero\<rparr>
      else
        let next_at = (if expiresAt \<noteq> time_zero \<and> next_at > deadline then deadline else next_at) in
        if rt_nextRefreshAt rt = time_zero \<or> rt_nextRefreshAt rt < next_at
        then rt\<lparr>rt_nextRefreshAt := next_at\<rparr> else rt)"

definition RefreshEvery :: "Runtime \<Rightarrow> duration" where
  "RefreshEvery rt = (if \<not> rt_alive rt then 0 else rt_refreshEvery rt)"

definition RefreshDue :: "gotime \<Rightarrow> Runtime \<Rightarrow> bool" where
  "RefreshDue now rt \<longleftrightarrow> rt_alive rt \<and> rt_nextRefreshAt rt \<noteq> time_zero \<and> \<not> now < rt_nextRefreshAt rt"

section \<open>Durable calls\<close>

definition rt_update ::
  "Prims \<Rightarrow> SqlIO \<Rightarrow> (PersistentState \<Rightarrow> go_error + PersistentState) \<Rightarrow> Runtime \<Rightarrow>
   (go_error + PersistentState) \<times> Runtime"
where
  "rt_update pr io change rt =
     (case service_update pr io change (rt_subscriptions rt) of
        (r, subs) \<Rightarrow> (map_sum id snd r, rt\<lparr>rt_subscriptions := subs\<rparr>))"

definition rt_load :: "Prims \<Rightarrow> SqlIO \<Rightarrow> Runtime \<Rightarrow> (go_error + PersistentState) \<times> Runtime" where
  "rt_load pr io rt =
     (case loadPersisted pr io (rt_subscriptions rt) of (r, subs) \<Rightarrow> (r, rt\<lparr>rt_subscriptions := subs\<rparr>))"

definition clear_session :: "PersistentState \<Rightarrow> go_error + PersistentState" where
  "clear_session candidate = Inr (candidate\<lparr>pst_ActiveSession := None\<rparr>)"

definition clearActiveSession :: "Prims \<Rightarrow> SqlIO \<Rightarrow> Runtime \<Rightarrow> go_error option \<times> Runtime" where
  "clearActiveSession pr io rt =
     (case rt_update pr io clear_session rt of
        (Inl e, rt) \<Rightarrow> (Some e, rt) | (Inr _, rt) \<Rightarrow> (None, rt))"

section \<open>Construction and end\<close>

text \<open>
  \<open>NewRuntime\<close> on the collaborators it is given; \<open>probeConcurrent\<close> and \<open>refreshEvery\<close> are the
  configured values, \<open>io\<close> and \<open>io'\<close> the two calls of the store.
\<close>

definition clamp_probes :: "int \<Rightarrow> nat" where
  "clamp_probes probeConcurrent =
     nat (if probeConcurrent \<le> 0 then 8 else if probeConcurrent > 32 then 32 else probeConcurrent)"

definition NewRuntime ::
  "Prims \<Rightarrow> SqlIO \<Rightarrow> SqlIO \<Rightarrow> gotime \<Rightarrow> duration \<Rightarrow> int \<Rightarrow> Manager \<Rightarrow> SubService \<Rightarrow> Coordinator \<Rightarrow>
   go_error + Runtime"
where
  "NewRuntime pr io io' now refreshEvery probeConcurrent manager subs selectors =
     (let every = (if refreshEvery < minRefreshPolicy \<or> refreshEvery > maxRefreshPolicy then 23 * hour
                   else refreshEvery) in
      case loadPersisted pr io subs of
        (Inl e, _) \<Rightarrow> Inl e
      | (Inr p, subs) \<Rightarrow>
          try_bind (if pref_RefreshPolicy (pst_Preferences p) \<noteq> []
                    then parseRefreshPolicy pr (pref_RefreshPolicy (pst_Preferences p)) else Inr every) (\<lambda>every.
          try_bind
            (if pst_ActiveSession p \<noteq> None \<and> \<not> SessionUsable (pst_ActiveSession p) now then
               (case (if mgr_state manager = StateReady \<or> mgr_state manager = StateDegraded
                      then MarkExpired now manager else (None, manager)) of
                  (Some e, _) \<Rightarrow> Inl e
                | (None, manager) \<Rightarrow>
                    (case service_update pr io' clear_session subs of
                       (Inl e, _) \<Rightarrow> Inl e
                     | (Inr (_, p), subs) \<Rightarrow> Inr (p, manager, subs)))
             else Inr (p, manager, subs)) (\<lambda>(p, manager, subs).
          let schedule = (case pst_ActiveSession p of
                 Some active \<Rightarrow>
                   if SessionUsable (Some active) now
                   then (snap_CreatedAt active, boundedRefreshAt (snap_CreatedAt active) (snap_ExpiresAt active) every)
                   else (time_zero, time_zero)
               | None \<Rightarrow> (time_zero, time_zero))
          in Inr \<lparr>rt_manager = manager, rt_subscriptions = subs, rt_selectors = selectors, rt_alive = True,
                  rt_refreshEvery = every, rt_lastRefreshAt = fst schedule, rt_nextRefreshAt = snd schedule,
                  rt_probes = 0, rt_probeSlots = clamp_probes probeConcurrent, rt_events = []\<rparr>)))"

definition Healthy :: "Runtime \<Rightarrow> bool" where "Healthy rt = rt_alive rt"

text \<open>The events are closed with the hub.\<close>

definition Runtime_Stop :: "Runtime \<Rightarrow> Runtime" where
  "Runtime_Stop rt = rt\<lparr>rt_alive := False, rt_manager := SignOut (rt_manager rt)\<rparr>"

section \<open>Access token\<close>

record accessError =
  ae_cause :: go_error
  ae_code :: string
  ae_status :: nat

definition classifyAccessSetupError :: "go_error \<Rightarrow> accessError" where
  "classifyAccessSetupError cause =
     (if errors_is cause ErrAccessTokenAlreadyInitialized
      then \<lparr>ae_cause = cause, ae_code = ''access_initialized'', ae_status = 409\<rparr>
      else if errors_is cause ErrInvalidAccessToken
      then \<lparr>ae_cause = cause, ae_code = ''access_invalid'', ae_status = 401\<rparr>
      else \<lparr>ae_cause = cause, ae_code = ''access_unavailable'', ae_status = 503\<rparr>)"

definition invalidAccessError :: accessError where
  "invalidAccessError = \<lparr>ae_cause = ErrInvalidAccessToken, ae_code = ''access_invalid'', ae_status = 401\<rparr>"

definition AccessStatus :: "Prims \<Rightarrow> SqlIO \<Rightarrow> Runtime \<Rightarrow> (go_error + bool) \<times> Runtime" where
  "AccessStatus pr io rt =
     (if \<not> rt_alive rt then (Inl errRuntimeStopped, rt)
      else case rt_load pr io rt of
        (Inl e, rt) \<Rightarrow> (Inl e, rt)
      | (Inr p, rt) \<Rightarrow> (Inr (AccessTokenInitialized p), rt))"

definition AccessSetup ::
  "Prims \<Rightarrow> argon2 \<Rightarrow> stream \<Rightarrow> SqlIO \<Rightarrow> string \<Rightarrow> Runtime \<Rightarrow> accessError option \<times> Runtime"
where
  "AccessSetup pr argon2 rnd io token rt =
     (if \<not> rt_alive rt then (Some (classifyAccessSetupError errRuntimeStopped), rt)
      else
        (case rt_update pr io (\<lambda>candidate. case SetAccessToken argon2 candidate token rnd of
                 (None, q, _) \<Rightarrow> Inr q | (Some e, _, _) \<Rightarrow> Inl e) rt of
           (Inl e, rt) \<Rightarrow> (Some (classifyAccessSetupError e), rt)
         | (Inr p, rt) \<Rightarrow>
             (case pst_AccessTokenVerifier p of
                None \<Rightarrow> (Some (classifyAccessSetupError (New ''access verifier was not persisted'')), rt)
              | Some _ \<Rightarrow>
                  (case ConfigureBindingKey (BindingKey (pst_AccessTokenVerifier p)) (rt_manager rt) of
                     (Some e, m) \<Rightarrow> (Some (classifyAccessSetupError e), rt\<lparr>rt_manager := m\<rparr>)
                   | (None, m) \<Rightarrow> (None, publishState (rt\<lparr>rt_manager := m\<rparr>))))))"

definition AccessLogin ::
  "Prims \<Rightarrow> argon2 \<Rightarrow> SqlIO \<Rightarrow> string \<Rightarrow> Runtime \<Rightarrow> accessError option \<times> Runtime"
where
  "AccessLogin pr argon2 io token rt =
     (if \<not> rt_alive rt then (Some (classifyAccessSetupError errRuntimeStopped), rt)
      else case rt_load pr io rt of
        (Inl e, rt) \<Rightarrow> (Some (classifyAccessSetupError e), rt)
      | (Inr p, rt) \<Rightarrow>
          if \<not> VerifyAccessToken argon2 p token then (Some invalidAccessError, rt) else (None, rt))"

section \<open>Views\<close>

text \<open>\<open>d.Round(time.Millisecond) / time.Millisecond\<close> of a positive \<open>d\<close>: \<open>Round\<close> rounds half up and stops at the end of \<open>int64\<close>.\<close>

definition rounded_ms :: "duration \<Rightarrow> int" where
  "rounded_ms d =
     (if d \<le> 0 then 0
      else let r = d mod millisecond;
               rounded = (if r + r < millisecond then d - r
                          else if d + millisecond - r > 2 ^ 63 - 1 then 2 ^ 63 - 1 else d + millisecond - r)
           in rounded div millisecond)"

record RuntimeStatus =
  rs_State :: ServiceState
  rs_LastRefreshAt :: gotime
  rs_NextRefreshAt :: gotime
  rs_SocksAddress :: string
  rs_Total :: nat
  rs_Eligible :: nat
  rs_Healthy :: nat
  rs_Subscription :: Metadata
  rs_Account :: "AccountSummary option"

definition Runtime_Status :: "string \<Rightarrow> Runtime \<Rightarrow> go_error + RuntimeStatus" where
  "Runtime_Status socksAddress rt =
     (if \<not> rt_alive rt then Inl errRuntimeStopped
      else
        let status = Manager_Status (rt_manager rt)
        in Inr \<lparr>rs_State = status_State status, rs_LastRefreshAt = rt_lastRefreshAt rt,
                rs_NextRefreshAt = rt_nextRefreshAt rt, rs_SocksAddress = socksAddress,
                rs_Total = status_NodeTotal status, rs_Eligible = status_Eligible status,
                rs_Healthy = (case rt_current rt of None \<Rightarrow> 0
                  | Some current \<Rightarrow> length (filter (\<lambda>n. node_Health n = NodeHealthHealthy) (snap_Nodes current))),
                rs_Subscription = Service_Metadata (rt_subscriptions rt),
                rs_Account = (if acct_Display (status_Account status) \<noteq> [] then Some (status_Account status)
                              else None)\<rparr>)"

record NodeView =
  nv_ID :: string
  nv_Name :: string
  nv_Group :: string
  nv_Provider :: string
  nv_Health :: NodeHealth
  nv_TCPLatencyMS :: int
  nv_UDPHealth :: UDPHealth
  nv_Eligible :: bool

definition Runtime_Nodes :: "Runtime \<Rightarrow> go_error + NodeView list" where
  "Runtime_Nodes rt =
     (if \<not> rt_alive rt then Inl errRuntimeStopped
      else case rt_current rt of
        None \<Rightarrow> Inr []
      | Some current \<Rightarrow>
          Inr (map (\<lambda>n. \<lparr>nv_ID = node_ID n, nv_Name = node_Name n, nv_Group = node_Group n,
                 nv_Provider = node_Provider n, nv_Health = node_Health n,
                 nv_TCPLatencyMS = rounded_ms (node_TCPRTT n), nv_UDPHealth = node_UDPHealth n,
                 nv_Eligible = node_Eligible n\<rparr>) (snap_Nodes current)))"

record NodeDetails =
  nd_Node :: Node
  nd_SocksAddress :: string
  nd_SocksUsername :: string
  nd_SocksPassword :: string
  nd_TCPLatencyMS :: int
  nd_Generation :: u64

definition Runtime_NodeDetails ::
  "Prims \<Rightarrow> string \<Rightarrow> gotime \<Rightarrow> string \<Rightarrow> Runtime \<Rightarrow> go_error + NodeDetails"
where
  "Runtime_NodeDetails pr socksAddress now nodeID rt =
     (if \<not> rt_alive rt then Inl errRuntimeStopped
      else if \<not> SessionUsable (rt_current rt) now then Inl (New ''app: no usable node snapshot'')
      else case rt_current rt of
        None \<Rightarrow> Inl (New ''app: no usable node snapshot'')
      | Some current \<Rightarrow>
          (case NodeByID current nodeID of
             None \<Rightarrow> Inl (New ''app: node not found'')
           | Some node \<Rightarrow>
               (case map_of (snap_Selectors current) (node_Selector node) of
                  None \<Rightarrow> Inl (New ''app: node selector authority is stale'')
                | Some ref \<Rightarrow>
                    if ref_Tombstoned ref \<or> ref_NodeID ref \<noteq> node_ID node \<or> ref_Generation ref = 0
                    then Inl (New ''app: node selector authority is stale'')
                    else
                      (case Registry_Credentials (pr_hmac pr) (pr_idna pr) (co_registry (rt_selectors rt))
                              (ref_Generation ref)
                              \<lparr>ident_NodeID = node_ID node, ident_Provider = node_Provider node,
                               ident_Host = node_Host node, ident_Port = uint (node_Port node)\<rparr> of
                         None \<Rightarrow> Inl (New ''app: node selector authority is stale'')
                       | Some credentials \<Rightarrow>
                           if cred_Selector credentials \<noteq> node_Selector node
                           then Inl (New ''app: node selector authority is stale'')
                           else Inr \<lparr>nd_Node = node, nd_SocksAddress = socksAddress,
                                     nd_SocksUsername = cred_Selector credentials,
                                     nd_SocksPassword = cred_Password credentials,
                                     nd_TCPLatencyMS = rounded_ms (node_TCPRTT node),
                                     nd_Generation = ref_Generation ref\<rparr>))))"

text \<open>The closed report of \<open>Diagnostics\<close>; the version, the start time and the UDP mode are constants of the process.\<close>

definition Diagnostics :: "Runtime \<Rightarrow> go_error + ServiceState \<times> u64 \<times> duration" where
  "Diagnostics rt =
     (if \<not> rt_alive rt then Inl errRuntimeStopped
      else let status = Manager_Status (rt_manager rt)
           in Inr (status_State status, status_Generation status, RefreshEvery rt))"

section \<open>Publishing a control snapshot\<close>

text \<open>What one commit reads from outside: the clock of each component, the random source, and the store.\<close>

record CommitEnv =
  ce_bind_now :: gotime
  ce_random :: stream
  ce_load :: SqlIO
  ce_select_now :: gotime
  ce_publish_now :: gotime
  ce_store :: SqlIO
  ce_commit_now :: gotime
  ce_undo :: SqlIO

text \<open>The two rollbacks in memory that every later failure runs, selectors first.\<close>

definition undo_memory ::
  "RegistryRollback \<Rightarrow> SubscriptionGeneration \<Rightarrow> SubscriptionGeneration \<Rightarrow> Runtime \<Rightarrow> Runtime"
where
  "undo_memory undo candidate previous rt =
     rt\<lparr>rt_selectors := snd (rollback_registry undo (rt_selectors rt)),
        rt_manager := rollback candidate previous (rt_manager rt)\<rparr>"

definition abort_commit ::
  "Prims \<Rightarrow> SqlIO \<Rightarrow> PersistentState \<Rightarrow> RegistryRollback \<Rightarrow> SubscriptionGeneration \<Rightarrow> SubscriptionGeneration \<Rightarrow>
   go_error \<Rightarrow> Runtime \<Rightarrow> go_error option \<times> Runtime"
where
  "abort_commit pr io prior undo candidate previous cause rt =
     (case rollback_aggregate pr io prior (rt_subscriptions rt) of
        (r, subs) \<Rightarrow>
          (Some (case r of Inl rollbackErr \<Rightarrow> Join cause rollbackErr | Inr _ \<Rightarrow> cause),
           (undo_memory undo candidate previous rt)\<lparr>rt_subscriptions := subs\<rparr>))"

text \<open>The last part: the rebuilt snapshot is stored and then made current.\<close>

definition finish_commit ::
  "Prims \<Rightarrow> CommitEnv \<Rightarrow> RuntimeCommitPlan \<Rightarrow> SubscriptionGeneration \<Rightarrow> RuntimeSnapshot \<Rightarrow> RegistryRollback \<Rightarrow>
   Runtime \<Rightarrow> go_error option \<times> Runtime"
where
  "finish_commit pr env plan previous rebuilt undo rt =
     (case CommitRuntimeSnapshot pr None (ce_publish_now env) plan (Some rebuilt) (ce_store env)
             (rt_subscriptions rt) of
        (Inl e, subs) \<Rightarrow>
          (Some e, undo_memory undo (plan_Generation plan) previous (rt\<lparr>rt_subscriptions := subs\<rparr>))
      | (Inr prior, subs) \<Rightarrow>
          let rt = rt\<lparr>rt_subscriptions := subs\<rparr> in
          (case Commit (pr_hmac pr) (Some rebuilt) (ce_commit_now env) (rt_manager rt) of
             (Some e, m) \<Rightarrow>
               abort_commit pr (ce_undo env) prior undo (plan_Generation plan) previous e (rt\<lparr>rt_manager := m\<rparr>)
           | (None, m) \<Rightarrow> (None, rt\<lparr>rt_manager := m\<rparr>)))"

definition CommitControlSnapshotLocked ::
  "Prims \<Rightarrow> CommitEnv \<Rightarrow> RuntimeSnapshot option \<Rightarrow> Runtime \<Rightarrow> go_error option \<times> Runtime"
where
  "CommitControlSnapshotLocked pr env snapshot rt =
     (case snapshot of
        None \<Rightarrow> (Some (New ''app: incomplete control snapshot''), rt)
      | Some candidate \<Rightarrow>
          if \<not> ClientSessions_Valid (snap_Sessions candidate)
          then (Some (New ''app: incomplete control snapshot''), rt)
          else if \<not> rt_alive rt then (Some errRuntimeStopped, rt)
          else
            let user = ClientSessions_UserID (snap_Sessions candidate) in
            (case PrepareRuntimeCommit pr None user (ce_bind_now env) (ce_random env) (ce_load env)
                    (rt_subscriptions rt) of
               (Inl e, subs) \<Rightarrow> (Some e, rt\<lparr>rt_subscriptions := subs\<rparr>)
             | (Inr plan, subs) \<Rightarrow>
                 let rt = rt\<lparr>rt_subscriptions := subs\<rparr> in
                 (case InstallSubscriptionGeneration (pr_hmac pr) (plan_Generation plan) user (rt_manager rt) of
                    (Inl e, m) \<Rightarrow> (Some e, rt\<lparr>rt_manager := m\<rparr>)
                  | (Inr previous, m) \<Rightarrow>
                      let rt = rt\<lparr>rt_manager := m\<rparr> in
                      (case InstallGeneration (pr_hmac pr) (pr_idna pr) (plan_Generation plan) (Some candidate)
                              (ce_select_now env) (rt_selectors rt) of
                         (Inl e, c) \<Rightarrow>
                           (Some e, rt\<lparr>rt_selectors := c,
                              rt_manager := rollback (plan_Generation plan) previous (rt_manager rt)\<rparr>)
                       | (Inr (rebuilt, undo), c) \<Rightarrow>
                           finish_commit pr env plan previous rebuilt undo (rt\<lparr>rt_selectors := c\<rparr>)))))"

section \<open>Account operations\<close>

definition Logout :: "Prims \<Rightarrow> SqlIO \<Rightarrow> Runtime \<Rightarrow> go_error option \<times> Runtime" where
  "Logout pr io rt =
     (if \<not> rt_alive rt then (Some errRuntimeStopped, rt)
      else case rt_update pr io clear_session rt of
        (Inl e, rt) \<Rightarrow> (Some e, rt)
      | (Inr _, rt) \<Rightarrow> (None, publishState (rt\<lparr>rt_manager := SignOut (rt_manager rt)\<rparr>)))"

record loginError =
  le_cause :: go_error
  le_code :: string
  le_status :: nat

abbreviation ErrLoginRejected :: go_error where "ErrLoginRejected \<equiv> Sent ''kuaifan.ErrLoginRejected''"

definition classifyLoginError :: "go_error \<Rightarrow> loginError" where
  "classifyLoginError cause =
     (if errors_is cause ErrLoginRejected
      then \<lparr>le_cause = cause, le_code = ''login_rejected'', le_status = 401\<rparr>
      else if errors_is cause ErrOperationInProgress
      then \<lparr>le_cause = cause, le_code = ''operation_in_progress'', le_status = 409\<rparr>
      else \<lparr>le_cause = cause, le_code = ''login_unavailable'', le_status = 503\<rparr>)"

text \<open>The \<open>Refresher\<close> interface: what a call makes of the runtime, its commit callback included.\<close>

record Refresher =
  rf_Login :: "string \<Rightarrow> Runtime \<Rightarrow> go_error option \<times> Runtime"
  rf_Refresh :: "Runtime \<Rightarrow> go_error option \<times> Runtime"
  rf_ExpireIfNeeded :: "gotime \<Rightarrow> Runtime \<Rightarrow> (bool \<times> go_error option) \<times> Runtime"

text \<open>\<open>Login\<close>; the account name and the password are arguments of the refresher, which gets the installation id here.\<close>

definition Runtime_Login ::
  "Prims \<Rightarrow> Refresher \<Rightarrow> SqlIO \<Rightarrow> gotime \<Rightarrow> Runtime \<Rightarrow> (loginError + AccountSummary) \<times> Runtime"
where
  "Runtime_Login pr refresher io now rt =
     (if \<not> rt_alive rt then (Inl (classifyLoginError errRuntimeStopped), rt)
      else case rt_load pr io rt of
        (Inl e, rt) \<Rightarrow> (Inl (classifyLoginError e), rt)
      | (Inr p, rt) \<Rightarrow>
          (case rf_Login refresher (pst_InstallationID p) rt of
             (Some e, rt) \<Rightarrow>
               (Inl (classifyLoginError e), rt_publish (LifecycleEvent (rt_state rt) 0) rt)
           | (None, rt) \<Rightarrow>
               (case rt_current rt of
                  None \<Rightarrow> (Inl (classifyLoginError (New ''login did not publish a complete session'')), rt)
                | Some current \<Rightarrow>
                    if \<not> ClientSessions_Valid (snap_Sessions current)
                    then (Inl (classifyLoginError (New ''login did not publish a complete session'')), rt)
                    else (Inr (snap_Account current), publishState (recordRefresh now rt)))))"

definition Runtime_Refresh ::
  "Prims \<Rightarrow> Refresher \<Rightarrow> SqlIO \<Rightarrow> gotime \<Rightarrow> Runtime \<Rightarrow> go_error option \<times> Runtime"
where
  "Runtime_Refresh pr refresher io now rt =
     (if \<not> rt_alive rt then (Some errRuntimeStopped, rt)
      else
        let before_refresh = rt_current rt in
        (case rf_Refresh refresher rt of
           (Some e, rt) \<Rightarrow>
             (case (if rt_state rt = StateExpired then clearActiveSession pr io rt else (None, rt)) of
                (Some clearErr, rt) \<Rightarrow> (Some (Join e clearErr), rt)
              | (None, rt) \<Rightarrow> (Some e, rt_publish (RefreshEvent (rt_state rt) 0 False) rt))
         | (None, rt) \<Rightarrow>
             (case (rt_current rt, before_refresh) of
                (Some current, Some earlier) \<Rightarrow>
                  if snap_Generation current \<le> snap_Generation earlier \<or> \<not> ClientSessions_Valid (snap_Sessions current)
                  then (Some (New ''app: refresh did not commit a new complete generation''), rt)
                  else (None, rt_publish (RefreshEvent (rt_state rt) (snap_Generation current) True)
                                (recordRefresh now rt))
              | _ \<Rightarrow> (Some (New ''app: refresh did not commit a new complete generation''), rt))))"

text \<open>\<open>others\<close> runs when \<open>Heartbeat\<close> has released \<open>mutations\<close>; \<open>refresh\<close> asks for a refresh.\<close>

definition Heartbeat ::
  "Prims \<Rightarrow> Refresher \<Rightarrow> (Runtime \<Rightarrow> Runtime) \<Rightarrow> SqlIO \<Rightarrow> SqlIO \<Rightarrow> gotime \<Rightarrow> gotime \<Rightarrow> gotime \<Rightarrow> bool \<Rightarrow> Runtime \<Rightarrow>
   go_error option \<times> Runtime"
where
  "Heartbeat pr refresher others io io' now refreshed failed refresh rt =
     (if \<not> rt_alive rt then (Some errRuntimeStopped, rt)
      else
        (case rf_ExpireIfNeeded refresher now rt of
           ((expired, err), rt) \<Rightarrow>
             (case (if expired then clearActiveSession pr io rt else (None, rt)) of
                (clearErr, rt) \<Rightarrow>
                  let rt = others rt in
                  (case (case clearErr of None \<Rightarrow> err
                         | Some c \<Rightarrow> Some (case err of None \<Rightarrow> c | Some e \<Rightarrow> Join e c)) of
                     Some e \<Rightarrow> (Some e, rt)
                   | None \<Rightarrow>
                       if expired then (None, publishState rt)
                       else if \<not> refresh then (None, rt)
                       else if rt_state rt \<noteq> StateReady \<and> rt_state rt \<noteq> StateDegraded then (None, rt)
                       else
                         (case Runtime_Refresh pr refresher io' refreshed rt of
                            (Some e, rt) \<Rightarrow> (Some e, scheduleRefreshRetry failed rt)
                          | (None, rt) \<Rightarrow> (None, rt))))))"

section \<open>Probes\<close>

record probeTarget =
  pt_generation :: u64
  pt_id :: string
  pt_selector :: string
  pt_provider :: string
  pt_host :: string
  pt_port :: u16

definition probe_target :: "RuntimeSnapshot \<Rightarrow> Node \<Rightarrow> probeTarget" where
  "probe_target current node =
     \<lparr>pt_generation = snap_Generation current, pt_id = node_ID node, pt_selector = node_Selector node,
      pt_provider = node_Provider node, pt_host = node_Host node, pt_port = node_Port node\<rparr>"

definition probe_matches :: "probeTarget \<Rightarrow> RuntimeSnapshot option \<Rightarrow> bool" where
  "probe_matches target snapshot =
     (case snapshot of
        None \<Rightarrow> False
      | Some s \<Rightarrow>
          if snap_Generation s \<noteq> pt_generation target then False
          else case NodeByID s (pt_id target) of
            None \<Rightarrow> False
          | Some node \<Rightarrow> node_ID node = pt_id target \<and> node_Selector node = pt_selector target
              \<and> node_Provider node = pt_provider target \<and> node_Host node = pt_host target
              \<and> node_Port node = pt_port target)"

fun set_probed :: "string \<Rightarrow> NodeHealth \<Rightarrow> duration \<Rightarrow> gotime \<Rightarrow> Node list \<Rightarrow> Node list" where
  "set_probed nodeID health latency observed [] = []"
| "set_probed nodeID health latency observed (n # ns) =
     (if node_ID n = nodeID
      then n\<lparr>node_Health := health, node_TCPRTT := latency, node_ProbedAt := observed\<rparr> # ns
      else n # set_probed nodeID health latency observed ns)"

definition updateProbe ::
  "Prims \<Rightarrow> gotime \<Rightarrow> RuntimeSnapshot option \<Rightarrow> string \<Rightarrow> NodeHealth \<Rightarrow> duration \<Rightarrow> gotime \<Rightarrow> Runtime \<Rightarrow>
   (go_error + RuntimeSnapshot) \<times> Runtime"
where
  "updateProbe pr now current nodeID health latency observed rt =
     (case current of
        None \<Rightarrow> (Inl (New ''app: no active node snapshot''), rt)
      | Some snapshot \<Rightarrow>
          if \<not> ClientSessions_Valid (snap_Sessions snapshot) then (Inl (New ''app: no active node snapshot''), rt)
          else
            let updated = snapshot\<lparr>snap_Generation := snap_Generation snapshot + 1, snap_CreatedAt := observed,
                  snap_Nodes := set_probed nodeID health latency observed (snap_Nodes snapshot)\<rparr>
            in (case Commit (pr_hmac pr) (Some updated) now (rt_manager rt) of
                  (Some e, m) \<Rightarrow> (Inl e, rt\<lparr>rt_manager := m\<rparr>)
                | (None, m) \<Rightarrow> (Inr updated, rt\<lparr>rt_manager := m\<rparr>)))"

text \<open>The first critical section: it takes a slot and picks the node.\<close>

definition probe_begin :: "gotime \<Rightarrow> string \<Rightarrow> Runtime \<Rightarrow> go_error + Node \<times> probeTarget" where
  "probe_begin now nodeID rt =
     (if \<not> SessionUsable (rt_current rt) now then Inl (New ''app: no usable node snapshot'')
      else case rt_current rt of
        None \<Rightarrow> Inl (New ''app: no usable node snapshot'')
      | Some current \<Rightarrow>
          (case NodeByID current nodeID of
             None \<Rightarrow> Inl (New ''app: node unavailable'')
           | Some node \<Rightarrow>
               if \<not> TunnelEligible node then Inl (New ''app: node unavailable'')
               else Inr (node, probe_target current node)))"

text \<open>The second: the result of the dial is applied if the target still stands. \<open>now\<close> is the clock of the manager.\<close>

definition probe_finish ::
  "Prims \<Rightarrow> gotime \<Rightarrow> probeTarget \<Rightarrow> string \<Rightarrow> NodeHealth \<Rightarrow> duration \<Rightarrow> gotime \<Rightarrow> Runtime \<Rightarrow>
   go_error option \<times> Runtime"
where
  "probe_finish pr now target nodeID health latency finished rt =
     (if \<not> rt_alive rt then (Some errRuntimeStopped, rt)
      else if \<not> probe_matches target (rt_current rt) \<or> \<not> SessionUsable (rt_current rt) now
      then (Some ErrStaleProbe, rt)
      else
        (case updateProbe pr now (rt_current rt) nodeID health latency finished rt of
           (Inl e, rt) \<Rightarrow> (Some e, rt)
         | (Inr _, rt) \<Rightarrow>
             (None, publishState (rt_publish (ProbeEvent nodeID health (rounded_ms latency) finished) rt))))"

text \<open>
  \<open>dial\<close> is the answer of the network for the host and port of the node, \<open>started\<close> and \<open>finished\<close>
  the clock around it, and \<open>others\<close> what the other goroutines do meanwhile. The deferred release of the
  slot is last.
\<close>

definition Runtime_Probe ::
  "Prims \<Rightarrow> (Runtime \<Rightarrow> Runtime) \<Rightarrow> (string \<Rightarrow> u16 \<Rightarrow> go_error option) \<Rightarrow> gotime \<Rightarrow> gotime \<Rightarrow> gotime \<Rightarrow> gotime \<Rightarrow>
   string \<Rightarrow> Runtime \<Rightarrow> go_error option \<times> Runtime"
where
  "Runtime_Probe pr others dial now started finished now' nodeID rt =
     (if \<not> rt_alive rt then (Some errRuntimeStopped, rt)
      else if rt_probes rt \<ge> rt_probeSlots rt then (Some ErrProbeBusy, rt)
      else
        let release = (\<lambda>(e, rt). (e, rt\<lparr>rt_probes := rt_probes rt - 1\<rparr>));
            rt = rt\<lparr>rt_probes := rt_probes rt + 1\<rparr>
        in release
             (case probe_begin now nodeID rt of
                Inl e \<Rightarrow> (Some e, rt)
              | Inr (node, target) \<Rightarrow>
                  let dialErr = dial (node_Host node) (node_Port node);
                      latency = max 0 (time_sub finished started);
                      health = (if dialErr = None then NodeHealthHealthy else NodeHealthUnhealthy)
                  in (case probe_finish pr now' target nodeID health latency finished (others rt) of
                        (Some e, rt) \<Rightarrow> (Some e, rt)
                      | (None, rt) \<Rightarrow>
                          (if dialErr \<noteq> None then Some (New ''app: direct TCP probe failed'') else None, rt))))"

end
