(* ===== verification/App_Commit.thy ===== *)
theory App_Commit
  imports App_Runtime
begin

text \<open>
  The publication of a control snapshot (\<open>commitControlSnapshotLocked\<close> of src/internal/app/runtime.go)
  across the four owners it touches: state manager, selector registries, subscription service and store.
  \<open>authority_ok\<close> says that they agree on one subscription generation; the lemmas follow the commit through
  its three places of failure, and the property states the whole: all of it or nothing.
\<close>

section \<open>A rebuilt snapshot fits the database\<close>

lemma select_nodes_storable:
  "select_nodes hmac idna keys nodes ids ai sel = Inr (ai', sel') \<Longrightarrow> list_all node_storable nodes \<Longrightarrow>
   list_all node_storable sel \<Longrightarrow> list_all node_storable sel'"
proof (induction hmac idna keys nodes ids ai sel arbitrary: ai' sel' rule: select_nodes.induct)
  case (2 hmac idna keys source nodes ids ai sel)
  then obtain identity credential where c: "node_ID source \<noteq> []" "node_ID source \<notin> set ids"
      "Canonicalize idna \<lparr>ident_NodeID = node_ID source, ident_Provider = node_Provider source,
        ident_Host = node_Host source, ident_Port = uint (node_Port source)\<rparr> = Inr identity"
      "DeriveCanonical hmac identity (reg_selectorKey keys) (reg_proxyAuthKey keys) = Inr credential"
      "map_of ai (cred_Selector credential) = None"
    by (auto simp: try_bind_eq_Inr Let_def split: if_splits)
  let ?s = "source\<lparr>node_Provider := canon_Provider identity, node_Host := canon_Host identity,
      node_Port := canon_Port identity, node_Selector := cred_Selector credential\<rparr>"
  have "node_storable ?s" using "2.prems"(2) by (simp add: node_storable_def)
  moreover have "select_nodes hmac idna keys nodes (node_ID source # ids)
      (AList.update (node_Selector ?s) (length sel) ai) (sel @ [?s]) = Inr (ai', sel')"
    using "2.prems"(1) c by (simp add: Let_def)
  ultimately show ?case
    using "2.IH" [OF c(1,2) , of credential ?s identity] c "2.prems" by simp
qed simp

lemma build_storable:
  assumes build: "BuildWithTombstones hmac idna r want nodes prev now = Inr res" and prev: "gomap_ok prev"
    and fits: "list_all node_storable nodes" "unat want < 2 ^ 63" "list_all (\<lambda>e. ref_storable (snd e)) prev"
      "nanos_ok (now + DefaultTombstoneGrace)"
  shows "list_all node_storable (br_Nodes res) \<and> list_all (\<lambda>e. ref_storable (snd e)) (br_Selectors res)
    \<and> gomap_ok (br_Selectors res)"
proof -
  obtain ai sel where s: "select_nodes hmac idna r nodes [] [] [] = Inr (ai, sel)"
    and n: "res = result_of want ai sel (collect_tombstones want now ai sel prev)"
    using build by (auto simp: build_eq split: if_splits)
  have "list_all node_storable sel" using select_nodes_storable [OF s fits(1)] by simp
  moreover have "set (br_Nodes res) \<subseteq> set sel" by (auto simp: n result_of_def Let_def)
  ultimately have nodes: "list_all node_storable (br_Nodes res)" by (auto simp: list_all_iff)
  obtain ai sel where sels: "map_of (br_Selectors res) = map_of (map (\<lambda>n. (node_Selector n, live_ref want n)) (br_Nodes res))
        ++ map_of (tombstones_of want now ai sel prev)" "gomap_ok (br_Selectors res)"
      "set (tombstones_of want now ai sel prev) \<subseteq> set (collect_tombstones want now ai sel prev)"
    by (rule build_Inr [OF build prev])
  have live: "ref_storable (live_ref want n)" for n
    using fits(2) by (simp add: ref_storable_def live_ref_def)
  have tomb: "ref_storable t" if "(name, t) \<in> set (collect_tombstones want now ai sel prev)" for name t
    using that fits(2-4)
    by (auto simp: collect_iff tombstone_of_def ref_storable_def list_all_iff Let_def split: if_splits option.splits)
  have "ref_storable ref" if "(name, ref) \<in> set (br_Selectors res)" for name ref
  proof -
    have "map_of (br_Selectors res) name = Some ref"
      using that sels(2) by (simp add: gomap_ok_def)
    then consider "map_of (tombstones_of want now ai sel prev) name = Some ref"
      | "map_of (map (\<lambda>n. (node_Selector n, live_ref want n)) (br_Nodes res)) name = Some ref"
      unfolding sels(1) by (auto simp: map_add_def split: option.splits)
    then show ?thesis
    proof cases
      case 1
      then show ?thesis using tomb sels(3) by (meson map_of_SomeD subsetD)
    next
      case 2
      then show ?thesis using live by (auto dest!: map_of_SomeD)
    qed
  qed
  then show ?thesis using nodes sels(2) by (auto simp: list_all_iff)
qed

lemma install_storable:
  assumes "InstallGeneration hmac idna g (Some s) now c = (Inr (rebuilt, undo), c')"
    and "snapshot_storable s" and "unat (sub_Generation g) < 2 ^ 63" and "nanos_ok (now + DefaultTombstoneGrace)"
  shows "snapshot_storable rebuilt"
proof -
  obtain r result where "BuildWithTombstones hmac idna r (sub_Generation g) (snap_Nodes s)
      (previous_selectors (sub_Generation g) s) now = Inr result"
    and rebuilt: "rebuilt = s\<lparr>snap_Nodes := br_Nodes result, snap_Selectors := br_Selectors result\<rparr>"
    using assms(1) by (auto simp: InstallGeneration_Inr)
  moreover have "gomap_ok (previous_selectors (sub_Generation g) s)"
    using assms(2) by (auto simp: snapshot_storable_def previous_selectors_def)
  moreover have "list_all (\<lambda>e. ref_storable (snd e)) (previous_selectors (sub_Generation g) s)"
    using assms(2) by (auto simp: snapshot_storable_def previous_selectors_def list_all_iff)
  ultimately show ?thesis
    using assms(2-4) build_storable [of hmac idna r "sub_Generation g" "snap_Nodes s"] by (auto simp: snapshot_storable_def)
qed

section \<open>Preparing and undoing\<close>

lemma prepare_ok:
  assumes ok: "service_ok pr t p s" and clock: "clock_ok t io"
    and run: "PrepareRuntimeCommit pr ctx user now rnd io s = (r, s')"
  shows "service_ok pr (io_now io) p s' \<and> srv_socksAddress s' = srv_socksAddress s
    \<and> (\<forall>plan. r = Inr plan \<longrightarrow> plan_userID plan = user \<and> plan_previous plan = pst_Subscription p
         \<and> (\<exists>changed q rnd'. EnsureSubscriptionAccountBinding (pr_hmac pr) p user now rnd = (Inr changed, q, rnd')
              \<and> plan_Generation plan = pst_Subscription q))"
proof (cases "ctx = None \<and> trim_space user \<noteq> []")
  case False
  have "service_ok pr (io_now io) p s" using service_ok_later [OF ok] clock by (simp add: clock_ok_def)
  then show ?thesis using run False by (auto simp: PrepareRuntimeCommit_def split: option.splits if_splits)
next
  case True
  obtain r1 s1 where l: "loadPersisted pr io s = (r1, s1)" by (metis surj_pair)
  have later: "service_ok pr (io_now io) p s" using service_ok_later [OF ok] clock by (simp add: clock_ok_def)
  show ?thesis
  proof (rule service_load_cases [OF _ clock l])
    show "contains (pr_hmac pr) (pr_parse_duration pr) t p (srv_store s)" using ok by (simp add: service_ok_def)
  next
    fix e assume "r1 = Inl e" "s1 = s"
    then show ?thesis using run True l later by (auto simp: PrepareRuntimeCommit_def)
  next
    assume r1: "r1 = Inr p" and s1: "contains (pr_hmac pr) (pr_parse_duration pr) (io_now io) p (srv_store s1)"
      "srv_cache s1 = srv_cache s" "srv_socksAddress s1 = srv_socksAddress s"
    have "service_ok pr (io_now io) p s1" using later s1 by (simp add: service_ok_def)
    moreover have "s' = s1" using run True l r1 by (auto simp: PrepareRuntimeCommit_def split: prod.splits sum.splits)
    moreover have "\<exists>changed q rnd'. EnsureSubscriptionAccountBinding (pr_hmac pr) p user now rnd = (Inr changed, q, rnd')
        \<and> plan = \<lparr>plan_Generation = pst_Subscription q, plan_userID = user, plan_previous = pst_Subscription p\<rparr>"
      if "r = Inr plan" for plan
      using run True l r1 that by (auto simp: PrepareRuntimeCommit_def split: prod.splits sum.splits)
    ultimately show ?thesis using s1(3) by fastforce
  qed
qed

lemma ensured_storable:
  assumes hmac: "\<And>k m. length (hmac k m) = 32"
    and ens: "EnsureSubscriptionAccountBinding hmac p user now rnd = (Inr changed, q, rnd')"
    and "storable p" and "unat (sub_Generation (pst_Subscription p)) + 1 < 2 ^ 63" and "nanos_ok now"
  shows "generation_storable (pst_Subscription q)"
  using Ensure_cases [OF hmac ens]
proof cases
  case (3 b nxt)
  have "unat (sub_Generation (pst_Subscription p) + 1) < 2 ^ 63"
    using assms(4) by (simp add: unat_word_ariths)
  then show ?thesis using 3(7,8) assms(5)
    by (auto simp: generation_storable_def newSubscriptionGeneration_Inr)
qed (use assms(3) in \<open>auto simp: generation_storable_def storable_def\<close>)

lemma undo_selectors:
  assumes "coherent c" and "InstallGeneration hmac idna g snapshot now c = (Inr (rebuilt, undo), c')"
  shows "snd (rollback_registry undo c') = c"
proof -
  obtain r where c': "c' = c\<lparr>co_socks := map_option (\<lambda>s. s\<lparr>sv_selectors := r\<rparr>) (co_socks c), co_registry := r\<rparr>"
    and u: "undo = \<lparr>rb_previous = co_registry c, rb_done = False\<rparr>"
    using assms(2) by (auto simp: InstallGeneration_Inr)
  have "map_option (\<lambda>s. s\<lparr>sv_selectors := co_registry c\<rparr>) (co_socks c) = co_socks c"
    using assms(1) by (cases "co_socks c") (auto simp: coherent_iff)
  then show ?thesis by (simp add: rollback_registry_eq u c' option.map_comp comp_def)
qed


section \<open>One authority\<close>

text \<open>The manager, the registries and the store agree on the subscription generation.\<close>

definition authority_ok :: "Prims \<Rightarrow> gotime \<Rightarrow> PersistentState \<Rightarrow> Runtime \<Rightarrow> bool" where
  "authority_ok pr t p rt \<longleftrightarrow>
     service_ok pr t p (rt_subscriptions rt) \<and> coherent (rt_selectors rt)
     \<and> mgr_subscription (rt_manager rt) = pst_Subscription p
     \<and> NewRegistry (pst_Subscription p) = Inr (co_registry (rt_selectors rt))"

text \<open>The clocks of a commit do not go back, and its numbers fit the database.\<close>

definition commit_fits :: "gotime \<Rightarrow> PersistentState \<Rightarrow> RuntimeSnapshot \<Rightarrow> CommitEnv \<Rightarrow> bool" where
  "commit_fits t p s env \<longleftrightarrow>
     clock_ok t (ce_load env) \<and> clock_ok (io_now (ce_load env)) (ce_store env)
     \<and> clock_ok (io_now (ce_store env)) (ce_undo env) \<and> nanos_ok (ce_bind_now env) \<and> nanos_ok (ce_publish_now env)
     \<and> nanos_ok (ce_select_now env + DefaultTombstoneGrace) \<and> snapshot_storable s
     \<and> unat (sub_Generation (pst_Subscription p)) + 1 < 2 ^ 63"

lemma registry_installed:
  assumes "coherent c" and "InstallGeneration hmac idna g snapshot now c = (Inr (rebuilt, undo), c')"
  shows "coherent c' \<and> NewRegistry g = Inr (co_registry c') \<and> (\<exists>s. snapshot = Some s
    \<and> snap_Sessions rebuilt = snap_Sessions s \<and> snap_Generation rebuilt = snap_Generation s)"
  using assms by (auto simp: InstallGeneration_Inr coherent_iff)

lemma control_commit_cases:
  assumes "CommitControlSnapshotLocked pr env (Some s) rt = (r, rt')"
  obtains e where "r = Some e" "rt' = rt"
  | e r1 subs where "PrepareRuntimeCommit pr None (ClientSessions_UserID (snap_Sessions s)) (ce_bind_now env)
        (ce_random env) (ce_load env) (rt_subscriptions rt) = (r1, subs)"
      "r = Some e" "rt' = rt\<lparr>rt_subscriptions := subs\<rparr>"
  | plan subs rebuilt undo c where "PrepareRuntimeCommit pr None (ClientSessions_UserID (snap_Sessions s))
        (ce_bind_now env) (ce_random env) (ce_load env) (rt_subscriptions rt) = (Inr plan, subs)"
      "InstallGeneration (pr_hmac pr) (pr_idna pr) (plan_Generation plan) (Some s) (ce_select_now env)
        (rt_selectors rt) = (Inr (rebuilt, undo), c)"
      "finish_commit pr env plan (mgr_subscription (rt_manager rt)) rebuilt undo
        (rt\<lparr>rt_subscriptions := subs, rt_manager := (rt_manager rt)\<lparr>mgr_subscription := plan_Generation plan\<rparr>,
            rt_selectors := c\<rparr>) = (r, rt')"
proof (cases "ClientSessions_Valid (snap_Sessions s) \<and> rt_alive rt")
  case False
  then show thesis
    using assms that(1) by (cases "ClientSessions_Valid (snap_Sessions s)") (auto simp: CommitControlSnapshotLocked_def)
next
  case live: True
  let ?user = "ClientSessions_UserID (snap_Sessions s)"
  note run = assms [unfolded CommitControlSnapshotLocked_def]
  obtain r1 subs where prep: "PrepareRuntimeCommit pr None ?user (ce_bind_now env) (ce_random env) (ce_load env)
      (rt_subscriptions rt) = (r1, subs)" by (metis surj_pair)
  show thesis
  proof (cases r1)
    case (Inl e)
    then show thesis using run live prep that(2) [OF prep] by auto
  next
    case plan: (Inr plan)
    obtain r2 m where inst_m: "InstallSubscriptionGeneration (pr_hmac pr) (plan_Generation plan) ?user (rt_manager rt) = (r2, m)"
      by (metis surj_pair)
    from Install_cases [OF this] consider e where "r2 = Inl e" "m = rt_manager rt"
      | "r2 = Inr (mgr_subscription (rt_manager rt))" "m = (rt_manager rt)\<lparr>mgr_subscription := plan_Generation plan\<rparr>"
      by blast
    then show thesis
    proof cases
      case (1 e)
      then show thesis using run live prep plan inst_m that(2) [OF prep] by auto
    next
      case m: 2
      obtain r3 c where inst_c: "InstallGeneration (pr_hmac pr) (pr_idna pr) (plan_Generation plan) (Some s)
          (ce_select_now env) (rt_selectors rt) = (r3, c)" by (metis surj_pair)
      show thesis
      proof (cases r3)
        case (Inl e)
        then show thesis
          using run live prep plan inst_m m inst_c that(2) [OF prep] InstallGeneration_Inl [OF inst_c [unfolded Inl]]
            rollback_undo [of "plan_Generation plan" "rt_manager rt"] by auto
      next
        case (Inr ru)
        obtain rebuilt undo where "ru = (rebuilt, undo)" by (cases ru)
        then show thesis using run live prep plan inst_m m inst_c Inr that(3) [of plan subs rebuilt undo c] by simp
      qed
    qed
  qed
qed

text \<open>What the last part does, from a runtime \<open>rt\<close> of which the generation of the plan was installed in manager and registries.\<close>

lemma finish_commit_ok:
  assumes hmac: "\<And>k m. length (pr_hmac pr k m) = 32"
    and ok: "authority_ok pr t p rt"
    and fits: "clock_ok t (ce_store env)" "clock_ok (io_now (ce_store env)) (ce_undo env)" "nanos_ok (ce_publish_now env)"
      "generation_storable (plan_Generation plan)" "snapshot_storable rebuilt"
    and inst: "InstallGeneration (pr_hmac pr) (pr_idna pr) (plan_Generation plan) (Some s) now (rt_selectors rt)
        = (Inr (rebuilt, undo), c)"
    and run: "finish_commit pr env plan (mgr_subscription (rt_manager rt)) rebuilt undo
        (rt\<lparr>rt_manager := (rt_manager rt)\<lparr>mgr_subscription := plan_Generation plan\<rparr>, rt_selectors := c\<rparr>) = (r, rt')"
  shows "case r of
      None \<Rightarrow> \<exists>q. authority_ok pr (io_now (ce_store env)) q rt' \<and> rt_current rt' = Some rebuilt
        \<and> pst_ActiveSession q = Some (stored_snapshot rebuilt) \<and> pst_Subscription q = plan_Generation plan
    | Some e \<Rightarrow> rt_manager rt' = rt_manager rt \<and> rt_selectors rt' = rt_selectors rt
        \<and> ((\<exists>q\<in>{p, stored p}. authority_ok pr (io_now (ce_undo env)) q rt')
           \<or> (\<exists>cause rollbackErr. e = Join cause rollbackErr))"
proof -
  let ?m = "(rt_manager rt)\<lparr>mgr_subscription := plan_Generation plan\<rparr>"
  have le: "t \<le> io_now (ce_undo env)" using fits(1,2) by (auto simp: clock_ok_def)
  note ok' = ok [unfolded authority_ok_def]
  obtain sr subs where store: "CommitRuntimeSnapshot pr None (ce_publish_now env) plan (Some rebuilt) (ce_store env)
      (rt_subscriptions rt) = (sr, subs)" by (metis surj_pair)
  note commit = commit_stores [OF _ fits(1,3) store fits(5,4), of p]
  have undone': "undo_memory undo (plan_Generation plan) (mgr_subscription (rt_manager rt))
      (rt\<lparr>rt_selectors := c, rt_subscriptions := x, rt_manager := ?m\<rparr>) = rt\<lparr>rt_subscriptions := x\<rparr>" for x
    using undo_selectors [OF _ inst] ok' rollback_undo [of "plan_Generation plan" "rt_manager rt"]
    by (simp add: undo_memory_def)
  have undone: "undo_memory undo (plan_Generation plan) (mgr_subscription (rt_manager rt))
      (rt\<lparr>rt_manager := ?m, rt_selectors := c, rt_subscriptions := x\<rparr>) = rt\<lparr>rt_subscriptions := x\<rparr>" for x
    using undo_selectors [OF _ inst] ok' rollback_undo [of "plan_Generation plan" "rt_manager rt"]
    by (simp add: undo_memory_def)
  have kept: "authority_ok pr t' q (rt\<lparr>rt_subscriptions := x\<rparr>)"
    if "service_ok pr t' q x" "pst_Subscription q = pst_Subscription p" for x t' q
    using that ok' by (simp add: authority_ok_def)
  show ?thesis
  proof (cases sr)
    case (Inl e)
    then have "r = Some e \<and> rt' = rt\<lparr>rt_subscriptions := subs\<rparr>"
      using run store by (simp add: finish_commit_def undone undone')
    then show ?thesis using kept [OF service_ok_later [OF _ le], of p subs] commit(1) Inl ok' by simp
  next
    case (Inr prior)
    from commit(2) [OF _ Inr] ok' obtain q where q: "prior = p" "service_ok pr (io_now (ce_store env)) (stored q) subs"
        "srv_socksAddress subs = srv_socksAddress (rt_subscriptions rt)"
        "commit_change pr (srv_socksAddress (rt_subscriptions rt)) (ce_publish_now env) (io_now (ce_store env)) plan rebuilt p = Inr q"
      by blast
    obtain r5 m1 where c: "Commit (pr_hmac pr) (Some rebuilt) (ce_commit_now env) ?m = (r5, m1)" by (metis surj_pair)
    show ?thesis
    proof (cases r5)
      case None
      have "pst_Subscription q = plan_Generation plan \<and> pst_ActiveSession q = Some rebuilt"
        by (rule commit_change_Inr [OF q(4)]) (metis PersistentState.select_convs(3,6) PersistentState.surjective
            PersistentState.update_convs(3,5,6))
      moreover have "mgr_runtime m1 = Some rebuilt \<and> mgr_subscription m1 = plan_Generation plan"
        using c None by (cases rule: Commit_cases) simp_all
      moreover have "r = None \<and> rt' = rt\<lparr>rt_manager := m1, rt_selectors := c, rt_subscriptions := subs\<rparr>"
        using run store Inr c None by (auto simp: finish_commit_def)
      ultimately show ?thesis
        using registry_installed [OF _ inst] ok' q(2) by (auto simp: authority_ok_def intro!: exI [of _ "stored q"])
    next
      case (Some e)
      have m1: "m1 = ?m" using c Some by (cases rule: Commit_cases) auto
      obtain r6 subs2 where undo_io: "rollback_aggregate pr (ce_undo env) prior subs = (r6, subs2)" by (metis surj_pair)
      have rt': "rt' = rt\<lparr>rt_subscriptions := subs2\<rparr> \<and> r = Some (case r6 of Inl rollbackErr \<Rightarrow> Join e rollbackErr | Inr _ \<Rightarrow> e)"
        using run store Inr c Some m1 undo_io undone [of subs] undone' [of subs] by (auto simp: finish_commit_def abort_commit_def)
      have st: "storable p" "contains (pr_hmac pr) (pr_parse_duration pr) t p (srv_store (rt_subscriptions rt))"
        "validateRenderedState pr (srv_socksAddress (rt_subscriptions rt)) t p = None" using ok' by (simp_all add: service_ok_def)
      have "case r6 of Inl _ \<Rightarrow> subs2 = subs | Inr _ \<Rightarrow> service_ok pr (io_now (ce_undo env)) (stored p) subs2"
        by (rule rollback_ok [OF q(2) fits(2) undo_io [unfolded q(1)] st(1)]) (simp add: q(3) validate_later [OF st(2) le st(3)])
      then show ?thesis using rt' kept [of "io_now (ce_undo env)" "stored p" subs2] by (auto split: sum.splits)
    qed
  qed
qed



definition run_manager :: Manager where
  "run_manager = \<lparr>mgr_runtime = None, mgr_state = StateSyncing, mgr_active = None, mgr_lease = 0,
     mgr_subscription = pst_Subscription svc_bound, mgr_accountBindingKey = replicate 32 2,
     mgr_bindingKeyConfigured = True\<rparr>"

definition run_runtime :: Runtime where
  "run_runtime = \<lparr>rt_manager = run_manager, rt_subscriptions = svc_service,
     rt_selectors = \<lparr>co_socks = None, co_registry = projr (NewRegistry (pst_Subscription svc_bound))\<rparr>,
     rt_alive = True, rt_refreshEvery = hour, rt_lastRefreshAt = time_zero, rt_nextRefreshAt = time_zero,
     rt_probes = 0, rt_probeSlots = 8, rt_events = []\<rparr>"

definition run_env :: CommitEnv where
  "run_env = \<lparr>ce_bind_now = demo_now, ce_random = \<lparr>st_data = [], st_err = EOF\<rparr>, ce_load = svc_io,
     ce_select_now = demo_now, ce_publish_now = demo_now, ce_store = svc_io, ce_commit_now = demo_now, ce_undo = svc_io\<rparr>"

lemma run_authority: "authority_ok svc_prims 0 svc_bound run_runtime"
proof -
  have "is_ok (NewRegistry (pst_Subscription svc_bound))" by code_simp
  then show ?thesis
    using svc_service_ok by (auto simp: authority_ok_def run_runtime_def run_manager_def coherent_def is_ok_iff)
qed

lemma run_fits: "commit_fits 0 svc_bound svc_snapshot run_env"
proof -
  have "unat (sub_Generation (pst_Subscription svc_bound)) + 1 < 2 ^ 63"
    by (simp add: svc_bound_def demo_aggregate_def demo_persistent_def)
  then show ?thesis
    using svc_clock svc_storable demo_times
    by (simp add: commit_fits_def run_env_def) (simp add: demo_now_def DefaultTombstoneGrace_def nanos_ok_def unix_epoch_def)
qed

lemma map_sum_fst_Inr:
  assumes "map_sum id fst a = Inr x"
  obtains y where "a = Inr (x, y)"
  using assms by (cases a) auto

lemma run_env_now: "ce_select_now run_env = demo_now"
  by (simp add: run_env_def)

lemma run_commit:
  obtains rt' where "CommitControlSnapshotLocked svc_prims run_env (Some svc_snapshot) run_runtime = (None, rt')"
proof -
  let ?user = "ClientSessions_UserID (snap_Sessions svc_snapshot)" and ?s = "rt_subscriptions run_runtime"
  have user: "?user = ''alice''" "ClientSessions_Valid (snap_Sessions svc_snapshot)" "trim_space ''alice'' \<noteq> []" by code_simp+
  have ens: "EnsureSubscriptionAccountBinding (pr_hmac svc_prims) svc_bound ''alice'' (ce_bind_now run_env) (ce_random run_env)
      = (Inr False, svc_bound, ce_random run_env)" unfolding run_env_def by code_simp
  obtain r1 subs where prep: "PrepareRuntimeCommit svc_prims None ''alice'' (ce_bind_now run_env) (ce_random run_env)
      (ce_load run_env) ?s = (r1, subs)" by (metis surj_pair)
  have s0: "service_ok svc_prims 0 svc_bound ?s" using svc_service_ok by (simp add: run_runtime_def)
  have clock: "clock_ok 0 (ce_load run_env)" "clock_ok (io_now (ce_load run_env)) (ce_store run_env)"
    using run_fits by (simp_all add: commit_fits_def)
  have "fst (Store_Load (pr_hmac svc_prims) (pr_parse_duration svc_prims) (ce_load run_env) (srv_store ?s)) = Inr svc_bound"
    using store.load_completes [of "pr_hmac svc_prims" "pr_parse_duration svc_prims" 0 svc_bound "srv_store ?s" "ce_load run_env"]
      s0 demo_no_fault demo_times by (simp add: service_ok_def run_env_def)
  then have plan: "r1 = Inr svc_plan"
    using prep ens user
    by (auto simp: PrepareRuntimeCommit_def loadPersisted_def svc_plan_def split: prod.splits)
  from prepare_ok [OF s0 clock(1) prep] have subs: "service_ok svc_prims (io_now (ce_load run_env)) svc_bound subs"
    "srv_socksAddress subs = ''127.0.0.1:1080''" by (simp_all add: run_runtime_def svc_service_def)
  have m: "fst (InstallSubscriptionGeneration (pr_hmac svc_prims) (plan_Generation svc_plan) ''alice'' run_manager)
      = Inr (mgr_subscription run_manager)" by code_simp
  then obtain m' where inst_m: "InstallSubscriptionGeneration (pr_hmac svc_prims) (plan_Generation svc_plan) ''alice''
      (rt_manager run_runtime) = (Inr (mgr_subscription run_manager), m')"
    by (cases "InstallSubscriptionGeneration (pr_hmac svc_prims) (plan_Generation svc_plan) ''alice'' run_manager")
      (simp add: run_runtime_def)
  have m': "m' = run_manager\<lparr>mgr_subscription := plan_Generation svc_plan\<rparr>"
    using Install_cases [OF inst_m] by (simp add: run_runtime_def)
  have "map_sum id fst (fst (InstallGeneration (pr_hmac svc_prims) (pr_idna svc_prims) (plan_Generation svc_plan)
      (Some svc_snapshot) demo_now (rt_selectors run_runtime))) = Inr svc_snapshot" unfolding run_runtime_def by code_simp
  then obtain undo where inst_r: "fst (InstallGeneration (pr_hmac svc_prims) (pr_idna svc_prims) (plan_Generation svc_plan)
      (Some svc_snapshot) demo_now (rt_selectors run_runtime)) = Inr (svc_snapshot, undo)"
    by (rule map_sum_fst_Inr)
  then obtain c where inst_c: "InstallGeneration (pr_hmac svc_prims) (pr_idna svc_prims) (plan_Generation svc_plan)
      (Some svc_snapshot) (ce_select_now run_env) (rt_selectors run_runtime) = (Inr (svc_snapshot, undo), c)"
    by (metis prod.collapse run_env_now)
  have "is_ok (fst (CommitRuntimeSnapshot svc_prims None (ce_publish_now run_env) svc_plan (Some svc_snapshot)
      (ce_store run_env) subs))"
    using commit_completes [OF subs(1) clock(2) _ user(2), of svc_plan demo_now svc_published] svc_commit_change user(1)
      demo_no_fault subs(2) commit_change_storable [OF svc_commit_change svc_storable(1) demo_times(1) svc_storable(2,3)]
    by (simp add: run_env_def) (simp add: svc_plan_def)
  then obtain prior subs1 where store: "CommitRuntimeSnapshot svc_prims None (ce_publish_now run_env) svc_plan
      (Some svc_snapshot) (ce_store run_env) subs = (Inr prior, subs1)"
    by (cases "CommitRuntimeSnapshot svc_prims None (ce_publish_now run_env) svc_plan (Some svc_snapshot)
      (ce_store run_env) subs") (auto simp: is_ok_iff)
  have "fst (Commit (pr_hmac svc_prims) (Some svc_snapshot) (ce_commit_now run_env) m') = None"
    unfolding m' run_env_def by code_simp
  then obtain m1 where "Commit (pr_hmac svc_prims) (Some svc_snapshot) (ce_commit_now run_env) m' = (None, m1)"
    by (cases "Commit (pr_hmac svc_prims) (Some svc_snapshot) (ce_commit_now run_env) m'") simp
  then show thesis
    using that user prep plan inst_m inst_c store
    by (simp add: CommitControlSnapshotLocked_def) (simp add: run_runtime_def finish_commit_def)
qed


end
