(* ===== verification/App_Facade.thy ===== *)
theory App_Facade
  imports App_Commit
begin

text \<open>
  The other operations of the facade of src/internal/app/runtime.go: a logout is durable, the credentials shown for a
  node are the ones that open it, a probe changes nothing but the health of the node it measured, and a
  failed scheduled refresh is not retried at once.
\<close>

section \<open>Logging out\<close>

lemma validate_signed_out:
  "ValidatePersistentState hmac pd now p = None \<Longrightarrow> ValidatePersistentState hmac pd now (p\<lparr>pst_ActiveSession := None\<rparr>) = None"
  by (auto simp: ValidatePersistentState_def Let_def split: option.splits if_splits)

lemma rendered_signed_out:
  "validateRenderedState pr addr now p = None \<Longrightarrow> validateRenderedState pr addr now (p\<lparr>pst_ActiveSession := None\<rparr>) = None"
  by (auto simp: validateRenderedState_def subscription_ValidatePersistentState_def validate_signed_out Let_def
      split: option.splits if_splits sum.splits)

lemma storable_signed_out: "storable p \<Longrightarrow> storable (p\<lparr>pst_ActiveSession := None\<rparr>)"
  by (simp add: storable_def)

lemma cache_of_signed_out: "cache_of pr (p\<lparr>pst_ActiveSession := None\<rparr>) = cache_of pr p"
  by (simp add: cache_of_def fun_eq_iff primed_def)

lemma no_authority_SignOut: "no_authority (SignOut m)"
  by (simp add: no_authority_def SignOut_def signOutLocked_def split: option.splits)

text \<open>
  A logout is durable or does not happen. When the store refuses the write, the whole runtime is as it was; otherwise
  the store holds the same aggregate without its session, the manager is signed out, and no selector is
  resolved any more. Without a driver fault a logout of a running process succeeds.
\<close>

theorem logout_durable:
  assumes ok: "authority_ok pr t p rt" and clock: "clock_ok t io" and run: "Logout pr io rt = (r, rt')"
  shows "(case r of
      Some e \<Rightarrow> rt' = rt
    | None \<Rightarrow> authority_ok pr (io_now io) (stored (p\<lparr>pst_ActiveSession := None\<rparr>)) rt' \<and> no_authority (rt_manager rt')
        \<and> rt_state rt' = StateSignedOut \<and> (\<forall>sel g now. CompactPin sel g now (rt_manager rt') = Inl ErrSelectorUnknown))
    \<and> (rt_alive rt \<and> no_fault io \<longrightarrow> r = None)"
proof -
  note ok' = ok [unfolded authority_ok_def service_ok_def]
  have t: "t \<le> io_now io" "nanos_ok (io_now io)" using clock by (simp_all add: clock_ok_def)
  let ?q = "p\<lparr>pst_ActiveSession := None\<rparr>" and ?s = "rt_subscriptions rt"
  obtain r1 s1 where u: "service_update pr io clear_session ?s = (r1, s1)" by (metis surj_pair)
  have completes: "no_fault io \<Longrightarrow> is_ok r1"
    using store.update_completes [of "pr_hmac pr" "pr_parse_duration pr" t p "srv_store ?s" io "\<lambda>p. (p, clear_session p)" p ?q]
      ok' t u validate_signed_out [OF store.contains_valid [OF _ t(1)]] storable_signed_out [of p]
    by (auto simp: service_update_def clear_session_def is_ok_iff split: prod.splits)
  show ?thesis
  proof (cases "rt_alive rt")
    case False
    then show ?thesis using run by (auto simp: Logout_def)
  next
    case alive: True
    show ?thesis
    proof (rule service_update_cases [OF _ clock u])
      show "contains (pr_hmac pr) (pr_parse_duration pr) t p (srv_store ?s)" using ok' by simp
    next
      fix e assume e: "r1 = Inl e" "s1 = ?s"
      then have "r = Some e \<and> rt' = rt" using run u alive by (auto simp: Logout_def rt_update_def)
      then show ?thesis using e completes by auto
    next
      fix q assume q: "r1 = Inr (p, q)" "clear_session p = Inr q" "srv_cache s1 = srv_cache ?s" "srv_socksAddress s1 = srv_socksAddress ?s"
        "storable q \<longrightarrow> contains (pr_hmac pr) (pr_parse_duration pr) (io_now io) (stored q) (srv_store s1)"
      have "q = ?q" using q(2) by (simp add: clear_session_def)
      moreover have "validateRenderedState pr (srv_socksAddress ?s) (io_now io) ?q = None"
        using rendered_signed_out validate_later [OF _ t(1)] ok' by blast
      ultimately have "service_ok pr (io_now io) (stored ?q) s1"
        using q ok' storable_signed_out [of p] rendered_stored [OF _ order_refl, of pr "srv_socksAddress ?s" "io_now io" ?q]
          storable_stored [of ?q] by (simp add: service_ok_def cache_of_signed_out)
      moreover have "r = None \<and> rt' = publishState (rt\<lparr>rt_subscriptions := s1, rt_manager := SignOut (rt_manager rt)\<rparr>)"
        using run u q(1) alive by (auto simp: Logout_def rt_update_def)
      ultimately show ?thesis
        using ok' no_authority_CompactPin [OF no_authority_SignOut]
        by (auto simp: authority_ok_def publishState_def rt_publish_def Let_def no_authority_SignOut) (simp_all add: SignOut_def)
    qed
  qed
qed

section \<open>Node details\<close>

lemma NodeByID_Some: "NodeByID s i = Some n \<Longrightarrow> n \<in> set (snap_Nodes s) \<and> node_ID n = i"
  by (auto simp: NodeByID_def find_Some_iff)

lemma credentials_authenticate:
  assumes hmac: "\<And>k x. length (hmac k x) = 32" and c: "Registry_Credentials hmac idna r want ident = Some cred" and "want \<noteq> 0"
  shows "AuthenticateAt hmac r (cred_Selector cred) (cred_Password cred) = Some want"
proof -
  have d: "Derive hmac idna ident (reg_selectorKey r) (reg_proxyAuthKey r) = Inr cred" "want = reg_generation r"
    using c assms(3) by (auto simp: Registry_Credentials_def Registry_load_def split: option.splits sum.splits if_splits)
  obtain canon where sel: "cred_Selector cred
      = selectorPrefix @ raw_url_encode (take selectorBytes (hmac (reg_selectorKey r) (Fingerprint canon)))"
    "cred_Password cred = selector_password hmac (reg_proxyAuthKey r) (cred_Selector cred)"
    using d(1) by (auto simp: Derive_def DeriveCanonical_def Let_def split: if_splits)
  have "validSelector (cred_Selector cred)" "validPassword (cred_Password cred)"
    unfolding sel selector_password_def using valid_encoded [OF hmac] by blast+
  then show ?thesis using sel(2) d(2) by (simp add: AuthenticateAt_def Registry_load_def)
qed

text \<open>
  The credentials that \<open>NodeDetails\<close> returns for a node of the current snapshot authenticate at the
  registry, resolve to exactly this node, and pin it whenever the manager serves the client profile of the node.
\<close>

theorem node_details_usable:
  assumes hmac: "\<And>k x. length (pr_hmac pr k x) = 32"
    and details: "Runtime_NodeDetails pr addr now nodeID rt = Inr d"
  shows "\<exists>s ref. rt_current rt = Some s \<and> nd_Node d \<in> set (snap_Nodes s) \<and> node_ID (nd_Node d) = nodeID
      \<and> AuthenticateAt (pr_hmac pr) (co_registry (rt_selectors rt)) (nd_SocksUsername d) (nd_SocksPassword d) = Some (nd_Generation d)
      \<and> Registry_Resolve (pr_hmac pr) (co_registry (rt_selectors rt)) s (nd_SocksUsername d) (nd_SocksPassword d) t
          = Inr (nd_Node d, ref) \<and> ref_Generation ref = nd_Generation d
      \<and> (case CompactPin (nd_SocksUsername d) (nd_Generation d) now (rt_manager rt) of
           Inr pin \<Rightarrow> pin_Node pin = nd_Node d
         | Inl _ \<Rightarrow> \<not> (serving_state (rt_state rt)
             \<and> snd (ClientSessions_For (snap_Sessions s) (EffectiveClientProfile (nd_Node d)))))"
proof -
  obtain s node ref cred where s: "rt_current rt = Some s" "SessionUsable (Some s) now" "NodeByID s nodeID = Some node"
    and ref: "map_of (snap_Selectors s) (node_Selector node) = Some ref" "\<not> ref_Tombstoned ref" "ref_NodeID ref = node_ID node"
      "ref_Generation ref \<noteq> 0"
    and cred: "Registry_Credentials (pr_hmac pr) (pr_idna pr) (co_registry (rt_selectors rt)) (ref_Generation ref)
        \<lparr>ident_NodeID = node_ID node, ident_Provider = node_Provider node, ident_Host = node_Host node,
         ident_Port = uint (node_Port node)\<rparr> = Some cred" "cred_Selector cred = node_Selector node"
    and d: "nd_Node d = node" "nd_SocksUsername d = node_Selector node" "nd_SocksPassword d = cred_Password cred"
      "nd_Generation d = ref_Generation ref"
    using details by (auto simp: Runtime_NodeDetails_def split: if_splits option.splits)
  have n: "node \<in> set (snap_Nodes s)" "node_ID node = nodeID" using NodeByID_Some [OF s(3)] by simp_all
  have auth: "AuthenticateAt (pr_hmac pr) (co_registry (rt_selectors rt)) (node_Selector node) (cred_Password cred)
      = Some (ref_Generation ref)"
    using credentials_authenticate [OF hmac cred(1) ref(4)] cred(2) by simp
  have res: "ResolveSelector s (node_Selector node) t = Inr (node, ref)" for t
    using s(3) ref n by (simp add: ResolveSelector_def IsTombstoned_def)
  have "node_Selector node \<noteq> []" using auth by (auto simp: AuthenticateAt_def validSelector_def selectorPrefix_def split: option.splits if_splits)
  then have "case CompactPin (node_Selector node) (ref_Generation ref) now (rt_manager rt) of
           Inr pin \<Rightarrow> pin_Node pin = node
         | Inl _ \<Rightarrow> \<not> (serving_state (rt_state rt) \<and> snd (ClientSessions_For (snap_Sessions s) (EffectiveClientProfile node)))"
    using s ref res by (auto simp: CompactPin_def serving_state_def split: prod.splits)
  then show ?thesis using s(1) n auth res unfolding d by (auto simp: Registry_Resolve_def)
qed

section \<open>Probes\<close>

lemma probe_finish_cases:
  assumes "probe_finish pr now target nodeID health latency finished rt = (r, rt')"
  obtains e where "r = Some e" "rt' = rt"
  | latest where "r = None" "rt_alive rt" "rt_current rt = Some latest" "probe_matches target (Some latest)"
      "rt_current rt' = Some (latest\<lparr>snap_Generation := snap_Generation latest + 1, snap_CreatedAt := finished,
          snap_Nodes := set_probed nodeID health latency finished (snap_Nodes latest)\<rparr>)"
      "snap_Generation latest < snap_Generation latest + 1" "rt_probes rt' = rt_probes rt"
proof (cases "rt_alive rt \<and> probe_matches target (rt_current rt) \<and> SessionUsable (rt_current rt) now")
  case False
  then show thesis using assms that(1) by (auto simp: probe_finish_def split: if_splits)
next
  case True
  then obtain latest where l: "rt_current rt = Some latest" "ClientSessions_Valid (snap_Sessions latest)"
    by (auto simp: SessionUsable_def split: option.splits)
  let ?s = "latest\<lparr>snap_Generation := snap_Generation latest + 1, snap_CreatedAt := finished,
      snap_Nodes := set_probed nodeID health latency finished (snap_Nodes latest)\<rparr>"
  obtain r1 m where c: "Commit (pr_hmac pr) (Some ?s) now (rt_manager rt) = (r1, m)" by (metis surj_pair)
  show thesis
  proof (cases rule: Commit_cases [OF c])
    case (1 e)
    then show thesis using assms True l c that(1) by (auto simp: probe_finish_def updateProbe_def)
  next
    case (2 s)
    then show thesis using assms True l c that(2) [of latest]
      by (auto simp: probe_finish_def updateProbe_def publishState_def rt_publish_def Let_def)
  qed
qed


text \<open>What a probe may change in a snapshot: its generation and time, and the health of the node.\<close>

definition probed :: "string \<Rightarrow> NodeHealth \<Rightarrow> duration \<Rightarrow> gotime \<Rightarrow> RuntimeSnapshot \<Rightarrow> RuntimeSnapshot" where
  "probed nodeID health latency at s =
     s\<lparr>snap_Generation := snap_Generation s + 1, snap_CreatedAt := at,
       snap_Nodes := set_probed nodeID health latency at (snap_Nodes s)\<rparr>"

text \<open>
  A probe gives its slot back whatever happens, and changes the published snapshot only when the node it dialled
  still stands in the same generation, with the same selector and endpoint: then a new generation has the health of
  this node, by the answer of the dial, and nothing else changed.
\<close>

theorem probe_applies_exactly:
  assumes run: "Runtime_Probe pr others dial now started finished now' nodeID rt = (r, rt')"
    and slots: "\<And>x. rt_probes (others x) = rt_probes x"
  shows "rt_probes rt' = rt_probes rt \<and>
    (let mid = others (rt\<lparr>rt_probes := rt_probes rt + 1\<rparr>) in
     rt_manager rt' = rt_manager rt \<or> rt_manager rt' = rt_manager mid
     \<or> (\<exists>s node n latency. rt_current rt = Some s \<and> NodeByID s nodeID = Some node \<and> TunnelEligible node
          \<and> rt_alive mid \<and> rt_probes rt < rt_probeSlots rt
          \<and> (\<exists>latest. rt_current mid = Some latest \<and> snap_Generation latest = snap_Generation s
               \<and> NodeByID latest nodeID = Some n \<and> node_Selector n = node_Selector node
               \<and> node_Host n = node_Host node \<and> node_Port n = node_Port node
               \<and> rt_current rt' = Some (probed nodeID
                   (if dial (node_Host node) (node_Port node) = None then NodeHealthHealthy else NodeHealthUnhealthy)
                   latency finished latest)
               \<and> unat (snap_Generation latest) < unat (snap_Generation latest + 1) \<and> 0 \<le> latency)
          \<and> (r = None \<longleftrightarrow> dial (node_Host node) (node_Port node) = None)))"
proof -
  let ?rt = "rt\<lparr>rt_probes := rt_probes rt + 1\<rparr>" and ?mid = "others (rt\<lparr>rt_probes := rt_probes rt + 1\<rparr>)"
  have mid: "rt_probes ?mid = rt_probes rt + 1" using slots by simp
  consider "rt' = rt" | e where "probe_begin now nodeID ?rt = Inl e" "rt' = rt"
    | node target where "probe_begin now nodeID ?rt = Inr (node, target)" "rt_probes rt < rt_probeSlots rt" "rt_alive rt"
    using run by (auto simp: Runtime_Probe_def Let_def not_le split: if_splits sum.splits)
  then show ?thesis
  proof cases
    case 3
    obtain s where s: "rt_current rt = Some s" "NodeByID s nodeID = Some node" "TunnelEligible node" "target = probe_target s node"
      using 3(1) by (auto simp: probe_begin_def split: if_splits option.splits)
    let ?dial = "dial (node_Host node) (node_Port node)" and ?latency = "max 0 (time_sub finished started)"
    let ?health = "if ?dial = None then NodeHealthHealthy else NodeHealthUnhealthy"
    obtain r1 rt1 where fin: "probe_finish pr now' target nodeID ?health ?latency finished ?mid = (r1, rt1)" by (metis surj_pair)
    have res: "rt' = rt1\<lparr>rt_probes := rt_probes rt1 - 1\<rparr>" "r1 = None \<Longrightarrow> r = None \<longleftrightarrow> ?dial = None"
      using run 3 fin by (auto simp: Runtime_Probe_def Let_def split: if_splits option.splits)
    show ?thesis
    proof (cases rule: probe_finish_cases [OF fin])
      case (1 e)
      then show ?thesis using res(1) mid by (simp add: Let_def)
    next
      case (2 latest)
      from 2(4) obtain m where m: "snap_Generation latest = snap_Generation s" "NodeByID latest nodeID = Some m"
          "node_Selector m = node_Selector node" "node_Host m = node_Host node" "node_Port m = node_Port node"
        using s NodeByID_Some [OF s(2)] by (auto simp: probe_matches_def probe_target_def split: if_splits option.splits)
      have cur: "rt_current rt' = Some (probed nodeID ?health ?latency finished latest)"
        using res(1) 2(5) by (simp add: probed_def)
      have less: "unat (snap_Generation latest) < unat (snap_Generation latest + 1)"
        using 2(6) by (simp add: word_less_nat_alt)
      have probes: "rt_probes rt' = rt_probes rt" using res(1) 2(7) mid by simp
      have "0 \<le> ?latency" by simp
      with m cur less s(1-3) 2(2,3) 3(2) res(2) [OF 2(1)]
      have "\<exists>s node n latency. rt_current rt = Some s \<and> NodeByID s nodeID = Some node \<and> TunnelEligible node
          \<and> rt_alive ?mid \<and> rt_probes rt < rt_probeSlots rt
          \<and> (\<exists>latest. rt_current ?mid = Some latest \<and> snap_Generation latest = snap_Generation s
               \<and> NodeByID latest nodeID = Some n \<and> node_Selector n = node_Selector node
               \<and> node_Host n = node_Host node \<and> node_Port n = node_Port node
               \<and> rt_current rt' = Some (probed nodeID
                   (if dial (node_Host node) (node_Port node) = None then NodeHealthHealthy else NodeHealthUnhealthy)
                   latency finished latest)
               \<and> unat (snap_Generation latest) < unat (snap_Generation latest + 1) \<and> 0 \<le> latency)
          \<and> (r = None \<longleftrightarrow> dial (node_Host node) (node_Port node) = None)"
        by (intro exI [of _ node] exI [of _ m] exI [of _ ?latency] exI [of _ s]) simp
      with probes show ?thesis unfolding Let_def by blast
    qed
  qed (use mid in \<open>auto simp: Let_def\<close>)
qed


section \<open>The refresh schedule\<close>

lemma refresh_recorded:
  assumes "Runtime_Refresh pr refresher io now rt = (None, rt')"
  obtains rt1 e where "rf_Refresh refresher rt = (None, rt1)" "rt' = rt_publish e (recordRefresh now rt1)"
  using assms by (auto simp: Runtime_Refresh_def Let_def split: if_splits option.splits prod.splits)

lemma retry_not_due:
  assumes "RefreshDue t (scheduleRefreshRetry failed rt)"
  shows "failed < t \<and> (failed + minRefreshPolicy \<le> t
    \<or> current_expiry rt \<noteq> time_zero \<and> current_expiry rt - refreshRetryAttemptBudget \<le> t)"
  using assms by (auto simp: RefreshDue_def scheduleRefreshRetry_def Let_def minRefreshPolicy_def split: if_splits)

text \<open>
  The schedule of the periodic worker. After a refresh the next one is due within the policy and half an hour
  before the authority expires; after a failed one nothing is due for a quarter of an hour, or until the last five
  minutes of the authority.
\<close>

theorem heartbeat_schedule:
  assumes idle: "rf_ExpireIfNeeded refresher now rt = ((False, None), rt1)" and "rt_alive rt"
    and ready: "rt_state (others rt1) = StateReady \<or> rt_state (others rt1) = StateDegraded"
    and run: "Heartbeat pr refresher others io io' now refreshed failed True rt = (r, rt')"
  shows "case r of
      None \<Rightarrow> rt_lastRefreshAt rt' = refreshed \<and> rt_nextRefreshAt rt' \<le> refreshed + rt_refreshEvery rt'
        \<and> (current_expiry rt' \<noteq> time_zero \<longrightarrow> rt_nextRefreshAt rt' \<le> current_expiry rt' - refreshExpirySafetyMargin)
    | Some e \<Rightarrow> (\<forall>t. RefreshDue t rt' \<longrightarrow> failed < t \<and> (failed + minRefreshPolicy \<le> t
        \<or> current_expiry rt' \<noteq> time_zero \<and> current_expiry rt' - refreshRetryAttemptBudget \<le> t))"
proof -
  obtain r1 rt2 where ref: "Runtime_Refresh pr refresher io' refreshed (others rt1) = (r1, rt2)" by (metis surj_pair)
  have run': "r = r1 \<and> rt' = (if r1 = None then rt2 else scheduleRefreshRetry failed rt2)"
    using run ref idle assms(2) ready by (auto simp: Heartbeat_def split: option.splits)
  show ?thesis
  proof (cases r1)
    case None
    from refresh_recorded [OF ref [unfolded None]] obtain rt3 e where "rt2 = rt_publish e (recordRefresh refreshed rt3)" .
    then show ?thesis using run' None
      by (auto simp: rt_publish_def recordRefresh_def boundedRefreshAt_def current_expiry_def Let_def)
  next
    case (Some e)
    have "current_expiry (scheduleRefreshRetry failed rt2) = current_expiry rt2"
      by (simp add: scheduleRefreshRetry_def current_expiry_def Let_def)
    then show ?thesis using run' Some retry_not_due [of _ failed rt2] by auto
  qed
qed

section \<open>The properties at concrete inputs\<close>

definition run_ready :: Runtime where
  "run_ready = run_runtime\<lparr>rt_manager := run_manager\<lparr>mgr_runtime := Some svc_snapshot, mgr_state := StateReady\<rparr>\<rparr>"

lemma run_ready_authority: "authority_ok svc_prims 0 svc_bound run_ready"
  using run_authority by (simp add: authority_ok_def run_ready_def run_manager_def run_runtime_def)

lemma logout_durable_witness:
  "\<exists>rt'. Logout svc_prims svc_io run_ready = (None, rt')
    \<and> authority_ok svc_prims demo_now (stored (svc_bound\<lparr>pst_ActiveSession := None\<rparr>)) rt' \<and> no_authority (rt_manager rt')"
proof -
  obtain r rt' where run: "Logout svc_prims svc_io run_ready = (r, rt')" by (metis surj_pair)
  have "rt_alive run_ready \<and> no_fault svc_io" using demo_no_fault by (simp add: run_ready_def run_runtime_def)
  then show ?thesis
    using logout_durable [OF run_ready_authority _ run] svc_clock run by auto
qed

definition run_node :: string where "run_node = node_ID (hd (snap_Nodes svc_snapshot))"

definition run_view :: "SubService \<Rightarrow> Runtime" where
  "run_view x = \<lparr>rt_manager = run_manager\<lparr>mgr_runtime := Some svc_snapshot, mgr_state := StateReady\<rparr>,
     rt_subscriptions = x, rt_selectors = \<lparr>co_socks = None, co_registry = projr (NewRegistry (pst_Subscription svc_bound))\<rparr>,
     rt_alive = True, rt_refreshEvery = hour, rt_lastRefreshAt = time_zero, rt_nextRefreshAt = time_zero,
     rt_probes = 0, rt_probeSlots = 8, rt_events = []\<rparr>"

lemma run_view: "run_ready = run_view svc_service"
  by (simp add: run_ready_def run_view_def run_runtime_def)

lemma node_details_usable_witness:
  "\<exists>d. Runtime_NodeDetails svc_prims ''127.0.0.1:1080'' demo_now run_node run_ready = Inr d
    \<and> AuthenticateAt (pr_hmac svc_prims) (co_registry (rt_selectors run_ready)) (nd_SocksUsername d) (nd_SocksPassword d)
        = Some (nd_Generation d)"
proof -
  have "is_ok (Runtime_NodeDetails svc_prims ''127.0.0.1:1080'' demo_now run_node (run_view x))" for x by code_simp
  then obtain d where d: "Runtime_NodeDetails svc_prims ''127.0.0.1:1080'' demo_now run_node run_ready = Inr d"
    unfolding run_view by (metis is_ok_iff)
  have "length (pr_hmac svc_prims k m) = 32" for k m using demo_hmac_length by (simp add: svc_prims_def)
  from node_details_usable [OF this d] d show ?thesis by auto
qed

lemma probe_applies_exactly_witness:
  "\<exists>rt' latency latest. Runtime_Probe svc_prims id (\<lambda>_ _. None) demo_now demo_now (demo_now + 5) (demo_now + 5) run_node run_ready = (None, rt')
    \<and> rt_probes rt' = 0 \<and> rt_current rt' = Some (probed run_node NodeHealthHealthy latency (demo_now + 5) latest)"
proof -
  obtain r rt' where run: "Runtime_Probe svc_prims id (\<lambda>_ _. None) demo_now demo_now (demo_now + 5) (demo_now + 5) run_node run_ready
      = (r, rt')" by (metis surj_pair)
  have "map_option snap_Generation (rt_current (snd (Runtime_Probe svc_prims id (\<lambda>_ _. None) demo_now demo_now (demo_now + 5)
      (demo_now + 5) run_node (run_view x)))) = Some 2" for x by code_simp
  then have "map_option snap_Generation (rt_current rt') = Some 2" using run unfolding run_view by (metis snd_conv)
  moreover have "rt_probes run_ready = 0" "map_option snap_Generation (rt_current run_ready) = Some 1"
    by (simp_all add: run_view run_view_def svc_snapshot_def)
  ultimately show ?thesis
    using probe_applies_exactly [OF run] run by (auto simp: Let_def)
qed

definition failing_refresher :: Refresher where
  "failing_refresher = \<lparr>rf_Login = \<lambda>_ rt. (Some ErrLoginRejected, rt), rf_Refresh = \<lambda>rt. (Some ErrLoginRejected, rt),
     rf_ExpireIfNeeded = \<lambda>_ rt. ((False, None), rt)\<rparr>"

lemma heartbeat_schedule_witness:
  "\<exists>e rt'. Heartbeat svc_prims failing_refresher id svc_io svc_io demo_now demo_now demo_now True run_ready = (Some e, rt')
    \<and> (\<forall>t. RefreshDue t rt' \<longrightarrow> demo_now < t)"
proof -
  obtain r rt' where run: "Heartbeat svc_prims failing_refresher id svc_io svc_io demo_now demo_now demo_now True run_ready = (r, rt')"
    by (metis surj_pair)
  have "r \<noteq> None"
    using run by (auto simp: Heartbeat_def failing_refresher_def Runtime_Refresh_def run_view run_view_def split: if_splits)
  moreover have "rf_ExpireIfNeeded failing_refresher demo_now run_ready = ((False, None), run_ready)"
    by (simp add: failing_refresher_def)
  moreover have "rt_alive run_ready" "rt_state (id run_ready) = StateReady" by (simp_all add: run_view run_view_def)
  ultimately show ?thesis using heartbeat_schedule [OF _ _ _ run] run by auto
qed

end
