(* ===== verification/App_Events.thy ===== *)
theory App_Events
  imports GoLib "HOL-Library.Sublist"
begin

text \<open>
  \<open>internal/app/events.go\<close>: the bounded and lossy hub of browser events. Subscribers (their two
  channels) are objects in a store, because a browser keeps its channel after the hub dropped it;
  a client of the hub maps the id to the address. Sending on a closed channel or closing a channel
  twice panics. Every method runs under the mutex of the hub and is one function; subscriptions,
  cancellations (by the browser or by the watcher of its context), publications and receptions in
  any order are a step relation.
\<close>

section \<open>The hub\<close>

record 'd event =
  ev_Type :: string
  ev_Data :: 'd

text \<open>
  A subscriber: its id, the buffered channel of events, whether the two channels are closed, the
  \<open>sync.Once\<close> of its cancel function, whether a context watches it, and, for the statements only,
  what its browser has received and what was published since it subscribed.
\<close>

record 'd eventSubscriber =
  es_id :: u64
  es_queue :: "'d event list"
  es_cap :: nat
  es_closed :: bool
  es_done :: bool
  es_once :: bool
  es_watched :: bool
  es_received :: "'d event list"
  es_published :: "'d event list"

record 'd eventHub =
  eh_clients :: "(u64, nat) gomap"
  eh_store :: "'d eventSubscriber list"
  eh_nextID :: u64
  eh_capacity :: nat
  eh_buffer :: nat
  eh_closed :: bool
  eh_panicked :: bool

definition defaultEventClients :: int where "defaultEventClients = 16"
definition defaultEventBuffer :: int where "defaultEventBuffer = 8"

definition newEventHub :: "int \<Rightarrow> int \<Rightarrow> 'd eventHub" where
  "newEventHub capacity buffer =
     (let capacity = (if capacity \<le> 0 then defaultEventClients else capacity);
          buffer = (if buffer \<le> 0 then defaultEventBuffer else buffer)
      in \<lparr>eh_clients = [], eh_store = [], eh_nextID = 0, eh_capacity = nat capacity,
          eh_buffer = nat buffer, eh_closed = False, eh_panicked = False\<rparr>)"

definition new_subscriber :: "u64 \<Rightarrow> nat \<Rightarrow> bool \<Rightarrow> 'd eventSubscriber" where
  "new_subscriber i cap watched =
     \<lparr>es_id = i, es_queue = [], es_cap = cap, es_closed = False, es_done = False, es_once = False,
      es_watched = watched, es_received = [], es_published = []\<rparr>"

text \<open>\<open>subscribe\<close> gives the address of the new subscriber; its cancel function is \<open>cancel\<close> there.\<close>

definition subscribe :: "bool \<Rightarrow> 'd eventHub \<Rightarrow> (go_error + nat) \<times> 'd eventHub" where
  "subscribe has_ctx h =
     (if eh_closed h then (Inl (New ''app: event hub stopped''), h)
      else if length (eh_clients h) \<ge> eh_capacity h
      then (Inl (New ''app: event client capacity reached''), h)
      else
        let i = eh_nextID h + 1; a = length (eh_store h) in
        (Inr a, h\<lparr>eh_nextID := i, eh_store := eh_store h @ [new_subscriber i (eh_buffer h) has_ctx],
                  eh_clients := AList.update i a (eh_clients h)\<rparr>))"

text \<open>\<open>close(s.events)\<close> and \<open>close(s.done)\<close>.\<close>

definition close_channels :: "nat \<Rightarrow> 'd eventHub \<Rightarrow> 'd eventHub" where
  "close_channels a h =
     (let s = eh_store h ! a in
      h\<lparr>eh_panicked := eh_panicked h \<or> es_closed s \<or> es_done s,
        eh_store := (eh_store h)[a := s\<lparr>es_closed := True, es_done := True\<rparr>]\<rparr>)"

definition cancel :: "nat \<Rightarrow> 'd eventHub \<Rightarrow> 'd eventHub" where
  "cancel a h =
     (let s = eh_store h ! a in
      if es_once s then h
      else
        let h = h\<lparr>eh_store := (eh_store h)[a := s\<lparr>es_once := True\<rparr>]\<rparr> in
        (case map_of (eh_clients h) (es_id s) of
           None \<Rightarrow> h
         | Some existing \<Rightarrow>
             close_channels existing (h\<lparr>eh_clients := AList.delete (es_id s) (eh_clients h)\<rparr>)))"

definition safeEventType :: "string \<Rightarrow> bool" where
  "safeEventType v \<longleftrightarrow> v = ''state'' \<or> v = ''refresh'' \<or> v = ''probe''"

text \<open>The \<open>select\<close> with a default: the event is dropped when the buffer is full.\<close>

definition send_event :: "'d event \<Rightarrow> 'd eventHub \<Rightarrow> nat \<Rightarrow> 'd eventHub" where
  "send_event ev h a =
     (let s = eh_store h ! a; s = s\<lparr>es_published := es_published s @ [ev]\<rparr> in
      if es_closed s then h\<lparr>eh_panicked := True\<rparr>
      else if length (es_queue s) < es_cap s
      then h\<lparr>eh_store := (eh_store h)[a := s\<lparr>es_queue := es_queue s @ [ev]\<rparr>]\<rparr>
      else h\<lparr>eh_store := (eh_store h)[a := s]\<rparr>)"

definition publish :: "'d event \<Rightarrow> 'd eventHub \<Rightarrow> 'd eventHub" where
  "publish ev h =
     (if \<not> safeEventType (ev_Type ev) then h
      else if eh_closed h then h
      else foldl (send_event ev) h (map snd (eh_clients h)))"

definition close_hub :: "'d eventHub \<Rightarrow> 'd eventHub" where
  "close_hub h =
     (if eh_closed h then h
      else foldl (\<lambda>h (i, a). close_channels a (h\<lparr>eh_clients := AList.delete i (eh_clients h)\<rparr>))
             (h\<lparr>eh_closed := True\<rparr>) (eh_clients h))"

text \<open>The browser side: the next event of a channel, when there is one.\<close>

definition receive :: "nat \<Rightarrow> 'd eventHub \<Rightarrow> 'd eventHub" where
  "receive a h =
     (let s = eh_store h ! a in
      case es_queue s of
        [] \<Rightarrow> h
      | ev # rest \<Rightarrow> h\<lparr>eh_store := (eh_store h)[a := s\<lparr>es_queue := rest, es_received := es_received s @ [ev]\<rparr>]\<rparr>)"

datatype 'd hub_action =
    HSubscribe bool | HCancel nat | HPublish "'d event" | HReceive nat | HClose

inductive hub_step :: "'d eventHub \<Rightarrow> 'd hub_action \<Rightarrow> 'd eventHub \<Rightarrow> bool" where
  subscribe: "subscribe has_ctx h = (r, h') \<Longrightarrow> hub_step h (HSubscribe has_ctx) h'"
| cancel: "a < length (eh_store h) \<Longrightarrow> hub_step h (HCancel a) (cancel a h)"
| publish: "hub_step h (HPublish ev) (publish ev h)"
| receive: "a < length (eh_store h) \<Longrightarrow> hub_step h (HReceive a) (receive a h)"
| close: "hub_step h HClose (close_hub h)"

inductive hub_run :: "'d eventHub \<Rightarrow> 'd hub_action list \<Rightarrow> 'd eventHub \<Rightarrow> bool" where
  none: "hub_run h [] h"
| more: "hub_run h acts h' \<Longrightarrow> hub_step h' act h'' \<Longrightarrow> hub_run h (acts @ [act]) h''"

inductive_cases hub_stepE: "hub_step h act h'"

section \<open>The invariant\<close>

definition subscriber_ok :: "nat \<Rightarrow> 'd eventSubscriber \<Rightarrow> bool" where
  "subscriber_ok buffer s \<longleftrightarrow> es_cap s = buffer \<and> length (es_queue s) \<le> es_cap s
     \<and> es_done s = es_closed s \<and> subseq (es_received s @ es_queue s) (es_published s)
     \<and> (\<forall>ev\<in>set (es_published s). safeEventType (ev_Type ev))"

text \<open>The clients are exactly the subscribers whose channels are open, each under its own id.\<close>

definition hub_core :: "'d eventHub \<Rightarrow> bool" where
  "hub_core h \<longleftrightarrow> \<not> eh_panicked h \<and> gomap_ok (eh_clients h)
     \<and> length (eh_clients h) \<le> eh_capacity h
     \<and> unat (eh_nextID h) = length (eh_store h)
     \<and> (\<forall>a<length (eh_store h). unat (es_id (eh_store h ! a)) = Suc a
          \<and> subscriber_ok (eh_buffer h) (eh_store h ! a))
     \<and> (\<forall>i a. (i, a) \<in> set (eh_clients h) \<longleftrightarrow>
          a < length (eh_store h) \<and> es_id (eh_store h ! a) = i \<and> \<not> es_closed (eh_store h ! a))"

definition hub_inv :: "'d eventHub \<Rightarrow> bool" where
  "hub_inv h \<longleftrightarrow> hub_core h \<and> (eh_closed h \<longrightarrow> eh_clients h = [])"

lemma hub_coreD:
  assumes "hub_core h"
  shows "\<not> eh_panicked h" "gomap_ok (eh_clients h)" "length (eh_clients h) \<le> eh_capacity h"
    "unat (eh_nextID h) = length (eh_store h)"
    "a < length (eh_store h) \<Longrightarrow> unat (es_id (eh_store h ! a)) = Suc a"
    "a < length (eh_store h) \<Longrightarrow> subscriber_ok (eh_buffer h) (eh_store h ! a)"
    "(i, a) \<in> set (eh_clients h) \<longleftrightarrow>
       a < length (eh_store h) \<and> es_id (eh_store h ! a) = i \<and> \<not> es_closed (eh_store h ! a)"
  using assms unfolding hub_core_def by blast+

lemma newEventHub_inv: "hub_inv (newEventHub capacity buffer)"
  by (simp add: newEventHub_def hub_inv_def hub_core_def Let_def)

lemma same_id:
  assumes "hub_core h" and "a < length (eh_store h)" and "b < length (eh_store h)"
    and "es_id (eh_store h ! a) = es_id (eh_store h ! b)"
  shows "a = b"
  using hub_coreD(5) [OF assms(1)] assms by (metis Suc_inject)

text \<open>Changing what is queued for one subscriber keeps the invariant.\<close>

lemma update_subscriber_core:
  assumes inv: "hub_core h" and a: "a < length (eh_store h)"
    and s: "es_id s = es_id (eh_store h ! a)" "es_closed s = es_closed (eh_store h ! a)"
      "subscriber_ok (eh_buffer h) s"
  shows "hub_core (h\<lparr>eh_store := (eh_store h)[a := s]\<rparr>)"
proof -
  have "(\<forall>b<length (eh_store h). unat (es_id ((eh_store h)[a := s] ! b)) = Suc b
      \<and> subscriber_ok (eh_buffer h) ((eh_store h)[a := s] ! b))"
    using inv a s by (simp add: nth_list_update hub_coreD)
  moreover have "(i, b) \<in> set (eh_clients h) \<longleftrightarrow>
      b < length (eh_store h) \<and> es_id ((eh_store h)[a := s] ! b) = i \<and> \<not> es_closed ((eh_store h)[a := s] ! b)"
    for i b using hub_coreD(7) [OF inv] a s by (cases "b = a") auto
  ultimately show ?thesis using hub_coreD [OF inv] unfolding hub_core_def by simp
qed

lemma subscriber_closed:
  "subscriber_ok buffer s \<Longrightarrow> subscriber_ok buffer (s\<lparr>es_closed := True, es_done := True\<rparr>)"
  by (simp add: subscriber_ok_def)

text \<open>Dropping a client closes its channels.\<close>

lemma drop_client_core:
  assumes inv: "hub_core h" and i: "(i, a) \<in> set (eh_clients h)"
  shows "hub_core (close_channels a (h\<lparr>eh_clients := AList.delete i (eh_clients h)\<rparr>))"
proof -
  note D = hub_coreD [OF inv]
  have a: "a < length (eh_store h)" "es_id (eh_store h ! a) = i" "\<not> es_closed (eh_store h ! a)"
    using D(7) i by auto
  have len: "length (AList.delete i (eh_clients h)) \<le> eh_capacity h"
    using D(3) length_delete_le' [of i "eh_clients h"] by linarith
  let ?s = "(eh_store h ! a)\<lparr>es_closed := True, es_done := True\<rparr>"
  have "set (AList.delete i (eh_clients h)) = {p \<in> set (eh_clients h). fst p \<noteq> i}"
    by (auto simp: AList.delete_eq)
  then have "(j, b) \<in> set (AList.delete i (eh_clients h)) \<longleftrightarrow>
      b < length (eh_store h) \<and> es_id ((eh_store h)[a := ?s] ! b) = j \<and> \<not> es_closed ((eh_store h)[a := ?s] ! b)"
    for j b using D(7) [of j b] a same_id [OF inv a(1), of b] by (cases "b = a") auto
  moreover have "\<forall>b<length (eh_store h). unat (es_id ((eh_store h)[a := ?s] ! b)) = Suc b
      \<and> subscriber_ok (eh_buffer h) ((eh_store h)[a := ?s] ! b)"
    using D(5,6) a by (auto simp: nth_list_update subscriber_closed)
  moreover have "\<not> es_done (eh_store h ! a)" using D(6) [OF a(1)] a by (simp add: subscriber_ok_def)
  ultimately show ?thesis
    using D(1,2,4) a len unfolding hub_core_def close_channels_def Let_def by simp
qed

lemma subscribe_inv:
  assumes inv: "hub_inv h" and "Suc (length (eh_store h)) < 2 ^ 64"
    and "subscribe has_ctx h = (r, h')"
  shows "hub_inv h'"
proof (cases r)
  case (Inr a)
  have core: "hub_core h" using inv by (simp add: hub_inv_def)
  note D = hub_coreD [OF core]
  let ?i = "eh_nextID h + 1"
  have a: "a = length (eh_store h)" and open_: "\<not> eh_closed h" and room: "length (eh_clients h) < eh_capacity h"
    and h': "h' = h\<lparr>eh_nextID := ?i, eh_store := eh_store h @ [new_subscriber ?i (eh_buffer h) has_ctx],
      eh_clients := AList.update ?i a (eh_clients h)\<rparr>"
    using assms(3) Inr by (auto simp: subscribe_def Let_def split: if_splits)
  have i: "unat ?i = Suc (length (eh_store h))"
    using D(4) assms(2) by (simp add: unat_word_ariths take_bit_eq_mod)
  then have fresh: "es_id (eh_store h ! b) \<noteq> ?i" if "b < length (eh_store h)" for b
    using D(5) [OF that] that by auto
  then have new: "?i \<notin> fst ` set (eh_clients h)" using D(7) by auto
  then have upd: "AList.update ?i a (eh_clients h) = eh_clients h @ [(?i, a)]"
    by (rule update_fresh)
  have ok: "subscriber_ok (eh_buffer h) (new_subscriber ?i (eh_buffer h) has_ctx)"
    by (simp add: subscriber_ok_def new_subscriber_def)
  have "(j, b) \<in> set (eh_clients h @ [(?i, a)]) \<longleftrightarrow>
      b < Suc (length (eh_store h))
      \<and> es_id ((eh_store h @ [new_subscriber ?i (eh_buffer h) has_ctx]) ! b) = j
      \<and> \<not> es_closed ((eh_store h @ [new_subscriber ?i (eh_buffer h) has_ctx]) ! b)" for j b
    using D(7) [of j b] by (auto simp: nth_append a new_subscriber_def less_Suc_eq)
  moreover have "\<forall>b<Suc (length (eh_store h)).
      unat (es_id ((eh_store h @ [new_subscriber ?i (eh_buffer h) has_ctx]) ! b)) = Suc b
      \<and> subscriber_ok (eh_buffer h) ((eh_store h @ [new_subscriber ?i (eh_buffer h) has_ctx]) ! b)"
    using D(5,6) ok i by (auto simp: nth_append new_subscriber_def less_Suc_eq)
  moreover have "gomap_ok (eh_clients h @ [(?i, a)])"
    using D(2) gomap_ok_update [OF D(2), of ?i a] by (simp add: upd)
  ultimately show ?thesis
    using D(1) i room open_ unfolding hub_inv_def hub_core_def h' by (simp add: upd)
qed (use assms in \<open>auto simp: subscribe_def Let_def split: if_splits\<close>)

lemma cancel_inv:
  assumes inv: "hub_inv h" and a: "a < length (eh_store h)"
  shows "hub_inv (cancel a h)"
proof (cases "es_once (eh_store h ! a)")
  case False
  have core: "hub_core h" and closed: "eh_closed h \<longrightarrow> eh_clients h = []"
    using inv by (simp_all add: hub_inv_def)
  let ?h = "h\<lparr>eh_store := (eh_store h)[a := (eh_store h ! a)\<lparr>es_once := True\<rparr>]\<rparr>"
  have core1: "hub_core ?h"
    by (rule update_subscriber_core [OF core a])
      (use hub_coreD(6) [OF core a] in \<open>simp_all add: subscriber_ok_def\<close>)
  show ?thesis
  proof (cases "map_of (eh_clients h) (es_id (eh_store h ! a))")
    case None
    then show ?thesis using core1 closed False by (simp add: cancel_def Let_def hub_inv_def)
  next
    case (Some b)
    then have "(es_id (eh_store h ! a), b) \<in> set (eh_clients ?h)" by (simp add: map_of_SomeD)
    from drop_client_core [OF core1 this] Some closed False show ?thesis
      by (auto simp: cancel_def Let_def hub_inv_def close_channels_def)
  qed
qed (use inv in \<open>simp add: cancel_def\<close>)

lemma send_core:
  assumes core: "hub_core h" and i: "(i, a) \<in> set (eh_clients h)" and t: "safeEventType (ev_Type ev)"
  shows "hub_core (send_event ev h a)" and "eh_clients (send_event ev h a) = eh_clients h"
    and "eh_closed (send_event ev h a) = eh_closed h"
proof -
  have a: "a < length (eh_store h)" "\<not> es_closed (eh_store h ! a)"
    using hub_coreD(7) [OF core] i by auto
  note ok = hub_coreD(6) [OF core a(1)]
  have "hub_core (h\<lparr>eh_store := (eh_store h)[a := (eh_store h ! a)\<lparr>es_published := es_published (eh_store h ! a) @ [ev]\<rparr>]\<rparr>)"
    by (rule update_subscriber_core [OF core a(1)])
      (use ok t in \<open>auto simp: subscriber_ok_def intro: list_emb_append2\<close>)
  moreover have "hub_core (h\<lparr>eh_store := (eh_store h)[a := (eh_store h ! a)\<lparr>es_published := es_published (eh_store h ! a) @ [ev],
      es_queue := es_queue (eh_store h ! a) @ [ev]\<rparr>]\<rparr>)"
    if "length (es_queue (eh_store h ! a)) < es_cap (eh_store h ! a)"
    by (rule update_subscriber_core [OF core a(1)])
      (use ok t that in \<open>auto simp: subscriber_ok_def simp flip: append_assoc\<close>)
  ultimately show "hub_core (send_event ev h a)"
    using a(2) by (simp add: send_event_def Let_def)
qed (simp_all add: send_event_def Let_def)

lemma sends_core:
  "hub_core h \<Longrightarrow> set xs \<subseteq> set (eh_clients h) \<Longrightarrow> safeEventType (ev_Type ev) \<Longrightarrow>
   hub_core (foldl (send_event ev) h (map snd xs))
   \<and> eh_clients (foldl (send_event ev) h (map snd xs)) = eh_clients h
   \<and> eh_closed (foldl (send_event ev) h (map snd xs)) = eh_closed h"
proof (induction xs arbitrary: h)
  case (Cons x xs)
  obtain i a where x: "x = (i, a)" by (cases x)
  with Cons.prems have "(i, a) \<in> set (eh_clients h)" by simp
  note send = send_core [OF Cons.prems(1) this Cons.prems(3)]
  from Cons.IH [OF send(1) _ Cons.prems(3)] Cons.prems(2) send(2,3) x show ?case by simp
qed simp

lemma publish_inv: "hub_inv h \<Longrightarrow> hub_inv (publish ev h)"
  using sends_core [of h "eh_clients h" ev] by (auto simp: publish_def hub_inv_def)

lemma receive_inv:
  assumes inv: "hub_inv h" and a: "a < length (eh_store h)"
  shows "hub_inv (receive a h)"
proof (cases "es_queue (eh_store h ! a)")
  case (Cons ev rest)
  have core: "hub_core h" using inv by (simp add: hub_inv_def)
  note ok = hub_coreD(6) [OF core a]
  have "hub_core (h\<lparr>eh_store := (eh_store h)[a := (eh_store h ! a)\<lparr>es_queue := rest,
      es_received := es_received (eh_store h ! a) @ [ev]\<rparr>]\<rparr>)"
    by (rule update_subscriber_core [OF core a]) (use ok Cons in \<open>auto simp: subscriber_ok_def\<close>)
  then show ?thesis using inv Cons by (simp add: receive_def hub_inv_def Let_def)
qed (use inv in \<open>simp add: receive_def\<close>)

lemma drops_core:
  "hub_core h \<Longrightarrow> eh_clients h = xs \<Longrightarrow>
   (let h' = foldl (\<lambda>h (i, a). close_channels a (h\<lparr>eh_clients := AList.delete i (eh_clients h)\<rparr>)) h xs
    in hub_core h' \<and> eh_clients h' = [])"
proof (induction xs arbitrary: h)
  case (Cons x xs)
  obtain i a where x: "x = (i, a)" by (cases x)
  let ?h = "close_channels a (h\<lparr>eh_clients := AList.delete i (eh_clients h)\<rparr>)"
  have core: "hub_core ?h" by (rule drop_client_core [OF Cons.prems(1)]) (simp add: Cons.prems x)
  have "gomap_ok ((i, a) # xs)" using hub_coreD(2) [OF Cons.prems(1)] Cons.prems(2) x by simp
  then have "AList.delete i ((i, a) # xs) = xs" by (auto simp: delete_id)
  then have "eh_clients ?h = xs" using Cons.prems(2) x by (simp add: close_channels_def Let_def)
  from Cons.IH [OF core this] x show ?case by (simp add: Let_def)
qed (simp add: Let_def)

lemma close_hub_inv: "hub_inv h \<Longrightarrow> hub_inv (close_hub h)"
proof -
  assume inv: "hub_inv h"
  then have "hub_core (h\<lparr>eh_closed := True\<rparr>)" by (simp add: hub_inv_def hub_core_def)
  from drops_core [OF this] inv show ?thesis by (simp add: close_hub_def Let_def hub_inv_def)
qed

text \<open>No operation changes the limits or forgets a subscriber.\<close>

definition hub_grows :: "'d eventHub \<Rightarrow> 'd eventHub \<Rightarrow> bool" where
  "hub_grows h h' \<longleftrightarrow> eh_capacity h' = eh_capacity h \<and> eh_buffer h' = eh_buffer h
     \<and> length (eh_store h) \<le> length (eh_store h')"

lemma hub_grows_foldl:
  assumes "\<And>h x. hub_grows h (f h x)"
  shows "hub_grows h (foldl f h xs)"
proof (induction xs arbitrary: h)
  case (Cons x xs)
  show ?case using assms [of h x] Cons.IH [of "f h x"] by (simp add: hub_grows_def)
qed (simp add: hub_grows_def)

lemma hub_step_grows: "hub_step h act h' \<Longrightarrow> hub_grows h h'"
proof (induction rule: hub_step.induct)
  case (subscribe has_ctx h r h')
  then show ?case by (auto simp: subscribe_def hub_grows_def Let_def split: if_splits)
next
  case (cancel a h)
  then show ?case by (simp add: cancel_def close_channels_def hub_grows_def Let_def split: option.splits)
next
  case (publish h ev)
  have "hub_grows h (send_event ev h a)" for h :: "'a eventHub" and a
    by (simp add: send_event_def hub_grows_def Let_def)
  from hub_grows_foldl [of "send_event ev", OF this] show ?case
    by (simp add: publish_def) (simp add: hub_grows_def)
next
  case (receive a h)
  then show ?case by (simp add: receive_def hub_grows_def Let_def split: list.splits)
next
  case (close h)
  let ?f = "\<lambda>h (i, a). close_channels a (h\<lparr>eh_clients := AList.delete i (eh_clients h)\<rparr>)"
  have "hub_grows h (?f h x)" for h :: "'a eventHub" and x
    by (cases x) (simp add: close_channels_def hub_grows_def Let_def)
  from hub_grows_foldl [of ?f, OF this, of "h\<lparr>eh_closed := True\<rparr>" "eh_clients h"] show ?case
    by (simp add: close_hub_def hub_grows_def)
qed

lemma hub_step_inv:
  assumes "hub_step h act h'" and "hub_inv h" and "length (eh_store h') < 2 ^ 64"
  shows "hub_inv h'"
  using assms
proof (induction rule: hub_step.induct)
  case (subscribe has_ctx h r h')
  show ?case
  proof (cases r)
    case Inl
    then show ?thesis using subscribe by (auto simp: subscribe_def Let_def split: if_splits)
  next
    case Inr
    then have "length (eh_store h') = Suc (length (eh_store h))"
      using subscribe(1) by (auto simp: subscribe_def Let_def split: if_splits)
    then show ?thesis using subscribe_inv [OF subscribe(2) _ subscribe(1)] subscribe(3) by simp
  qed
qed (simp_all add: cancel_inv publish_inv receive_inv close_hub_inv)

lemma hub_run_inv:
  assumes "hub_run h acts h'" and "hub_inv h" and "length (eh_store h') < 2 ^ 64"
  shows "hub_inv h' \<and> hub_grows h h'"
  using assms
proof (induction rule: hub_run.induct)
  case (more h acts h' act h'')
  have g: "hub_grows h' h''" by (rule hub_step_grows) (rule more)
  then have "length (eh_store h') < 2 ^ 64" using more by (simp add: hub_grows_def)
  with more have "hub_inv h'" "hub_grows h h'" by simp_all
  with more g hub_step_inv show ?case by (fastforce simp: hub_grows_def)
qed (simp add: hub_grows_def)


lemma sends_effect:
  assumes "distinct (map snd xs)" and "a < length (eh_store h)"
    and "\<forall>(i, b)\<in>set xs. b < length (eh_store h) \<and> \<not> es_closed (eh_store h ! b)"
  shows "es_queue (eh_store (foldl (send_event ev) h (map snd xs)) ! a)
    = es_queue (eh_store h ! a)
      @ (if a \<in> snd ` set xs \<and> length (es_queue (eh_store h ! a)) < es_cap (eh_store h ! a) then [ev] else [])"
  using assms
proof (induction xs arbitrary: h)
  case (Cons x xs)
  obtain i b where x: "x = (i, b)" by (cases x)
  let ?h = "send_event ev h b"
  have b: "b < length (eh_store h)" "\<not> es_closed (eh_store h ! b)" using Cons.prems(3) x by auto
  have st: "length (eh_store ?h) = length (eh_store h)" by (simp add: send_event_def Let_def)
  have closed: "es_closed (eh_store ?h ! c) = es_closed (eh_store h ! c)"
    and cap: "es_cap (eh_store ?h ! c) = es_cap (eh_store h ! c)" for c
    using b by (cases "c = b"; simp add: send_event_def Let_def)+
  have q: "es_queue (eh_store ?h ! c) = es_queue (eh_store h ! c)
      @ (if c = b \<and> length (es_queue (eh_store h ! c)) < es_cap (eh_store h ! c) then [ev] else [])" for c
    using b by (cases "c = b") (simp_all add: send_event_def Let_def)
  have "es_queue (eh_store (foldl (send_event ev) ?h (map snd xs)) ! a)
    = es_queue (eh_store ?h ! a)
      @ (if a \<in> snd ` set xs \<and> length (es_queue (eh_store ?h ! a)) < es_cap (eh_store ?h ! a) then [ev] else [])"
    using Cons.prems by (intro Cons.IH) (simp_all add: st closed)
  then show ?case using Cons.prems(1) q [of a] by (auto simp: x cap)
qed simp

text \<open>
  one publication reaches every open subscriber with room. \<open>publish\<close> of a safe event appends
  it to the queue of each client whose buffer is not full, drops it for the others, and touches no
  subscriber that has left; an unsafe type or a closed hub delivers nothing at all.
\<close>

theorem publish_delivers:
  assumes "hub_run (newEventHub capacity buffer) acts h" and "length (eh_store h) < 2 ^ 64"
    and a: "a < length (eh_store h)"
  shows "es_queue (eh_store (publish ev h) ! a)
    = es_queue (eh_store h ! a)
      @ (if safeEventType (ev_Type ev) \<and> \<not> eh_closed h \<and> \<not> es_closed (eh_store h ! a)
            \<and> length (es_queue (eh_store h ! a)) < es_cap (eh_store h ! a) then [ev] else [])"
proof (cases "safeEventType (ev_Type ev) \<and> \<not> eh_closed h")
  case True
  have core: "hub_core h"
    using hub_run_inv [OF assms(1) newEventHub_inv assms(2)] by (simp add: hub_inv_def)
  note D = hub_coreD [OF core]
  have "inj_on snd (set (eh_clients h))" using D(7) by (auto simp: inj_on_def)
  moreover have "distinct (eh_clients h)" using D(2) by (simp add: gomap_ok_def distinct_map)
  ultimately have "distinct (map snd (eh_clients h))" by (simp add: distinct_map)
  moreover have "a \<in> snd ` set (eh_clients h) \<longleftrightarrow> \<not> es_closed (eh_store h ! a)"
    using D(7) a by (force simp: image_iff)
  moreover have "\<forall>(i, b)\<in>set (eh_clients h). b < length (eh_store h) \<and> \<not> es_closed (eh_store h ! b)"
    using D(7) by auto
  ultimately show ?thesis
    using sends_effect [of "eh_clients h" a h ev] a True by (simp add: publish_def)
qed (auto simp: publish_def)

section \<open>A concrete hub\<close>

definition demo_hub :: "nat eventHub" where
  "demo_hub = publish \<lparr>ev_Type = ''state'', ev_Data = 1\<rparr> (snd (subscribe True (newEventHub 1 0)))"

lemma demo_hub_run:
  "hub_run (newEventHub 1 0) [HSubscribe True, HPublish \<lparr>ev_Type = ''state'', ev_Data = 1\<rparr>] demo_hub"
proof -
  have "hub_step (newEventHub 1 0) (HSubscribe True) (snd (subscribe True (newEventHub 1 0 :: nat eventHub)))"
    by (rule hub_step.subscribe) (rule prod.collapse [symmetric])
  from hub_run.more [OF hub_run.none this]
  have "hub_run (newEventHub 1 0) [HSubscribe True] (snd (subscribe True (newEventHub 1 0 :: nat eventHub)))"
    by simp
  from hub_run.more [OF this hub_step.publish] show ?thesis by (simp add: demo_hub_def)
qed

lemma demo_hub_store: "length (eh_store demo_hub) = 1"
  by code_simp


lemma publish_delivers_witness:
  "es_queue (eh_store (publish \<lparr>ev_Type = ''probe'', ev_Data = 2\<rparr> demo_hub) ! 0)
   = [\<lparr>ev_Type = ''state'', ev_Data = 1\<rparr>, \<lparr>ev_Type = ''probe'', ev_Data = 2\<rparr>]"
proof -
  have q: "es_queue (eh_store demo_hub ! 0) = [\<lparr>ev_Type = ''state'', ev_Data = 1\<rparr>]"
    "es_cap (eh_store demo_hub ! 0) = 8" "es_closed (eh_store demo_hub ! 0) = False"
    "eh_closed demo_hub = False" by code_simp+
  show ?thesis
    using publish_delivers [OF demo_hub_run, of 0 "\<lparr>ev_Type = ''probe'', ev_Data = 2\<rparr>"] demo_hub_store
    by (simp add: q safeEventType_def)
qed

end
