(* ===== verification/Kuaifan_Codec.thy ===== *)
theory Kuaifan_Codec
  imports GoEncoding
begin

text \<open>
  \<open>internal/kuaifan/codec.go\<close>: the AES-256-CBC codec of the control plane, PKCS#7 padding,
  PBKDF2-HMAC-SHA1 and the JSON framing. The block cipher under a key
  (\<open>crypto/aes\<close>: encryption and decryption of one block), HMAC-SHA1 and the JSON encoder and
  decoder are parameters; the properties use that decryption inverts encryption on blocks, the
  20 bytes of a SHA-1 digest, and nothing of the JSON functions.
\<close>

section \<open>PKCS#7 padding\<close>

definition blockSize :: nat where "blockSize = 16"
definition MaxPlaintextBytes :: nat where "MaxPlaintextBytes = 2 ^ 20"

abbreviation ErrMalformedCiphertext :: go_error where
  "ErrMalformedCiphertext \<equiv> Sent ''control: malformed ciphertext''"
abbreviation ErrInvalidPadding :: go_error where
  "ErrInvalidPadding \<equiv> Sent ''control: invalid PKCS#7 padding''"
abbreviation ErrResponseTooLarge :: go_error where
  "ErrResponseTooLarge \<equiv> Sent ''control: response exceeds limit''"
abbreviation ErrTrailingJSON :: go_error where
  "ErrTrailingJSON \<equiv> Sent ''control: trailing JSON data''"

definition pkcs7Pad :: "bytes \<Rightarrow> nat \<Rightarrow> bytes" where
  "pkcs7Pad inp sz =
     (let padding = sz - length inp mod sz in inp @ replicate padding (of_nat padding))"

text \<open>The loop over the last bytes accumulates every difference before it decides.\<close>

definition padding_diff :: "byte \<Rightarrow> bytes \<Rightarrow> byte" where
  "padding_diff p bs = foldl (\<lambda>invalid b. invalid OR (b XOR p)) 0 bs"

definition pkcs7Unpad :: "bytes \<Rightarrow> nat \<Rightarrow> go_error + bytes" where
  "pkcs7Unpad inp sz =
     (if inp = [] \<or> length inp mod sz \<noteq> 0 then Inl ErrInvalidPadding
      else let padding = unat (last inp) in
        if padding = 0 \<or> padding > sz \<or> padding > length inp then Inl ErrInvalidPadding
        else if padding_diff (of_nat padding) (drop (length inp - padding) inp) \<noteq> 0
        then Inl ErrInvalidPadding
        else Inr (take (length inp - padding) inp))"

lemma word_or_zero: "(a :: byte) OR b = 0 \<longleftrightarrow> a = 0 \<and> b = 0"
  by (auto simp: bit_eq_iff bit_or_iff)

lemma word_xor_zero: "(a :: byte) XOR b = 0 \<longleftrightarrow> a = b"
  by (auto simp: bit_eq_iff bit_xor_iff)

lemma padding_diff_zero: "padding_diff p bs = 0 \<longleftrightarrow> (\<forall>b\<in>set bs. b = p)"
proof -
  have "foldl (\<lambda>invalid b. invalid OR (b XOR p)) i bs = 0 \<longleftrightarrow> i = 0 \<and> (\<forall>b\<in>set bs. b = p)" for i
    by (induction bs arbitrary: i) (auto simp: word_or_zero word_xor_zero)
  then show ?thesis by (simp add: padding_diff_def)
qed

lemma length_pkcs7Pad_dvd: "0 < sz \<Longrightarrow> sz dvd length (pkcs7Pad inp sz)"
proof -
  assume "0 < sz"
  then have "length inp mod sz \<le> sz" by (simp add: less_imp_le)
  then have "length (pkcs7Pad inp sz) = (length inp div sz) * sz + sz"
    using div_mult_mod_eq [of "length inp" sz] by (simp only: pkcs7Pad_def Let_def length_append length_replicate)
  then show ?thesis by simp
qed

lemma pkcs7Unpad_iff:
  assumes "0 < sz" and "sz < 256"
  shows "pkcs7Unpad padded sz = Inr p \<longleftrightarrow> padded = pkcs7Pad p sz"
proof
  assume u: "pkcs7Unpad padded sz = Inr p"
  let ?n = "unat (last padded)"
  have ne: "padded \<noteq> []" and dv: "length padded mod sz = 0" and n: "0 < ?n" "?n \<le> sz" "?n \<le> length padded"
    and all: "\<forall>b\<in>set (drop (length padded - ?n) padded). b = of_nat ?n"
    and p: "p = take (length padded - ?n) padded"
    using u by (auto simp: pkcs7Unpad_def Let_def padding_diff_zero split: if_splits)
  have tail: "drop (length padded - ?n) padded = replicate ?n (of_nat ?n)"
    using all n by (intro replicate_eqI) auto
  have "length p mod sz = (length padded - ?n) mod sz" using p by simp
  have len: "length padded = length p + ?n" using p n by simp
  have "(length p mod sz + ?n) mod sz = 0" using len dv by (simp add: mod_add_left_eq)
  then obtain k where k: "length p mod sz + ?n = sz * k" by auto
  have "length p mod sz < sz" using assms by simp
  then have "sz * k < sz * 2" and "0 < sz * k" using k n by linarith+
  then have "k = 1" using assms by (simp only: mult_less_cancel1) simp
  then have "sz - length p mod sz = ?n" using k by simp
  then show "padded = pkcs7Pad p sz"
    using tail p by (simp add: pkcs7Pad_def Let_def) (metis append_take_drop_id)
next
  assume q: "padded = pkcs7Pad p sz"
  let ?k = "sz - length p mod sz"
  have k: "0 < ?k" "?k \<le> sz" "?k < 256" using assms by (auto simp: less_imp_diff_less)
  have pd: "padded = p @ replicate ?k (of_nat ?k)" by (simp only: q pkcs7Pad_def Let_def)
  have "unat (of_nat ?k :: byte) = ?k" using k by (simp only: unat_of_nat) simp
  moreover have "last padded = of_nat ?k" using k by (simp only: pd last_append) simp
  ultimately have last: "unat (last padded) = ?k" by simp
  have "length padded mod sz = 0"
    using length_pkcs7Pad_dvd [OF assms(1)] q by (simp add: mod_eq_0_iff_dvd)
  moreover have "padded \<noteq> []" "length padded - ?k = length p" "?k \<le> length padded"
    using k by (simp_all add: pd)
  moreover have "drop (length p) padded = replicate ?k (of_nat ?k)" "take (length p) padded = p"
    by (simp_all add: pd)
  ultimately show "pkcs7Unpad padded sz = Inr p"
    using k by (simp add: pkcs7Unpad_def Let_def last padding_diff_zero)
qed

section \<open>Cipher block chaining\<close>

text \<open>
  \<open>cipher.NewCBCEncrypter\<close> and \<open>cipher.NewCBCDecrypter\<close> with \<open>CryptBlocks\<close>. Both panic
  unless the input is full blocks; \<open>Encode\<close> pads and \<open>Decode\<close> checks before it calls them.
\<close>

definition xor_bytes :: "bytes \<Rightarrow> bytes \<Rightarrow> bytes" where
  "xor_bytes xs ys = map2 (XOR) xs ys"

function cbc_encrypt :: "(bytes \<Rightarrow> bytes) \<Rightarrow> bytes \<Rightarrow> bytes \<Rightarrow> bytes" where
  "cbc_encrypt enc iv xs =
     (if length xs < blockSize then []
      else let c = enc (xor_bytes iv (take blockSize xs)) in c @ cbc_encrypt enc c (drop blockSize xs))"
  by pat_completeness auto
termination by (relation "measure (\<lambda>(_, _, xs). length xs)") (auto simp: blockSize_def)

function cbc_decrypt :: "(bytes \<Rightarrow> bytes) \<Rightarrow> bytes \<Rightarrow> bytes \<Rightarrow> bytes" where
  "cbc_decrypt dcr iv xs =
     (if length xs < blockSize then []
      else let c = take blockSize xs in
        xor_bytes iv (dcr c) @ cbc_decrypt dcr c (drop blockSize xs))"
  by pat_completeness auto
termination by (relation "measure (\<lambda>(_, _, xs). length xs)") (auto simp: blockSize_def)

declare cbc_encrypt.simps [simp del] cbc_decrypt.simps [simp del]

definition block_cipher ::
  "(bytes \<Rightarrow> bytes \<Rightarrow> bytes) \<Rightarrow> (bytes \<Rightarrow> bytes \<Rightarrow> bytes) \<Rightarrow> bool" where
  "block_cipher enc dcr \<longleftrightarrow>
     (\<forall>key b. length b = blockSize \<longrightarrow>
        length (enc key b) = blockSize \<and> length (dcr key b) = blockSize
        \<and> dcr key (enc key b) = b \<and> enc key (dcr key b) = b)"

lemma block_cipherD:
  assumes "block_cipher enc dcr" and "length b = blockSize"
  shows "length (enc key b) = blockSize" "length (dcr key b) = blockSize"
    "dcr key (enc key b) = b" "enc key (dcr key b) = b"
  using assms by (auto simp: block_cipher_def)

lemma length_xor_bytes [simp]: "length (xor_bytes xs ys) = min (length xs) (length ys)"
  by (simp add: xor_bytes_def)

lemma xor_bytes_cancel [simp]:
  "length xs = length ys \<Longrightarrow> xor_bytes xs (xor_bytes xs ys) = ys"
  by (induction xs ys rule: list_induct2)
    (simp_all add: xor_bytes_def flip: xor.assoc)

lemma cbc_decrypt_encrypt:
  assumes bc: "block_cipher enc dcr" and "length iv = blockSize" and "blockSize dvd length xs"
  shows "cbc_decrypt (dcr key) iv (cbc_encrypt (enc key) iv xs) = xs
     \<and> length (cbc_encrypt (enc key) iv xs) = length xs"
  using assms(2,3)
proof (induction "enc key" iv xs rule: cbc_encrypt.induct)
  case (1 iv xs)
  show ?case
  proof (cases "length xs < blockSize")
    case True
    then have "xs = []" using 1(3) by (metis dvd_imp_le length_greater_0_conv linorder_not_le)
    then show ?thesis by (simp add: cbc_encrypt.simps cbc_decrypt.simps blockSize_def)
  next
    case False
    let ?c = "enc key (xor_bytes iv (take blockSize xs))"
    have x: "length (xor_bytes iv (take blockSize xs)) = blockSize" using False 1(2) by simp
    note c = block_cipherD [OF bc x, of key]
    have "blockSize dvd length (drop blockSize xs)" using 1(3) False by (simp add: dvd_diff_nat)
    note ih = 1(1) [OF False refl c(1) this]
    have e: "cbc_encrypt (enc key) iv xs = ?c @ cbc_encrypt (enc key) ?c (drop blockSize xs)"
      using False by (subst cbc_encrypt.simps) (simp add: Let_def)
    have "\<not> length (cbc_encrypt (enc key) iv xs) < blockSize" using c(1) by (simp add: e)
    then have "cbc_decrypt (dcr key) iv (cbc_encrypt (enc key) iv xs)
        = xor_bytes iv (dcr key ?c) @ cbc_decrypt (dcr key) ?c (cbc_encrypt (enc key) ?c (drop blockSize xs))"
      using c(1) by (subst cbc_decrypt.simps) (simp add: Let_def e)
    also have "\<dots> = xs" using ih c(3) False 1(2) by simp
    finally show ?thesis using ih c(1) False by (simp add: e)
  qed
qed

lemma cbc_encrypt_decrypt:
  assumes bc: "block_cipher enc dcr" and "length iv = blockSize" and "blockSize dvd length xs"
  shows "cbc_encrypt (enc key) iv (cbc_decrypt (dcr key) iv xs) = xs
     \<and> length (cbc_decrypt (dcr key) iv xs) = length xs"
  using assms(2,3)
proof (induction "dcr key" iv xs rule: cbc_decrypt.induct)
  case (1 iv xs)
  show ?case
  proof (cases "length xs < blockSize")
    case True
    then have "xs = []" using 1(3) by (metis dvd_imp_le length_greater_0_conv linorder_not_le)
    then show ?thesis by (simp add: cbc_encrypt.simps cbc_decrypt.simps blockSize_def)
  next
    case False
    let ?c = "take blockSize xs"
    have x: "length ?c = blockSize" using False by simp
    note c = block_cipherD [OF bc x, of key]
    have "blockSize dvd length (drop blockSize xs)" using 1(3) False by (simp add: dvd_diff_nat)
    note ih = 1(1) [OF False refl x this]
    let ?p = "xor_bytes iv (dcr key ?c)"
    have e: "cbc_decrypt (dcr key) iv xs = ?p @ cbc_decrypt (dcr key) ?c (drop blockSize xs)"
      using False by (subst cbc_decrypt.simps) (simp add: Let_def)
    have p: "length ?p = blockSize" using c(2) 1(2) by simp
    have "\<not> length (cbc_decrypt (dcr key) iv xs) < blockSize" using p by (simp add: e)
    then have "cbc_encrypt (enc key) iv (cbc_decrypt (dcr key) iv xs)
        = enc key (xor_bytes iv ?p)
          @ cbc_encrypt (enc key) (enc key (xor_bytes iv ?p)) (cbc_decrypt (dcr key) ?c (drop blockSize xs))"
      using p by (subst cbc_encrypt.simps) (simp add: Let_def e del: length_xor_bytes)
    also have "\<dots> = xs" using ih c(2,4) 1(2) by simp
    finally show ?thesis using ih p False by (simp add: e del: length_xor_bytes)
  qed
qed

section \<open>PBKDF2-HMAC-SHA1\<close>

definition be32 :: "u32 \<Rightarrow> bytes" where
  "be32 x = [ucast (drop_bit 24 x), ucast (drop_bit 16 x), ucast (drop_bit 8 x), ucast x]"

text \<open>The rounds from the second on: each replaces \<open>u\<close> and adds it into \<open>t\<close>.\<close>

primrec pbkdf2_rounds :: "(bytes \<Rightarrow> bytes) \<Rightarrow> nat \<Rightarrow> bytes \<Rightarrow> bytes \<Rightarrow> bytes" where
  "pbkdf2_rounds mac 0 u t = t"
| "pbkdf2_rounds mac (Suc n) u t = (let u' = mac u in pbkdf2_rounds mac n u' (xor_bytes t u'))"

text \<open>
  The loop over the blocks runs until enough bytes are there; \<open>None\<close> is a loop that does not
  end, which a MAC with an empty output would give.
\<close>

partial_function (option) pbkdf2_loop ::
  "(bytes \<Rightarrow> bytes) \<Rightarrow> bytes \<Rightarrow> nat \<Rightarrow> nat \<Rightarrow> u32 \<Rightarrow> bytes \<Rightarrow> bytes option" where
  "pbkdf2_loop mac salt rounds len counter result =
     (if length result < len
      then let u = mac (salt @ be32 counter); t = pbkdf2_rounds mac (rounds - 1) u u
        in pbkdf2_loop mac salt rounds len (counter + 1) (result @ t)
      else Some (take len result))"

declare pbkdf2_loop.simps [code]

definition pbkdf2SHA1 ::
  "(bytes \<Rightarrow> bytes \<Rightarrow> bytes) \<Rightarrow> bytes \<Rightarrow> bytes \<Rightarrow> int \<Rightarrow> int \<Rightarrow> bytes option" where
  "pbkdf2SHA1 hmac_sha1 password salt rounds len =
     (if rounds \<le> 0 \<or> len \<le> 0 then Some []
      else pbkdf2_loop (hmac_sha1 password) salt (nat rounds) (nat len) 1 [])"

text \<open>
  RFC 8018, section 5.2: \<open>T_i = U_1 xor ... xor U_c\<close> with \<open>U_1 = PRF(P, S || INT(i))\<close> and
  \<open>U_(j+1) = PRF(P, U_j)\<close>; the key is the first \<open>dkLen\<close> bytes of \<open>T_1 || T_2 || ...\<close>.
\<close>

definition rfc_T :: "(bytes \<Rightarrow> bytes) \<Rightarrow> bytes \<Rightarrow> nat \<Rightarrow> u32 \<Rightarrow> bytes" where
  "rfc_T prf salt c i =
     foldl xor_bytes (prf (salt @ be32 i)) (map (\<lambda>j. (prf ^^ j) (prf (salt @ be32 i))) [1..<c])"

definition rfc_pbkdf2 :: "(bytes \<Rightarrow> bytes) \<Rightarrow> bytes \<Rightarrow> nat \<Rightarrow> nat \<Rightarrow> bytes" where
  "rfc_pbkdf2 prf salt c dkLen =
     take dkLen (concat (map (\<lambda>i. rfc_T prf salt c (of_nat i)) [1..<Suc ((dkLen + 19) div 20)]))"

lemma pbkdf2_rounds_foldl:
  "pbkdf2_rounds mac n u t = foldl xor_bytes t (map (\<lambda>j. (mac ^^ j) u) [1..<Suc n])"
proof (induction n arbitrary: u t)
  case (Suc n)
  have "map (\<lambda>j. (mac ^^ j) u) [1..<Suc (Suc n)] = mac u # map (\<lambda>j. (mac ^^ j) (mac u)) [1..<Suc n]"
    by (simp add: upt_conv_Cons map_Suc_upt [symmetric] funpow_swap1 del: upt_Suc)
  then show ?case by (simp only: pbkdf2_rounds.simps Let_def Suc foldl_Cons)
qed simp

lemma rfc_T_rounds:
  "0 < c \<Longrightarrow> pbkdf2_rounds prf (c - 1) (prf (salt @ be32 i)) (prf (salt @ be32 i)) = rfc_T prf salt c i"
  by (simp add: pbkdf2_rounds_foldl rfc_T_def)

lemma length_foldl_xor:
  "length t = n \<Longrightarrow> (\<forall>u\<in>set us. length u = n) \<Longrightarrow> length (foldl xor_bytes t us) = n"
  by (induction us arbitrary: t) simp_all

lemma length_rfc_T:
  assumes "\<forall>m. length (prf m) = 20"
  shows "length (rfc_T prf salt c i) = 20"
proof -
  have "length ((prf ^^ j) (prf m)) = 20" for j m using assms by (induction j) simp_all
  then show ?thesis unfolding rfc_T_def using assms by (intro length_foldl_xor) auto
qed

lemma length_rfc_blocks:
  assumes "\<forall>m. length (prf m) = 20"
  shows "length (concat (map (\<lambda>i. rfc_T prf salt c (of_nat i)) [1..<Suc k])) = 20 * k"
  by (induction k) (simp_all add: length_rfc_T [OF assms])

lemma pbkdf2_loop_rfc:
  assumes len: "\<forall>m. length (prf m) = 20" and c: "0 < c" and "k \<le> (dk + 19) div 20"
  shows "pbkdf2_loop prf salt c dk (of_nat (Suc k))
      (concat (map (\<lambda>i. rfc_T prf salt c (of_nat i)) [1..<Suc k])) = Some (rfc_pbkdf2 prf salt c dk)"
  using assms(3)
proof (induction "(dk + 19) div 20 - k" arbitrary: k)
  case 0
  then have k: "k = (dk + 19) div 20" by simp
  then have "\<not> 20 * k < dk" by linarith
  then show ?case
    by (subst pbkdf2_loop.simps) (simp only: length_rfc_blocks [OF len] if_False rfc_pbkdf2_def k [symmetric])
next
  case (Suc d)
  then have "20 * k < dk" by linarith
  moreover have "concat (map (\<lambda>i. rfc_T prf salt c (of_nat i)) [1..<Suc k]) @ rfc_T prf salt c (of_nat (Suc k))
      = concat (map (\<lambda>i. rfc_T prf salt c (of_nat i)) [1..<Suc (Suc k)])" by simp
  moreover have "of_nat (Suc k) + 1 = (of_nat (Suc (Suc k)) :: u32)" by simp
  moreover have "d = (dk + 19) div 20 - Suc k" "Suc k \<le> (dk + 19) div 20" using Suc by auto
  ultimately show ?case
    using Suc.hyps(1) [of "Suc k"]
    by (subst pbkdf2_loop.simps)
      (simp only: length_rfc_blocks [OF len] if_True Let_def rfc_T_rounds [OF c])
qed

text \<open>
  C27: the key derivation ends and computes PBKDF2 of RFC 8018 (section 5.2, with the 20 bytes of
  HMAC-SHA1): the block counter, the chained rounds and the truncation are those of the standard,
  whatever the number of rounds and the length of the key.
\<close>

theorem pbkdf2_standard:
  assumes "\<forall>m. length (hmac_sha1 password m) = 20" and "0 < rounds" and "0 < len"
  shows "pbkdf2SHA1 hmac_sha1 password salt rounds len
      = Some (rfc_pbkdf2 (hmac_sha1 password) salt (nat rounds) (nat len))"
  using pbkdf2_loop_rfc [OF assms(1), of "nat rounds" 0 "nat len" salt] assms
  by (simp add: pbkdf2SHA1_def)

section \<open>The codec\<close>

record codecMaterial =
  mat_password :: string
  mat_iv :: string
  mat_salt :: string

definition normalMaterial :: codecMaterial where
  "normalMaterial = \<lparr>mat_password = ''J22472m312506083'', mat_iv = ''156782572202746I'',
     mat_salt = ''41EAbXqlospdtruz''\<rparr>"

definition authorityMaterial :: codecMaterial where
  "authorityMaterial = \<lparr>mat_password = ''19hlcHCh13070t43'', mat_iv = ''yx30x0j603N9zjgm'',
     mat_salt = ''k760jv5Ab1HdPffs''\<rparr>"

record Codec =
  codec_key :: bytes
  codec_iv :: bytes

text \<open>\<open>copy\<close> into an array of \<open>n\<close> zero bytes.\<close>

definition copy_into :: "nat \<Rightarrow> bytes \<Rightarrow> bytes" where
  "copy_into n src = take n src @ replicate (n - length src) 0"

definition newCodec :: "(bytes \<Rightarrow> bytes \<Rightarrow> bytes) \<Rightarrow> codecMaterial \<Rightarrow> Codec option" where
  "newCodec hmac_sha1 m =
     map_option (\<lambda>key. \<lparr>codec_key = copy_into 32 key, codec_iv = copy_into 16 (bytes_of_string (mat_iv m))\<rparr>)
       (pbkdf2SHA1 hmac_sha1 (bytes_of_string (mat_password m)) (take 16 (bytes_of_string (mat_salt m)))
         100 32)"

definition NormalCodec :: "(bytes \<Rightarrow> bytes \<Rightarrow> bytes) \<Rightarrow> Codec option" where
  "NormalCodec hmac_sha1 = newCodec hmac_sha1 normalMaterial"

definition AuthorityCodec :: "(bytes \<Rightarrow> bytes \<Rightarrow> bytes) \<Rightarrow> Codec option" where
  "AuthorityCodec hmac_sha1 = newCodec hmac_sha1 authorityMaterial"

text \<open>\<open>base64.StdEncoding.EncodedLen\<close>.\<close>

definition EncodedLen :: "nat \<Rightarrow> nat" where
  "EncodedLen n = (n + 2) div 3 * 4"

definition Codec_Encode :: "(bytes \<Rightarrow> bytes \<Rightarrow> bytes) \<Rightarrow> Codec \<Rightarrow> bytes \<Rightarrow> go_error + bytes" where
  "Codec_Encode enc c plain =
     (if length plain > MaxPlaintextBytes then Inl ErrResponseTooLarge
      else let padded = pkcs7Pad plain blockSize in
        Inr (bytes_of_string (std_encode (cbc_encrypt (enc (codec_key c)) (codec_iv c) padded))))"

definition Codec_Decode :: "(bytes \<Rightarrow> bytes \<Rightarrow> bytes) \<Rightarrow> Codec \<Rightarrow> bytes \<Rightarrow> go_error + bytes" where
  "Codec_Decode dcr c body =
     (if body = [] \<or> length body > EncodedLen (MaxPlaintextBytes + blockSize) then Inl ErrResponseTooLarge
      else case std_decode (string_of_bytes body) of
        None \<Rightarrow> Inl (Wrap ''control: malformed ciphertext: base64'' ErrMalformedCiphertext)
      | Some ciphertext \<Rightarrow>
          if ciphertext = [] \<or> length ciphertext mod blockSize \<noteq> 0 then Inl ErrMalformedCiphertext
          else case pkcs7Unpad (cbc_decrypt (dcr (codec_key c)) (codec_iv c) ciphertext) blockSize of
            Inl e \<Rightarrow> Inl e
          | Inr plain \<Rightarrow>
              if length plain > MaxPlaintextBytes then Inl ErrResponseTooLarge else Inr plain)"

text \<open>
  \<open>json.Marshal\<close> and one \<open>Decode\<close> of a \<open>json.Decoder\<close> (the value and the bytes after it)
  are parameters; the second value is decoded into an \<open>any\<close>.
\<close>

definition EncodeJSON ::
  "('v \<Rightarrow> go_error + bytes) \<Rightarrow> (bytes \<Rightarrow> bytes \<Rightarrow> bytes) \<Rightarrow> Codec \<Rightarrow> 'v \<Rightarrow> go_error + bytes" where
  "EncodeJSON marshal enc c v =
     (case marshal v of
        Inl e \<Rightarrow> Inl (Wrap ''control: marshal request'' e)
      | Inr plain \<Rightarrow> Codec_Encode enc c plain)"

definition DecodeJSON ::
  "(bytes \<Rightarrow> go_error + 'v \<times> bytes) \<Rightarrow> (bytes \<Rightarrow> go_error + 'any \<times> bytes)
   \<Rightarrow> (bytes \<Rightarrow> bytes \<Rightarrow> bytes) \<Rightarrow> Codec \<Rightarrow> bytes \<Rightarrow> go_error + 'v" where
  "DecodeJSON decode decode_any dcr c body =
     (case Codec_Decode dcr c body of
        Inl e \<Rightarrow> Inl e
      | Inr plain \<Rightarrow>
          (case decode plain of
             Inl e \<Rightarrow> Inl (Wrap ''control: decode JSON'' e)
           | Inr (v, rest) \<Rightarrow>
               (case decode_any rest of
                  Inr _ \<Rightarrow> Inl ErrTrailingJSON
                | Inl e \<Rightarrow>
                    if errors_is e EOF then Inr v
                    else Inl (Wrap ''control: trailing JSON data'' ErrTrailingJSON))))"

definition EncodeRequest ::
  "('v \<Rightarrow> go_error + bytes) \<Rightarrow> (bytes \<Rightarrow> bytes \<Rightarrow> bytes) \<Rightarrow> (bytes \<Rightarrow> bytes \<Rightarrow> bytes)
   \<Rightarrow> 'v \<Rightarrow> (go_error + bytes) option" where
  "EncodeRequest marshal hmac_sha1 enc v =
     map_option (\<lambda>c. EncodeJSON marshal enc c v) (NormalCodec hmac_sha1)"

definition DecodeResponse ::
  "(bytes \<Rightarrow> go_error + 'v \<times> bytes) \<Rightarrow> (bytes \<Rightarrow> go_error + 'any \<times> bytes)
   \<Rightarrow> (bytes \<Rightarrow> bytes \<Rightarrow> bytes) \<Rightarrow> (bytes \<Rightarrow> bytes \<Rightarrow> bytes) \<Rightarrow> bytes \<Rightarrow> (go_error + 'v) option" where
  "DecodeResponse decode decode_any hmac_sha1 dcr body =
     map_option (\<lambda>c. DecodeJSON decode decode_any dcr c body) (NormalCodec hmac_sha1)"

lemma length_std_encode: "length (std_encode bs) = EncodedLen (length bs)"
proof -
  have "(n * 8 + 5) div 6 + (3 - n mod 3) mod 3 = (n + 2) div 3 * 4" for n :: nat
  proof -
    have "n = 3 * (n div 3) \<or> n = 3 * (n div 3) + 1 \<or> n = 3 * (n div 3) + 2" by presburger
    then obtain q where "n = 3 * q \<or> n = 3 * q + 1 \<or> n = 3 * q + 2" by blast
    then show ?thesis 
      by (elim disjE; simp only: enc_len pad_len; presburger)
  qed
  then show ?thesis
    by (simp add: std_encode_def b64_raw_encode_def length_b64_groups EncodedLen_def)
qed

lemma std_encode_Nil: "std_encode [] = []"
  by (simp add: std_encode_def b64_raw_encode_def)

lemma length_copy_into [simp]: "length (copy_into n src) = n"
  by (simp add: copy_into_def)

lemma newCodec_lengths:
  "newCodec hmac_sha1 m = Some c \<Longrightarrow> length (codec_key c) = 32 \<and> length (codec_iv c) = blockSize"
  by (auto simp: newCodec_def blockSize_def)

lemma pkcs7_blockSize: "pkcs7Unpad padded blockSize = Inr p \<longleftrightarrow> padded = pkcs7Pad p blockSize"
  by (rule pkcs7Unpad_iff) (simp_all add: blockSize_def)

lemma pad_not_Nil: "pkcs7Pad p blockSize \<noteq> []"
  by (simp add: pkcs7Pad_def Let_def blockSize_def)

lemma pad_dvd: "blockSize dvd length (pkcs7Pad p blockSize)"
  by (rule length_pkcs7Pad_dvd) (simp add: blockSize_def)

lemma length_pad: "length (pkcs7Pad p blockSize) \<le> length p + blockSize"
  by (simp add: pkcs7Pad_def Let_def)

lemma EncodedLen_mono: "m \<le> n \<Longrightarrow> EncodedLen m \<le> EncodedLen n"
  by (simp add: EncodedLen_def div_le_mono)

lemma cbc_unpad_iff:
  assumes "block_cipher enc dcr" and "length iv = blockSize"
    and "ct \<noteq> []" and "length ct mod blockSize = 0"
  shows "pkcs7Unpad (cbc_decrypt (dcr key) iv ct) blockSize = Inr p
    \<longleftrightarrow> ct = cbc_encrypt (enc key) iv (pkcs7Pad p blockSize)"
  using cbc_decrypt_encrypt [OF assms(1,2) pad_dvd, of key p]
    cbc_encrypt_decrypt [OF assms(1,2), of ct key] assms(4)
  by (auto simp: pkcs7_blockSize mod_eq_0_iff_dvd)

lemma Decode_Inr:
  "Codec_Decode dcr c body = Inr plain \<longleftrightarrow>
     body \<noteq> [] \<and> length body \<le> EncodedLen (MaxPlaintextBytes + blockSize) \<and>
     length plain \<le> MaxPlaintextBytes \<and>
     (\<exists>ct. std_decode (string_of_bytes body) = Some ct \<and> ct \<noteq> [] \<and> length ct mod blockSize = 0
       \<and> pkcs7Unpad (cbc_decrypt (dcr (codec_key c)) (codec_iv c) ct) blockSize = Inr plain)"
  by (auto simp: Codec_Decode_def split: option.splits sum.splits if_splits)

lemma encrypted_nonempty:
  assumes "block_cipher enc dcr" and "length iv = blockSize"
  shows "cbc_encrypt (enc key) iv (pkcs7Pad p blockSize) \<noteq> []"
    and "length (cbc_encrypt (enc key) iv (pkcs7Pad p blockSize)) = length (pkcs7Pad p blockSize)"
  using cbc_decrypt_encrypt [OF assms pad_dvd, of key p] pad_not_Nil [of p] by auto

text \<open>
  C26: a control-plane body is decoded exactly when it is a bounded Base64 text of the encryption
  of the padded plaintext: \<open>Decode\<close> returns a plaintext of at most \<open>MaxPlaintextBytes\<close> bytes and
  only for the one ciphertext \<open>Encode\<close> would produce, so no other padding, partial block or
  oversized answer is ever accepted.
\<close>

theorem decode_exact:
  assumes "block_cipher enc dcr" and "length (codec_iv c) = blockSize"
  shows "Codec_Decode dcr c body = Inr plain \<longleftrightarrow>
    length body \<le> EncodedLen (MaxPlaintextBytes + blockSize) \<and> length plain \<le> MaxPlaintextBytes
    \<and> std_decode (string_of_bytes body)
        = Some (cbc_encrypt (enc (codec_key c)) (codec_iv c) (pkcs7Pad plain blockSize))"
proof -
  note ne = encrypted_nonempty [OF assms, of "codec_key c" plain]
  have "length (pkcs7Pad plain blockSize) mod blockSize = 0"
    using pad_dvd by (simp add: mod_eq_0_iff_dvd)
  moreover have "body \<noteq> []"
    if "std_decode (string_of_bytes body)
        = Some (cbc_encrypt (enc (codec_key c)) (codec_iv c) (pkcs7Pad plain blockSize))"
    using that ne std_decode_encode [of "[]"]
    by (cases body) (auto simp: std_encode_def b64_raw_encode_def)
  ultimately show ?thesis
    using ne by (auto simp: Decode_Inr cbc_unpad_iff [OF assms])
qed

text \<open>
  what the codec encodes, it decodes to the same bytes, for every plaintext within the limit,
  and it refuses the others before it encrypts.
\<close>

theorem codec_roundtrip:
  assumes "block_cipher enc dcr" and "length (codec_iv c) = blockSize"
  shows "case Codec_Encode enc c plain of
      Inl e \<Rightarrow> e = ErrResponseTooLarge \<and> length plain > MaxPlaintextBytes
    | Inr body \<Rightarrow> Codec_Decode dcr c body = Inr plain"
proof (cases "length plain > MaxPlaintextBytes")
  case False
  let ?ct = "cbc_encrypt (enc (codec_key c)) (codec_iv c) (pkcs7Pad plain blockSize)"
  note ne = encrypted_nonempty [OF assms, of "codec_key c" plain]
  have "length ?ct \<le> MaxPlaintextBytes + blockSize"
    using False length_pad [of plain] ne by linarith
  then have "EncodedLen (length ?ct) \<le> EncodedLen (MaxPlaintextBytes + blockSize)"
    by (rule EncodedLen_mono)
  then have len: "length (std_encode ?ct) \<le> EncodedLen (MaxPlaintextBytes + blockSize)"
    by (simp only: length_std_encode)
  have md: "length ?ct mod blockSize = 0" by (simp only: ne pad_dvd mod_eq_0_iff_dvd)
  have "std_encode ?ct \<noteq> []"
    using ne(1) std_decode_encode [of ?ct] std_decode_encode [of "[]"] by (metis option.inject std_encode_Nil)
  moreover have "pkcs7Unpad (cbc_decrypt (dcr (codec_key c)) (codec_iv c) ?ct) blockSize = Inr plain"
    by (simp only: cbc_unpad_iff [OF assms ne(1) md])
  ultimately have "Codec_Decode dcr c (bytes_of_string (std_encode ?ct)) = Inr plain"
    using len md ne(1) False by (simp add: Decode_Inr)
  then show ?thesis using False by (simp only: Codec_Encode_def Let_def if_False sum.case)
qed (simp add: Codec_Encode_def)

section \<open>Concrete runs\<close>

definition toy_mac :: "bytes \<Rightarrow> bytes \<Rightarrow> bytes" where
  "toy_mac key m = take 20 (key @ m @ replicate 20 7)"

definition toy_block :: "bytes \<Rightarrow> bytes \<Rightarrow> bytes" where
  "toy_block key b = rev b"

definition toy_codec :: Codec where
  "toy_codec = \<lparr>codec_key = replicate 32 1, codec_iv = bytes_of_string (mat_iv normalMaterial)\<rparr>"

lemma toy_block_cipher: "block_cipher toy_block toy_block"
  by (simp add: block_cipher_def toy_block_def)

lemma toy_codec_iv: "length (codec_iv toy_codec) = blockSize"
  by (simp add: toy_codec_def normalMaterial_def blockSize_def)

lemma toy_mac_length: "length (toy_mac key m) = 20"
  by (auto simp: toy_mac_def min_def)

lemma pbkdf2_standard_witness:
  "pbkdf2SHA1 toy_mac [1] [2] 100 32 = Some (rfc_pbkdf2 (toy_mac [1]) [2] 100 32)"
  using pbkdf2_standard [of toy_mac "[1]" 100 32 "[2]"] by (simp add: toy_mac_length)

lemma decode_exact_witness:
  "Codec_Decode toy_block toy_codec (bytes_of_string (std_encode (cbc_encrypt (toy_block (codec_key toy_codec))
     (codec_iv toy_codec) (pkcs7Pad [] blockSize)))) = Inr []"
proof -
  let ?ct = "cbc_encrypt (toy_block (codec_key toy_codec)) (codec_iv toy_codec) (pkcs7Pad [] blockSize)"
  have "length ?ct = 16"
    using encrypted_nonempty(2) [OF toy_block_cipher toy_codec_iv, of "codec_key toy_codec" "[]"]
    by (simp add: pkcs7Pad_def blockSize_def)
  then have "length (std_encode ?ct) \<le> EncodedLen (MaxPlaintextBytes + blockSize)"
    by (simp add: length_std_encode EncodedLen_def MaxPlaintextBytes_def blockSize_def)
  then show ?thesis
    using decode_exact [OF toy_block_cipher toy_codec_iv,
        of "bytes_of_string (std_encode ?ct)" "[]"] by simp
qed

lemma codec_roundtrip_witness:
  "case Codec_Encode toy_block toy_codec (bytes_of_string ''{}'') of
      Inl e \<Rightarrow> False | Inr body \<Rightarrow> Codec_Decode toy_block toy_codec body = Inr (bytes_of_string ''{}'')"
  using codec_roundtrip [OF toy_block_cipher toy_codec_iv, of "bytes_of_string ''{}''"]
  by (simp add: MaxPlaintextBytes_def split: sum.splits)

end
