(* ===== verification/Lifecycle_Supervisor.thy ===== *)
theory Lifecycle_Supervisor
  imports GoLib
begin

text \<open>
  \<open>internal/lifecycle/supervisor.go\<close>: the supervisor of the critical workers, the liveness
  watchdog and the container check. The goroutines of \<open>Run\<close> only feed its three \<open>select\<close>s, so
  the model takes what the selects chose and what \<open>parent.Err()\<close> gave when it was read; the ticks
  and probe results of the watchdog are a list of events.
\<close>

section \<open>Construction\<close>

record Worker =
  wk_Name :: string
  wk_Run :: bool
  wk_Shutdown :: bool

record Supervisor =
  su_workers :: "Worker list"
  su_drainTimeout :: duration

fun check_workers :: "string list \<Rightarrow> Worker list \<Rightarrow> go_error option" where
  "check_workers seen [] = None"
| "check_workers seen (w # ws) =
     (if wk_Name w = [] \<or> \<not> wk_Run w
      then Some (New ''every critical worker needs a name and Run function'')
      else if wk_Name w \<in> set seen then Some (New ''duplicate worker'')
      else check_workers (wk_Name w # seen) ws)"

definition NewSupervisor :: "Worker list \<Rightarrow> duration \<Rightarrow> go_error + Supervisor" where
  "NewSupervisor workers drainTimeout =
     (if workers = [] then Inl (New ''at least one critical worker is required'')
      else if drainTimeout \<le> 0 then Inl (New ''drain timeout must be positive'')
      else case check_workers [] workers of
        Some e \<Rightarrow> Inl e
      | None \<Rightarrow> Inr \<lparr>su_workers = workers, su_drainTimeout = drainTimeout\<rparr>)"

lemma check_workers_None:
  "check_workers seen ws = None \<longleftrightarrow>
     (\<forall>w\<in>set ws. wk_Name w \<noteq> [] \<and> wk_Run w) \<and> distinct (map wk_Name ws)
     \<and> set seen \<inter> wk_Name ` set ws = {}"
  by (induction seen ws rule: check_workers.induct) auto

section \<open>Running\<close>

text \<open>
  What ends the first \<open>select\<close>: the parent context, or the result of a worker. \<open>ob_parent\<close> is
  \<open>parent.Err()\<close> at that point and \<open>ob_parent_end\<close> at the last test; \<open>ob_drained\<close> says whether
  all \<open>Shutdown\<close> functions returned before the drain timeout.
\<close>

datatype first_event = ParentDone | WorkerReturned string "go_error option"

record Observations =
  ob_first :: first_event
  ob_parent :: "go_error option"
  ob_drained :: bool
  ob_parent_end :: "go_error option"

definition context_error :: "go_error option \<Rightarrow> bool" where
  "context_error e \<longleftrightarrow> e \<in> {None, Some ContextCanceled, Some ContextDeadlineExceeded}"

text \<open>A context that has ended keeps its error, and its \<open>Done\<close> channel closes only when it has one.\<close>

definition observations_ok :: "Observations \<Rightarrow> bool" where
  "observations_ok ob \<longleftrightarrow>
     context_error (ob_parent ob) \<and> context_error (ob_parent_end ob)
     \<and> (ob_parent ob \<noteq> None \<longrightarrow> ob_parent_end ob = ob_parent ob)
     \<and> (ob_first ob = ParentDone \<longrightarrow> ob_parent ob \<noteq> None)"

definition run_cause :: "Observations \<Rightarrow> go_error option" where
  "run_cause ob =
     (case ob_first ob of
        ParentDone \<Rightarrow> ob_parent ob
      | WorkerReturned name err \<Rightarrow>
          (case err of
             None \<Rightarrow> Some (New ''critical worker %s stopped unexpectedly'')
           | Some e \<Rightarrow>
               if ob_parent ob = None then Some (Wrap ''critical worker %s failed'' e)
               else ob_parent ob))"

definition drain_cause :: "bool \<Rightarrow> go_error option \<Rightarrow> go_error option" where
  "drain_cause drained cause =
     (if drained then cause
      else if (case cause of None \<Rightarrow> True | Some e \<Rightarrow> errors_is e ContextCanceled)
      then Some (New ''shutdown exceeded %s'')
      else cause)"

text \<open>The workers whose \<open>Shutdown\<close> is called, in the order of the calls.\<close>

definition shutdown_calls :: "Supervisor \<Rightarrow> string list" where
  "shutdown_calls s = map wk_Name (filter wk_Shutdown (rev (su_workers s)))"

definition Supervisor_Run :: "Supervisor \<Rightarrow> Observations \<Rightarrow> string list \<times> go_error option" where
  "Supervisor_Run s ob =
     (let cause = drain_cause (ob_drained ob) (run_cause ob) in
      (shutdown_calls s,
       if ob_parent_end ob \<noteq> None
          \<and> (case cause of
               None \<Rightarrow> False
             | Some e \<Rightarrow> errors_is e ContextCanceled \<or> errors_is e ContextDeadlineExceeded)
       then None else cause))"

text \<open>
  What counts as a stop the parent asked for: its context ended first, or a worker came back with an
  error after that, or with a context error of its own. \<open>cancelled\<close> tells the two context errors apart.
\<close>

definition asked_to_stop :: "Observations \<Rightarrow> bool" where
  "asked_to_stop ob \<longleftrightarrow> ob_parent_end ob \<noteq> None \<and>
     (case ob_first ob of
        ParentDone \<Rightarrow> True
      | WorkerReturned name None \<Rightarrow> False
      | WorkerReturned name (Some e) \<Rightarrow>
          ob_parent ob \<noteq> None \<or> errors_is e ContextCanceled \<or> errors_is e ContextDeadlineExceeded)"

definition cancelled :: "Observations \<Rightarrow> bool" where
  "cancelled ob \<longleftrightarrow>
     (case (ob_parent ob, ob_first ob) of
        (Some cause, _) \<Rightarrow> cause = ContextCanceled
      | (None, WorkerReturned name (Some e)) \<Rightarrow> errors_is e ContextCanceled
      | _ \<Rightarrow> False)"


section \<open>The watchdog\<close>

text \<open>
  What the loop of the watchdog sees: a tick with the result of its probe, or the end of its
  context. \<open>None\<close> as the result is a watchdog that still runs.
\<close>

datatype watch_event = WDone go_error | WTick "go_error option"

fun watchdog_loop :: "int \<Rightarrow> int \<Rightarrow> watch_event list \<Rightarrow> go_error option" where
  "watchdog_loop threshold failures [] = None"
| "watchdog_loop threshold failures (WDone err # evs) = Some err"
| "watchdog_loop threshold failures (WTick None # evs) = watchdog_loop threshold 0 evs"
| "watchdog_loop threshold failures (WTick (Some err) # evs) =
     (if failures + 1 \<ge> threshold
      then Some (Wrap ''liveness probe failed %d consecutive times'' err)
      else watchdog_loop threshold (failures + 1) evs)"

definition Watchdog :: "duration \<Rightarrow> int \<Rightarrow> bool \<Rightarrow> watch_event list \<Rightarrow> go_error option" where
  "Watchdog interval threshold has_probe evs =
     (if interval \<le> 0 \<or> threshold \<le> 0 \<or> \<not> has_probe then Some (New ''invalid watchdog configuration'')
      else watchdog_loop threshold 0 evs)"

text \<open>The reference: some \<open>k\<close> probes in a row failed.\<close>

definition failed_run :: "nat \<Rightarrow> 'a option list \<Rightarrow> bool" where
  "failed_run k ps \<longleftrightarrow> (\<exists>i. i + k \<le> length ps \<and> (\<forall>j<k. ps ! (i + j) \<noteq> None))"

definition failed_prefix :: "nat \<Rightarrow> 'a option list \<Rightarrow> bool" where
  "failed_prefix k ps \<longleftrightarrow> k \<le> length ps \<and> (\<forall>j<k. ps ! j \<noteq> None)"

lemma failed_run_Cons: "failed_run k (p # ps) \<longleftrightarrow> failed_prefix k (p # ps) \<or> failed_run k ps"
proof
  assume "failed_run k (p # ps)"
  then obtain i where i: "i + k \<le> length (p # ps)" "\<forall>j<k. (p # ps) ! (i + j) \<noteq> None"
    by (auto simp: failed_run_def)
  show "failed_prefix k (p # ps) \<or> failed_run k ps"
  proof (cases i)
    case 0
    then show ?thesis using i by (simp add: failed_prefix_def)
  next
    case (Suc n)
    then have "n + k \<le> length ps" "\<forall>j<k. ps ! (n + j) \<noteq> None" using i by simp_all
    then show ?thesis unfolding failed_run_def by blast
  qed
next
  assume "failed_prefix k (p # ps) \<or> failed_run k ps"
  then show "failed_run k (p # ps)"
  proof
    assume "failed_prefix k (p # ps)"
    then show ?thesis unfolding failed_run_def failed_prefix_def by (intro exI [of _ 0]) simp
  next
    assume "failed_run k ps"
    then obtain i where "i + k \<le> length ps" "\<forall>j<k. ps ! (i + j) \<noteq> None" by (auto simp: failed_run_def)
    then show ?thesis unfolding failed_run_def by (intro exI [of _ "Suc i"]) simp
  qed
qed

lemma failed_run_Nil: "failed_run k [] \<longleftrightarrow> k = 0"
  by (auto simp: failed_run_def)

lemma failed_prefix_Cons:
  "0 < k \<Longrightarrow> failed_prefix k (p # ps) \<longleftrightarrow> p \<noteq> None \<and> failed_prefix (k - 1) ps"
  by (cases k) (auto simp: failed_prefix_def nth_Cons' All_less_Suc2)

lemma watchdog_loop_runs:
  assumes "0 \<le> f" and "f < k"
  shows "watchdog_loop k f (map WTick ps) \<noteq> None
    \<longleftrightarrow> failed_prefix (nat (k - f)) ps \<or> failed_run (nat k) ps"
  using assms
proof (induction ps arbitrary: f)
  case Nil
  then show ?case by (auto simp: failed_prefix_def failed_run_def)
next
  case (Cons p ps)
  have pos: "0 < nat (k - f)" "0 < nat k" using Cons.prems by simp_all
  show ?case
  proof (cases p)
    case None
    have "failed_prefix (nat k) ps \<Longrightarrow> failed_run (nat k) ps"
      unfolding failed_run_def failed_prefix_def by (intro exI [of _ 0]) simp
    then show ?thesis
      using Cons.IH [of 0] Cons.prems pos None by (auto simp: failed_run_Cons failed_prefix_Cons)
  next
    case (Some err)
    show ?thesis
    proof (cases "f + 1 \<ge> k")
      case True
      then have "nat (k - f) = 1" using Cons.prems by simp
      then have "failed_prefix (nat (k - f)) (p # ps)" using Some by (simp add: failed_prefix_def)
      then show ?thesis using Some True by simp
    next
      case False
      have n: "nat (k - f) - 1 = nat (k - (f + 1))" using Cons.prems by simp
      have weaker: "failed_prefix (nat k) (p # ps) \<Longrightarrow> failed_prefix (nat (k - f)) (p # ps)"
        using Cons.prems by (auto simp: failed_prefix_def)
      show ?thesis
        using Cons.IH [of "f + 1"] Cons.prems False pos Some weaker n
        by (auto simp: failed_run_Cons failed_prefix_Cons)
    qed
  qed
qed

text \<open>
  C30: the watchdog ends exactly when it must. With a valid configuration and while its context
  lives, it ends on a sequence of probe results if and only if \<open>threshold\<close> of them in a row
  failed: it never gives up on fewer consecutive failures, however many fail in total, and it
  never outlives the threshold; an invalid configuration ends it at once.
\<close>

theorem watchdog_exact:
  "Watchdog interval threshold has_probe (map WTick probes) \<noteq> None
   \<longleftrightarrow> interval \<le> 0 \<or> threshold \<le> 0 \<or> \<not> has_probe \<or> failed_run (nat threshold) probes"
proof (cases "interval \<le> 0 \<or> threshold \<le> 0 \<or> \<not> has_probe")
  case False
  have "failed_prefix (nat threshold) probes \<Longrightarrow> failed_run (nat threshold) probes"
    unfolding failed_run_def failed_prefix_def by (intro exI [of _ 0]) simp
  then show ?thesis
    using False watchdog_loop_runs [of 0 threshold probes] by (auto simp: Watchdog_def)
qed (auto simp: Watchdog_def)

section \<open>The container check\<close>

text \<open>The platform, and whether \<open>os.Stat\<close> finds the two markers.\<close>

definition RequireContainer :: "string \<Rightarrow> bool \<Rightarrow> bool \<Rightarrow> go_error option" where
  "RequireContainer goos dockerenv containerenv =
     (if goos \<noteq> ''linux'' then Some (New ''production requires a Linux container, got %s'')
      else if dockerenv then None
      else if containerenv then None
      else Some (New ''bare-process execution rejected: container marker absent''))"

section \<open>A concrete run\<close>

definition demo_workers :: "Worker list" where
  "demo_workers = [\<lparr>wk_Name = ''http'', wk_Run = True, wk_Shutdown = True\<rparr>,
     \<lparr>wk_Name = ''watchdog'', wk_Run = True, wk_Shutdown = False\<rparr>]"

definition demo_observations :: Observations where
  "demo_observations = \<lparr>ob_first = WorkerReturned ''watchdog'' None, ob_parent = None, ob_drained = True,
     ob_parent_end = Some ContextCanceled\<rparr>"


lemma watchdog_exact_witness:
  "Watchdog second 2 True (map WTick [Some EOF, None, Some EOF]) = None
   \<and> Watchdog second 2 True (map WTick [None, Some EOF, Some EOF]) \<noteq> None"
proof -
  have "\<not> failed_run 2 [Some EOF, None, Some EOF]" "failed_run 2 [None, Some EOF, Some EOF]"
    by (simp_all add: failed_run_Cons failed_run_Nil failed_prefix_def numeral_2_eq_2 All_less_Suc)
  then show ?thesis
    using watchdog_exact [of second 2 True "[Some EOF, None, Some EOF]"]
      watchdog_exact [of second 2 True "[None, Some EOF, Some EOF]"] by auto
qed

end
