(* ===== verification/Spec2Isabelle.thy ===== *)
theory Spec2Isabelle
  imports Socks_Relay App_Facade App_Events Config Kuaifan_Codec Lifecycle_Supervisor
begin

text \<open>
  A model of kfadapter (Go). The program logs in to a provider, keeps the provider's proxy nodes, and
  offers each of them to local clients as one SOCKS5 credential; a connection that authenticates with
  the credential is relayed to its node inside the provider's WIFIIN tunnel. A subscription service
  renders the credentials as a list of links. All state survives a restart in one SQLite file.

  How the parts interact. \<open>app.Runtime\<close> owns the others: a login or refresh gives a candidate snapshot,
  which \<open>CommitControlSnapshotLocked\<close> installs in the subscription generation of the manager, in the
  selector coordinator (and through it in the SOCKS server), in the store and its rendered
  subscription, and at last as the published snapshot of the manager, undoing the earlier steps when a
  later one fails. \<open>socks.Server\<close> asks the registry for the node of a credential and the manager for a
  pin of it, three times per flow. \<open>subscription.Service\<close> serves what the store holds. \<open>main\<close> runs
  the workers under \<open>lifecycle.Supervisor\<close>.

  Theories and the code they model (paths under src/internal):

    Prelude, GoLib, GoEncoding, GoNet, GoURL: what the program uses of Go and its library: finite maps
      in iteration order, error values and \<open>errors.Is\<close>, times, numbers, UTF-8, Base64, byte streams,
      \<open>net/netip\<close>, \<open>net/url\<close>.
    Wifiin_Cipher (kuaifan/wifiin/cipher.go), Wifiin_TCP (tcp.go), Wifiin_UDP (udp.go),
      Wifiin_Lazy (lazy.go and the tunnel connection of socks/server.go): cipher streams, handshake,
      datagram frames, the inbound stream that is initialised by its first read.
    Kuaifan_Codec (kuaifan/codec.go): the bodies exchanged with the provider.
    Selector (selector/credentials.go): credentials of nodes, the registry and its build with tombstones.
    State_Types, State_Persist, State_Validate (state/types.go): snapshots, sessions, the durable
      aggregate and every validator.
    State_Manager (state/manager.go): the operations of the manager. State_Service: its runs as a step
      relation.
    State_Rows, State_Store (state/store.go): the aggregate as rows, and the transactions on the file.
      State_Represents says which rows stand for which aggregate, without the loader.
      State_Contract: what clients of the store rely on.
    State_Interfaces: the interfaces between these, as locales.
    Socks_Protocol (socks/protocol.go), Socks_Server (socks/server.go, one connection),
      Socks_Lifecycle (socks/server.go, accept loop and shutdown), Socks_Relay (socks/udp.go,
      kuaifan/wifiin/relay.go).
    Subscription_Render (subscription/subscription.go), Subscription_Service and Subscription_Serving
      (subscription/service.go): links, the service on the store, HTTP requests.
    App_Coordinator (app/selector_coordinator.go), App_Events (app/events.go),
      App_Runtime, App_Commit, App_Facade (app/runtime.go).
    Config (config/config.go, endpoint/hostname.go), Lifecycle_Supervisor (lifecycle/supervisor.go).

  How the state corresponds. A Go struct is a record with its fields, an enumeration a datatype, an
  integer a word of its width, \<open>[]byte\<close> and \<open>string\<close> are lists of 8-bit units, a map is an association
  list in the order an iteration meets it, an instant is its distance from the zero time in
  nanoseconds. An error is a value of \<open>go_error\<close> with what it wraps; a fallible function returns a sum.
  A method gets its receiver and returns it updated. Code that runs under a mutex is one atomic
  function; where a method gives the mutex up, the model takes what the other goroutines do in
  between as an argument (\<open>others\<close> of \<open>serveSubscription\<close>, \<open>Heartbeat\<close>, \<open>Runtime_Probe\<close>) or its pieces
  are steps of an inductive relation (\<open>State_Service\<close>, \<open>Socks_Lifecycle\<close>, \<open>Wifiin_Lazy\<close>,
  \<open>App_Coordinator\<close>, \<open>App_Events\<close>).

  What the groups of lemmas show.
    Data: invariants of snapshots, registries and aggregates are preserved by every operation; encoders
      and decoders are inverse (tunnel packets, UDP frames, cipher streams, bodies, links, rows).
    Manager and frontend: every reachable state is well formed; a pin stands for the session it was made
      for; no flow is admitted after a sign-out or expiry; every transcript of a client is legal.
    Store: an update is atomic, a load succeeds exactly on rows that stand for a valid aggregate, a
      migration loses nothing, browser sessions survive as saved.
    Subscription: a commit is exact, what is served is the body of the bound account whatever runs in
      between, the record of a fetch is exact, a start is sound, the link handed out is served.
    Facade: the commit of a control snapshot moves manager, registries and store together or not at all.

  Interfaces. \<open>selector_builder\<close> is what the manager's snapshots need of a registry (interpreted as
  \<open>registry\<close> and \<open>coordinator\<close>), \<open>tunnel_authority\<close> what the frontend needs of the manager
  (\<open>manager\<close>), \<open>durable_store\<close> what the subscription service and the facade need of the store (\<open>store\<close>).

  Bounds. No definition runs on fuel: loops are recursions on the data they consume or on a measure.
  The two that end for another reason, \<open>pbkdf2_loop\<close> and \<open>derive_loop\<close>, are partial functions into an
  option, and that they return is proved beside them. What the network, a driver or a response writer does is a finite script
  that is an argument, so a read that would block for ever is a script that ends.

  Parameters. HMAC-SHA256, SHA-256, MD5, AES on one block, Argon2id, the IDNA profile,
  \<open>time.ParseDuration\<close>, the JSON and YAML codecs, the random source (its stream of bytes), clocks
  and the answers of the provider's client. Where a theorem needs one of their properties, it is a
  named assumption (such as the length of a digest) and the witness gives a function that has it.

  Not modelled, and why: the web interface (web/*.go: HTTP handlers over net/http; the operations they
  call are modelled), the provider's client (kuaifan/client.go, refresh.go, *_client.go, profile/*.go:
  requests over net/http; its results are an argument of the facade), cmd/kfadapter/main.go (wiring and
  signals), kuaifan/wifiin/hmac.go (one library call), the copying goroutines of the TCP relay, checks
  of paths and file modes and the syncing of files (one input of each store operation), and the
  creation of the default configuration file. Logging is left out everywhere.
\<close>

end
